(* ===== verification/Zeam_Prelude.thy ===== *)
theory Zeam_Prelude
  imports Main "HOL-Library.Word"
begin

text \<open>
  Shared vocabulary of the development: Go's integers, byte slices, arrays and
  errors as HOL types, big-endian and hexadecimal encodings, and the list and map
  facts the components share.

  \<^item> \<open>byte\<close> is an 8 bit word, a byte slice or array is a \<open>byte list\<close>, and a slice
    that may be \<open>nil\<close> is a \<open>byte list option\<close>.
  \<^item> \<open>int\<close> and \<open>int64\<close> are \<open>int\<close> with the two's complement wrap-around of every
    addition, subtraction and product written out as \<open>wrap64\<close>; \<open>uint64\<close> is a
    64 bit word.
  \<^item> A Go string is a \<open>string\<close>: both are sequences of 8 bit values.
  \<^item> A method that changes its receiver and returns an \<open>error\<close> is a function to the
    new receiver and a \<open>go_error option\<close> (\<open>None\<close> for a nil error): Go keeps the
    changes a method made before it returned an error. A run-time panic is the error
    value \<open>Panic\<close>.
\<close>

named_theorems go_simps \<open>unfolding rules of the shared vocabulary\<close>

section \<open>Types\<close>

type_synonym byte = "8 word"
type_synonym bytes = "byte list"
type_synonym slice = "bytes option"
type_synonym address = bytes
type_synonym hash32 = bytes
type_synonym uint64 = "64 word"
type_synonym int64 = int

datatype go_error = Errorf string | Wrapped string go_error | Panic string

type_synonym 'a outcome = "'a \<times> go_error option"

abbreviation failed :: "'a outcome \<Rightarrow> bool" where
  "failed r \<equiv> snd r \<noteq> None"

abbreviation succeeded :: "'a outcome \<Rightarrow> bool" where
  "succeeded r \<equiv> snd r = None"

section \<open>Machine integers\<close>

definition wrap64 :: "int \<Rightarrow> int" where
  "wrap64 x = (x + 2 ^ 63) mod 2 ^ 64 - 2 ^ 63"

definition in_int64 :: "int \<Rightarrow> bool" where
  "in_int64 x \<longleftrightarrow> - (2 ^ 63) \<le> x \<and> x < 2 ^ 63"

lemma wrap64_id [simp]: "in_int64 x \<Longrightarrow> wrap64 x = x"
  by (simp add: wrap64_def in_int64_def)

lemma wrap64_in [simp]: "in_int64 (wrap64 x)"
proof -
  have "0 \<le> (x + 2 ^ 63) mod 2 ^ 64" and "(x + 2 ^ 63) mod 2 ^ 64 < 2 ^ 64"
    by (rule pos_mod_sign pos_mod_bound, simp)+
  then show ?thesis
    by (simp add: wrap64_def in_int64_def)
qed

lemma wrap64_idem: "wrap64 (wrap64 x) = wrap64 x"
  by (rule wrap64_id) (rule wrap64_in)

section \<open>Bytes\<close>

definition zero32 :: hash32 where
  "zero32 = replicate 32 0"

definition zero_address :: address where
  "zero_address = replicate 20 0"

definition bytes_of_string :: "string \<Rightarrow> bytes" where
  "bytes_of_string s = map (\<lambda>c. of_nat (of_char c)) s"

text \<open>The bytes of a slice: a nil slice has none.\<close>

definition slice_bytes :: "slice \<Rightarrow> bytes" where
  "slice_bytes s = (case s of None \<Rightarrow> [] | Some bs \<Rightarrow> bs)"

lemma slice_bytes_simps [simp]: "slice_bytes None = []" "slice_bytes (Some bs) = bs"
  by (simp_all add: slice_bytes_def)

lemma length_zero32 [simp]: "length zero32 = 32"
  by (simp add: zero32_def)

lemma length_bytes_of_string [simp]: "length (bytes_of_string s) = length s"
  by (simp add: bytes_of_string_def)

lemma of_nat_of_char_inject: "((of_nat (of_char c) :: byte) = of_nat (of_char d)) \<longleftrightarrow> c = d"
proof
  assume eq: "(of_nat (of_char c) :: byte) = of_nat (of_char d)"
  have lt: "(of_char e :: nat) < 256" for e
    by simp
  from eq have "unat (of_nat (of_char c) :: byte) = unat (of_nat (of_char d) :: byte)"
    by simp
  then have "(of_char c :: nat) = of_char d"
    using lt by (simp add: unat_of_nat)
  then show "c = d"
    by simp
qed simp

lemma bytes_of_string_inject [simp]: "bytes_of_string s = bytes_of_string t \<longleftrightarrow> s = t"
  unfolding bytes_of_string_def
  by (rule inj_map_eq_map) (simp add: inj_def of_nat_of_char_inject)

lemma bytes_of_string_append: "bytes_of_string (s @ t) = bytes_of_string s @ bytes_of_string t"
  by (simp add: bytes_of_string_def)

lemma byte_lt: "unat (b :: byte) < 256"
  using unsigned_less [of b] by simp

text \<open>\<open>copy(dst[:], src)\<close> into an array of \<open>n\<close> bytes that was zero before.\<close>

definition copy_into :: "nat \<Rightarrow> bytes \<Rightarrow> bytes" where
  "copy_into n src = take n src @ replicate (n - length src) 0"

lemma length_copy_into [simp]: "length (copy_into n src) = n"
  by (simp add: copy_into_def)

lemma copy_into_same [simp]: "length src = n \<Longrightarrow> copy_into n src = src"
  by (simp add: copy_into_def)

text \<open>Big-endian encodings of \<open>encoding/binary\<close> and \<open>math/big\<close>.\<close>

fun be_bytes :: "nat \<Rightarrow> nat \<Rightarrow> bytes" where
  "be_bytes 0 n = []"
| "be_bytes (Suc k) n = be_bytes k (n div 256) @ [of_nat (n mod 256)]"

definition be_nat :: "bytes \<Rightarrow> nat" where
  "be_nat bs = foldl (\<lambda>a b. a * 256 + unat b) 0 bs"

lemma length_be_bytes [simp]: "length (be_bytes k n) = k"
  by (induction k n rule: be_bytes.induct) auto

lemma be_nat_append1 [simp]: "be_nat (bs @ [b]) = be_nat bs * 256 + unat b"
  by (simp add: be_nat_def)

lemma be_nat_Nil [simp]: "be_nat [] = 0"
  by (simp add: be_nat_def)

lemma be_nat_be_bytes: "be_nat (be_bytes k n) = n mod 256 ^ k"
proof (induction k n rule: be_bytes.induct)
  case (2 k n)
  have "unat (of_nat (n mod 256) :: byte) = n mod 256"
    by (simp add: unat_of_nat)
  with 2 have "be_nat (be_bytes (Suc k) n) = (n div 256 mod 256 ^ k) * 256 + n mod 256"
    by simp
  also have "\<dots> = n mod (256 * 256 ^ k)"
    by (simp add: mod_mult2_eq)
  finally show ?case
    by simp
qed simp

lemma be_nat_bound: "be_nat bs < 256 ^ length bs"
proof (induction bs rule: rev_induct)
  case (snoc b bs)
  have "be_nat bs * 256 + unat b < (be_nat bs + 1) * 256"
    using byte_lt [of b] by (simp add: distrib_right)
  also have "\<dots> \<le> 256 ^ length bs * 256"
    using snoc by (intro mult_right_mono) simp_all
  finally show ?case
    by simp
qed simp

lemma be_bytes_be_nat: "be_bytes (length bs) (be_nat bs) = bs"
proof (induction bs rule: rev_induct)
  case (snoc b bs)
  have lt: "unat b < 256"
    by (rule byte_lt)
  then have "(be_nat bs * 256 + unat b) div 256 = be_nat bs"
    by simp
  with snoc lt show ?case
    by simp
qed simp

text \<open>
  \<open>(*big.Int).Bytes\<close>: the magnitude without leading zero bytes, and go-ethereum's
  \<open>common.LeftPadBytes\<close>, which leaves longer slices alone.
\<close>

function big_bytes :: "nat \<Rightarrow> bytes" where
  "big_bytes n = (if n = 0 then [] else big_bytes (n div 256) @ [of_nat (n mod 256)])"
  by pat_completeness auto
termination
  by (relation "measure id") auto

declare big_bytes.simps [simp del]

lemma big_bytes_0 [simp]: "big_bytes 0 = []"
  by (simp add: big_bytes.simps)

lemma be_nat_big_bytes [simp]: "be_nat (big_bytes n) = n"
proof (induction n rule: big_bytes.induct)
  case (1 n)
  have "unat (of_nat (n mod 256) :: byte) = n mod 256"
    by (simp add: unat_of_nat)
  with 1 show ?case
    by (cases "n = 0") (simp_all add: big_bytes.simps [of n])
qed

lemma length_big_bytes: "n < 256 ^ k \<Longrightarrow> length (big_bytes n) \<le> k"
proof (induction k arbitrary: n)
  case (Suc k)
  show ?case
  proof (cases "n = 0")
    case False
    from Suc.prems have "n div 256 < 256 ^ k"
      by (simp add: less_mult_imp_div_less mult.commute)
    then have "length (big_bytes (n div 256)) \<le> k"
      by (rule Suc.IH)
    with False show ?thesis
      by (simp add: big_bytes.simps [of n])
  qed simp
qed simp

definition left_pad :: "nat \<Rightarrow> bytes \<Rightarrow> bytes" where
  "left_pad n bs = replicate (n - length bs) 0 @ bs"

lemma length_left_pad [simp]: "length (left_pad n bs) = max n (length bs)"
  by (simp add: left_pad_def max_def)

lemma be_nat_replicate0: "be_nat (replicate k 0 @ bs) = be_nat bs"
  by (induction k) (simp_all add: be_nat_def)

lemma be_nat_left_pad [simp]: "be_nat (left_pad n bs) = be_nat bs"
  by (simp add: left_pad_def be_nat_replicate0)

lemma left_pad_be_bytes:
  assumes "n < 256 ^ k"
  shows "left_pad k (big_bytes n) = be_bytes k n"
proof -
  have len: "length (left_pad k (big_bytes n)) = k"
    using length_big_bytes [OF assms] by simp
  have "be_bytes k (be_nat (left_pad k (big_bytes n))) = left_pad k (big_bytes n)"
    using be_bytes_be_nat [of "left_pad k (big_bytes n)"] unfolding len .
  then show ?thesis
    by simp
qed

section \<open>Hexadecimal text\<close>

definition hex_digit :: "nat \<Rightarrow> char" where
  "hex_digit n = (if n < 10 then char_of (48 + n) else char_of (87 + n))"

definition hex_encode :: "bytes \<Rightarrow> string" where
  "hex_encode bs = concat (map (\<lambda>b. [hex_digit (unat b div 16), hex_digit (unat b mod 16)]) bs)"

text \<open>\<open>fromHexChar\<close> of \<open>encoding/hex\<close>: both cases of the letters are accepted.\<close>

definition hex_value :: "char \<Rightarrow> nat option" where
  "hex_value c = (let n = of_char c in
     if 48 \<le> n \<and> n \<le> 57 then Some (n - 48)
     else if 97 \<le> n \<and> n \<le> 102 then Some (n - 87)
     else if 65 \<le> n \<and> n \<le> 70 then Some (n - 55)
     else None)"

fun hex_decode :: "string \<Rightarrow> bytes option" where
  "hex_decode [] = Some []"
| "hex_decode [c] = None"
| "hex_decode (c # d # cs) =
     (case (hex_value c, hex_value d) of
        (Some h, Some l) \<Rightarrow> map_option (\<lambda>bs. of_nat (16 * h + l) # bs) (hex_decode cs)
      | _ \<Rightarrow> None)"

lemma of_char_hex_digit:
  "n < 16 \<Longrightarrow> of_char (hex_digit n) = (if n < 10 then 48 + n else 87 + n)"
  by (simp add: hex_digit_def)

lemma hex_value_hex_digit [simp]: "n < 16 \<Longrightarrow> hex_value (hex_digit n) = Some n"
  by (auto simp: hex_value_def of_char_hex_digit Let_def)

lemma length_hex_encode [simp]: "length (hex_encode bs) = 2 * length bs"
  by (induction bs) (simp_all add: hex_encode_def)

lemma hex_decode_encode [simp]: "hex_decode (hex_encode bs) = Some bs"
proof (induction bs)
  case (Cons b bs)
  have lt: "unat b < 256"
    by (rule byte_lt)
  then have "unat b div 16 < 16" and "unat b mod 16 < 16"
    by (simp_all add: less_mult_imp_div_less)
  moreover have "of_nat (16 * (unat b div 16) + unat b mod 16) = b"
    by simp
  ultimately show ?case
    using Cons by (simp add: hex_encode_def)
qed (simp add: hex_encode_def)

section \<open>Maps and index lists\<close>

text \<open>
  \<open>m[k] = append(m[k], v)\<close> on a map of slices: a missing key reads as the nil
  slice.
\<close>

definition slot :: "('k \<Rightarrow> 'v list option) \<Rightarrow> 'k \<Rightarrow> 'v list" where
  "slot m k = (case m k of None \<Rightarrow> [] | Some vs \<Rightarrow> vs)"

definition push :: "'k \<Rightarrow> 'v \<Rightarrow> ('k \<Rightarrow> 'v list option) \<Rightarrow> ('k \<Rightarrow> 'v list option)" where
  "push k v m = m(k \<mapsto> slot m k @ [v])"

lemma slot_empty [simp]: "slot Map.empty k = []"
  by (simp add: slot_def)

lemma slot_push [simp]: "slot (push k v m) j = (if j = k then slot m k @ [v] else slot m j)"
  by (simp add: slot_def push_def)

text \<open>
  \<open>for i, x := range xs { if p(x) { return append(xs[:i], xs[i+1:]...) } }\<close>: the first
  element that satisfies the test is removed.
\<close>

fun remove_first :: "('a \<Rightarrow> bool) \<Rightarrow> 'a list \<Rightarrow> 'a list" where
  "remove_first p [] = []"
| "remove_first p (x # xs) = (if p x then xs else x # remove_first p xs)"

lemma remove_first_none: "\<not> list_ex p xs \<Longrightarrow> remove_first p xs = xs"
  by (induction xs) auto

lemma length_remove_first: "list_ex p xs \<Longrightarrow> Suc (length (remove_first p xs)) = length xs"
  by (induction xs) (auto simp: Bex_set [symmetric] neq_Nil_conv)

lemma set_remove_first_subset: "set (remove_first p xs) \<subseteq> set xs"
  by (induction xs) auto

lemma distinct_map_remove_first:
  "distinct (map f xs) \<Longrightarrow> distinct (map f (remove_first p xs))"
  using set_remove_first_subset by (induction xs) fastforce+

lemma remove_first_distinct:
  "distinct (map f xs) \<Longrightarrow> remove_first (\<lambda>x. f x = k) xs = filter (\<lambda>x. f x \<noteq> k) xs"
proof (induction xs)
  case (Cons x xs)
  then show ?case
    by (cases "f x = k") (auto simp: image_iff intro!: filter_True [symmetric])
qed simp

lemma filter_remove_first_not:
  "filter (\<lambda>x. \<not> p x) (remove_first p xs) = filter (\<lambda>x. \<not> p x) xs"
  by (induction xs) auto

lemma length_filter_remove_first:
  "length (filter p (remove_first p xs)) = length (filter p xs) - 1"
  by (induction xs) auto

section \<open>Indexed collections\<close>

text \<open>
  The managers keep their objects in a map by identifier and, for lookups, append each
  identifier to a slice of a second map (by grantee, by delegate, by stream, ...). The
  contract: the new object is found under its identifier, and its identifier at the end of
  its key's slice. While identifiers are fresh the index lists exactly the objects of each
  key.
\<close>

locale id_index =
  fixes objects :: "'s \<Rightarrow> 'i \<Rightarrow> 'v option"
    and index :: "'s \<Rightarrow> 'k \<Rightarrow> 'i list"
    and ident :: "'v \<Rightarrow> 'i"
    and key :: "'v \<Rightarrow> 'k"
    and add :: "'v \<Rightarrow> 's \<Rightarrow> 's"
  assumes objects_add: "objects (add v s) = (objects s)(ident v \<mapsto> v)"
    and index_add: "index (add v s) k = (if k = key v then index s k @ [ident v] else index s k)"
begin

definition indexed :: "'s \<Rightarrow> bool" where
  "indexed s \<longleftrightarrow> (\<forall>k. distinct (index s k)) \<and>
     (\<forall>i v. objects s i = Some v \<longrightarrow> ident v = i) \<and>
     (\<forall>k i. i \<in> set (index s k) \<longleftrightarrow> (\<exists>v. objects s i = Some v \<and> key v = k))"

lemma indexed_empty: "objects s = Map.empty \<Longrightarrow> (\<And>k. index s k = []) \<Longrightarrow> indexed s"
  by (simp add: indexed_def)

lemma indexed_add: "indexed s \<Longrightarrow> objects s (ident v) = None \<Longrightarrow> indexed (add v s)"
  by (auto simp: indexed_def objects_add index_add)

lemma indexed_update:
  assumes "indexed s" and "objects s i = Some v" and "ident v' = i" and "key v' = key v"
    and "objects t = (objects s)(i \<mapsto> v')" and "\<And>k. index t k = index s k"
  shows "indexed t"
  using assms unfolding indexed_def by auto

lemma indexed_frame: "indexed s \<Longrightarrow> objects t = objects s \<Longrightarrow> (\<And>k. index t k = index s k) \<Longrightarrow> indexed t"
  by (simp add: indexed_def)

lemma indexed_same_keys:
  assumes "indexed s" and "\<And>k. index t k = index s k"
    and same: "\<And>i. map_option (\<lambda>v. (ident v, key v)) (objects t i) = map_option (\<lambda>v. (ident v, key v)) (objects s i)"
  shows "indexed t"
proof -
  have obj: "\<exists>w. objects s i = Some w \<and> ident w = ident v \<and> key w = key v" if "objects t i = Some v" for i v
    using same [of i] that by (cases "objects s i") auto
  have obj': "\<exists>w. objects t i = Some w \<and> ident w = ident v \<and> key w = key v" if "objects s i = Some v" for i v
    using same [of i] that by (cases "objects t i") auto
  have "ident v = i" if "objects t i = Some v" for i v
    using obj [OF that] assms(1) by (auto simp: indexed_def)
  moreover have "i \<in> set (index t k) \<longleftrightarrow> (\<exists>v. objects t i = Some v \<and> key v = k)" for i k
    using assms(1) obj obj' by (fastforce simp: indexed_def assms(2))
  ultimately show ?thesis
    using assms(1) by (simp add: indexed_def assms(2))
qed

lemma in_index_iff: "indexed s \<Longrightarrow> i \<in> set (index s k) \<longleftrightarrow> (\<exists>v. objects s i = Some v \<and> key v = k)"
  by (simp add: indexed_def)

lemma objects_ident: "indexed s \<Longrightarrow> objects s i = Some v \<Longrightarrow> ident v = i"
  by (simp add: indexed_def)

end

section \<open>Runs that record what their steps issue\<close>

text \<open>
  A step relation says which items a step issues (identifiers it generates, objects it grants); a run
  lists the items of its steps in order. Statements about runs name these items, so that what they
  ask of them, such as that no identifier is issued twice, is part of the statement.
\<close>

inductive issuing_run :: "('s \<Rightarrow> 'i list \<Rightarrow> 's \<Rightarrow> bool) \<Rightarrow> 's \<Rightarrow> 'i list \<Rightarrow> 's \<Rightarrow> bool" for step where
  none: "issuing_run step s [] s"
| more: "issuing_run step s is t \<Longrightarrow> step t js u \<Longrightarrow> issuing_run step s (is @ js) u"

lemma issuing_run_one: "step s is t \<Longrightarrow> issuing_run step s is t"
  using issuing_run.more [OF issuing_run.none, of step s "is" t] by simp

lemma issuing_run_append: "issuing_run step t js u \<Longrightarrow> issuing_run step s is t \<Longrightarrow> issuing_run step s (is @ js) u"
  by (induction rule: issuing_run.induct) (auto simp flip: append_assoc intro: issuing_run.more)

lemma issuing_run_invariant:
  assumes "issuing_run step s is t" and "P s"
    and "\<And>t js u. P t \<Longrightarrow> step t js u \<Longrightarrow> set js \<subseteq> set is \<Longrightarrow> P u"
  shows "P t"
proof -
  have "set js \<subseteq> set is \<Longrightarrow> P u" if "issuing_run step s js u" for js u
    using that assms(2,3) by (induction rule: issuing_run.induct) auto
  then show ?thesis
    using assms(1) by blast
qed

end
