(* ===== verification/Go_Json.thy ===== *)
theory Go_Json
  imports Zeam_Prelude
begin

text \<open>
  What the sources use of \<open>encoding/json\<close>: the compact text \<open>json.Marshal\<close>
  produces. A Go value is first read as a tree in the order of the struct's fields
  (\<open>omitempty\<close> fields are left out by the component's own tree function), then
  rendered. \<open>JUnsupported\<close> is a value of a type the encoder refuses, such as a map
  whose keys are neither strings, integers nor text marshalers; rendering any tree that
  holds one fails, as \<open>json.Marshal\<close> does with \<open>UnsupportedTypeError\<close>. \<open>JText\<close> is text a
  \<open>json.RawMessage\<close> holds, already compacted.
\<close>

datatype json =
    JNull
  | JBool bool
  | JInt int
  | JStr string
  | JArr "json list"
  | JObj "(string \<times> json) list"
  | JText string
  | JUnsupported

section \<open>Scalars\<close>

fun dec_nat :: "nat \<Rightarrow> string" where
  "dec_nat n = (if n < 10 then [char_of (48 + n)] else dec_nat (n div 10) @ [char_of (48 + n mod 10)])"

declare dec_nat.simps [simp del]

definition dec_int :: "int \<Rightarrow> string" where
  "dec_int i = (if i < 0 then CHR ''-'' # dec_nat (nat (- i)) else dec_nat (nat i))"

text \<open>
  \<open>appendString\<close> with HTML escaping: control characters, the quote, the backslash and
  \<open><\<close>, \<open>>\<close>, \<open>&\<close> are escaped, an invalid UTF-8 byte becomes the replacement character
  and the line separators U+2028 and U+2029 are written as escapes.
\<close>

definition esc_ascii :: "char \<Rightarrow> string" where
  "esc_ascii c = (let n = (of_char c :: nat) in
     if c = CHR 0x5C then [CHR 0x5C, CHR 0x5C]
     else if c = CHR 0x22 then [CHR 0x5C, CHR 0x22]
     else if n = 8 then [CHR 0x5C, CHR ''b'']
     else if n = 12 then [CHR 0x5C, CHR ''f'']
     else if n = 10 then [CHR 0x5C, CHR ''n'']
     else if n = 13 then [CHR 0x5C, CHR ''r'']
     else if n = 9 then [CHR 0x5C, CHR ''t'']
     else if n < 32 \<or> c = CHR ''<'' \<or> c = CHR ''>'' \<or> c = CHR ''&''
       then [CHR 0x5C, CHR ''u'', CHR ''0'', CHR ''0'', hex_digit (n div 16), hex_digit (n mod 16)]
     else [c])"

definition cont_byte :: "nat \<Rightarrow> bool" where
  "cont_byte n \<longleftrightarrow> 128 \<le> n \<and> n \<le> 191"

text \<open>
  The length of the UTF-8 sequence \<open>utf8.DecodeRuneInString\<close> accepts at the head of a
  string, 0 when the head is invalid.
\<close>

fun utf8_width :: "nat list \<Rightarrow> nat" where
  "utf8_width [] = 0"
| "utf8_width (a # r) =
     (if a < 128 then 1
      else if 194 \<le> a \<and> a \<le> 223
        then (case r of b # _ \<Rightarrow> if cont_byte b then 2 else 0 | [] \<Rightarrow> 0)
      else if 224 \<le> a \<and> a \<le> 239
        then (case r of
                b # c # _ \<Rightarrow>
                  if (if a = 224 then 160 else 128) \<le> b \<and> b \<le> (if a = 237 then 159 else 191) \<and> cont_byte c
                  then 3 else 0
              | _ \<Rightarrow> 0)
      else if 240 \<le> a \<and> a \<le> 244
        then (case r of
                b # c # d # _ \<Rightarrow>
                  if (if a = 240 then 144 else 128) \<le> b \<and> b \<le> (if a = 244 then 143 else 191)
                     \<and> cont_byte c \<and> cont_byte d
                  then 4 else 0
              | _ \<Rightarrow> 0)
      else 0)"

definition uesc :: "string \<Rightarrow> string" where
  "uesc h = CHR 0x5C # CHR ''u'' # h"

function json_escape :: "string \<Rightarrow> string" where
  "json_escape [] = []"
| "json_escape (c # cs) =
     (if (of_char c :: nat) < 128 then esc_ascii c @ json_escape cs
      else let w = utf8_width (map of_char (c # cs)); s = take w (c # cs) in
        if w = 0 then uesc ''fffd'' @ json_escape cs
        else if s = [CHR 0xE2, CHR 0x80, CHR 0xA8] then uesc ''2028'' @ json_escape (drop (w - 1) cs)
        else if s = [CHR 0xE2, CHR 0x80, CHR 0xA9] then uesc ''2029'' @ json_escape (drop (w - 1) cs)
        else s @ json_escape (drop (w - 1) cs))"
  by pat_completeness auto
termination
  by (relation "measure length") auto

definition json_quote :: "string \<Rightarrow> string" where
  "json_quote s = CHR 0x22 # json_escape s @ [CHR 0x22]"

text \<open>Byte slices are written in padded base64, a nil slice as \<open>null\<close>.\<close>

definition b64_char :: "nat \<Rightarrow> char" where
  "b64_char n = (if n < 26 then char_of (65 + n) else if n < 52 then char_of (71 + n)
     else if n < 62 then char_of (n - 4) else if n = 62 then CHR ''+'' else CHR ''/'')"

fun base64 :: "bytes \<Rightarrow> string" where
  "base64 [] = []"
| "base64 [a] = (let n = unat a * 65536 in
     [b64_char (n div 262144), b64_char (n div 4096 mod 64), CHR ''='', CHR ''=''])"
| "base64 [a, b] = (let n = unat a * 65536 + unat b * 256 in
     [b64_char (n div 262144), b64_char (n div 4096 mod 64), b64_char (n div 64 mod 64), CHR ''=''])"
| "base64 (a # b # c # r) = (let n = unat a * 65536 + unat b * 256 + unat c in
     [b64_char (n div 262144), b64_char (n div 4096 mod 64), b64_char (n div 64 mod 64), b64_char (n mod 64)]
     @ base64 r)"

definition JSlice :: "slice \<Rightarrow> json" where
  "JSlice s = (case s of None \<Rightarrow> JNull | Some bs \<Rightarrow> JStr (base64 bs))"

text \<open>A \<open>[n]byte\<close> array is an array of numbers.\<close>

definition JBytes :: "bytes \<Rightarrow> json" where
  "JBytes bs = JArr (map (\<lambda>b. JInt (uint b)) bs)"

section \<open>Rendering\<close>

fun join_comma :: "string list \<Rightarrow> string" where
  "join_comma [] = []"
| "join_comma [s] = s"
| "join_comma (s # ss) = s @ CHR '','' # join_comma ss"

fun json_marshal :: "json \<Rightarrow> string option" where
  "json_marshal JNull = Some ''null''"
| "json_marshal (JBool b) = Some (if b then ''true'' else ''false'')"
| "json_marshal (JInt i) = Some (dec_int i)"
| "json_marshal (JStr s) = Some (json_quote s)"
| "json_marshal (JArr js) =
     map_option (\<lambda>ss. CHR ''['' # join_comma ss @ '']'') (those (map json_marshal js))"
| "json_marshal (JObj fs) =
     map_option (\<lambda>ss. CHR ''{'' # join_comma ss @ ''}'')
       (those (map (\<lambda>f. map_option (\<lambda>t. json_quote (fst f) @ CHR '':'' # t) (json_marshal (snd f))) fs))"
| "json_marshal (JText t) = Some t"
| "json_marshal JUnsupported = None"

text \<open>A field with \<open>omitempty\<close>.\<close>

definition omitempty :: "bool \<Rightarrow> string \<Rightarrow> json \<Rightarrow> (string \<times> json) list" where
  "omitempty e k j = (if e then [] else [(k, j)])"

fun supported :: "json \<Rightarrow> bool" where
  "supported (JArr js) = list_all supported js"
| "supported (JObj fs) = list_all (\<lambda>f. supported (snd f)) fs"
| "supported JUnsupported = False"
| "supported _ = True"

lemma those_map_None_iff: "those (map f xs) = None \<longleftrightarrow> (\<exists>x\<in>set xs. f x = None)"
  by (induction xs) (auto split: option.splits)

lemma json_marshal_None_iff: "json_marshal j = None \<longleftrightarrow> \<not> supported j"
  by (induction j rule: json_marshal.induct)
    (auto simp: those_map_None_iff list_all_iff)

lemma supported_marshals: "supported j \<Longrightarrow> \<exists>s. json_marshal j = Some s"
  using json_marshal_None_iff [of j] by (cases "json_marshal j") auto

lemma supported_JBytes [simp]: "supported (JBytes bs)"
  by (simp add: JBytes_def list_all_iff)

lemma supported_JSlice [simp]: "supported (JSlice s)"
  by (simp add: JSlice_def split: option.split)

lemma supported_omitempty [simp]:
  "list_all (\<lambda>f. supported (snd f)) (omitempty e k j) \<longleftrightarrow> e \<or> supported j"
  by (simp add: omitempty_def)

lemma supported_map [simp]: "list_all supported (map f xs) \<longleftrightarrow> (\<forall>x\<in>set xs. supported (f x))"
  by (simp add: list_all_iff)

section \<open>Decimal text is injective\<close>

lemma dec_nat_nonempty [simp]: "dec_nat n \<noteq> []"
  by (subst dec_nat.simps) simp

definition dec_value :: "string \<Rightarrow> nat" where
  "dec_value s = foldl (\<lambda>a c. a * 10 + (of_char c - 48)) 0 s"

lemma dec_value_dec_nat: "dec_value (dec_nat n) = n"
proof (induction n rule: dec_nat.induct)
  case (1 n)
  have small: "(of_char (char_of (48 + k) :: char) :: nat) = 48 + k" if "k < 10" for k :: nat
    using that by simp
  show ?case
  proof (cases "n < 10")
    case True
    then show ?thesis
      by (subst dec_nat.simps) (simp add: dec_value_def small)
  next
    case False
    have "n mod 10 < 10" by simp
    then have "dec_value (dec_nat n) = dec_value (dec_nat (n div 10)) * 10 + n mod 10"
      using False by (subst dec_nat.simps) (simp add: dec_value_def small)
    with 1 False show ?thesis
      by simp
  qed
qed

lemma dec_nat_inject [simp]: "dec_nat m = dec_nat n \<longleftrightarrow> m = n"
  by (metis dec_value_dec_nat)

section \<open>Objects that differ in one number\<close>

definition field_text :: "string \<times> json \<Rightarrow> string option" where
  "field_text f = map_option (\<lambda>t. json_quote (fst f) @ CHR '':'' # t) (json_marshal (snd f))"

lemma json_marshal_JObj:
  "json_marshal (JObj fs) = map_option (\<lambda>ss. CHR ''{'' # join_comma ss @ ''}'') (those (map field_text fs))"
  by (simp add: field_text_def [abs_def])

lemma those_append:
  "those (xs @ ys) = (case those xs of None \<Rightarrow> None | Some a \<Rightarrow> map_option (\<lambda>b. a @ b) (those ys))"
  by (induction xs; cases "those ys") (auto split: option.splits)

definition comma_prefix :: "string list \<Rightarrow> string" where
  "comma_prefix ss = concat (map (\<lambda>s. s @ [CHR '','']) ss)"

lemma join_comma_Cons: "ss \<noteq> [] \<Longrightarrow> join_comma (s # ss) = s @ CHR '','' # join_comma ss"
  by (cases ss) auto

lemma join_comma_append:
  "b \<noteq> [] \<Longrightarrow> join_comma (a @ b) = comma_prefix a @ join_comma b"
  by (induction a) (simp_all add: comma_prefix_def join_comma_Cons)

lemma supported_field_text: "supported (snd f) \<Longrightarrow> \<exists>t. field_text f = Some t"
  using supported_marshals [of "snd f"] by (auto simp: field_text_def)

lemma supported_fields_text:
  "list_all (\<lambda>f. supported (snd f)) fs \<Longrightarrow> \<exists>ss. those (map field_text fs) = Some ss \<and> length ss = length fs"
proof (induction fs)
  case (Cons f fs)
  then obtain t ss where "field_text f = Some t" "those (map field_text fs) = Some ss" "length ss = length fs"
    using supported_field_text [of f] by auto
  then show ?case
    by simp
qed simp

text \<open>Changing one non-negative number of an object changes its text.\<close>

lemma marshal_JInt_field_inject:
  assumes sup: "list_all (\<lambda>f. supported (snd f)) a" "list_all (\<lambda>f. supported (snd f)) b"
    and eq: "json_marshal (JObj (a @ (k, JInt (int m)) # b)) = json_marshal (JObj (a @ (k, JInt (int n)) # b))"
  shows "m = n"
proof -
  from sup obtain sa sb where "those (map field_text a) = Some sa" "those (map field_text b) = Some sb"
    using supported_fields_text by blast
  moreover have "field_text (k, JInt (int i)) = Some (json_quote k @ CHR '':'' # dec_nat i)" for i
    by (simp add: field_text_def dec_int_def)
  ultimately have "json_marshal (JObj (a @ (k, JInt (int i)) # b)) =
      Some (CHR ''{'' # join_comma (sa @ (json_quote k @ CHR '':'' # dec_nat i) # sb) @ ''}'')" for i
    by (simp add: json_marshal_JObj those_append del: json_marshal.simps)
  then show ?thesis
    using eq by (cases sb) (simp_all add: join_comma_append del: json_marshal.simps)
qed

text \<open>Leaving out a field changes the text.\<close>

lemma marshal_field_dropped:
  assumes sup: "list_all (\<lambda>f. supported (snd f)) a" "list_all (\<lambda>f. supported (snd f)) b" and "b \<noteq> []"
    and "supported j"
  shows "json_marshal (JObj (a @ (k, j) # b)) \<noteq> json_marshal (JObj (a @ b))"
proof -
  from sup obtain sa sb where "those (map field_text a) = Some sa" and sb: "those (map field_text b) = Some sb"
    using supported_fields_text by blast
  moreover obtain t where "field_text (k, j) = Some t"
    using assms(4) supported_field_text [of "(k, j)"] by auto
  moreover obtain x xs where "sb = x # xs"
    using assms(3) sb by (cases b; cases sb) (auto split: option.splits)
  ultimately have "length (the (json_marshal (JObj (a @ b)))) < length (the (json_marshal (JObj (a @ (k, j) # b))))"
    by (simp add: json_marshal_JObj those_append join_comma_append join_comma_Cons del: json_marshal.simps)
  then show ?thesis
    by force
qed

end
