(* ===== verification/Signed_Document.thy ===== *)
theory Signed_Document
  imports Go_Json
begin

text \<open>
  The signing pattern of the identity package. The cryptographic primitives of
  go-ethereum and of the standard library are a parameter, the record \<open>crypto\<close>; what
  the code relies on is stated as \<open>signature_recovers\<close> (a signature recovers the key that
  made it) and \<open>signature_binds\<close> (it recovers that address for no other digest).

  Consents, delegations, rights metadata, layers, disclosure proofs, recoveries and
  checkpoints are all signed the same way: clear the signature field, marshal the document,
  hash it, sign the digest and store the signature; verification clears the field, marshals,
  recovers the signer and restores the field. The locale \<open>signed_document\<close> states that
  contract once; every document type interprets it on its own \<open>Sign\<close> and \<open>Verify\<close>.
\<close>

record ('sk, 'pk) crypto =
  Keccak256 :: "bytes \<Rightarrow> bytes"
  Sha256 :: "bytes \<Rightarrow> bytes"
  Sign :: "bytes \<Rightarrow> 'sk \<Rightarrow> bytes option"
  SigToPub :: "bytes \<Rightarrow> bytes \<Rightarrow> 'pk option"
  PublicKey :: "'sk \<Rightarrow> 'pk"
  PubkeyToAddress :: "'pk \<Rightarrow> address"
  AddressText :: "address \<Rightarrow> string"
  AddressHex :: "address \<Rightarrow> string"

definition key_address :: "('sk, 'pk) crypto \<Rightarrow> 'sk \<Rightarrow> address" where
  "key_address cr key = PubkeyToAddress cr (PublicKey cr key)"

text \<open>The first four bytes of the hash of a signature select a contract's function.\<close>

definition selector :: "('sk, 'pk) crypto \<Rightarrow> string \<Rightarrow> bytes" where
  "selector cr signature = take 4 (Keccak256 cr (bytes_of_string signature))"

text \<open>
  \<open>common.Address\<close> and \<open>common.Hash\<close> marshal as text, an address in small letters; \<open>Address.Hex\<close>, with the
  capital letters of the checksum, is \<open>AddressHex\<close>.
\<close>

definition JAddr :: "('sk, 'pk) crypto \<Rightarrow> address \<Rightarrow> json" where
  "JAddr cr a = JStr (AddressText cr a)"

lemma supported_JAddr [simp]: "supported (JAddr cr a)"
  by (simp add: JAddr_def)

section \<open>Digest, signature and recovery\<close>

text \<open>
  \<open>json.Marshal\<close>, \<open>crypto.Keccak256\<close> and \<open>crypto.Sign\<close> in a row, with the two error
  returns every \<open>Sign\<close> method has.
\<close>

definition json_bytes :: "json \<Rightarrow> bytes option" where
  "json_bytes j = map_option bytes_of_string (json_marshal j)"

definition marshal_error :: go_error where
  "marshal_error = Errorf ''json: unsupported type''"

definition sign_error :: go_error where
  "sign_error = Errorf ''crypto: cannot sign''"

definition recover_error :: go_error where
  "recover_error = Errorf ''crypto: cannot recover key''"

definition sign_body :: "('sk, 'pk) crypto \<Rightarrow> 'sk \<Rightarrow> json \<Rightarrow> go_error + bytes" where
  "sign_body cr key j =
     (case json_bytes j of
        None \<Rightarrow> Inl (Wrapped ''failed to marshal for signing'' marshal_error)
      | Some data \<Rightarrow>
          (case Sign cr (Keccak256 cr data) key of
             None \<Rightarrow> Inl (Wrapped ''failed to sign'' sign_error)
           | Some sig \<Rightarrow> Inr sig))"

text \<open>
  The recovery half of every \<open>Verify\<close> method: the address of the key recovered from the
  document's digest, \<open>None\<close> where \<open>json.Marshal\<close> or \<open>crypto.SigToPub\<close> fails.
\<close>

definition recover_body :: "('sk, 'pk) crypto \<Rightarrow> json \<Rightarrow> bytes \<Rightarrow> address option" where
  "recover_body cr j sig =
     (case json_bytes j of
        None \<Rightarrow> None
      | Some data \<Rightarrow> map_option (PubkeyToAddress cr) (SigToPub cr (Keccak256 cr data) sig))"

definition hash_json :: "('sk, 'pk) crypto \<Rightarrow> json \<Rightarrow> hash32" where
  \<comment> \<open>\<open>data, _ := json.Marshal(..); crypto.Keccak256Hash(data)\<close>: a failed marshal leaves no data\<close>
  "hash_json cr j = Keccak256 cr (case json_bytes j of None \<Rightarrow> [] | Some data \<Rightarrow> data)"

section \<open>What the code relies on\<close>

definition signature_recovers :: "('sk, 'pk) crypto \<Rightarrow> bool" where
  "signature_recovers cr \<longleftrightarrow>
     (\<forall>h key sig. Sign cr h key = Some sig \<longrightarrow> sig \<noteq> [] \<and> SigToPub cr h sig = Some (PublicKey cr key))"

definition signature_binds :: "('sk, 'pk) crypto \<Rightarrow> bool" where
  "signature_binds cr \<longleftrightarrow>
     (\<forall>h h' key sig pk. Sign cr h key = Some sig \<longrightarrow> SigToPub cr h' sig = Some pk \<longrightarrow>
        PubkeyToAddress cr pk = key_address cr key \<longrightarrow> h' = h)"

lemma sign_body_recovers:
  assumes "signature_recovers cr" and "sign_body cr key j = Inr sig"
  shows "sig \<noteq> [] \<and> recover_body cr j sig = Some (key_address cr key)"
  using assms
  by (auto simp: sign_body_def recover_body_def signature_recovers_def key_address_def
      split: option.splits)

lemma sign_body_binds:
  assumes "signature_binds cr" and "sign_body cr key j = Inr sig"
    and "recover_body cr j' sig = Some (key_address cr key)"
  shows "hash_json cr j' = hash_json cr j"
  using assms
  by (auto simp: sign_body_def recover_body_def signature_binds_def hash_json_def
      split: option.splits)

lemma sign_body_total:
  assumes "supported j" and "Sign cr (hash_json cr j) key = Some sig"
  shows "sign_body cr key j = Inr sig"
  using assms supported_marshals [of j]
  by (auto simp: sign_body_def hash_json_def json_bytes_def)

lemma json_bytes_unsupported: "\<not> supported j \<Longrightarrow> json_bytes j = None"
  by (simp add: json_bytes_def json_marshal_None_iff)

lemma sign_body_unsupported: "\<not> supported j \<Longrightarrow> \<exists>e. sign_body cr key j = Inl e"
  using json_marshal_None_iff [of j] by (auto simp: sign_body_def json_bytes_def)

section \<open>The contract of a signed document\<close>

locale signed_document =
  fixes cr :: "('sk, 'pk) crypto"
    and body :: "'d \<Rightarrow> json"
    and signer :: "'d \<Rightarrow> address"
    and sig_of :: "'d \<Rightarrow> slice"
    and set_sig :: "slice \<Rightarrow> 'd \<Rightarrow> 'd"
    and sign :: "'sk \<Rightarrow> 'd \<Rightarrow> 'd outcome"
    and verify :: "'d \<Rightarrow> bool"
  assumes sig_set: "sig_of (set_sig s d) = s"
    and body_set: "body (set_sig s d) = body d"
    and signer_set: "signer (set_sig s d) = signer d"
    and sign_other: "key_address cr key \<noteq> signer d \<Longrightarrow> fst (sign key d) = d \<and> failed (sign key d)"
    and sign_own_error: "key_address cr key = signer d \<Longrightarrow> sign_body cr key (body d) = Inl e \<Longrightarrow>
          fst (sign key d) = set_sig None d \<and> failed (sign key d)"
    and sign_own: "key_address cr key = signer d \<Longrightarrow> sign_body cr key (body d) = Inr sig \<Longrightarrow>
          sign key d = (set_sig (Some sig) d, None)"
    and verify_iff: "verify d \<longleftrightarrow>
          (\<exists>sig. sig_of d = Some sig \<and> sig \<noteq> [] \<and> recover_body cr (body d) sig = Some (signer d))"
begin

lemma sign_succeeded_iff:
  "succeeded (sign key d) \<longleftrightarrow> key_address cr key = signer d \<and> (\<exists>sig. sign_body cr key (body d) = Inr sig)"
  by (cases "key_address cr key = signer d"; cases "sign_body cr key (body d)")
    (auto dest: sign_other sign_own_error sign_own)

lemma sign_succeeded_cases:
  assumes "sign key d = (d', None)"
  obtains sig where "key_address cr key = signer d" "sign_body cr key (body d) = Inr sig"
    "d' = set_sig (Some sig) d"
proof -
  from assms have "succeeded (sign key d)"
    by simp
  then obtain sig where "key_address cr key = signer d" "sign_body cr key (body d) = Inr sig"
    by (auto simp: sign_succeeded_iff)
  with assms that show thesis
    by (auto dest: sign_own)
qed

lemma sign_then_verify:
  assumes "signature_recovers cr" and "sign key d = (d', None)"
  shows "verify d'"
  using assms sign_body_recovers [OF assms(1)]
  by (auto elim!: sign_succeeded_cases simp: verify_iff sig_set body_set signer_set)

lemma sign_keeps: "body (fst (sign key d)) = body d \<and> signer (fst (sign key d)) = signer d"
  using sign_other [of key d] sign_own_error [of key d] sign_own [of key d]
  by (cases "key_address cr key = signer d"; cases "sign_body cr key (body d)")
    (auto simp: body_set signer_set)

lemma unsigned_not_verified: "sig_of d = None \<Longrightarrow> \<not> verify d"
  by (simp add: verify_iff)

lemma tampered_not_verified:
  assumes "signature_binds cr" and "sign key d = (d', None)"
    and "sig_of t = sig_of d'" and "signer t = signer d'"
    and "hash_json cr (body t) \<noteq> hash_json cr (body d)"
  shows "\<not> verify t"
  using assms sign_body_binds [OF assms(1)]
  by (auto elim!: sign_succeeded_cases simp: verify_iff sig_set signer_set)

lemma unsupported_never_signed: "\<not> supported (body d) \<Longrightarrow> failed (sign key d)"
  using sign_body_unsupported [of "body d" cr key] sign_succeeded_iff [of key d] by auto

lemma unsupported_never_verified: "\<not> supported (body d) \<Longrightarrow> \<not> verify d"
  by (simp add: verify_iff recover_body_def json_bytes_def flip: json_marshal_None_iff)

end

text \<open>A document every value of which can be marshalled.\<close>

locale marshalled_document = signed_document +
  assumes body_supported: "supported (body d)"
begin

lemma sign_complete:
  assumes "key_address cr key = signer d" and "Sign cr (hash_json cr (body d)) key = Some sig"
  shows "sign key d = (set_sig (Some sig) d, None)"
  by (rule sign_own [OF assms(1) sign_body_total [OF body_supported assms(2)]])

end

section \<open>A concrete instance\<close>

text \<open>
  A toy instance used by the witnesses: a key is its own address, a signature is the key
  and the digest behind a marker byte. It satisfies both laws.
\<close>

definition demo_recover :: "bytes \<Rightarrow> bytes \<Rightarrow> bytes option" where
  "demo_recover h sig =
     (case sig of [] \<Rightarrow> None
      | _ # r \<Rightarrow> if length h \<le> length r \<and> drop (length r - length h) r = h
                then Some (take (length r - length h) r) else None)"

definition demo_crypto :: "(bytes, bytes) crypto" where
  "demo_crypto =
     \<lparr>Keccak256 = (\<lambda>m. m), Sha256 = (\<lambda>m. m), Sign = (\<lambda>h key. Some (1 # key @ h)), SigToPub = demo_recover,
      PublicKey = (\<lambda>key. key), PubkeyToAddress = (\<lambda>pk. pk), AddressText = hex_encode, AddressHex = hex_encode\<rparr>"

lemma demo_recover_sig: "demo_recover h (1 # key @ h) = Some key"
  by (simp add: demo_recover_def)

lemma demo_recover_binds: "demo_recover h' (1 # key @ h) = Some key \<Longrightarrow> h' = h"
  by (auto simp: demo_recover_def append_eq_conv_conj split: if_splits)
    (metis append_take_drop_id length_append same_append_eq)

lemma demo_crypto_recovers: "signature_recovers demo_crypto"
  by (simp add: signature_recovers_def demo_crypto_def demo_recover_sig)

lemma demo_crypto_binds: "signature_binds demo_crypto"
  by (auto simp: signature_binds_def demo_crypto_def key_address_def dest: demo_recover_binds)

lemma demo_key_address [simp]: "key_address demo_crypto key = key"
  by (simp add: key_address_def demo_crypto_def)

lemma demo_sign [simp]: "Sign demo_crypto h key = Some (1 # key @ h)"
  by (simp add: demo_crypto_def)

end
