(* ===== verification/Rights.thy ===== *)
theory Rights
  imports Signed_Document
begin

text \<open>
  The data rights of a stream (\<open>identity/rights.go\<close>): rights metadata with its grant,
  revocation and lookup loops, its signature, and the registry of verified metadata.
  A right's \<open>Type\<close> and a privacy level are Go strings, as in the source. \<open>time.Now().Unix()\<close>
  is the argument \<open>now\<close>.
\<close>

section \<open>Data\<close>

definition RightAccess :: string where "RightAccess = ''access''"
definition RightControl :: string where "RightControl = ''control''"
definition RightPreservation :: string where "RightPreservation = ''preservation''"
definition RightReturn :: string where "RightReturn = ''return''"

definition PrivacyPrivate :: string where "PrivacyPrivate = ''private''"
definition PrivacyRestricted :: string where "PrivacyRestricted = ''restricted''"
definition PrivacyPublic :: string where "PrivacyPublic = ''public''"

record RightConditions =
  rc_RequireConsent :: bool
  rc_RequireMultiSig :: bool
  rc_MultiSigThreshold :: int
  rc_MultiSigParties :: "address list"
  rc_TimeWindowStart :: int
  rc_TimeWindowEnd :: int
  rc_RateLimitPerEpoch :: int

record Right =
  r_Type :: string
  r_Grantee :: address
  r_Expiry :: int64
  r_Conditions :: "RightConditions option"
  r_Delegatable :: bool
  r_MaxDelegationDepth :: int

record RightsMetadata =
  rm_StreamID :: hash32
  rm_Owner :: address
  rm_Created :: int64
  rm_Rights :: "Right list option"
  rm_PrivacyLevel :: string
  rm_Signature :: slice

definition RightConditions_json :: "('sk, 'pk) crypto \<Rightarrow> RightConditions \<Rightarrow> json" where
  "RightConditions_json cr c = JObj (
     omitempty (\<not> rc_RequireConsent c) ''require_consent'' (JBool (rc_RequireConsent c))
     @ omitempty (\<not> rc_RequireMultiSig c) ''require_multi_sig'' (JBool (rc_RequireMultiSig c))
     @ omitempty (rc_MultiSigThreshold c = 0) ''multi_sig_threshold'' (JInt (rc_MultiSigThreshold c))
     @ omitempty (rc_MultiSigParties c = []) ''multi_sig_parties'' (JArr (map (JAddr cr) (rc_MultiSigParties c)))
     @ omitempty (rc_TimeWindowStart c = 0) ''time_window_start'' (JInt (rc_TimeWindowStart c))
     @ omitempty (rc_TimeWindowEnd c = 0) ''time_window_end'' (JInt (rc_TimeWindowEnd c))
     @ omitempty (rc_RateLimitPerEpoch c = 0) ''rate_limit_per_epoch'' (JInt (rc_RateLimitPerEpoch c)))"

definition Right_json :: "('sk, 'pk) crypto \<Rightarrow> Right \<Rightarrow> json" where
  "Right_json cr r = JObj (
     [(''type'', JStr (r_Type r)), (''grantee'', JAddr cr (r_Grantee r))]
     @ omitempty (r_Expiry r = 0) ''expiry'' (JInt (r_Expiry r))
     @ (case r_Conditions r of None \<Rightarrow> [] | Some c \<Rightarrow> [(''conditions'', RightConditions_json cr c)])
     @ [(''delegatable'', JBool (r_Delegatable r))]
     @ omitempty (r_MaxDelegationDepth r = 0) ''max_delegation_depth'' (JInt (r_MaxDelegationDepth r)))"

definition RightsMetadata_json :: "('sk, 'pk) crypto \<Rightarrow> RightsMetadata \<Rightarrow> json" where
  "RightsMetadata_json cr rm = JObj
     [(''stream_id'', JBytes (rm_StreamID rm)),
      (''owner'', JAddr cr (rm_Owner rm)),
      (''created'', JInt (rm_Created rm)),
      (''rights'', case rm_Rights rm of None \<Rightarrow> JNull | Some rs \<Rightarrow> JArr (map (Right_json cr) rs)),
      (''privacy_level'', JStr (rm_PrivacyLevel rm)),
      (''signature'', JSlice (rm_Signature rm))]"

definition rights_list :: "RightsMetadata \<Rightarrow> Right list" where
  "rights_list rm = (case rm_Rights rm of None \<Rightarrow> [] | Some rs \<Rightarrow> rs)"

section \<open>Metadata operations\<close>

definition NewRightsMetadata :: "int64 \<Rightarrow> hash32 \<Rightarrow> address \<Rightarrow> string \<Rightarrow> RightsMetadata" where
  "NewRightsMetadata now streamID owner privacy =
     \<lparr>rm_StreamID = streamID, rm_Owner = owner, rm_Created = now, rm_Rights = Some [],
      rm_PrivacyLevel = privacy, rm_Signature = None\<rparr>"

definition GrantRight :: "Right \<Rightarrow> RightsMetadata \<Rightarrow> RightsMetadata" where
  "GrantRight right rm = rm\<lparr>rm_Rights := Some (rights_list rm @ [right])\<rparr>"

definition RevokeRight :: "string \<Rightarrow> address \<Rightarrow> RightsMetadata \<Rightarrow> RightsMetadata \<times> bool" where
  "RevokeRight rightType grantee rm =
     (let p = (\<lambda>r. r_Type r = rightType \<and> r_Grantee r = grantee) in
      if list_ex p (rights_list rm)
      then (rm\<lparr>rm_Rights := Some (remove_first p (rights_list rm))\<rparr>, True)
      else (rm, False))"

fun has_right_loop :: "int64 \<Rightarrow> address \<Rightarrow> string \<Rightarrow> Right list \<Rightarrow> bool" where
  "has_right_loop now addr rightType [] = False"
| "has_right_loop now addr rightType (r # rs) =
     (if r_Type r = rightType \<and> r_Grantee r = addr
      then if r_Expiry r > 0 \<and> r_Expiry r < now then has_right_loop now addr rightType rs else True
      else has_right_loop now addr rightType rs)"

definition HasRight :: "int64 \<Rightarrow> address \<Rightarrow> string \<Rightarrow> RightsMetadata \<Rightarrow> bool" where
  "HasRight now addr rightType rm =
     (if addr = rm_Owner rm then True else has_right_loop now addr rightType (rights_list rm))"

fun can_delegate_loop :: "address \<Rightarrow> string \<Rightarrow> Right list \<Rightarrow> bool \<times> int" where
  "can_delegate_loop addr rightType [] = (False, 0)"
| "can_delegate_loop addr rightType (r # rs) =
     (if r_Type r = rightType \<and> r_Grantee r = addr \<and> r_Delegatable r
      then (True, r_MaxDelegationDepth r) else can_delegate_loop addr rightType rs)"

definition CanDelegate :: "address \<Rightarrow> string \<Rightarrow> RightsMetadata \<Rightarrow> bool \<times> int" where
  "CanDelegate addr rightType rm =
     (if addr = rm_Owner rm then (True, 255) else can_delegate_loop addr rightType (rights_list rm))"

definition RightsMetadata_Sign :: "('sk, 'pk) crypto \<Rightarrow> 'sk \<Rightarrow> RightsMetadata \<Rightarrow> RightsMetadata outcome" where
  "RightsMetadata_Sign cr key rm =
     (if key_address cr key \<noteq> rm_Owner rm then (rm, Some (Errorf ''signer is not owner''))
      else let rm0 = rm\<lparr>rm_Signature := None\<rparr> in
        case sign_body cr key (RightsMetadata_json cr rm0) of
          Inl e \<Rightarrow> (rm0, Some e)
        | Inr sig \<Rightarrow> (rm0\<lparr>rm_Signature := Some sig\<rparr>, None))"

definition RightsMetadata_Verify :: "('sk, 'pk) crypto \<Rightarrow> RightsMetadata \<Rightarrow> bool" where
  "RightsMetadata_Verify cr rm =
     (case rm_Signature rm of
        None \<Rightarrow> False
      | Some sig \<Rightarrow> if sig = [] then False
          else recover_body cr (RightsMetadata_json cr (rm\<lparr>rm_Signature := None\<rparr>)) sig = Some (rm_Owner rm))"

section \<open>The registry\<close>

record RightsRegistry =
  rr_Owner :: address
  rr_Streams :: "hash32 \<Rightarrow> RightsMetadata option"
  rr_GrantedToMe :: "string \<Rightarrow> hash32 list option"

definition NewRightsRegistry :: "address \<Rightarrow> RightsRegistry" where
  "NewRightsRegistry owner = \<lparr>rr_Owner = owner, rr_Streams = Map.empty, rr_GrantedToMe = Map.empty\<rparr>"

definition RightsRegistry_Register ::
  "('sk, 'pk) crypto \<Rightarrow> RightsMetadata \<Rightarrow> RightsRegistry \<Rightarrow> RightsRegistry outcome" where
  "RightsRegistry_Register cr rm rr =
     (if \<not> RightsMetadata_Verify cr rm
      then (rr, Some (Errorf ''invalid signature on rights metadata''))
      else (rr\<lparr>rr_Streams := (rr_Streams rr)(rm_StreamID rm \<mapsto> rm),
               rr_GrantedToMe := fold (\<lambda>r g. if r_Grantee r = rr_Owner rr then push (r_Type r) (rm_StreamID rm) g else g)
                 (rights_list rm) (rr_GrantedToMe rr)\<rparr>, None))"

definition RightsRegistry_GetRights :: "hash32 \<Rightarrow> RightsRegistry \<Rightarrow> RightsMetadata option" where
  "RightsRegistry_GetRights streamID rr = rr_Streams rr streamID"

text \<open>The unspecified iteration order of the map is the argument \<open>order\<close>, a list of its keys.\<close>

definition ListStreamsWithRight ::
  "hash32 list \<Rightarrow> int64 \<Rightarrow> address \<Rightarrow> string \<Rightarrow> RightsRegistry \<Rightarrow> hash32 list" where
  "ListStreamsWithRight order now addr rightType rr =
     filter (\<lambda>id. case rr_Streams rr id of None \<Rightarrow> False | Some rm \<Rightarrow> HasRight now addr rightType rm) order"

section \<open>Signed metadata\<close>

lemma supported_Right_json: "supported (Right_json cr r)"
  by (simp add: Right_json_def RightConditions_json_def split: option.split)

interpretation rights_doc: marshalled_document cr
  "\<lambda>rm. RightsMetadata_json cr (rm\<lparr>rm_Signature := None\<rparr>)" rm_Owner rm_Signature
  "\<lambda>s rm. rm\<lparr>rm_Signature := s\<rparr>" "RightsMetadata_Sign cr" "RightsMetadata_Verify cr" for cr
  by unfold_locales
    (auto simp: RightsMetadata_Sign_def RightsMetadata_Verify_def RightsMetadata_json_def
      Let_def supported_Right_json split: option.splits sum.splits)

section \<open>Behaviour\<close>

definition live_right :: "int64 \<Rightarrow> address \<Rightarrow> string \<Rightarrow> Right \<Rightarrow> bool" where
  "live_right now addr rightType r \<longleftrightarrow>
     r_Type r = rightType \<and> r_Grantee r = addr \<and> (r_Expiry r \<le> 0 \<or> now \<le> r_Expiry r)"

lemma has_right_loop_iff:
  "has_right_loop now addr rightType rs \<longleftrightarrow> (\<exists>r\<in>set rs. live_right now addr rightType r)"
  by (induction rs) (auto simp: live_right_def)

lemma rights_list_grant [simp]: "rights_list (GrantRight r rm) = rights_list rm @ [r]"
  by (simp add: GrantRight_def rights_list_def)

lemma rights_list_revoke:
  "rights_list (fst (RevokeRight rightType grantee rm)) =
     remove_first (\<lambda>r. r_Type r = rightType \<and> r_Grantee r = grantee) (rights_list rm)"
  by (simp add: RevokeRight_def rights_list_def Let_def remove_first_none)

definition registry_ok :: "('sk, 'pk) crypto \<Rightarrow> RightsRegistry \<Rightarrow> bool" where
  "registry_ok cr rr \<longleftrightarrow>
     (\<forall>id rm. rr_Streams rr id = Some rm \<longrightarrow> rm_StreamID rm = id \<and> RightsMetadata_Verify cr rm) \<and>
     (\<forall>ty id. id \<in> set (slot (rr_GrantedToMe rr) ty) \<longrightarrow> rr_Streams rr id \<noteq> None)"

lemma registry_ok_new: "registry_ok cr (NewRightsRegistry owner)"
  by (simp add: registry_ok_def NewRightsRegistry_def)

lemma set_slot_fold_push:
  "set (slot (fold (\<lambda>r g. if p r then push (f r) v g else g) rs g) k) \<subseteq> insert v (set (slot g k))"
proof (induction rs arbitrary: g)
  case (Cons r rs)
  show ?case
    using Cons [of "if p r then push (f r) v g else g"] by (auto split: if_splits)
qed auto

text \<open>
  A party other than the owner has a right exactly when some granted right of that
  type is not expired, whatever stands before it in the list (an expired grant does not hide a
  later live one), and the owner has every right.
\<close>

theorem HasRight_iff:
  "HasRight now addr rightType rm \<longleftrightarrow>
     addr = rm_Owner rm \<or> (\<exists>r\<in>set (rights_list rm). live_right now addr rightType r)"
  by (simp add: HasRight_def has_right_loop_iff)

text \<open>
  Revocation takes away one grant: it reports whether there was one, shortens the
  list by exactly that one, and a right granted once is gone afterwards, while the rights of
  every other type and party are untouched.
\<close>

theorem RevokeRight_correct:
  "let matching = (\<lambda>r. r_Type r = rightType \<and> r_Grantee r = grantee);
       (rm', found) = RevokeRight rightType grantee rm
   in (found \<longleftrightarrow> (\<exists>r\<in>set (rights_list rm). matching r)) \<and>
      length (filter matching (rights_list rm')) = length (filter matching (rights_list rm)) - 1 \<and>
      filter (\<lambda>r. \<not> matching r) (rights_list rm') = filter (\<lambda>r. \<not> matching r) (rights_list rm)"
proof -
  obtain rm' found where rev: "RevokeRight rightType grantee rm = (rm', found)"
    by fastforce
  have "rights_list rm' = remove_first (\<lambda>r. r_Type r = rightType \<and> r_Grantee r = grantee) (rights_list rm)"
    using rights_list_revoke [of rightType grantee rm] rev by simp
  moreover have "found \<longleftrightarrow> (\<exists>r\<in>set (rights_list rm). r_Type r = rightType \<and> r_Grantee r = grantee)"
    using rev by (auto simp: RevokeRight_def Let_def list_ex_iff split: if_splits)
  ultimately show ?thesis
    by (simp only: Let_def rev case_prod_conv length_filter_remove_first filter_remove_first_not simp_thms)
qed

text \<open>
  The registry only ever holds metadata that verifies under its stream identifier,
  and lists as granted to its owner only streams it holds: registration keeps both, and a
  rejected registration changes nothing.
\<close>

theorem Register_keeps_registry_ok:
  assumes "registry_ok cr rr"
  shows "registry_ok cr (fst (RightsRegistry_Register cr rm rr)) \<and>
    (failed (RightsRegistry_Register cr rm rr) \<longleftrightarrow> \<not> RightsMetadata_Verify cr rm) \<and>
    (failed (RightsRegistry_Register cr rm rr) \<longrightarrow> fst (RightsRegistry_Register cr rm rr) = rr)"
proof (cases "RightsMetadata_Verify cr rm")
  case True
  let ?g = "fold (\<lambda>r g. if r_Grantee r = rr_Owner rr then push (r_Type r) (rm_StreamID rm) g else g)
    (rights_list rm) (rr_GrantedToMe rr)"
  have "set (slot ?g ty) \<subseteq> insert (rm_StreamID rm) (set (slot (rr_GrantedToMe rr) ty))" for ty
    by (rule set_slot_fold_push)
  with assms True show ?thesis
    unfolding registry_ok_def RightsRegistry_Register_def by (simp add: subset_iff) blast
qed (use assms in \<open>simp_all add: RightsRegistry_Register_def\<close>)

text \<open>
  Finding: \<open>CanDelegate\<close> does not look at the expiry, so a right that \<open>HasRight\<close> no longer
  grants can still be delegated. At every time after its expiry, a delegatable right that
  is the party's only one is refused by \<open>HasRight\<close> and offered by \<open>CanDelegate\<close>.
\<close>

theorem CanDelegate_ignores_expiry:
  assumes "addr \<noteq> rm_Owner rm" and "rights_list rm = [r]"
    and "r_Type r = rightType" and "r_Grantee r = addr" and "r_Delegatable r"
    and "0 < r_Expiry r" and "r_Expiry r < now"
  shows "\<not> HasRight now addr rightType rm \<and> CanDelegate addr rightType rm = (True, r_MaxDelegationDepth r)"
  using assms by (simp add: HasRight_def CanDelegate_def)

definition demo_right :: Right where
  "demo_right = \<lparr>r_Type = RightAccess, r_Grantee = [2], r_Expiry = 10, r_Conditions = None,
     r_Delegatable = True, r_MaxDelegationDepth = 3\<rparr>"

definition demo_rights :: RightsMetadata where
  "demo_rights = GrantRight demo_right (NewRightsMetadata 5 zero32 [1] PrivacyPrivate)"

theorem CanDelegate_ignores_expiry_witness:
  "\<not> HasRight 11 [2] RightAccess demo_rights \<and> CanDelegate [2] RightAccess demo_rights = (True, 3)"
  using CanDelegate_ignores_expiry [of "[2]" demo_rights demo_right RightAccess 11]
  by (simp add: demo_rights_def demo_right_def GrantRight_def NewRightsMetadata_def rights_list_def)

theorem Register_keeps_registry_ok_witness:
  "registry_ok demo_crypto (fst (RightsRegistry_Register demo_crypto
     (fst (RightsMetadata_Sign demo_crypto [1] demo_rights)) (NewRightsRegistry [2])))"
  using Register_keeps_registry_ok [OF registry_ok_new] by blast

end
