(* ===== verification/Consent.thy ===== *)
theory Consent
  imports Signed_Document
begin

text \<open>
  Consents (\<open>identity/consent.go\<close>): a signed grant of one operation on a stream to one
  party, optionally limited in time and in the number of uses, the proofs by which the
  grantee uses it, and the manager that keeps, revokes and consumes them.

  Where the source reads the clock twice (\<open>ValidateAndUse\<close> checks the validity itself and
  again inside \<open>Use\<close>) the model takes both readings as arguments. \<open>Verify\<close> clears and
  restores the signature field around the marshalling, so its effect on the consent is
  none.
\<close>

section \<open>Data\<close>

definition ConsentRead :: string where "ConsentRead = ''read''"
definition ConsentWrite :: string where "ConsentWrite = ''write''"
definition ConsentExport :: string where "ConsentExport = ''export''"
definition ConsentDelegate :: string where "ConsentDelegate = ''delegate''"
definition ConsentDelete :: string where "ConsentDelete = ''delete''"

record ConsentConditions =
  cc_RequireReason :: bool
  cc_NotifyOnUse :: bool
  cc_ApprovalRequired :: bool
  cc_AllowedPurposes :: "string list"
  cc_GeoRestriction :: "string list"

record Consent =
  c_ID :: hash32
  c_Type :: string
  c_Grantor :: address
  c_Grantee :: address
  c_StreamID :: hash32
  c_SourceLayer :: string
  c_TargetLayer :: string
  c_Created :: int64
  c_Expiry :: int64
  c_MaxUses :: int
  c_UsesRemaining :: int
  c_Conditions :: "ConsentConditions option"
  c_Revoked :: bool
  c_RevokedAt :: int64
  c_Signature :: slice

record ConsentProof =
  cp_ConsentID :: hash32
  cp_Operation :: string
  cp_Target :: hash32
  cp_Timestamp :: int64
  cp_Reason :: string
  cp_Signature :: slice

record ConsentUsageEntry =
  cu_ConsentID :: hash32
  cu_Grantee :: address
  cu_Operation :: string
  cu_Target :: hash32
  cu_Timestamp :: int64
  cu_Reason :: string

record ConsentManager =
  cm_Owner :: address
  cm_Consents :: "hash32 \<Rightarrow> Consent option"
  cm_ByGrantee :: "address \<Rightarrow> hash32 list option"
  cm_UsageLog :: "ConsentUsageEntry list"

definition ConsentConditions_json :: "ConsentConditions \<Rightarrow> json" where
  "ConsentConditions_json c = JObj (
     omitempty (\<not> cc_RequireReason c) ''require_reason'' (JBool (cc_RequireReason c))
     @ omitempty (\<not> cc_NotifyOnUse c) ''notify_on_use'' (JBool (cc_NotifyOnUse c))
     @ omitempty (\<not> cc_ApprovalRequired c) ''approval_required'' (JBool (cc_ApprovalRequired c))
     @ omitempty (cc_AllowedPurposes c = []) ''allowed_purposes'' (JArr (map JStr (cc_AllowedPurposes c)))
     @ omitempty (cc_GeoRestriction c = []) ''geo_restriction'' (JArr (map JStr (cc_GeoRestriction c))))"

text \<open>The fields before and after \<open>uses_remaining\<close>, in the order of the struct.\<close>

definition Consent_fields_before :: "('sk, 'pk) crypto \<Rightarrow> Consent \<Rightarrow> (string \<times> json) list" where
  "Consent_fields_before cr c =
     [(''id'', JBytes (c_ID c)), (''type'', JStr (c_Type c)),
      (''grantor'', JAddr cr (c_Grantor c)), (''grantee'', JAddr cr (c_Grantee c)),
      (''stream_id'', JBytes (c_StreamID c))]
     @ omitempty (c_SourceLayer c = []) ''source_layer'' (JStr (c_SourceLayer c))
     @ omitempty (c_TargetLayer c = []) ''target_layer'' (JStr (c_TargetLayer c))
     @ [(''created'', JInt (c_Created c))]
     @ omitempty (c_Expiry c = 0) ''expiry'' (JInt (c_Expiry c))
     @ omitempty (c_MaxUses c = 0) ''max_uses'' (JInt (c_MaxUses c))"

definition Consent_fields_after :: "('sk, 'pk) crypto \<Rightarrow> Consent \<Rightarrow> (string \<times> json) list" where
  "Consent_fields_after cr c =
     (case c_Conditions c of None \<Rightarrow> [] | Some cs \<Rightarrow> [(''conditions'', ConsentConditions_json cs)])
     @ [(''revoked'', JBool (c_Revoked c))]
     @ omitempty (c_RevokedAt c = 0) ''revoked_at'' (JInt (c_RevokedAt c))
     @ [(''signature'', JSlice (c_Signature c))]"

definition Consent_json :: "('sk, 'pk) crypto \<Rightarrow> Consent \<Rightarrow> json" where
  "Consent_json cr c = JObj (Consent_fields_before cr c
     @ omitempty (c_UsesRemaining c = 0) ''uses_remaining'' (JInt (c_UsesRemaining c))
     @ Consent_fields_after cr c)"

definition ConsentProof_json :: "ConsentProof \<Rightarrow> json" where
  "ConsentProof_json p = JObj (
     [(''consent_id'', JBytes (cp_ConsentID p)), (''operation'', JStr (cp_Operation p)),
      (''target'', JBytes (cp_Target p)), (''timestamp'', JInt (cp_Timestamp p))]
     @ omitempty (cp_Reason p = []) ''reason'' (JStr (cp_Reason p))
     @ [(''signature'', JSlice (cp_Signature p))])"

section \<open>Consent operations\<close>

definition Consent_GenerateID :: "('sk, 'pk) crypto \<Rightarrow> Consent \<Rightarrow> Consent" where
  "Consent_GenerateID cr c = c\<lparr>c_ID := hash_json cr (JObj
     [(''Type'', JStr (c_Type c)), (''Grantor'', JAddr cr (c_Grantor c)), (''Grantee'', JAddr cr (c_Grantee c)),
      (''StreamID'', JBytes (c_StreamID c)), (''Created'', JInt (c_Created c))])\<rparr>"

definition Consent_Sign :: "('sk, 'pk) crypto \<Rightarrow> 'sk \<Rightarrow> Consent \<Rightarrow> Consent outcome" where
  "Consent_Sign cr key c =
     (if key_address cr key \<noteq> c_Grantor c then (c, Some (Errorf ''signer is not grantor''))
      else let c0 = c\<lparr>c_Signature := None\<rparr> in
        case sign_body cr key (Consent_json cr c0) of
          Inl e \<Rightarrow> (c0, Some e)
        | Inr sig \<Rightarrow> (c0\<lparr>c_Signature := Some sig\<rparr>, None))"

definition Consent_Verify :: "('sk, 'pk) crypto \<Rightarrow> Consent \<Rightarrow> bool" where
  "Consent_Verify cr c =
     (case c_Signature c of
        None \<Rightarrow> False
      | Some sig \<Rightarrow> if sig = [] then False
          else recover_body cr (Consent_json cr (c\<lparr>c_Signature := None\<rparr>)) sig = Some (c_Grantor c))"

definition Consent_IsValid :: "('sk, 'pk) crypto \<Rightarrow> int64 \<Rightarrow> Consent \<Rightarrow> bool" where
  "Consent_IsValid cr now c =
     (if c_Revoked c then False
      else if c_Expiry c > 0 \<and> c_Expiry c < now then False
      else if c_MaxUses c > 0 \<and> c_UsesRemaining c \<le> 0 then False
      else Consent_Verify cr c)"

definition Consent_Use :: "('sk, 'pk) crypto \<Rightarrow> int64 \<Rightarrow> Consent \<Rightarrow> Consent outcome" where
  "Consent_Use cr now c =
     (if \<not> Consent_IsValid cr now c then (c, Some (Errorf ''consent is not valid''))
      else if c_MaxUses c > 0 then (c\<lparr>c_UsesRemaining := wrap64 (c_UsesRemaining c - 1)\<rparr>, None)
      else (c, None))"

definition Consent_Revoke :: "int64 \<Rightarrow> Consent \<Rightarrow> Consent" where
  "Consent_Revoke now c = c\<lparr>c_Revoked := True, c_RevokedAt := now\<rparr>"

definition ConsentProof_Sign :: "('sk, 'pk) crypto \<Rightarrow> 'sk \<Rightarrow> ConsentProof \<Rightarrow> ConsentProof outcome" where
  "ConsentProof_Sign cr key p =
     (let p0 = p\<lparr>cp_Signature := None\<rparr> in
      case sign_body cr key (ConsentProof_json p0) of
        Inl e \<Rightarrow> (p0, Some e)
      | Inr sig \<Rightarrow> (p0\<lparr>cp_Signature := Some sig\<rparr>, None))"

definition ConsentProof_Verify :: "('sk, 'pk) crypto \<Rightarrow> ConsentProof \<Rightarrow> address \<times> bool" where
  "ConsentProof_Verify cr p =
     (case cp_Signature p of
        None \<Rightarrow> (zero_address, False)
      | Some sig \<Rightarrow> if sig = [] then (zero_address, False)
          else (case recover_body cr (ConsentProof_json (p\<lparr>cp_Signature := None\<rparr>)) sig of
                  None \<Rightarrow> (zero_address, False)
                | Some a \<Rightarrow> (a, True)))"

section \<open>The manager\<close>

definition NewConsentManager :: "address \<Rightarrow> ConsentManager" where
  "NewConsentManager owner =
     \<lparr>cm_Owner = owner, cm_Consents = Map.empty, cm_ByGrantee = Map.empty, cm_UsageLog = []\<rparr>"

definition consent_add :: "Consent \<Rightarrow> ConsentManager \<Rightarrow> ConsentManager" where
  "consent_add c cm = cm\<lparr>cm_Consents := (cm_Consents cm)(c_ID c \<mapsto> c),
     cm_ByGrantee := push (c_Grantee c) (c_ID c) (cm_ByGrantee cm)\<rparr>"

text \<open>The identifier and the use counter \<open>Grant\<close> fills in before signing.\<close>

definition consent_prepare :: "('sk, 'pk) crypto \<Rightarrow> Consent \<Rightarrow> Consent" where
  "consent_prepare cr consent =
     (let c1 = (if c_ID consent = zero32 then Consent_GenerateID cr consent else consent)
      in if c_MaxUses c1 > 0 then c1\<lparr>c_UsesRemaining := c_MaxUses c1\<rparr> else c1)"

text \<open>
  \<open>Grant\<close> works on the caller's consent: what it returns is that consent as the call left
  it, the manager, and the error.
\<close>

definition ConsentManager_Grant ::
  "('sk, 'pk) crypto \<Rightarrow> 'sk \<Rightarrow> Consent \<Rightarrow> ConsentManager \<Rightarrow> (Consent \<times> ConsentManager) outcome" where
  "ConsentManager_Grant cr key consent cm =
     (if c_Grantor consent \<noteq> cm_Owner cm
      then ((consent, cm), Some (Errorf ''grantor must be consent manager owner''))
      else
        case Consent_Sign cr key (consent_prepare cr consent) of
          (c', Some e) \<Rightarrow> ((c', cm), Some e)
        | (c', None) \<Rightarrow> ((c', consent_add c' cm), None))"

definition ConsentManager_Revoke :: "int64 \<Rightarrow> hash32 \<Rightarrow> ConsentManager \<Rightarrow> ConsentManager outcome" where
  "ConsentManager_Revoke now consentID cm =
     (case cm_Consents cm consentID of
        None \<Rightarrow> (cm, Some (Errorf ''consent not found''))
      | Some c \<Rightarrow> (cm\<lparr>cm_Consents := (cm_Consents cm)(consentID \<mapsto> Consent_Revoke now c)\<rparr>, None))"

definition ConsentManager_ValidateAndUse ::
  "('sk, 'pk) crypto \<Rightarrow> int64 \<Rightarrow> int64 \<Rightarrow> ConsentProof \<Rightarrow> ConsentManager \<Rightarrow> ConsentManager outcome" where
  "ConsentManager_ValidateAndUse cr now now' proof cm =
     (case cm_Consents cm (cp_ConsentID proof) of
        None \<Rightarrow> (cm, Some (Errorf ''consent not found''))
      | Some consent \<Rightarrow>
          let (grantee, valid) = ConsentProof_Verify cr proof in
          if \<not> valid then (cm, Some (Errorf ''invalid proof signature''))
          else if grantee \<noteq> c_Grantee consent then (cm, Some (Errorf ''proof signer is not the grantee''))
          else if \<not> Consent_IsValid cr now consent then (cm, Some (Errorf ''consent is not valid''))
          else if cp_Operation proof \<noteq> c_Type consent then (cm, Some (Errorf ''operation type mismatch''))
          else if (case c_Conditions consent of None \<Rightarrow> False
                   | Some cs \<Rightarrow> cc_RequireReason cs \<and> cp_Reason proof = [])
            then (cm, Some (Errorf ''reason required but not provided''))
          else (case Consent_Use cr now' consent of
            (c', Some e) \<Rightarrow> (cm, Some e)
          | (c', None) \<Rightarrow>
              (cm\<lparr>cm_Consents := (cm_Consents cm)(cp_ConsentID proof \<mapsto> c'),
                  cm_UsageLog := cm_UsageLog cm @
                    [\<lparr>cu_ConsentID = cp_ConsentID proof, cu_Grantee = grantee, cu_Operation = cp_Operation proof,
                      cu_Target = cp_Target proof, cu_Timestamp = cp_Timestamp proof, cu_Reason = cp_Reason proof\<rparr>]\<rparr>,
               None)))"

definition ConsentManager_GetConsentsFor ::
  "('sk, 'pk) crypto \<Rightarrow> int64 \<Rightarrow> address \<Rightarrow> ConsentManager \<Rightarrow> Consent list" where
  "ConsentManager_GetConsentsFor cr now grantee cm =
     concat (map (\<lambda>id. case cm_Consents cm id of
                    None \<Rightarrow> [] | Some c \<Rightarrow> if Consent_IsValid cr now c then [c] else [])
       (slot (cm_ByGrantee cm) grantee))"

fun has_consent_loop ::
  "('sk, 'pk) crypto \<Rightarrow> int64 \<Rightarrow> string \<Rightarrow> hash32 \<Rightarrow> ConsentManager \<Rightarrow> hash32 list \<Rightarrow> bool" where
  "has_consent_loop cr now operation streamID cm [] = False"
| "has_consent_loop cr now operation streamID cm (i # ids) =
     (case cm_Consents cm i of
        None \<Rightarrow> has_consent_loop cr now operation streamID cm ids
      | Some consent \<Rightarrow>
          if \<not> Consent_IsValid cr now consent then has_consent_loop cr now operation streamID cm ids
          else if c_Type consent \<noteq> operation then has_consent_loop cr now operation streamID cm ids
          else if c_StreamID consent \<noteq> zero32 \<and> c_StreamID consent \<noteq> streamID
            then has_consent_loop cr now operation streamID cm ids
          else True)"

definition ConsentManager_HasConsent ::
  "('sk, 'pk) crypto \<Rightarrow> int64 \<Rightarrow> address \<Rightarrow> string \<Rightarrow> hash32 \<Rightarrow> ConsentManager \<Rightarrow> bool" where
  "ConsentManager_HasConsent cr now grantee operation streamID cm =
     has_consent_loop cr now operation streamID cm (slot (cm_ByGrantee cm) grantee)"

text \<open>
  \<open>json.Marshal(cm.Consents)\<close>: the keys of the map are byte arrays, which the encoder does
  not support.
\<close>

definition ConsentManager_ExportConsents :: "ConsentManager \<Rightarrow> go_error + bytes" where
  "ConsentManager_ExportConsents cm =
     (case json_bytes JUnsupported of None \<Rightarrow> Inl marshal_error | Some data \<Rightarrow> Inr data)"

definition ConsentManager_GetUsageLog :: "ConsentManager \<Rightarrow> ConsentUsageEntry list" where
  "ConsentManager_GetUsageLog cm = cm_UsageLog cm"

definition ConsentIDToHex :: "hash32 \<Rightarrow> string" where
  "ConsentIDToHex cid = hex_encode cid"

definition HexToConsentID :: "string \<Rightarrow> hash32 \<times> go_error option" where
  "HexToConsentID s =
     (case hex_decode s of
        None \<Rightarrow> (zero32, Some (Errorf ''encoding/hex''))
      | Some b \<Rightarrow> if length b \<noteq> 32 then (zero32, Some (Errorf ''invalid consent ID length''))
                  else (copy_into 32 b, None))"

section \<open>Consents as signed documents and as an indexed collection\<close>

lemma supported_Consent_fields:
  "list_all (\<lambda>f. supported (snd f)) (Consent_fields_before cr c)"
  "list_all (\<lambda>f. supported (snd f)) (Consent_fields_after cr c)"
  by (simp_all add: Consent_fields_before_def Consent_fields_after_def ConsentConditions_json_def
      split: option.split)

interpretation consent_doc: marshalled_document cr
  "\<lambda>c. Consent_json cr (c\<lparr>c_Signature := None\<rparr>)" c_Grantor c_Signature
  "\<lambda>s c. c\<lparr>c_Signature := s\<rparr>" "Consent_Sign cr" "Consent_Verify cr" for cr
  by unfold_locales
    (auto simp: Consent_Sign_def Consent_Verify_def Let_def Consent_json_def supported_Consent_fields
      split: option.splits sum.splits)

interpretation consents: id_index cm_Consents "\<lambda>cm. slot (cm_ByGrantee cm)" c_ID c_Grantee consent_add
  by unfold_locales (simp_all add: consent_add_def)

lemma consents_indexed_new: "consents.indexed (NewConsentManager owner)"
  by (rule consents.indexed_empty) (simp_all add: NewConsentManager_def)

section \<open>Cases of the operations\<close>

lemma consent_prepare_keeps [simp]:
  "c_Grantor (consent_prepare cr c) = c_Grantor c" "c_Grantee (consent_prepare cr c) = c_Grantee c"
  "c_Type (consent_prepare cr c) = c_Type c" "c_StreamID (consent_prepare cr c) = c_StreamID c"
  "c_Expiry (consent_prepare cr c) = c_Expiry c" "c_Revoked (consent_prepare cr c) = c_Revoked c"
  "c_MaxUses (consent_prepare cr c) = c_MaxUses c" "c_Conditions (consent_prepare cr c) = c_Conditions c"
  by (simp_all add: consent_prepare_def Consent_GenerateID_def Let_def)

lemma consent_prepare_uses:
  "c_MaxUses c > 0 \<Longrightarrow> c_UsesRemaining (consent_prepare cr c) = c_MaxUses c"
  by (simp add: consent_prepare_def Consent_GenerateID_def Let_def)

lemma Grant_succeeds:
  assumes "ConsentManager_Grant cr key c cm = ((c', cm'), None)"
  shows "c_Grantor c = cm_Owner cm \<and> Consent_Sign cr key (consent_prepare cr c) = (c', None)
    \<and> cm' = consent_add c' cm"
  using assms by (auto simp: ConsentManager_Grant_def split: if_splits prod.splits option.splits)

lemma Grant_consent:
  assumes "ConsentManager_Grant cr key c cm = ((c', cm'), None)"
  obtains sig where "c' = (consent_prepare cr c)\<lparr>c_Signature := Some sig\<rparr>"
  using Grant_succeeds [OF assms] by (auto elim: consent_doc.sign_succeeded_cases)

lemma Use_succeeds:
  "Consent_Use cr now c = (c', None) \<longleftrightarrow> Consent_IsValid cr now c \<and>
     c' = (if c_MaxUses c > 0 then c\<lparr>c_UsesRemaining := wrap64 (c_UsesRemaining c - 1)\<rparr> else c)"
  by (auto simp: Consent_Use_def)

lemma ValidateAndUse_failed_unchanged:
  "failed (ConsentManager_ValidateAndUse cr now now' p cm) \<Longrightarrow>
     fst (ConsentManager_ValidateAndUse cr now now' p cm) = cm"
proof (cases "cm_Consents cm (cp_ConsentID p)")
  case (Some c)
  obtain g v c' e where "ConsentProof_Verify cr p = (g, v)" "Consent_Use cr now' c = (c', e)"
    by fastforce
  with Some show "failed (ConsentManager_ValidateAndUse cr now now' p cm) \<Longrightarrow>
      fst (ConsentManager_ValidateAndUse cr now now' p cm) = cm"
    by (cases e) (auto simp: ConsentManager_ValidateAndUse_def)
qed (simp add: ConsentManager_ValidateAndUse_def)

definition usage_entry :: "ConsentProof \<Rightarrow> address \<Rightarrow> ConsentUsageEntry" where
  "usage_entry p grantee =
     \<lparr>cu_ConsentID = cp_ConsentID p, cu_Grantee = grantee, cu_Operation = cp_Operation p,
      cu_Target = cp_Target p, cu_Timestamp = cp_Timestamp p, cu_Reason = cp_Reason p\<rparr>"

lemma ValidateAndUse_succeeds:
  assumes "ConsentManager_ValidateAndUse cr now now' p cm = (cm', None)"
  obtains c c' where "cm_Consents cm (cp_ConsentID p) = Some c"
    "ConsentProof_Verify cr p = (c_Grantee c, True)" "Consent_IsValid cr now c"
    "cp_Operation p = c_Type c" "Consent_Use cr now' c = (c', None)"
    "\<And>cs. c_Conditions c = Some cs \<Longrightarrow> cc_RequireReason cs \<Longrightarrow> cp_Reason p \<noteq> []"
    "cm' = cm\<lparr>cm_Consents := (cm_Consents cm)(cp_ConsentID p \<mapsto> c'),
              cm_UsageLog := cm_UsageLog cm @ [usage_entry p (c_Grantee c)]\<rparr>"
proof -
  from assms obtain c where c: "cm_Consents cm (cp_ConsentID p) = Some c"
    by (cases "cm_Consents cm (cp_ConsentID p)") (auto simp: ConsentManager_ValidateAndUse_def)
  obtain g v c' e where gv: "ConsentProof_Verify cr p = (g, v)" and use: "Consent_Use cr now' c = (c', e)"
    by fastforce
  note def = ConsentManager_ValidateAndUse_def c gv use
  have "v" "g = c_Grantee c" "Consent_IsValid cr now c" "cp_Operation p = c_Type c" "e = None"
    using assms by (auto simp: def split: if_splits option.splits)
  moreover have "cp_Reason p \<noteq> []" if "c_Conditions c = Some cs" "cc_RequireReason cs" for cs
    using assms that by (auto simp: def split: if_splits option.splits)
  moreover from calculation have "cm' = cm\<lparr>cm_Consents := (cm_Consents cm)(cp_ConsentID p \<mapsto> c'),
              cm_UsageLog := cm_UsageLog cm @ [usage_entry p (c_Grantee c)]\<rparr>"
    using assms by (auto simp: def usage_entry_def split: if_splits option.splits)
  ultimately show thesis
    by (intro that [of c c']) (simp_all add: c gv use)
qed

section \<open>Runs of the manager\<close>

text \<open>
  The steps of a manager and the consents they grant: a successful grant, which replaces whatever
  consent its identifier stood for, a revocation or a use with any clock readings. Failed grants leave
  the manager as it was.
\<close>

inductive consent_step :: "('sk, 'pk) crypto \<Rightarrow> ConsentManager \<Rightarrow> Consent list \<Rightarrow> ConsentManager \<Rightarrow> bool" for cr where
  grant: "in_int64 (c_MaxUses c) \<Longrightarrow> ConsentManager_Grant cr key c cm = ((c', cm'), None) \<Longrightarrow> consent_step cr cm [c'] cm'"
| revoke: "consent_step cr cm [] (fst (ConsentManager_Revoke now i cm))"
| use: "consent_step cr cm [] (fst (ConsentManager_ValidateAndUse cr now now' p cm))"

abbreviation consent_run :: "('sk, 'pk) crypto \<Rightarrow> address \<Rightarrow> Consent list \<Rightarrow> ConsentManager \<Rightarrow> bool" where
  "consent_run cr owner \<equiv> issuing_run (consent_step cr) (NewConsentManager owner)"

definition uses_logged :: "hash32 \<Rightarrow> ConsentManager \<Rightarrow> int" where
  "uses_logged i cm = int (length (filter (\<lambda>e. cu_ConsentID e = i) (cm_UsageLog cm)))"

definition consent_ok :: "Consent \<Rightarrow> int \<Rightarrow> bool" where
  "consent_ok c used \<longleftrightarrow> in_int64 (c_MaxUses c) \<and>
     (c_MaxUses c > 0 \<longrightarrow> 0 \<le> c_UsesRemaining c \<and> c_UsesRemaining c \<le> c_MaxUses c \<and>
        used = c_MaxUses c - c_UsesRemaining c)"

definition consents_inv :: "ConsentManager \<Rightarrow> bool" where
  "consents_inv cm \<longleftrightarrow> consents.indexed cm \<and>
     (\<forall>i c. cm_Consents cm i = Some c \<longrightarrow> consent_ok c (uses_logged i cm)) \<and>
     (\<forall>e\<in>set (cm_UsageLog cm). cm_Consents cm (cu_ConsentID e) \<noteq> None)"

lemma consents_inv_new: "consents_inv (NewConsentManager owner)"
  using consents_indexed_new by (simp add: consents_inv_def NewConsentManager_def)

lemma uses_logged_fresh:
  "consents_inv cm \<Longrightarrow> cm_Consents cm i = None \<Longrightarrow> uses_logged i cm = 0"
  by (auto simp: consents_inv_def uses_logged_def filter_empty_conv)

lemma Grant_keeps_inv:
  assumes inv: "consents_inv cm" and "in_int64 (c_MaxUses c)"
    and grant: "ConsentManager_Grant cr key c cm = ((c', cm'), None)" and fresh: "cm_Consents cm (c_ID c') = None"
  shows "consents_inv cm'"
proof -
  obtain sig where c': "c' = (consent_prepare cr c)\<lparr>c_Signature := Some sig\<rparr>"
    by (rule Grant_consent [OF grant])
  have cm': "cm' = consent_add c' cm"
    using Grant_succeeds [OF grant] by simp
  have "consents.indexed cm'"
    using inv fresh cm' consents.indexed_add by (simp add: consents_inv_def)
  moreover have "consent_ok c' (uses_logged (c_ID c') cm)"
    using assms(2) uses_logged_fresh [OF inv fresh]
    by (simp add: consent_ok_def c' consent_prepare_uses)
  ultimately show ?thesis
    using inv by (auto simp: consents_inv_def cm' consent_add_def uses_logged_def)
qed

lemma Revoke_keeps_inv:
  assumes inv: "consents_inv cm"
  shows "consents_inv (fst (ConsentManager_Revoke now i cm))"
proof (cases "cm_Consents cm i")
  case (Some c)
  let ?cm = "cm\<lparr>cm_Consents := (cm_Consents cm)(i \<mapsto> Consent_Revoke now c)\<rparr>"
  have "consents.indexed ?cm"
    by (rule consents.indexed_update [where s = cm and v = c])
      (use inv Some in \<open>auto simp: consents_inv_def Consent_Revoke_def dest: consents.objects_ident\<close>)
  with inv Some show ?thesis
    by (auto simp: consents_inv_def ConsentManager_Revoke_def Consent_Revoke_def consent_ok_def uses_logged_def)
qed (simp add: ConsentManager_Revoke_def inv)

lemma Use_keeps_ok:
  assumes "consent_ok c used" and "Consent_Use cr now c = (c', None)"
  shows "consent_ok c' (if c_MaxUses c > 0 then used + 1 else used)"
  using assms by (auto simp: Use_succeeds consent_ok_def Consent_IsValid_def in_int64_def split: if_splits)

lemma Use_keeps_key:
  assumes "Consent_Use cr now c = (c', None)"
  shows "c_ID c' = c_ID c \<and> c_Grantee c' = c_Grantee c \<and> c_MaxUses c' = c_MaxUses c"
  using assms by (auto simp: Use_succeeds split: if_splits)

lemma ValidateAndUse_keeps_inv:
  assumes inv: "consents_inv cm"
  shows "consents_inv (fst (ConsentManager_ValidateAndUse cr now now' p cm))"
proof (cases "ConsentManager_ValidateAndUse cr now now' p cm")
  case (Pair cm' e)
  show ?thesis
  proof (cases e)
    case (Some _)
    with Pair inv show ?thesis
      using ValidateAndUse_failed_unchanged [of cr now now' p cm] by simp
  next
    case None
    with Pair have "ConsentManager_ValidateAndUse cr now now' p cm = (cm', None)"
      by simp
    then obtain c c' where c: "cm_Consents cm (cp_ConsentID p) = Some c"
      and use: "Consent_Use cr now' c = (c', None)"
      and cm': "cm' = cm\<lparr>cm_Consents := (cm_Consents cm)(cp_ConsentID p \<mapsto> c'),
              cm_UsageLog := cm_UsageLog cm @ [usage_entry p (c_Grantee c)]\<rparr>"
      by (rule ValidateAndUse_succeeds)
    have "consents.indexed cm'"
      by (rule consents.indexed_update [where s = cm and v = c and v' = c' and i = "cp_ConsentID p"])
        (use inv c Use_keeps_key [OF use] in \<open>auto simp: consents_inv_def cm' dest: consents.objects_ident\<close>)
    moreover have logged: "uses_logged i cm' = uses_logged i cm + (if i = cp_ConsentID p then 1 else 0)" for i
      by (simp add: cm' uses_logged_def usage_entry_def)
    moreover have "consent_ok c' (uses_logged (cp_ConsentID p) cm + 1)"
      using inv c Use_keeps_ok [OF _ use] Use_keeps_key [OF use]
      by (fastforce simp: consents_inv_def consent_ok_def)
    moreover have "cm_UsageLog cm' = cm_UsageLog cm @ [usage_entry p (c_Grantee c)]"
      and "cm_Consents cm' = (cm_Consents cm)(cp_ConsentID p \<mapsto> c')"
      by (simp_all add: cm')
    ultimately have "consents_inv cm'"
      using inv by (simp add: consents_inv_def usage_entry_def)
    with Pair show ?thesis
      by simp
  qed
qed

lemma consent_step_dom: "consent_step cr cm gs cm' \<Longrightarrow> dom (cm_Consents cm') = dom (cm_Consents cm) \<union> c_ID ` set gs"
proof (induction rule: consent_step.induct)
  case (grant c key cm c' cm')
  then show ?case
    using Grant_succeeds [OF grant(2)] by (auto simp: consent_add_def dom_def)
next
  case (revoke cm now i)
  then show ?case
    by (auto simp: ConsentManager_Revoke_def split: option.splits if_splits)
next
  case (use cm now now' p)
  show ?case
  proof (cases "ConsentManager_ValidateAndUse cr now now' p cm")
    case (Pair cm' e)
    then show ?thesis
      using ValidateAndUse_failed_unchanged [of cr now now' p cm]
      by (cases e) (auto elim!: ValidateAndUse_succeeds split: if_splits)
  qed
qed

text \<open>While no identifier is granted twice, the index by grantee is exact.\<close>

lemma consent_run_inv:
  "consent_run cr owner gs cm \<Longrightarrow> distinct (map c_ID gs) \<Longrightarrow> consents_inv cm \<and> dom (cm_Consents cm) = c_ID ` set gs"
proof (induction "NewConsentManager owner" gs cm rule: issuing_run.induct)
  case none
  show ?case
    using consents_inv_new by (simp add: NewConsentManager_def)
next
  case (more gs cm hs cm')
  then have IH: "consents_inv cm" "dom (cm_Consents cm) = c_ID ` set gs" and new: "c_ID ` set hs \<inter> dom (cm_Consents cm) = {}"
    by (auto simp: disjoint_iff)
  have "dom (cm_Consents cm') = c_ID ` set (gs @ hs)"
    using consent_step_dom [OF more.hyps(3)] IH(2) by auto
  moreover from more.hyps(3) have "consents_inv cm'"
  proof cases
    case (grant c key c')
    then show ?thesis
      using Grant_keeps_inv [OF IH(1) grant(2,3)] new by (auto simp: domIff)
  qed (use IH(1) Revoke_keeps_inv ValidateAndUse_keeps_inv in auto)
  ultimately show ?case
    by simp
qed







lemma consent_step_revoked:
  assumes "consent_step cr cm gs cm'" and "cm_Consents cm i = Some c" and "c_Revoked c" and "i \<notin> c_ID ` set gs"
  shows "\<exists>c'. cm_Consents cm' i = Some c' \<and> c_Revoked c'"
  using assms(1)
proof cases
  case (grant d key d')
  with assms show ?thesis
    using Grant_succeeds [OF grant(3)] by (auto simp: consent_add_def)
next
  case (revoke now j)
  with assms show ?thesis
    by (auto simp: ConsentManager_Revoke_def Consent_Revoke_def split: option.splits)
next
  case (use now now' p)
  show ?thesis
  proof (cases "snd (ConsentManager_ValidateAndUse cr now now' p cm)")
    case (Some e)
    with assms use ValidateAndUse_failed_unchanged [of cr now now' p cm] show ?thesis
      by simp
  next
    case None
    then have "ConsentManager_ValidateAndUse cr now now' p cm = (cm', None)"
      by (simp add: use prod_eq_iff)
    then show ?thesis
      using assms by (elim ValidateAndUse_succeeds) (auto simp: Consent_IsValid_def)
  qed
qed

lemma consent_steps_revoked:
  assumes "issuing_run (consent_step cr) cm gs cm'" and "cm_Consents cm i = Some c" and "c_Revoked c" and "i \<notin> c_ID ` set gs"
  shows "\<exists>c'. cm_Consents cm' i = Some c' \<and> c_Revoked c'"
  by (rule issuing_run_invariant [OF assms(1)]) (use assms(2-4) consent_step_revoked in \<open>blast+\<close>)

lemma ValidateAndUse_invalid_fails:
  assumes "cm_Consents cm (cp_ConsentID p) = Some c" and "\<not> Consent_IsValid cr now c"
  shows "failed (ConsentManager_ValidateAndUse cr now now' p cm)"
proof
  assume "succeeded (ConsentManager_ValidateAndUse cr now now' p cm)"
  then obtain cm' where "ConsentManager_ValidateAndUse cr now now' p cm = (cm', None)"
    by (metis prod.collapse)
  then show False
    using assms by (elim ValidateAndUse_succeeds) auto
qed

lemma has_consent_loop_iff:
  "has_consent_loop cr now operation streamID cm ids \<longleftrightarrow>
     (\<exists>i\<in>set ids. \<exists>c. cm_Consents cm i = Some c \<and> Consent_IsValid cr now c \<and> c_Type c = operation \<and>
        (c_StreamID c = zero32 \<or> c_StreamID c = streamID))"
  by (induction ids) (auto split: option.splits)

section \<open>Properties\<close>

text \<open>
  C3: a use goes through only for the consent's own grantee: the proof's signature recovers
  the grantee, the consent is neither revoked nor expired nor spent and carries its grantor's
  signature, the operation is the consented one and a required reason is given. The use is
  appended to the log and no other consent changes; a refused use changes nothing.
\<close>

theorem ValidateAndUse_authorised:
  "let (cm', err) = ConsentManager_ValidateAndUse cr now now' p cm in
   (err \<noteq> None \<longrightarrow> cm' = cm) \<and>
   (err = None \<longrightarrow> (\<exists>c. cm_Consents cm (cp_ConsentID p) = Some c \<and>
      ConsentProof_Verify cr p = (c_Grantee c, True) \<and>
      \<not> c_Revoked c \<and> (c_Expiry c \<le> 0 \<or> max now now' \<le> c_Expiry c) \<and> Consent_Verify cr c \<and>
      (c_MaxUses c > 0 \<longrightarrow> c_UsesRemaining c > 0) \<and> cp_Operation p = c_Type c \<and>
      (\<forall>cs. c_Conditions c = Some cs \<and> cc_RequireReason cs \<longrightarrow> cp_Reason p \<noteq> []) \<and>
      cm_UsageLog cm' = cm_UsageLog cm @ [usage_entry p (c_Grantee c)] \<and>
      (\<forall>i. i \<noteq> cp_ConsentID p \<longrightarrow> cm_Consents cm' i = cm_Consents cm i)))"
proof (cases "ConsentManager_ValidateAndUse cr now now' p cm")
  case (Pair cm' err)
  show ?thesis
  proof (cases err)
    case (Some e)
    with Pair show ?thesis
      using ValidateAndUse_failed_unchanged [of cr now now' p cm] by simp
  next
    case None
    with Pair have "ConsentManager_ValidateAndUse cr now now' p cm = (cm', None)"
      by simp
    then show ?thesis
      by (elim ValidateAndUse_succeeds) (auto simp: Pair None Use_succeeds Consent_IsValid_def split: if_splits)
  qed
qed


text \<open>
  In every state a manager reaches without granting an identifier twice, \<open>HasConsent\<close> answers yes exactly when the manager
  holds a valid consent for that grantee, operation and stream (a consent for the zero stream
  covers every stream): the grantee index neither misses a consent nor lists another party's.
\<close>

theorem HasConsent_iff:
  assumes "consent_run cr owner gs cm" and "distinct (map c_ID gs)"
  shows "ConsentManager_HasConsent cr now grantee operation streamID cm \<longleftrightarrow>
    (\<exists>i c. cm_Consents cm i = Some c \<and> c_Grantee c = grantee \<and> c_Type c = operation \<and>
       (c_StreamID c = zero32 \<or> c_StreamID c = streamID) \<and> Consent_IsValid cr now c)"
proof -
  have "consents.indexed cm"
    using consent_run_inv [OF assms] by (simp add: consents_inv_def)
  then have "i \<in> set (slot (cm_ByGrantee cm) grantee) \<longleftrightarrow>
      (\<exists>c. cm_Consents cm i = Some c \<and> c_Grantee c = grantee)" for i
    by (rule consents.in_index_iff)
  then show ?thesis
    unfolding ConsentManager_HasConsent_def has_consent_loop_iff by (metis option.inject)
qed

text \<open>
  C5: revocation lasts. Once a revocation of a consent has succeeded, no later use under its identifier
  succeeds, at whatever time and after whatever further grants, revocations and uses, unless the
  owner has granted a consent under that same identifier since.
\<close>

theorem revoked_consent_never_used:
  assumes "ConsentManager_Revoke t (cp_ConsentID p) cm = (cm1, None)" and "issuing_run (consent_step cr) cm1 gs cm2"
    and "cp_ConsentID p \<notin> c_ID ` set gs"
  shows "failed (ConsentManager_ValidateAndUse cr now now' p cm2)"
proof -
  from assms(1) obtain c where "cm_Consents cm1 (cp_ConsentID p) = Some c" "c_Revoked c"
    by (auto simp: ConsentManager_Revoke_def Consent_Revoke_def split: option.splits)
  then obtain c' where c': "cm_Consents cm2 (cp_ConsentID p) = Some c'" "c_Revoked c'"
    using consent_steps_revoked [OF assms(2)] assms(3) by blast
  show ?thesis
    by (rule ValidateAndUse_invalid_fails [OF c'(1)]) (simp add: Consent_IsValid_def c'(2))
qed

subsection \<open>A use limit above one\<close>

text \<open>
  The signature covers \<open>uses_remaining\<close>, and a use decrements it without signing again. The
  texts a consent can take while only that counter changes:
\<close>

definition consent_texts :: "('sk, 'pk) crypto \<Rightarrow> Consent \<Rightarrow> bytes set" where
  "consent_texts cr c =
     {b. \<exists>n. json_bytes (Consent_json cr (c\<lparr>c_Signature := None, c_UsesRemaining := n\<rparr>)) = Some b}"

lemma Consent_update_swap:
  "c\<lparr>c_Signature := s, c_UsesRemaining := n\<rparr> = c\<lparr>c_UsesRemaining := n, c_Signature := s\<rparr>"
  by simp

lemma Consent_json_uses:
  "0 < n \<Longrightarrow> Consent_json cr (c\<lparr>c_UsesRemaining := n\<rparr>) =
     JObj (Consent_fields_before cr c @ (''uses_remaining'', JInt (int (nat n))) # Consent_fields_after cr c)"
  by (simp add: Consent_json_def Consent_fields_before_def Consent_fields_after_def omitempty_def)

lemma Consent_text_uses:
  assumes "0 < m" and "0 < n" and "m \<noteq> n"
  shows "json_marshal (Consent_json cr (c\<lparr>c_UsesRemaining := m\<rparr>)) \<noteq>
    json_marshal (Consent_json cr (c\<lparr>c_UsesRemaining := n\<rparr>))"
proof
  assume "json_marshal (Consent_json cr (c\<lparr>c_UsesRemaining := m\<rparr>)) =
    json_marshal (Consent_json cr (c\<lparr>c_UsesRemaining := n\<rparr>))"
  then have "nat m = nat n"
    unfolding Consent_json_uses [OF assms(1)] Consent_json_uses [OF assms(2)]
    by (rule marshal_JInt_field_inject [OF supported_Consent_fields])
  with assms show False
    by simp
qed

lemma used_consent_not_verified:
  assumes binds: "signature_binds cr" and inj: "inj_on (Keccak256 cr) (consent_texts cr c)"
    and sign: "Consent_Sign cr key c = (c', None)"
    and n: "0 < c_UsesRemaining c" "0 < n" "c_UsesRemaining c \<noteq> n"
  shows "\<not> Consent_Verify cr (c'\<lparr>c_UsesRemaining := n\<rparr>)"
proof (rule consent_doc.tampered_not_verified [OF binds sign])
  let ?c0 = "c\<lparr>c_Signature := None\<rparr>"
  obtain sig where c': "c' = c\<lparr>c_Signature := Some sig\<rparr>"
    using sign by (auto elim: consent_doc.sign_succeeded_cases)
  show "c_Signature (c'\<lparr>c_UsesRemaining := n\<rparr>) = c_Signature c'"
    and "c_Grantor (c'\<lparr>c_UsesRemaining := n\<rparr>) = c_Grantor c'"
    by simp_all
  have marshals: "\<exists>s. json_marshal (Consent_json cr (?c0\<lparr>c_UsesRemaining := k\<rparr>)) = Some s" for k
    by (rule supported_marshals) (simp add: Consent_json_def supported_Consent_fields)
  obtain s t where st: "json_marshal (Consent_json cr (?c0\<lparr>c_UsesRemaining := c_UsesRemaining c\<rparr>)) = Some s"
    "json_marshal (Consent_json cr (?c0\<lparr>c_UsesRemaining := n\<rparr>)) = Some t"
    using marshals by blast
  have "s \<noteq> t"
    using Consent_text_uses [OF n, of cr ?c0] st by simp
  moreover have "bytes_of_string s \<in> consent_texts cr c" "bytes_of_string t \<in> consent_texts cr c"
    using st unfolding consent_texts_def json_bytes_def mem_Collect_eq by (metis option.map(2))+
  ultimately have "Keccak256 cr (bytes_of_string t) \<noteq> Keccak256 cr (bytes_of_string s)"
    using inj_onD [OF inj] by (metis bytes_of_string_inject)
  then show "hash_json cr (Consent_json cr (c'\<lparr>c_UsesRemaining := n, c_Signature := None\<rparr>)) \<noteq>
      hash_json cr (Consent_json cr (c\<lparr>c_Signature := None\<rparr>))"
    using st by (simp add: hash_json_def json_bytes_def c' Consent_update_swap)
qed

text \<open>
  A consent granted for more than one use works only once. The first use changes the
  counter the grantor's signature covers, so the consent no longer verifies and every further
  use of it is refused, although uses remain.
\<close>

theorem limited_consent_spent_after_one_use:
  assumes "signature_binds cr" and "inj_on (Keccak256 cr) (consent_texts cr c')"
    and grant: "ConsentManager_Grant cr key c cm = ((c', cm1), None)"
    and limit: "1 < c_MaxUses c" "in_int64 (c_MaxUses c)"
    and use: "ConsentManager_ValidateAndUse cr now now' p cm1 = (cm2, None)" and "cp_ConsentID p = c_ID c'"
    and "cp_ConsentID q = c_ID c'"
  shows "failed (ConsentManager_ValidateAndUse cr t t' q cm2) \<and>
    (\<exists>d. cm_Consents cm2 (c_ID c') = Some d \<and> c_UsesRemaining d = c_MaxUses c - 1)"
proof -
  obtain sig where c': "c' = (consent_prepare cr c)\<lparr>c_Signature := Some sig\<rparr>"
    by (rule Grant_consent [OF grant])
  have sign: "Consent_Sign cr key (consent_prepare cr c) = (c', None)" and cm1: "cm1 = consent_add c' cm"
    using Grant_succeeds [OF grant] by simp_all
  have uses: "c_UsesRemaining (consent_prepare cr c) = c_MaxUses c" "c_UsesRemaining c' = c_MaxUses c" "c_MaxUses c' = c_MaxUses c"
    using limit by (simp_all add: consent_prepare_uses c')
  let ?d = "c'\<lparr>c_UsesRemaining := c_MaxUses c - 1\<rparr>"
  have "in_int64 (c_MaxUses c - 1)"
    using limit by (simp add: in_int64_def)
  then have d: "cm_Consents cm2 (c_ID c') = Some ?d"
    using use assms(7) limit uses
    by (elim ValidateAndUse_succeeds) (auto simp: cm1 consent_add_def Use_succeeds)
  have "consent_texts cr (consent_prepare cr c) = consent_texts cr c'"
    by (simp add: consent_texts_def c')
  then have "\<not> Consent_Verify cr ?d"
    using used_consent_not_verified [OF assms(1) _ sign, of "c_MaxUses c - 1"] assms(2) limit uses by simp
  then have "failed (ConsentManager_ValidateAndUse cr t t' q cm2)"
    using d assms(8) by (intro ValidateAndUse_invalid_fails [of cm2 q ?d]) (simp_all add: Consent_IsValid_def)
  with d show ?thesis
    by simp
qed

subsection \<open>Granting and using\<close>

lemma ConsentProof_sign_verify:
  assumes "signature_recovers cr" and "ConsentProof_Sign cr key p = (p', None)"
  shows "ConsentProof_Verify cr p' = (key_address cr key, True) \<and> (\<exists>s. p' = p\<lparr>cp_Signature := s\<rparr>)"
  using assms sign_body_recovers [OF assms(1)]
  by (fastforce simp: ConsentProof_Sign_def ConsentProof_Verify_def Let_def split: sum.splits)

lemma ValidateAndUse_accepts:
  assumes "cm_Consents cm (cp_ConsentID p) = Some c" and "ConsentProof_Verify cr p = (c_Grantee c, True)"
    and "Consent_IsValid cr now c" and "Consent_IsValid cr now' c" and "cp_Operation p = c_Type c"
    and "\<And>cs. c_Conditions c = Some cs \<Longrightarrow> cc_RequireReason cs \<Longrightarrow> cp_Reason p \<noteq> []"
  shows "succeeded (ConsentManager_ValidateAndUse cr now now' p cm)"
  using assms by (auto simp: ConsentManager_ValidateAndUse_def Consent_Use_def split: option.splits)

lemma Grant_valid:
  assumes "signature_recovers cr" and grant: "ConsentManager_Grant cr key c cm = ((c', cm1), None)"
    and "\<not> c_Revoked c" and "c_Expiry c \<le> 0 \<or> now \<le> c_Expiry c"
  shows "Consent_IsValid cr now c'"
proof -
  obtain sig where "c' = (consent_prepare cr c)\<lparr>c_Signature := Some sig\<rparr>"
    by (rule Grant_consent [OF grant])
  moreover have "Consent_Verify cr c'"
    using Grant_succeeds [OF grant] consent_doc.sign_then_verify [OF assms(1)] by blast
  ultimately show ?thesis
    using assms consent_prepare_uses [of c cr] by (auto simp: Consent_IsValid_def)
qed

text \<open>
  A granted consent can be used: after a successful grant of an unrevoked consent, a proof
  the grantee signs for it, naming the consented operation and a reason where one is required, is
  accepted until the consent expires.
\<close>

theorem granted_consent_usable:
  assumes "signature_recovers cr"
    and grant: "ConsentManager_Grant cr key c cm = ((c', cm1), None)"
    and "\<not> c_Revoked c" and "c_Expiry c \<le> 0 \<or> max now now' \<le> c_Expiry c"
    and sign: "ConsentProof_Sign cr gkey p = (p', None)" and "key_address cr gkey = c_Grantee c"
    and "cp_ConsentID p = c_ID c'" and "cp_Operation p = c_Type c"
    and reason: "\<And>cs. c_Conditions c = Some cs \<Longrightarrow> cc_RequireReason cs \<Longrightarrow> cp_Reason p \<noteq> []"
  shows "succeeded (ConsentManager_ValidateAndUse cr now now' p' cm1)"
proof -
  obtain sig where c': "c' = (consent_prepare cr c)\<lparr>c_Signature := Some sig\<rparr>"
    by (rule Grant_consent [OF grant])
  have valid: "Consent_IsValid cr t c'" if "t = now \<or> t = now'" for t
    using that assms(3,4) by (intro Grant_valid [OF assms(1) grant]) auto
  have "cm_Consents cm1 (c_ID c') = Some c'"
    using Grant_succeeds [OF grant] by (simp add: consent_add_def)
  moreover obtain s where "p' = p\<lparr>cp_Signature := s\<rparr>" "ConsentProof_Verify cr p' = (c_Grantee c, True)"
    using ConsentProof_sign_verify [OF assms(1) sign] assms(6) by auto
  moreover have "c_Grantee c' = c_Grantee c" "c_Type c' = c_Type c" "c_Conditions c' = c_Conditions c"
    by (simp_all add: c')
  ultimately show ?thesis
    using valid [of now] valid [of now'] assms(7,8) reason
    by (intro ValidateAndUse_accepts [where c = c']) (simp_all, metis)
qed

section \<open>Witnesses\<close>

definition demo_consent :: Consent where
  "demo_consent = \<lparr>c_ID = [9], c_Type = ConsentRead, c_Grantor = [1], c_Grantee = [2], c_StreamID = zero32,
     c_SourceLayer = [], c_TargetLayer = [], c_Created = 5, c_Expiry = 0, c_MaxUses = 3, c_UsesRemaining = 0,
     c_Conditions = None, c_Revoked = False, c_RevokedAt = 0, c_Signature = None\<rparr>"

definition demo_granted :: Consent where
  "demo_granted = fst (Consent_Sign demo_crypto [1] (consent_prepare demo_crypto demo_consent))"

definition demo_cm :: ConsentManager where
  "demo_cm = consent_add demo_granted (NewConsentManager [1])"

definition demo_use :: ConsentProof where
  "demo_use = fst (ConsentProof_Sign demo_crypto [2]
     \<lparr>cp_ConsentID = [9], cp_Operation = ConsentRead, cp_Target = zero32, cp_Timestamp = 7, cp_Reason = [],
      cp_Signature = None\<rparr>)"

lemma demo_consent_id: "[9] \<noteq> zero32"
  by (auto dest: arg_cong [where f = length])

lemma demo_granted_eq: "\<exists>sig. demo_granted = demo_consent\<lparr>c_UsesRemaining := 3, c_Signature := Some sig\<rparr>
    \<and> Consent_Sign demo_crypto [1] (consent_prepare demo_crypto demo_consent) = (demo_granted, None)"
  using consent_doc.sign_complete [of demo_crypto "[1]" "consent_prepare demo_crypto demo_consent"]
    demo_consent_id
  by (simp add: demo_granted_def consent_prepare_def demo_consent_def)

lemma demo_grant: "ConsentManager_Grant demo_crypto [1] demo_consent (NewConsentManager [1]) = ((demo_granted, demo_cm), None)"
  using demo_granted_eq by (auto simp: ConsentManager_Grant_def NewConsentManager_def demo_cm_def demo_consent_def)

lemma demo_use_signed: "ConsentProof_Sign demo_crypto [2]
     \<lparr>cp_ConsentID = [9], cp_Operation = ConsentRead, cp_Target = zero32, cp_Timestamp = 7, cp_Reason = [],
      cp_Signature = None\<rparr> = (demo_use, None)"
proof -
  let ?p = "\<lparr>cp_ConsentID = [9], cp_Operation = ConsentRead, cp_Target = zero32, cp_Timestamp = 7, cp_Reason = [],
      cp_Signature = None\<rparr>"
  have "supported (ConsentProof_json ?p)"
    by (simp add: ConsentProof_json_def)
  then have "sign_body demo_crypto [2] (ConsentProof_json ?p) = Inr (1 # [2] @ hash_json demo_crypto (ConsentProof_json ?p))"
    by (rule sign_body_total) simp
  then show ?thesis
    by (simp add: demo_use_def ConsentProof_Sign_def)
qed

lemma demo_use_fields:
  "ConsentProof_Verify demo_crypto demo_use = ([2], True) \<and> cp_ConsentID demo_use = [9] \<and>
   cp_Operation demo_use = ConsentRead"
proof -
  obtain s where use: "demo_use = \<lparr>cp_ConsentID = [9], cp_Operation = ConsentRead, cp_Target = zero32,
      cp_Timestamp = 7, cp_Reason = [], cp_Signature = s\<rparr>"
    and verify: "ConsentProof_Verify demo_crypto demo_use = ([2], True)"
    using ConsentProof_sign_verify [OF demo_crypto_recovers demo_use_signed] by auto
  have "cp_ConsentID demo_use = [9] \<and> cp_Operation demo_use = ConsentRead"
    unfolding use by simp
  with verify show ?thesis
    by simp
qed

lemma demo_granted_fields:
  "c_ID demo_granted = [9] \<and> c_Grantee demo_granted = [2] \<and> c_Type demo_granted = ConsentRead \<and>
   c_StreamID demo_granted = zero32 \<and> c_MaxUses demo_granted = 3 \<and> c_Conditions demo_granted = None"
proof -
  obtain sig where granted: "demo_granted = demo_consent\<lparr>c_UsesRemaining := 3, c_Signature := Some sig\<rparr>"
    using demo_granted_eq by blast
  show ?thesis
    unfolding granted by (simp add: demo_consent_def)
qed

lemma demo_cm_consent: "cm_Consents demo_cm [9] = Some demo_granted"
  by (simp add: demo_cm_def consent_add_def demo_granted_fields)

lemma demo_granted_valid: "Consent_IsValid demo_crypto t demo_granted"
  by (rule Grant_valid [OF demo_crypto_recovers demo_grant]) (simp_all add: demo_consent_def)

lemma demo_use_accepted: "succeeded (ConsentManager_ValidateAndUse demo_crypto 6 6 demo_use demo_cm)"
  using demo_use_fields demo_granted_fields demo_cm_consent demo_granted_valid
  by (intro ValidateAndUse_accepts [where c = demo_granted]) simp_all

lemma demo_run: "consent_run demo_crypto [1] [demo_granted] demo_cm"
  by (rule issuing_run_one, rule consent_step.grant [OF _ demo_grant]) (simp add: in_int64_def demo_consent_def)

theorem granted_consent_usable_witness:
  "succeeded (ConsentManager_ValidateAndUse demo_crypto 6 6 demo_use demo_cm)"
  by (rule granted_consent_usable [OF demo_crypto_recovers demo_grant _ _ demo_use_signed])
    (simp_all add: demo_granted_fields, simp_all add: demo_consent_def)


theorem HasConsent_iff_witness: "ConsentManager_HasConsent demo_crypto 6 [2] ConsentRead [4] demo_cm"
  using HasConsent_iff [OF demo_run, of 6] demo_cm_consent demo_granted_fields demo_granted_valid by (metis distinct_singleton list.simps(8,9))

theorem revoked_consent_never_used_witness:
  "failed (ConsentManager_ValidateAndUse demo_crypto 8 8 demo_use (fst (ConsentManager_Revoke 7 [9] demo_cm)))"
  using revoked_consent_never_used [of 7 demo_use demo_cm _ demo_crypto "[]", OF _ issuing_run.none, of _ 8 8]
  by (simp add: demo_use_fields ConsentManager_Revoke_def demo_cm_consent)

theorem limited_consent_spent_after_one_use_witness:
  "failed (ConsentManager_ValidateAndUse demo_crypto 7 7 demo_use
     (fst (ConsentManager_ValidateAndUse demo_crypto 6 6 demo_use demo_cm)))"
proof -
  obtain cm2 where cm2: "ConsentManager_ValidateAndUse demo_crypto 6 6 demo_use demo_cm = (cm2, None)"
    using demo_use_accepted by (metis prod.collapse)
  have "inj_on (Keccak256 demo_crypto) (consent_texts demo_crypto demo_granted)"
    by (simp add: demo_crypto_def inj_on_def)
  then show ?thesis
    using limited_consent_spent_after_one_use [OF demo_crypto_binds _ demo_grant _ _ cm2, of demo_use 7 7]
    by (simp add: cm2 demo_use_fields demo_granted_fields demo_consent_def in_int64_def)
qed

theorem ValidateAndUse_authorised_witness:
  "cm_UsageLog (fst (ConsentManager_ValidateAndUse demo_crypto 6 6 demo_use demo_cm)) = [usage_entry demo_use [2]]"
proof -
  obtain cm2 where cm2: "ConsentManager_ValidateAndUse demo_crypto 6 6 demo_use demo_cm = (cm2, None)"
    using demo_use_accepted by (metis prod.collapse)
  have "cm_UsageLog demo_cm = []"
    by (simp add: demo_cm_def consent_add_def NewConsentManager_def)
  then show ?thesis
    using ValidateAndUse_authorised [of demo_crypto 6 6 demo_use demo_cm]
    by (auto simp add: cm2 demo_use_fields demo_cm_consent demo_granted_fields)
qed

end
