(* ===== verification/Delegation.thy ===== *)
theory Delegation
  imports Rights Consent
begin

text \<open>
  Delegations (\<open>identity/delegation.go\<close>): signed, scoped and rate-limited delegations of a
  right that can be passed on a bounded number of times, and the manager that keeps the tree of
  sub-delegations.

  \<open>canRevoke\<close>, \<open>revokeSubDelegations\<close> and the loop of \<open>GetDelegationChain\<close> follow parent
  and child links with no bound of their own: they are partial functions, \<open>None\<close> where the Go
  code never returns. Clock readings are arguments, one for each call of \<open>time.Now\<close>; the time
  stamped on delegation \<open>i\<close> when it is revoked is \<open>stamp i\<close>.
\<close>

section \<open>Data\<close>

record DelegationScope =
  ds_AllowedOperations :: "string list option"
  ds_ReadOnly :: bool
  ds_LayerRestriction :: "string list"
  ds_MaxDataSize :: int64

record DelegationPolicy =
  dp_RequireReason :: bool
  dp_NotifyDelegator :: bool
  dp_RateLimitPerHour :: int
  dp_RateLimitPerDay :: int
  dp_AllowSubDelegation :: bool
  dp_SubDelegationRequiresApproval :: bool
  dp_InheritPolicyToSubDelegates :: bool
  dp_RevokeOnCompromise :: bool

record Delegation =
  d_ID :: hash32
  d_Delegator :: address
  d_Delegate :: address
  d_RightType :: string
  d_StreamID :: hash32
  d_Scope :: DelegationScope
  d_Depth :: int
  d_CurrentDepth :: int
  d_ParentDelegation :: hash32
  d_Created :: int64
  d_ValidFrom :: int64
  d_ValidUntil :: int64
  d_Policy :: DelegationPolicy
  d_Revoked :: bool
  d_RevokedAt :: int64
  d_RevokedBy :: address
  d_Signature :: slice

record UsageTracker =
  ut_HourlyUses :: int
  ut_DailyUses :: int
  ut_HourlyReset :: int64
  ut_DailyReset :: int64

record DelegationManager =
  dm_Owner :: address
  dm_Delegations :: "hash32 \<Rightarrow> Delegation option"
  dm_DelegationsGiven :: "address \<Rightarrow> hash32 list option"
  dm_DelegationsReceived :: "address \<Rightarrow> hash32 list option"
  dm_DelegationChains :: "hash32 \<Rightarrow> hash32 list option"
  dm_UsageTracking :: "hash32 \<Rightarrow> UsageTracker option"

definition DelegationScope_json :: "DelegationScope \<Rightarrow> json" where
  "DelegationScope_json s = JObj (
     [(''allowed_operations'', case ds_AllowedOperations s of None \<Rightarrow> JNull | Some ops \<Rightarrow> JArr (map JStr ops))]
     @ omitempty (\<not> ds_ReadOnly s) ''read_only'' (JBool (ds_ReadOnly s))
     @ omitempty (ds_LayerRestriction s = []) ''layer_restriction'' (JArr (map JStr (ds_LayerRestriction s)))
     @ omitempty (ds_MaxDataSize s = 0) ''max_data_size'' (JInt (ds_MaxDataSize s)))"

definition DelegationPolicy_json :: "DelegationPolicy \<Rightarrow> json" where
  "DelegationPolicy_json p = JObj (
     omitempty (\<not> dp_RequireReason p) ''require_reason'' (JBool (dp_RequireReason p))
     @ omitempty (\<not> dp_NotifyDelegator p) ''notify_delegator'' (JBool (dp_NotifyDelegator p))
     @ omitempty (dp_RateLimitPerHour p = 0) ''rate_limit_per_hour'' (JInt (dp_RateLimitPerHour p))
     @ omitempty (dp_RateLimitPerDay p = 0) ''rate_limit_per_day'' (JInt (dp_RateLimitPerDay p))
     @ omitempty (\<not> dp_AllowSubDelegation p) ''allow_sub_delegation'' (JBool (dp_AllowSubDelegation p))
     @ omitempty (\<not> dp_SubDelegationRequiresApproval p) ''sub_delegation_requires_approval''
         (JBool (dp_SubDelegationRequiresApproval p))
     @ omitempty (\<not> dp_InheritPolicyToSubDelegates p) ''inherit_policy_to_sub_delegates''
         (JBool (dp_InheritPolicyToSubDelegates p))
     @ omitempty (\<not> dp_RevokeOnCompromise p) ''revoke_on_compromise'' (JBool (dp_RevokeOnCompromise p)))"

definition Delegation_json :: "('sk, 'pk) crypto \<Rightarrow> Delegation \<Rightarrow> json" where
  "Delegation_json cr d = JObj (
     [(''id'', JBytes (d_ID d)), (''delegator'', JAddr cr (d_Delegator d)), (''delegate'', JAddr cr (d_Delegate d)),
      (''right_type'', JStr (d_RightType d)), (''stream_id'', JBytes (d_StreamID d)),
      (''scope'', DelegationScope_json (d_Scope d)), (''depth'', JInt (d_Depth d)),
      (''current_depth'', JInt (d_CurrentDepth d)), (''parent_delegation'', JBytes (d_ParentDelegation d)),
      (''created'', JInt (d_Created d)), (''valid_from'', JInt (d_ValidFrom d))]
     @ omitempty (d_ValidUntil d = 0) ''valid_until'' (JInt (d_ValidUntil d))
     @ [(''policy'', DelegationPolicy_json (d_Policy d)), (''revoked'', JBool (d_Revoked d))]
     @ omitempty (d_RevokedAt d = 0) ''revoked_at'' (JInt (d_RevokedAt d))
     @ [(''revoked_by'', JAddr cr (d_RevokedBy d)), (''signature'', JSlice (d_Signature d))])"

section \<open>Delegation operations\<close>

definition Delegation_GenerateID :: "('sk, 'pk) crypto \<Rightarrow> Delegation \<Rightarrow> Delegation" where
  "Delegation_GenerateID cr d = d\<lparr>d_ID := hash_json cr (JObj
     [(''Delegator'', JAddr cr (d_Delegator d)), (''Delegate'', JAddr cr (d_Delegate d)),
      (''RightType'', JStr (d_RightType d)), (''StreamID'', JBytes (d_StreamID d)),
      (''Created'', JInt (d_Created d))])\<rparr>"

definition Delegation_Sign :: "('sk, 'pk) crypto \<Rightarrow> 'sk \<Rightarrow> Delegation \<Rightarrow> Delegation outcome" where
  "Delegation_Sign cr key d =
     (if key_address cr key \<noteq> d_Delegator d then (d, Some (Errorf ''signer is not delegator''))
      else let d0 = d\<lparr>d_Signature := None\<rparr> in
        case sign_body cr key (Delegation_json cr d0) of
          Inl e \<Rightarrow> (d0, Some e)
        | Inr sig \<Rightarrow> (d0\<lparr>d_Signature := Some sig\<rparr>, None))"

definition Delegation_Verify :: "('sk, 'pk) crypto \<Rightarrow> Delegation \<Rightarrow> bool" where
  "Delegation_Verify cr d =
     (case d_Signature d of
        None \<Rightarrow> False
      | Some sig \<Rightarrow> if sig = [] then False
          else recover_body cr (Delegation_json cr (d\<lparr>d_Signature := None\<rparr>)) sig = Some (d_Delegator d))"

definition Delegation_IsValid :: "('sk, 'pk) crypto \<Rightarrow> int64 \<Rightarrow> Delegation \<Rightarrow> bool" where
  "Delegation_IsValid cr now d =
     (if d_Revoked d then False
      else if now < d_ValidFrom d then False
      else if d_ValidUntil d > 0 \<and> now > d_ValidUntil d then False
      else Delegation_Verify cr d)"

definition CanSubDelegate :: "('sk, 'pk) crypto \<Rightarrow> int64 \<Rightarrow> Delegation \<Rightarrow> bool" where
  "CanSubDelegate cr now d =
     (if \<not> Delegation_IsValid cr now d then False
      else if \<not> dp_AllowSubDelegation (d_Policy d) then False
      else if d_Depth d \<le> 0 then False
      else True)"

definition empty_policy :: DelegationPolicy where
  "empty_policy = \<lparr>dp_RequireReason = False, dp_NotifyDelegator = False, dp_RateLimitPerHour = 0,
     dp_RateLimitPerDay = 0, dp_AllowSubDelegation = False, dp_SubDelegationRequiresApproval = False,
     dp_InheritPolicyToSubDelegates = False, dp_RevokeOnCompromise = False\<rparr>"

definition Delegation_CreateSubDelegation ::
  "('sk, 'pk) crypto \<Rightarrow> int64 \<Rightarrow> int64 \<Rightarrow> address \<Rightarrow> int64 \<Rightarrow> Delegation \<Rightarrow> go_error + Delegation" where
  "Delegation_CreateSubDelegation cr t1 now delegate validUntil d =
     (if \<not> CanSubDelegate cr t1 d then Inl (Errorf ''delegation does not allow sub-delegation'')
      else
        let until = (if d_ValidUntil d > 0 \<and> (validUntil = 0 \<or> validUntil > d_ValidUntil d)
                     then d_ValidUntil d else validUntil)
        in Inr (Delegation_GenerateID cr
          \<lparr>d_ID = zero32, d_Delegator = d_Delegate d, d_Delegate = delegate, d_RightType = d_RightType d,
           d_StreamID = d_StreamID d, d_Scope = d_Scope d, d_Depth = wrap64 (d_Depth d - 1),
           d_CurrentDepth = wrap64 (d_CurrentDepth d + 1), d_ParentDelegation = d_ID d, d_Created = now,
           d_ValidFrom = now, d_ValidUntil = until,
           d_Policy = (if dp_InheritPolicyToSubDelegates (d_Policy d) then d_Policy d
                       else empty_policy\<lparr>dp_AllowSubDelegation := d_Depth d > 1\<rparr>),
           d_Revoked = False, d_RevokedAt = 0, d_RevokedBy = zero_address, d_Signature = None\<rparr>))"

definition Delegation_Revoke :: "int64 \<Rightarrow> address \<Rightarrow> Delegation \<Rightarrow> Delegation" where
  "Delegation_Revoke now revoker d = d\<lparr>d_Revoked := True, d_RevokedAt := now, d_RevokedBy := revoker\<rparr>"

section \<open>The manager\<close>

definition NewDelegationManager :: "address \<Rightarrow> DelegationManager" where
  "NewDelegationManager owner = \<lparr>dm_Owner = owner, dm_Delegations = Map.empty, dm_DelegationsGiven = Map.empty,
     dm_DelegationsReceived = Map.empty, dm_DelegationChains = Map.empty, dm_UsageTracking = Map.empty\<rparr>"

text \<open>The map updates both create operations share: the object, its two indexes and a fresh tracker.\<close>

definition delegation_add :: "UsageTracker \<Rightarrow> Delegation \<Rightarrow> DelegationManager \<Rightarrow> DelegationManager" where
  "delegation_add ut d dm = dm\<lparr>
     dm_Delegations := (dm_Delegations dm)(d_ID d \<mapsto> d),
     dm_DelegationsGiven := push (d_Delegator d) (d_ID d) (dm_DelegationsGiven dm),
     dm_DelegationsReceived := push (d_Delegate d) (d_ID d) (dm_DelegationsReceived dm),
     dm_UsageTracking := (dm_UsageTracking dm)(d_ID d \<mapsto> ut)\<rparr>"

definition new_tracker :: "int64 \<Rightarrow> int64 \<Rightarrow> UsageTracker" where
  "new_tracker t t' = \<lparr>ut_HourlyUses = 0, ut_DailyUses = 0, ut_HourlyReset = wrap64 (t + 3600),
     ut_DailyReset = wrap64 (t' + 86400)\<rparr>"

definition DelegationManager_CreateDelegation ::
  "('sk, 'pk) crypto \<Rightarrow> int64 \<Rightarrow> 'sk \<Rightarrow> address \<Rightarrow> string \<Rightarrow> hash32 \<Rightarrow> DelegationScope \<Rightarrow> int \<Rightarrow> int64
    \<Rightarrow> DelegationPolicy \<Rightarrow> DelegationManager \<Rightarrow> DelegationManager \<times> (go_error + Delegation)" where
  "DelegationManager_CreateDelegation cr now key delegate rightType streamID scope depth validUntil policy dm =
     (let d = Delegation_GenerateID cr
          \<lparr>d_ID = zero32, d_Delegator = key_address cr key, d_Delegate = delegate, d_RightType = rightType,
           d_StreamID = streamID, d_Scope = scope, d_Depth = depth, d_CurrentDepth = 0,
           d_ParentDelegation = zero32, d_Created = now, d_ValidFrom = now, d_ValidUntil = validUntil,
           d_Policy = policy, d_Revoked = False, d_RevokedAt = 0, d_RevokedBy = zero_address, d_Signature = None\<rparr>
      in case Delegation_Sign cr key d of
           (d', Some e) \<Rightarrow> (dm, Inl e)
         | (d', None) \<Rightarrow> (delegation_add (new_tracker now now) d' dm, Inr d'))"

definition DelegationManager_CreateSubDelegation ::
  "('sk, 'pk) crypto \<Rightarrow> int64 \<Rightarrow> int64 \<Rightarrow> int64 \<Rightarrow> int64 \<Rightarrow> 'sk \<Rightarrow> hash32 \<Rightarrow> address \<Rightarrow> int64
    \<Rightarrow> DelegationManager \<Rightarrow> DelegationManager \<times> (go_error + Delegation)" where
  "DelegationManager_CreateSubDelegation cr t1 t2 t3 t4 key parentID newDelegate validUntil dm =
     (case dm_Delegations dm parentID of
        None \<Rightarrow> (dm, Inl (Errorf ''parent delegation not found''))
      | Some parent \<Rightarrow>
          if key_address cr key \<noteq> d_Delegate parent
          then (dm, Inl (Errorf ''only the delegate can create sub-delegations''))
          else (case Delegation_CreateSubDelegation cr t1 t2 newDelegate validUntil parent of
            Inl e \<Rightarrow> (dm, Inl e)
          | Inr subDel \<Rightarrow>
              (case Delegation_Sign cr key subDel of
                 (d', Some e) \<Rightarrow> (dm, Inl e)
               | (d', None) \<Rightarrow>
                   (let dm' = delegation_add (new_tracker t3 t4) d' dm
                    in dm'\<lparr>dm_DelegationChains := push parentID (d_ID d') (dm_DelegationChains dm')\<rparr>, Inr d'))))"

partial_function (option) canRevoke :: "DelegationManager \<Rightarrow> Delegation \<Rightarrow> address \<Rightarrow> bool option" where
  "canRevoke dm d revoker =
     (if d_Delegator d = revoker then Some True
      else if d_ParentDelegation d \<noteq> zero32 then
        (case dm_Delegations dm (d_ParentDelegation d) of
           None \<Rightarrow> Some False
         | Some parent \<Rightarrow> canRevoke dm parent revoker)
      else Some False)"

definition revoke_at :: "(hash32 \<Rightarrow> int64) \<Rightarrow> address \<Rightarrow> hash32 \<Rightarrow> DelegationManager \<Rightarrow> DelegationManager" where
  "revoke_at stamp revoker i dm = dm\<lparr>dm_Delegations :=
     (dm_Delegations dm)(i := map_option (Delegation_Revoke (stamp i) revoker) (dm_Delegations dm i))\<rparr>"

text \<open>
  \<open>revokeSubDelegations\<close>: the loop over the children, with the recursive call for each child
  that exists.
\<close>

partial_function (option) revoke_children ::
  "(hash32 \<Rightarrow> int64) \<Rightarrow> address \<Rightarrow> hash32 list \<Rightarrow> DelegationManager \<Rightarrow> DelegationManager option" where
  "revoke_children stamp revoker children dm =
     (case children of
        [] \<Rightarrow> Some dm
      | childID # rest \<Rightarrow>
          (case dm_Delegations dm childID of
             None \<Rightarrow> revoke_children stamp revoker rest dm
           | Some child \<Rightarrow>
               Option.bind
                 (let dm' = revoke_at stamp revoker childID dm
                  in revoke_children stamp revoker (slot (dm_DelegationChains dm') childID) dm')
                 (revoke_children stamp revoker rest)))"

definition revokeSubDelegations ::
  "(hash32 \<Rightarrow> int64) \<Rightarrow> address \<Rightarrow> hash32 \<Rightarrow> DelegationManager \<Rightarrow> DelegationManager option" where
  "revokeSubDelegations stamp revoker parentID dm =
     revoke_children stamp revoker (slot (dm_DelegationChains dm) parentID) dm"

definition DelegationManager_RevokeDelegation ::
  "(hash32 \<Rightarrow> int64) \<Rightarrow> hash32 \<Rightarrow> address \<Rightarrow> DelegationManager \<Rightarrow> DelegationManager outcome option" where
  "DelegationManager_RevokeDelegation stamp delegationID revoker dm =
     (case dm_Delegations dm delegationID of
        None \<Rightarrow> Some (dm, Some (Errorf ''delegation not found''))
      | Some d \<Rightarrow>
          Option.bind (canRevoke dm d revoker) (\<lambda>allowed.
            if \<not> allowed then Some (dm, Some (Errorf ''not authorized to revoke this delegation''))
            else map_option (\<lambda>dm'. (dm', None))
              (revokeSubDelegations stamp revoker delegationID (revoke_at stamp revoker delegationID dm))))"

definition tracker_window :: "int64 \<Rightarrow> UsageTracker \<Rightarrow> UsageTracker" where
  \<comment> \<open>the two resets of \<open>CheckAndUse\<close>\<close>
  "tracker_window now t =
     (let t1 = (if now \<ge> ut_HourlyReset t then t\<lparr>ut_HourlyUses := 0, ut_HourlyReset := wrap64 (now + 3600)\<rparr> else t)
      in if now \<ge> ut_DailyReset t1 then t1\<lparr>ut_DailyUses := 0, ut_DailyReset := wrap64 (now + 86400)\<rparr> else t1)"

definition DelegationManager_CheckAndUse ::
  "('sk, 'pk) crypto \<Rightarrow> int64 \<Rightarrow> int64 \<Rightarrow> hash32 \<Rightarrow> string \<Rightarrow> DelegationManager \<Rightarrow> DelegationManager outcome" where
  "DelegationManager_CheckAndUse cr t1 now delegationID operation dm =
     (case dm_Delegations dm delegationID of
        None \<Rightarrow> (dm, Some (Errorf ''delegation not found''))
      | Some d \<Rightarrow>
          if \<not> Delegation_IsValid cr t1 d then (dm, Some (Errorf ''delegation is not valid''))
          else if \<not> list_ex (\<lambda>op. op = operation)
                     (case ds_AllowedOperations (d_Scope d) of None \<Rightarrow> [] | Some ops \<Rightarrow> ops)
            then (dm, Some (Errorf ''operation not allowed by delegation scope''))
          else (case dm_UsageTracking dm delegationID of
            None \<Rightarrow> (dm, Some (Panic ''nil usage tracker''))
          | Some tracker \<Rightarrow>
              let t = tracker_window now tracker;
                  dm1 = dm\<lparr>dm_UsageTracking := (dm_UsageTracking dm)(delegationID \<mapsto> t)\<rparr>
              in if dp_RateLimitPerHour (d_Policy d) > 0 \<and> ut_HourlyUses t \<ge> dp_RateLimitPerHour (d_Policy d)
                 then (dm1, Some (Errorf ''hourly rate limit exceeded''))
                 else if dp_RateLimitPerDay (d_Policy d) > 0 \<and> ut_DailyUses t \<ge> dp_RateLimitPerDay (d_Policy d)
                 then (dm1, Some (Errorf ''daily rate limit exceeded''))
                 else (dm\<lparr>dm_UsageTracking := (dm_UsageTracking dm)(delegationID \<mapsto>
                         t\<lparr>ut_HourlyUses := wrap64 (ut_HourlyUses t + 1),
                           ut_DailyUses := wrap64 (ut_DailyUses t + 1)\<rparr>)\<rparr>, None)))"

definition DelegationManager_GetDelegationsFor ::
  "('sk, 'pk) crypto \<Rightarrow> int64 \<Rightarrow> address \<Rightarrow> DelegationManager \<Rightarrow> Delegation list" where
  "DelegationManager_GetDelegationsFor cr now delegate dm =
     concat (map (\<lambda>i. case dm_Delegations dm i of
                    None \<Rightarrow> [] | Some d \<Rightarrow> if Delegation_IsValid cr now d then [d] else [])
       (slot (dm_DelegationsReceived dm) delegate))"

partial_function (option) chain_loop ::
  "DelegationManager \<Rightarrow> hash32 \<Rightarrow> Delegation list \<Rightarrow> Delegation list option" where
  "chain_loop dm currentID chain =
     (if currentID \<noteq> zero32 then
        (case dm_Delegations dm currentID of
           None \<Rightarrow> Some chain
         | Some d \<Rightarrow> chain_loop dm (d_ParentDelegation d) (d # chain))
      else Some chain)"

definition GetDelegationChain :: "hash32 \<Rightarrow> DelegationManager \<Rightarrow> Delegation list option" where
  "GetDelegationChain delegationID dm = chain_loop dm delegationID []"

text \<open>
  The checks of \<open>VerifyDelegationChain\<close> from one index on; \<open>clock i\<close> is the reading for the
  element at depth \<open>i\<close>.
\<close>

fun verify_links ::
  "('sk, 'pk) crypto \<Rightarrow> (nat \<Rightarrow> int64) \<Rightarrow> nat \<Rightarrow> Delegation option \<Rightarrow> Delegation list \<Rightarrow> go_error option" where
  "verify_links cr clock i prev [] = None"
| "verify_links cr clock i prev (d # ds) =
     (if \<not> Delegation_IsValid cr (clock i) d then Some (Errorf ''delegation is invalid'')
      else case prev of
        None \<Rightarrow> verify_links cr clock (Suc i) (Some d) ds
      | Some parent \<Rightarrow>
          if d_ParentDelegation d \<noteq> d_ID parent then Some (Errorf ''chain break'')
          else if d_Delegator d \<noteq> d_Delegate parent then Some (Errorf ''delegator mismatch'')
          else verify_links cr clock (Suc i) (Some d) ds)"

definition VerifyDelegationChain ::
  "('sk, 'pk) crypto \<Rightarrow> (nat \<Rightarrow> int64) \<Rightarrow> hash32 \<Rightarrow> DelegationManager \<Rightarrow> go_error option option" where
  "VerifyDelegationChain cr clock delegationID dm =
     map_option (\<lambda>chain. if chain = [] then Some (Errorf ''delegation not found'')
        else verify_links cr clock 0 None chain) (GetDelegationChain delegationID dm)"

definition DelegationManager_ExportDelegations :: "DelegationManager \<Rightarrow> go_error + bytes" where
  \<comment> \<open>\<open>json.Marshal\<close> of a map keyed by byte arrays\<close>
  "DelegationManager_ExportDelegations dm =
     (case json_bytes JUnsupported of None \<Rightarrow> Inl marshal_error | Some data \<Rightarrow> Inr data)"

section \<open>Delegations as signed documents and indexed collections\<close>

lemma supported_Delegation_json: "supported (Delegation_json cr d)"
  by (simp add: Delegation_json_def DelegationScope_json_def DelegationPolicy_json_def split: option.split)

interpretation delegation_doc: marshalled_document cr
  "\<lambda>d. Delegation_json cr (d\<lparr>d_Signature := None\<rparr>)" d_Delegator d_Signature
  "\<lambda>s d. d\<lparr>d_Signature := s\<rparr>" "Delegation_Sign cr" "Delegation_Verify cr" for cr
  by unfold_locales
    (auto simp: Delegation_Sign_def Delegation_Verify_def Let_def supported_Delegation_json
      split: option.splits sum.splits)

interpretation received: id_index dm_Delegations "\<lambda>dm. slot (dm_DelegationsReceived dm)" d_ID d_Delegate
  "delegation_add ut" for ut
  by unfold_locales (simp_all add: delegation_add_def)

interpretation given: id_index dm_Delegations "\<lambda>dm. slot (dm_DelegationsGiven dm)" d_ID d_Delegator
  "delegation_add ut" for ut
  by unfold_locales (simp_all add: delegation_add_def)

section \<open>The delegation tree\<close>

text \<open>
  Revocation marks objects and nothing else, so the tree is described up to these marks.
\<close>

definition unrevoke :: "Delegation \<Rightarrow> Delegation" where
  "unrevoke d = d\<lparr>d_Revoked := False, d_RevokedAt := 0, d_RevokedBy := zero_address\<rparr>"

definition shape :: "DelegationManager \<Rightarrow> hash32 \<Rightarrow> Delegation option" where
  "shape dm i = map_option unrevoke (dm_Delegations dm i)"

definition child_of :: "DelegationManager \<Rightarrow> hash32 \<Rightarrow> hash32 \<Rightarrow> bool" where
  "child_of dm p c \<longleftrightarrow> c \<in> set (slot (dm_DelegationChains dm) p)"

text \<open>What a sub-delegation keeps of its parent.\<close>

definition sub_link :: "Delegation \<Rightarrow> Delegation \<Rightarrow> bool" where
  "sub_link p c \<longleftrightarrow> d_ParentDelegation c = d_ID p \<and> d_Delegator c = d_Delegate p \<and>
     d_RightType c = d_RightType p \<and> d_StreamID c = d_StreamID p \<and> d_Scope c = d_Scope p \<and>
     0 < d_Depth p \<and> d_Depth c = d_Depth p - 1"

definition tree_inv :: "DelegationManager \<Rightarrow> bool" where
  "tree_inv dm \<longleftrightarrow>
     (\<forall>i d. shape dm i = Some d \<longrightarrow> d_ID d = i \<and> i \<noteq> zero32 \<and> in_int64 (d_Depth d) \<and>
        dm_UsageTracking dm i \<noteq> None \<and>
        (d_ParentDelegation d \<noteq> zero32 \<longrightarrow> child_of dm (d_ParentDelegation d) i)) \<and>
     (\<forall>p c. child_of dm p c \<longrightarrow> (\<exists>dp dc. shape dm p = Some dp \<and> shape dm c = Some dc \<and> sub_link dp dc))"

lemma unrevoke_fields [simp]:
  "d_ID (unrevoke d) = d_ID d" "d_Delegator (unrevoke d) = d_Delegator d" "d_Delegate (unrevoke d) = d_Delegate d"
  "d_RightType (unrevoke d) = d_RightType d" "d_StreamID (unrevoke d) = d_StreamID d"
  "d_Scope (unrevoke d) = d_Scope d" "d_Depth (unrevoke d) = d_Depth d"
  "d_ParentDelegation (unrevoke d) = d_ParentDelegation d"
  by (simp_all add: unrevoke_def)

lemma unrevoke_Revoke [simp]: "unrevoke (Delegation_Revoke t r d) = unrevoke d"
  by (simp add: unrevoke_def Delegation_Revoke_def)

lemma unrevoke_policy: "d_Policy (unrevoke d) = d_Policy d"
  by (simp add: unrevoke_def)

lemma sub_link_unrevoke [simp]: "sub_link (unrevoke p) (unrevoke c) = sub_link p c"
  by (simp add: sub_link_def)

lemma tree_object:
  assumes "tree_inv dm" and "dm_Delegations dm i = Some d"
  shows "d_ID d = i \<and> i \<noteq> zero32 \<and> in_int64 (d_Depth d) \<and>
    (d_ParentDelegation d \<noteq> zero32 \<longrightarrow> child_of dm (d_ParentDelegation d) i)"
  using assms unfolding tree_inv_def shape_def by (metis option.map(2) unrevoke_fields(1,7,8))

lemma tree_child:
  assumes "tree_inv dm" and "child_of dm p c"
  obtains dp dc where "dm_Delegations dm p = Some dp" "dm_Delegations dm c = Some dc" "sub_link dp dc"
proof -
  from assms obtain dp dc where "shape dm p = Some dp" "shape dm c = Some dc" "sub_link dp dc"
    unfolding tree_inv_def by blast
  then show thesis
    using that by (auto simp: shape_def)
qed

lemma tree_child_exists:
  "tree_inv dm \<Longrightarrow> child_of dm p c \<Longrightarrow> dm_Delegations dm p \<noteq> None \<and> dm_Delegations dm c \<noteq> None"
  by (auto elim: tree_child)

definition same_shape :: "DelegationManager \<Rightarrow> DelegationManager \<Rightarrow> bool" where
  "same_shape dm dm' \<longleftrightarrow> shape dm' = shape dm \<and> dm_DelegationChains dm' = dm_DelegationChains dm \<and>
     dm_DelegationsGiven dm' = dm_DelegationsGiven dm \<and>
     dm_DelegationsReceived dm' = dm_DelegationsReceived dm \<and> dm_UsageTracking dm' = dm_UsageTracking dm"

lemma same_shape_refl [simp]: "same_shape dm dm"
  by (simp add: same_shape_def)

lemma same_shape_trans: "same_shape a b \<Longrightarrow> same_shape b c \<Longrightarrow> same_shape a c"
  by (simp add: same_shape_def)

lemma same_shape_tree: "same_shape dm dm' \<Longrightarrow> tree_inv dm' = tree_inv dm"
  by (simp add: same_shape_def tree_inv_def child_of_def)

lemma same_shape_child_of: "same_shape dm dm' \<Longrightarrow> child_of dm' = child_of dm"
  by (intro ext) (simp add: same_shape_def child_of_def)

lemma same_shape_Some:
  assumes "same_shape dm dm'" and "dm_Delegations dm' i = Some d'"
  obtains d where "dm_Delegations dm i = Some d" "unrevoke d = unrevoke d'"
proof -
  have "shape dm' i = shape dm i"
    using assms(1) by (simp add: same_shape_def)
  with assms(2) that show thesis
    by (cases "dm_Delegations dm i") (auto simp: shape_def)
qed

lemma same_shape_exists: "same_shape dm dm' \<Longrightarrow> dm_Delegations dm' i = None \<longleftrightarrow> dm_Delegations dm i = None"
  unfolding same_shape_def shape_def by (metis option.map_disc_iff)

lemma same_shape_revoke_at: "same_shape dm (revoke_at stamp revoker i dm)"
  by (auto simp: same_shape_def shape_def revoke_at_def fun_eq_iff option.map_comp comp_def)

definition is_revoked :: "DelegationManager \<Rightarrow> hash32 \<Rightarrow> bool" where
  "is_revoked dm i \<longleftrightarrow> (\<exists>d. dm_Delegations dm i = Some d \<and> d_Revoked d)"

lemma is_revoked_revoke_at:
  "is_revoked (revoke_at stamp revoker i dm) j \<longleftrightarrow>
     (if j = i then dm_Delegations dm i \<noteq> None else is_revoked dm j)"
  by (auto simp: is_revoked_def revoke_at_def Delegation_Revoke_def)

section \<open>Revocation returns and reaches every descendant\<close>

text \<open>
  Depth falls by one along every link and a parent's depth is positive, so the recursion of
  \<open>revokeSubDelegations\<close> is at most as deep as the depth of the delegation it starts from.
\<close>

definition revokes :: "DelegationManager \<Rightarrow> hash32 list \<Rightarrow> DelegationManager \<Rightarrow> bool" where
  "revokes dm cs dm' \<longleftrightarrow> same_shape dm dm' \<and> (\<forall>i. is_revoked dm i \<longrightarrow> is_revoked dm' i) \<and>
     (\<forall>c\<in>set cs. dm_Delegations dm c \<noteq> None \<longrightarrow> (\<forall>i. (child_of dm)\<^sup>*\<^sup>* c i \<longrightarrow> is_revoked dm' i))"

definition depth_below :: "nat \<Rightarrow> hash32 list \<Rightarrow> DelegationManager \<Rightarrow> bool" where
  "depth_below n cs dm \<longleftrightarrow> (\<forall>c\<in>set cs. \<forall>d. dm_Delegations dm c = Some d \<longrightarrow> nat (d_Depth d) < n)"

lemma revokes_Cons: "revokes dm [c] dm2 \<Longrightarrow> revokes dm2 cs dm3 \<Longrightarrow> revokes dm (c # cs) dm3"
  unfolding revokes_def
  by (auto intro: same_shape_trans simp: same_shape_child_of same_shape_exists)

lemma revokes_node:
  assumes inv: "tree_inv dm" and d: "dm_Delegations dm c = Some d"
    and rev: "revokes (revoke_at stamp revoker c dm) (slot (dm_DelegationChains dm) c) dm2"
  shows "revokes dm [c] dm2"
proof -
  let ?dm1 = "revoke_at stamp revoker c dm"
  have sh1: "same_shape dm ?dm1"
    by (rule same_shape_revoke_at)
  have "is_revoked dm2 i" if "(child_of dm)\<^sup>*\<^sup>* c i" for i
    using that
  proof (cases rule: converse_rtranclpE)
    case base
    then show ?thesis
      using rev d by (simp add: revokes_def is_revoked_revoke_at)
  next
    case (step c')
    from step(1) have "dm_Delegations ?dm1 c' \<noteq> None"
      by (metis inv option.discI same_shape_exists sh1 tree_child)
    with step rev sh1 show ?thesis
      by (auto simp: revokes_def same_shape_child_of child_of_def)
  qed
  moreover have "is_revoked dm2 i" if "is_revoked dm i" for i
    using rev that d by (auto simp: revokes_def is_revoked_revoke_at)
  moreover have "same_shape dm dm2"
    using sh1 rev by (auto simp: revokes_def intro: same_shape_trans)
  ultimately show ?thesis
    by (simp add: revokes_def)
qed

lemma depth_below_same_shape: "same_shape dm dm' \<Longrightarrow> depth_below n cs dm \<Longrightarrow> depth_below n cs dm'"
  unfolding depth_below_def by (metis same_shape_Some unrevoke_fields(7))

lemma depth_below_children:
  assumes inv: "tree_inv dm" and "dm_Delegations dm c = Some d" and "nat (d_Depth d) < Suc n"
  shows "depth_below n (slot (dm_DelegationChains dm) c) dm"
  unfolding depth_below_def
proof (intro ballI allI impI)
  fix c' x
  assume "c' \<in> set (slot (dm_DelegationChains dm) c)" and x: "dm_Delegations dm c' = Some x"
  then have "child_of dm c c'"
    by (simp add: child_of_def)
  then show "nat (d_Depth x) < n"
    using assms x by (elim tree_child [OF inv]) (auto simp: sub_link_def)
qed

lemma revoke_children_total:
  assumes "tree_inv dm" and "depth_below n cs dm"
  shows "\<exists>dm'. revoke_children stamp revoker cs dm = Some dm' \<and> revokes dm cs dm'"
  using assms
proof (induction n arbitrary: cs dm)
  case 0
  then have "revoke_children stamp revoker cs dm = Some dm \<and> (\<forall>c\<in>set cs. dm_Delegations dm c = None)"
    by (induction cs) (auto simp: revoke_children.simps depth_below_def split: option.split)
  then show ?case
    by (auto simp: revokes_def)
next
  case (Suc n)
  show ?case
    using Suc.prems
  proof (induction cs arbitrary: dm)
    case Nil
    show ?case by (simp add: revoke_children.simps revokes_def)
  next
    case (Cons c cs)
    have below: "depth_below (Suc n) cs dm"
      using Cons.prems(2) by (simp add: depth_below_def)
    show ?case
    proof (cases "dm_Delegations dm c")
      case None
      then show ?thesis
        using Cons.IH [OF Cons.prems(1) below]
        by (auto simp: revoke_children.simps [of _ _ "c # cs"] revokes_def)
    next
      case (Some d)
      let ?dm1 = "revoke_at stamp revoker c dm"
      have sh1: "same_shape dm ?dm1" and inv1: "tree_inv ?dm1"
        using same_shape_revoke_at same_shape_tree Cons.prems(1) by blast+
      have chains: "dm_DelegationChains ?dm1 = dm_DelegationChains dm"
        by (simp add: revoke_at_def)
      have "depth_below n (slot (dm_DelegationChains dm) c) dm"
        by (rule depth_below_children [OF Cons.prems(1) Some]) (use Cons.prems(2) Some in \<open>simp add: depth_below_def\<close>)
      then obtain dm2 where dm2: "revoke_children stamp revoker (slot (dm_DelegationChains dm) c) ?dm1 = Some dm2"
        "revokes ?dm1 (slot (dm_DelegationChains dm) c) dm2"
        using Suc.IH [OF inv1] depth_below_same_shape [OF sh1] by blast
      have c: "revokes dm [c] dm2"
        by (rule revokes_node [OF Cons.prems(1) Some dm2(2)])
      then have "same_shape dm dm2"
        by (simp add: revokes_def)
      then obtain dm3 where "revoke_children stamp revoker cs dm2 = Some dm3" "revokes dm2 cs dm3"
        using Cons.IH [of dm2] Cons.prems(1) below depth_below_same_shape same_shape_tree by blast
      with c dm2(1) Some show ?thesis
        by (auto simp: revoke_children.simps [of _ _ "c # cs"] chains intro: revokes_Cons)
    qed
  qed
qed

section \<open>Walking up to the root\<close>

text \<open>
  Upwards the depth grows by one with every link and is an \<open>int\<close>, so the walk ends.
\<close>

lemma tree_parent:
  assumes inv: "tree_inv dm" and "dm_Delegations dm i = Some d" and "d_ParentDelegation d \<noteq> zero32"
  obtains p where "dm_Delegations dm (d_ParentDelegation d) = Some p" "sub_link p d" "child_of dm (d_ParentDelegation d) i"
proof -
  have "child_of dm (d_ParentDelegation d) i"
    using tree_object [OF inv assms(2)] assms(3) by simp
  moreover from this obtain p where "dm_Delegations dm (d_ParentDelegation d) = Some p" "sub_link p d"
    by (rule tree_child [OF inv]) (simp add: assms(2))
  ultimately show thesis
    using that by blast
qed

lemma tree_up_induct [consumes 2, case_names root parent]:
  assumes inv: "tree_inv dm" and "dm_Delegations dm i = Some d"
    and root: "\<And>i d. dm_Delegations dm i = Some d \<Longrightarrow> d_ParentDelegation d = zero32 \<Longrightarrow> P i d"
    and parent: "\<And>i d p. dm_Delegations dm i = Some d \<Longrightarrow> d_ParentDelegation d \<noteq> zero32 \<Longrightarrow>
       dm_Delegations dm (d_ParentDelegation d) = Some p \<Longrightarrow> sub_link p d \<Longrightarrow> child_of dm (d_ParentDelegation d) i \<Longrightarrow>
       P (d_ParentDelegation d) p \<Longrightarrow> P i d"
  shows "P i d"
  using assms(2)
proof (induction "nat (2 ^ 63 - d_Depth d)" arbitrary: i d rule: less_induct)
  case less
  show ?case
  proof (cases "d_ParentDelegation d = zero32")
    case True
    with root less.prems show ?thesis by blast
  next
    case False
    then obtain p where p: "dm_Delegations dm (d_ParentDelegation d) = Some p" "sub_link p d"
      "child_of dm (d_ParentDelegation d) i"
      using tree_parent [OF inv less.prems] by blast
    have "d_Depth p < 2 ^ 63"
      using tree_object [OF inv p(1)] by (simp add: in_int64_def)
    then have "nat (2 ^ 63 - d_Depth p) < nat (2 ^ 63 - d_Depth d)"
      using p(2) by (simp add: sub_link_def)
    with p False parent less show ?thesis
      by blast
  qed
qed

lemma ancestor_iff:
  assumes inv: "tree_inv dm" and d: "dm_Delegations dm i = Some d"
  shows "(child_of dm)\<^sup>*\<^sup>* a i \<longleftrightarrow> a = i \<or> d_ParentDelegation d \<noteq> zero32 \<and> (child_of dm)\<^sup>*\<^sup>* a (d_ParentDelegation d)"
proof -
  have up: "d_ParentDelegation d \<noteq> zero32 \<and> q = d_ParentDelegation d" if "child_of dm q i" for q
  proof -
    from that obtain p where "dm_Delegations dm q = Some p" "sub_link p d"
      by (rule tree_child [OF inv]) (simp add: d)
    then show ?thesis
      using tree_object [OF inv, of q p] by (simp add: sub_link_def)
  qed
  show ?thesis
  proof
    assume "(child_of dm)\<^sup>*\<^sup>* a i"
    then show "a = i \<or> d_ParentDelegation d \<noteq> zero32 \<and> (child_of dm)\<^sup>*\<^sup>* a (d_ParentDelegation d)"
      by (cases rule: rtranclp.cases) (use up in blast)+
  next
    assume "a = i \<or> d_ParentDelegation d \<noteq> zero32 \<and> (child_of dm)\<^sup>*\<^sup>* a (d_ParentDelegation d)"
    then show "(child_of dm)\<^sup>*\<^sup>* a i"
      using tree_object [OF inv d] by (meson rtranclp.rtrancl_into_rtrancl rtranclp.rtrancl_refl)
  qed
qed

lemma canRevoke_total:
  assumes "tree_inv dm" and "dm_Delegations dm i = Some d"
  shows "canRevoke dm d revoker =
    Some (\<exists>a da. (child_of dm)\<^sup>*\<^sup>* a i \<and> dm_Delegations dm a = Some da \<and> d_Delegator da = revoker)"
  using assms
proof (induction rule: tree_up_induct)
  case (root i d)
  then show ?case
    by (subst canRevoke.simps) (auto simp: ancestor_iff [OF assms(1) root(1)])
next
  case (parent i d p)
  then show ?case
    by (subst canRevoke.simps) (auto simp: ancestor_iff [OF assms(1) parent(1)])
qed

text \<open>The chain of a delegation, root first: each element is the parent of the next.\<close>

fun linked :: "Delegation list \<Rightarrow> bool" where
  "linked (p # c # ds) \<longleftrightarrow> sub_link p c \<and> linked (c # ds)"
| "linked _ \<longleftrightarrow> True"

lemma chain_loop_total:
  assumes "tree_inv dm" and "dm_Delegations dm i = Some d"
  shows "\<exists>up. (\<forall>acc. chain_loop dm i acc = Some (up @ d # acc)) \<and> linked (up @ [d]) \<and>
    d_ParentDelegation (hd (up @ [d])) = zero32"
  using assms
proof (induction rule: tree_up_induct)
  case (root i d)
  then have "chain_loop dm i acc = Some ([] @ d # acc)" for acc
    using tree_object [OF assms(1) root(1)] by (simp add: chain_loop.simps)
  with root show ?case
    by (intro exI [of _ "[]"]) simp
next
  case (parent i d p)
  then obtain up where up: "\<And>acc. chain_loop dm (d_ParentDelegation d) acc = Some (up @ p # acc)"
    "linked (up @ [p])" "d_ParentDelegation (hd (up @ [p])) = zero32"
    by blast
  have "chain_loop dm i acc = Some ((up @ [p]) @ d # acc)" for acc
    using tree_object [OF assms(1) parent(1)] parent(1) up(1) by (subst chain_loop.simps) simp
  moreover have "linked (xs @ [x]) \<Longrightarrow> sub_link x y \<Longrightarrow> linked (xs @ [x, y])" for xs x y
    by (induction xs rule: linked.induct) auto
  ultimately show ?case
    using up(2,3) parent(4) by (intro exI [of _ "up @ [p]"]) (simp add: hd_append split: if_splits)
qed

section \<open>Runs of the manager\<close>

text \<open>
  The steps of a manager and the identifiers they issue. An identifier is a hash of the parties, the
  right, the stream and the second of creation; the code stores the new delegation under it without
  looking whether it is taken or zero, and so do the steps. A creation that fails leaves the manager
  as it was.
\<close>

inductive delegation_step :: "('sk, 'pk) crypto \<Rightarrow> DelegationManager \<Rightarrow> hash32 list \<Rightarrow> DelegationManager \<Rightarrow> bool" for cr where
  create: "DelegationManager_CreateDelegation cr now key delegate rightType streamID scope depth validUntil policy dm
             = (dm', Inr d) \<Longrightarrow> in_int64 depth \<Longrightarrow> delegation_step cr dm [d_ID d] dm'"
| sub: "DelegationManager_CreateSubDelegation cr t1 t2 t3 t4 key parentID newDelegate validUntil dm = (dm', Inr d) \<Longrightarrow>
           delegation_step cr dm [d_ID d] dm'"
| revoke: "DelegationManager_RevokeDelegation stamp i revoker dm = Some (dm', e) \<Longrightarrow> delegation_step cr dm [] dm'"
| use: "delegation_step cr dm [] (fst (DelegationManager_CheckAndUse cr t1 now i operation dm))"

abbreviation delegation_run :: "('sk, 'pk) crypto \<Rightarrow> address \<Rightarrow> hash32 list \<Rightarrow> DelegationManager \<Rightarrow> bool" where
  "delegation_run cr owner \<equiv> issuing_run (delegation_step cr) (NewDelegationManager owner)"

lemma tree_inv_new: "tree_inv (NewDelegationManager owner)"
  by (simp add: tree_inv_def NewDelegationManager_def shape_def child_of_def)

lemma CreateDelegation_succeeds:
  assumes "DelegationManager_CreateDelegation cr now key delegate rightType streamID scope depth validUntil policy dm
     = (dm', Inr d)"
  shows "dm' = delegation_add (new_tracker now now) d dm \<and> d_Depth d = depth \<and> d_ParentDelegation d = zero32 \<and>
    d_Delegator d = key_address cr key"
  using assms
  by (auto simp: DelegationManager_CreateDelegation_def Let_def Delegation_GenerateID_def
      split: prod.splits option.splits elim!: delegation_doc.sign_succeeded_cases)

lemma CreateSubDelegation_succeeds:
  assumes "DelegationManager_CreateSubDelegation cr t1 t2 t3 t4 key parentID newDelegate validUntil dm = (dm', Inr d)"
  obtains parent s where "dm_Delegations dm parentID = Some parent" "key_address cr key = d_Delegate parent"
    "Delegation_CreateSubDelegation cr t1 t2 newDelegate validUntil parent = Inr s"
    "Delegation_Sign cr key s = (d, None)"
    "dm' = (delegation_add (new_tracker t3 t4) d dm)\<lparr>dm_DelegationChains := push parentID (d_ID d) (dm_DelegationChains dm)\<rparr>"
  using assms
  by (auto simp: DelegationManager_CreateSubDelegation_def Let_def delegation_add_def
      split: option.splits if_splits sum.splits prod.splits)

lemma CreateSubDelegation_link:
  assumes "Delegation_CreateSubDelegation cr t1 t2 newDelegate validUntil parent = Inr s"
    and "in_int64 (d_Depth parent)"
  shows "sub_link parent s"
proof -
  have "0 < d_Depth parent"
    using assms(1) by (auto simp: Delegation_CreateSubDelegation_def CanSubDelegate_def split: if_splits)
  then have "wrap64 (d_Depth parent - 1) = d_Depth parent - 1"
    using assms(2) by (intro wrap64_id) (simp add: in_int64_def)
  with \<open>0 < d_Depth parent\<close> assms(1) show ?thesis
    by (auto simp: Delegation_CreateSubDelegation_def sub_link_def Delegation_GenerateID_def split: if_splits)
qed

lemma sub_link_signature [simp]: "sub_link p (d\<lparr>d_Signature := s\<rparr>) = sub_link p d"
  by (simp add: sub_link_def)

lemma tree_inv_create:
  assumes "tree_inv dm" and "dm_Delegations dm (d_ID d) = None" and "d_ID d \<noteq> zero32"
    and "in_int64 (d_Depth d)" and "d_ParentDelegation d = zero32"
  shows "tree_inv (delegation_add ut d dm)"
proof -
  let ?dm = "delegation_add ut d dm"
  have sh: "shape ?dm = (shape dm)(d_ID d \<mapsto> unrevoke d)" and ch: "child_of ?dm = child_of dm"
    by (auto simp: shape_def delegation_add_def child_of_def fun_eq_iff)
  have "\<not> child_of dm (d_ID d) c" "\<not> child_of dm c (d_ID d)" for c
    using tree_child_exists [OF assms(1)] assms(2) by blast+
  with assms show ?thesis
    unfolding tree_inv_def sh ch by (auto simp: delegation_add_def)
qed

lemma tree_inv_sub:
  assumes inv: "tree_inv dm" and p: "dm_Delegations dm p = Some parent" and link: "sub_link parent d"
    and fresh: "dm_Delegations dm (d_ID d) = None" "d_ID d \<noteq> zero32"
  shows "tree_inv ((delegation_add ut d dm)\<lparr>dm_DelegationChains := push p (d_ID d) (dm_DelegationChains dm)\<rparr>)"
    (is "tree_inv ?dm")
proof -
  have sh: "shape ?dm = (shape dm)(d_ID d \<mapsto> unrevoke d)"
    by (auto simp: shape_def delegation_add_def fun_eq_iff)
  have ch: "child_of ?dm q c \<longleftrightarrow> child_of dm q c \<or> q = p \<and> c = d_ID d" for q c
    by (auto simp: child_of_def)
  have pid: "d_ID parent = p" "in_int64 (d_Depth parent)"
    using tree_object [OF inv p] by simp_all
  have none: "\<not> child_of dm (d_ID d) c" "\<not> child_of dm c (d_ID d)" for c
    using tree_child_exists [OF inv] fresh(1) by blast+
  have "p \<noteq> d_ID d" and "d_ParentDelegation d = p" and "in_int64 (d_Depth d)"
    using p fresh link pid by (auto simp: sub_link_def in_int64_def)
  moreover have "shape dm p = Some (unrevoke parent)"
    by (simp add: shape_def p)
  ultimately show ?thesis
    using inv fresh(2) link none unfolding tree_inv_def sh ch by (auto simp: delegation_add_def)
qed

lemma CheckAndUse_frame:
  "\<exists>ut. fst (DelegationManager_CheckAndUse cr t1 now i operation dm) = dm \<or>
     fst (DelegationManager_CheckAndUse cr t1 now i operation dm) = dm\<lparr>dm_UsageTracking := (dm_UsageTracking dm)(i \<mapsto> ut)\<rparr>"
  by (cases "dm_Delegations dm i"; cases "dm_UsageTracking dm i")
    (auto simp: DelegationManager_CheckAndUse_def Let_def)

lemma tree_inv_tracking: "tree_inv dm \<Longrightarrow> tree_inv (dm\<lparr>dm_UsageTracking := (dm_UsageTracking dm)(i \<mapsto> ut)\<rparr>)"
  (is "_ \<Longrightarrow> tree_inv ?dm")
proof -
  assume inv: "tree_inv dm"
  have "shape ?dm = shape dm" "child_of ?dm = child_of dm"
    by (simp_all add: shape_def child_of_def fun_eq_iff)
  moreover have "dm_UsageTracking dm j \<noteq> None \<Longrightarrow> dm_UsageTracking ?dm j \<noteq> None" for j
    by simp
  ultimately show "tree_inv ?dm"
    using inv unfolding tree_inv_def by (simp only:) blast
qed

lemma tree_inv_CheckAndUse: "tree_inv dm \<Longrightarrow> tree_inv (fst (DelegationManager_CheckAndUse cr t1 now i operation dm))"
  using CheckAndUse_frame [of cr t1 now i operation dm] tree_inv_tracking [of dm] by metis

lemma RevokeDelegation_total:
  assumes inv: "tree_inv dm"
  shows "\<exists>dm' e. DelegationManager_RevokeDelegation stamp i revoker dm = Some (dm', e) \<and> same_shape dm dm' \<and>
    (e = None \<longleftrightarrow> (\<exists>a da. (child_of dm)\<^sup>*\<^sup>* a i \<and> dm_Delegations dm a = Some da \<and> d_Delegator da = revoker) \<and>
       dm_Delegations dm i \<noteq> None) \<and>
    (e \<noteq> None \<longrightarrow> dm' = dm) \<and> (e = None \<longrightarrow> (\<forall>j. (child_of dm)\<^sup>*\<^sup>* i j \<longrightarrow> is_revoked dm' j))"
proof (cases "dm_Delegations dm i")
  case (Some d)
  let ?allowed = "\<exists>a da. (child_of dm)\<^sup>*\<^sup>* a i \<and> dm_Delegations dm a = Some da \<and> d_Delegator da = revoker"
  let ?dm1 = "revoke_at stamp revoker i dm"
  have sh1: "same_shape dm ?dm1"
    by (rule same_shape_revoke_at)
  have "depth_below (nat (d_Depth d)) (slot (dm_DelegationChains dm) i) dm"
    by (rule depth_below_children [OF inv Some]) simp
  then obtain dm' where dm': "revoke_children stamp revoker (slot (dm_DelegationChains dm) i) ?dm1 = Some dm'"
    "revokes ?dm1 (slot (dm_DelegationChains dm) i) dm'"
    using revoke_children_total [of ?dm1] same_shape_tree [OF sh1] inv depth_below_same_shape [OF sh1] by blast
  then have rev: "revokes dm [i] dm'"
    using revokes_node [OF inv Some] by blast
  have chains: "dm_DelegationChains ?dm1 = dm_DelegationChains dm"
    by (simp add: revoke_at_def)
  have can: "canRevoke dm d revoker = Some ?allowed"
    by (rule canRevoke_total [OF inv Some])
  show ?thesis
  proof (cases ?allowed)
    case True
    then have "canRevoke dm d revoker = Some True"
      using can by (simp only:)
    then have "DelegationManager_RevokeDelegation stamp i revoker dm = Some (dm', None)"
      unfolding DelegationManager_RevokeDelegation_def revokeSubDelegations_def
      by (simp only: Some chains dm'(1)) simp
    with rev True Some show ?thesis
      by (simp only: revokes_def) simp
  next
    case False
    then have "canRevoke dm d revoker = Some False"
      using can by (simp only:)
    then have "\<exists>e. DelegationManager_RevokeDelegation stamp i revoker dm = Some (dm, Some e)"
      unfolding DelegationManager_RevokeDelegation_def by (simp only: Some) simp
    with False show ?thesis
      by (metis option.distinct(1) same_shape_refl)
  qed
qed (simp add: DelegationManager_RevokeDelegation_def)

lemma same_shape_dom: "same_shape dm dm' \<Longrightarrow> dom (dm_Delegations dm') = dom (dm_Delegations dm)"
  by (auto simp: same_shape_exists dom_def)

lemma CheckAndUse_delegations: "dm_Delegations (fst (DelegationManager_CheckAndUse cr t1 now i operation dm)) = dm_Delegations dm"
  by (cases "dm_Delegations dm i"; cases "dm_UsageTracking dm i") (auto simp: DelegationManager_CheckAndUse_def Let_def)

lemma delegation_step_tree:
  assumes "delegation_step cr dm js dm'" and inv: "tree_inv dm"
    and "\<forall>j\<in>set js. j \<noteq> zero32 \<and> dm_Delegations dm j = None"
  shows "tree_inv dm' \<and> dom (dm_Delegations dm') \<subseteq> dom (dm_Delegations dm) \<union> set js"
  using assms(1)
proof cases
  case (create now key delegate rightType streamID scope depth validUntil policy d)
  then show ?thesis
    using CreateDelegation_succeeds [OF create(2)] inv assms(3)
    by (auto intro!: tree_inv_create simp: delegation_add_def [of _ _ dm, THEN arg_cong [where f = dm_Delegations]])
next
  case (sub t1 t2 t3 t4 key parentID newDelegate validUntil d)
  from sub(2) show ?thesis
  proof (rule CreateSubDelegation_succeeds)
    fix parent s
    assume parent: "dm_Delegations dm parentID = Some parent"
      and s: "Delegation_CreateSubDelegation cr t1 t2 newDelegate validUntil parent = Inr s"
      and sign: "Delegation_Sign cr key s = (d, None)"
      and dm': "dm' = (delegation_add (new_tracker t3 t4) d dm)\<lparr>dm_DelegationChains :=
        push parentID (d_ID d) (dm_DelegationChains dm)\<rparr>"
    have "sub_link parent s"
      using CreateSubDelegation_link [OF s] tree_object [OF inv parent] by simp
    then have "sub_link parent d"
      using sign by (auto elim!: delegation_doc.sign_succeeded_cases)
    then have "tree_inv dm'"
      unfolding dm' by (rule tree_inv_sub [OF inv parent]) (use assms(3) sub(1) in auto)
    then show ?thesis
      by (auto simp: dm' delegation_add_def sub(1))
  qed
next
  case (revoke stamp i revoker e)
  then show ?thesis
    using RevokeDelegation_total [OF inv, of stamp i revoker] same_shape_tree same_shape_dom inv by fastforce
next
  case (use t1 now i operation)
  then show ?thesis
    using tree_inv_CheckAndUse [OF inv] CheckAndUse_delegations [of cr t1 now i operation dm] by auto
qed

lemma delegation_run_tree:
  assumes "delegation_run cr owner ids dm" and "distinct ids" and "zero32 \<notin> set ids"
  shows "tree_inv dm \<and> dom (dm_Delegations dm) \<subseteq> set ids"
  using assms
proof (induction "NewDelegationManager owner" ids dm rule: issuing_run.induct)
  case none
  show ?case
    using tree_inv_new by (simp add: NewDelegationManager_def)
next
  case (more ids dm js dm')
  have "\<forall>j\<in>set js. j \<noteq> zero32 \<and> dm_Delegations dm j = None"
    using more by (auto simp: disjoint_iff)
  then show ?case
    using delegation_step_tree [OF more.hyps(3)] more by auto
qed

section \<open>Properties of the manager\<close>

lemma is_revoked_CheckAndUse: "is_revoked dm i \<Longrightarrow> failed (DelegationManager_CheckAndUse cr t1 now i operation dm)"
  by (auto simp: is_revoked_def DelegationManager_CheckAndUse_def Delegation_IsValid_def)

text \<open>
  C1: on every state a manager reaches without issuing an identifier twice or the zero identifier,
  \<open>RevokeDelegation\<close> returns. It succeeds exactly when the
  delegation exists and the revoker is the delegator of it or of one of its ancestors; it then
  revokes the delegation and everything delegated from it, directly or not, so that none of them
  can be used, and a refused call changes nothing.
\<close>

theorem RevokeDelegation_revokes_subtree:
  assumes "delegation_run cr owner ids dm" and "distinct ids" and "zero32 \<notin> set ids"
  shows "\<exists>dm' e. DelegationManager_RevokeDelegation stamp i revoker dm = Some (dm', e) \<and>
    (e = None \<longleftrightarrow> dm_Delegations dm i \<noteq> None \<and>
       (\<exists>a da. (child_of dm)\<^sup>*\<^sup>* a i \<and> dm_Delegations dm a = Some da \<and> d_Delegator da = revoker)) \<and>
    (e \<noteq> None \<longrightarrow> dm' = dm) \<and>
    (e = None \<longrightarrow> (\<forall>j. (child_of dm)\<^sup>*\<^sup>* i j \<longrightarrow> is_revoked dm' j \<and>
       (\<forall>t1 now operation. failed (DelegationManager_CheckAndUse cr t1 now j operation dm'))))"
proof -
  from RevokeDelegation_total [OF delegation_run_tree [OF assms, THEN conjunct1], of stamp i revoker]
  obtain dm' e where "DelegationManager_RevokeDelegation stamp i revoker dm = Some (dm', e)"
    and "e = None \<longleftrightarrow> (\<exists>a da. (child_of dm)\<^sup>*\<^sup>* a i \<and> dm_Delegations dm a = Some da \<and> d_Delegator da = revoker) \<and>
       dm_Delegations dm i \<noteq> None"
    and "e \<noteq> None \<longrightarrow> dm' = dm" and "e = None \<longrightarrow> (\<forall>j. (child_of dm)\<^sup>*\<^sup>* i j \<longrightarrow> is_revoked dm' j)"
    by blast
  then show ?thesis
    using is_revoked_CheckAndUse by blast
qed

lemma verify_links_iff:
  assumes "case prev of None \<Rightarrow> linked ds | Some p \<Rightarrow> linked (p # ds)"
  shows "verify_links cr clock i prev ds = None \<longleftrightarrow> (\<forall>k<length ds. Delegation_IsValid cr (clock (i + k)) (ds ! k))"
  using assms
proof (induction ds arbitrary: i prev)
  case (Cons d ds)
  have "linked (d # ds)" and "prev = Some p \<Longrightarrow> sub_link p d" for p
    using Cons.prems by (cases ds; auto split: option.splits)+
  then have "verify_links cr clock i prev (d # ds) = None \<longleftrightarrow>
      Delegation_IsValid cr (clock i) d \<and> verify_links cr clock (Suc i) (Some d) ds = None"
    by (cases prev) (auto simp: sub_link_def)
  with Cons.IH [of "Some d" "Suc i"] \<open>linked (d # ds)\<close> show ?case
    by (simp add: All_less_Suc2)
qed simp

text \<open>
  C2: on every state a manager reaches without issuing an identifier twice or the zero identifier,
  the chain of a delegation is found: it starts at a root
  delegation, ends with the delegation itself, each element is a sub-delegation of the one before
  it, with the same right, stream and scope and one level less to give, and
  \<open>VerifyDelegationChain\<close> accepts it exactly when every element is valid.
\<close>

theorem GetDelegationChain_linked:
  assumes "delegation_run cr owner ids dm" and "distinct ids" and "zero32 \<notin> set ids" and "dm_Delegations dm i = Some d"
  shows "\<exists>ds. GetDelegationChain i dm = Some ds \<and> ds \<noteq> [] \<and> last ds = d \<and> linked ds \<and>
    d_ParentDelegation (hd ds) = zero32 \<and>
    (VerifyDelegationChain cr clock i dm = Some None \<longleftrightarrow>
       (\<forall>k<length ds. Delegation_IsValid cr (clock k) (ds ! k)))"
proof -
  obtain up where up: "chain_loop dm i [] = Some (up @ [d])" "linked (up @ [d])"
    "d_ParentDelegation (hd (up @ [d])) = zero32"
    using chain_loop_total [OF delegation_run_tree [OF assms(1-3), THEN conjunct1] assms(4)] by metis
  then have chain: "GetDelegationChain i dm = Some (up @ [d])"
    by (simp add: GetDelegationChain_def)
  moreover have "VerifyDelegationChain cr clock i dm = Some None \<longleftrightarrow>
      (\<forall>k<length (up @ [d]). Delegation_IsValid cr (clock k) ((up @ [d]) ! k))"
    using verify_links_iff [where prev = None and ds = "up @ [d]" and i = 0 and cr = cr and clock = clock] up(2)
    by (simp add: VerifyDelegationChain_def chain)
  ultimately show ?thesis
    using up(2,3) by (intro exI [of _ "up @ [d]"]) simp
qed

text \<open>
  C24: a sub-delegation made by \<open>CreateSubDelegation\<close> comes from a parent that is valid, allows
  it and has depth left; it keeps the parent's right, stream and scope, gives one level less,
  and, for an expiry that is not negative, does not outlive a parent that expires.
\<close>

theorem CreateSubDelegation_bounds:
  assumes "Delegation_CreateSubDelegation cr t1 now delegate validUntil p = Inr s"
    and "in_int64 (d_Depth p)" and "0 \<le> validUntil"
  shows "Delegation_IsValid cr t1 p \<and> dp_AllowSubDelegation (d_Policy p) \<and> sub_link p s \<and> d_Delegate s = delegate \<and>
    (d_ValidUntil p > 0 \<longrightarrow> 0 < d_ValidUntil s \<and> d_ValidUntil s \<le> d_ValidUntil p) \<and>
    (d_Depth s = 0 \<longrightarrow> \<not> CanSubDelegate cr t s)"
  using assms CreateSubDelegation_link [OF assms(1,2)]
  by (auto simp: Delegation_CreateSubDelegation_def CanSubDelegate_def Delegation_GenerateID_def Let_def split: if_splits)

text \<open>
  A negative expiry escapes that bound. A sub-delegation created with \<open>validUntil\<close> below zero
  stays valid at every later time, also after its parent has expired.
\<close>

theorem negative_expiry_outlives_parent:
  assumes "signature_recovers cr" and "validUntil < 0"
    and "DelegationManager_CreateSubDelegation cr t1 t2 t3 t4 key parentID delegate validUntil dm = (dm', Inr s)"
    and "t2 \<le> t"
  shows "dm_Delegations dm' (d_ID s) = Some s \<and> Delegation_IsValid cr t s"
proof -
  from assms(3) show ?thesis
  proof (rule CreateSubDelegation_succeeds)
    fix parent s0
    assume s0: "Delegation_CreateSubDelegation cr t1 t2 delegate validUntil parent = Inr s0"
      and sign: "Delegation_Sign cr key s0 = (s, None)"
      and dm': "dm' = (delegation_add (new_tracker t3 t4) s dm)\<lparr>dm_DelegationChains :=
          push parentID (d_ID s) (dm_DelegationChains dm)\<rparr>"
    have "\<not> d_Revoked s0 \<and> d_ValidFrom s0 = t2 \<and> d_ValidUntil s0 = validUntil"
      using s0 assms(2) by (auto simp: Delegation_CreateSubDelegation_def Delegation_GenerateID_def split: if_splits)
    moreover have "Delegation_Verify cr s"
      by (rule delegation_doc.sign_then_verify [OF assms(1) sign])
    ultimately show ?thesis
      using sign assms(2,4)
      by (auto elim!: delegation_doc.sign_succeeded_cases simp: Delegation_IsValid_def dm' delegation_add_def)
  qed
qed

text \<open>
  One call of \<open>CheckAndUse\<close>. It succeeds exactly when the delegation is
  valid, lists the operation and has uses left in both windows; a use is then counted once in
  each window and the counts stay within the limits that are set. A refused use is not counted.
\<close>

lemma CheckAndUse_limits:
  assumes "dm_Delegations dm i = Some d"
    and "dm_UsageTracking dm i = Some t" and "w = tracker_window now t"
    and "in_int64 (ut_HourlyUses w) \<and> in_int64 (ut_DailyUses w)"
    and "in_int64 (dp_RateLimitPerHour (d_Policy d)) \<and> in_int64 (dp_RateLimitPerDay (d_Policy d))"
  shows "(succeeded (DelegationManager_CheckAndUse cr t1 now i operation dm) \<longleftrightarrow>
      Delegation_IsValid cr t1 d \<and> (\<exists>ops. ds_AllowedOperations (d_Scope d) = Some ops \<and> operation \<in> set ops) \<and>
      (0 < dp_RateLimitPerHour (d_Policy d) \<longrightarrow> ut_HourlyUses w < dp_RateLimitPerHour (d_Policy d)) \<and>
      (0 < dp_RateLimitPerDay (d_Policy d) \<longrightarrow> ut_DailyUses w < dp_RateLimitPerDay (d_Policy d))) \<and>
    (\<exists>t'. dm_UsageTracking (fst (DelegationManager_CheckAndUse cr t1 now i operation dm)) i = Some t' \<and>
      (if succeeded (DelegationManager_CheckAndUse cr t1 now i operation dm)
       then (0 < dp_RateLimitPerHour (d_Policy d) \<longrightarrow>
               ut_HourlyUses t' = ut_HourlyUses w + 1 \<and> ut_HourlyUses t' \<le> dp_RateLimitPerHour (d_Policy d)) \<and>
            (0 < dp_RateLimitPerDay (d_Policy d) \<longrightarrow>
               ut_DailyUses t' = ut_DailyUses w + 1 \<and> ut_DailyUses t' \<le> dp_RateLimitPerDay (d_Policy d))
       else t' = t \<or> t' = w))"
proof -
  have step: "wrap64 (n + 1) = n + 1" if "in_int64 n" "in_int64 l" "n < l" for n l
    using that by (intro wrap64_id) (auto simp: in_int64_def)
  have "ut_HourlyUses w < dp_RateLimitPerHour (d_Policy d) \<Longrightarrow> wrap64 (ut_HourlyUses w + 1) = ut_HourlyUses w + 1"
    "ut_DailyUses w < dp_RateLimitPerDay (d_Policy d) \<Longrightarrow> wrap64 (ut_DailyUses w + 1) = ut_DailyUses w + 1"
    using step assms(4,5) by blast+
  then show ?thesis
    using assms(1,2) unfolding DelegationManager_CheckAndUse_def
    by (cases "ds_AllowedOperations (d_Scope d)") (auto simp add: Let_def list_ex_iff not_le assms(3) [symmetric])
qed

section \<open>Rate limits over time\<close>

text \<open>
  A counter over fixed windows: a call at or after the end of the window starts a new one, a call is
  granted while the counter of its window is below the limit, and a call that is refused leaves the
  counter or only starts the window. Both limits of \<open>CheckAndUse\<close> are such counters.
\<close>

primrec count_granted :: "('c \<Rightarrow> 's \<Rightarrow> 's \<times> bool) \<Rightarrow> 'c list \<Rightarrow> 's \<Rightarrow> nat" where
  "count_granted call [] s = 0"
| "count_granted call (c # cs) s = (case call c s of (s', g) \<Rightarrow> (if g then 1 else 0) + count_granted call cs s')"

definition within :: "('c \<Rightarrow> int) \<Rightarrow> int \<Rightarrow> int \<Rightarrow> 'c list \<Rightarrow> bool" where
  "within now start period cs \<longleftrightarrow> (\<forall>c\<in>set cs. start \<le> now c \<and> now c < start + period)"

locale window_limit =
  fixes call :: "'c \<Rightarrow> 's \<Rightarrow> 's \<times> bool" and now :: "'c \<Rightarrow> int" and legal :: "'c \<Rightarrow> bool" and ok :: "'s \<Rightarrow> bool"
    and uses :: "'s \<Rightarrow> int" and reset :: "'s \<Rightarrow> int" and period :: int and limit :: int
  assumes bounds: "ok s \<Longrightarrow> 0 \<le> uses s \<and> uses s \<le> limit"
    and ok_call: "ok s \<Longrightarrow> legal c \<Longrightarrow> ok (fst (call c s))"
    and granted: "ok s \<Longrightarrow> legal c \<Longrightarrow> call c s = (s', True) \<Longrightarrow>
      (if reset s \<le> now c then uses s' = 1 \<and> reset s' = now c + period else uses s' = uses s + 1 \<and> reset s' = reset s)"
    and refused: "ok s \<Longrightarrow> legal c \<Longrightarrow> call c s = (s', False) \<Longrightarrow>
      uses s' = uses s \<and> reset s' = reset s \<or> reset s \<le> now c \<and> uses s' = 0 \<and> reset s' = now c + period"
begin

lemma count_same_window:
  "ok s \<Longrightarrow> \<forall>c\<in>set cs. legal c \<and> now c < reset s \<Longrightarrow> int (count_granted call cs s) + uses s \<le> limit"
proof (induction cs arbitrary: s)
  case (Cons c cs)
  obtain s' g where call: "call c s = (s', g)"
    by fastforce
  have "ok s'"
    using ok_call [of s c] Cons.prems call by simp
  with Cons granted [of s c s'] refused [of s c s'] call show ?case
    by (cases g) fastforce+
qed (use bounds in auto)

lemma count_period:
  assumes "ok s" and "\<forall>c\<in>set cs. legal c" and "within now start period cs"
  shows "int (count_granted call cs s) \<le> 2 * limit - uses s \<and> (reset s \<le> start \<longrightarrow> int (count_granted call cs s) \<le> limit)"
  using assms
proof (induction cs arbitrary: s)
  case (Cons c cs)
  obtain s' g where call: "call c s = (s', g)"
    by fastforce
  have ok': "ok s'"
    using ok_call [of s c] Cons.prems call by simp
  have c: "legal c" "start \<le> now c" "now c < start + period" and rest: "\<forall>c\<in>set cs. legal c" "within now start period cs"
    using Cons.prems by (auto simp: within_def)
  have new: "int (count_granted call cs s') + uses s' \<le> limit" if "reset s' = now c + period"
    by (rule count_same_window [OF ok']) (use rest c that in \<open>auto simp: within_def\<close>)
  note IH = Cons.IH [OF ok' rest] and b = bounds [OF Cons.prems(1)] bounds [OF ok']
  show ?case
  proof (cases g)
    case True
    then show ?thesis
      using granted [of s c s'] Cons.prems(1) c call IH new b by (cases "reset s \<le> now c") auto
  next
    case False
    then have "uses s' = uses s \<and> reset s' = reset s \<or> reset s \<le> now c \<and> uses s' = 0 \<and> reset s' = now c + period"
      using refused [of s c s'] Cons.prems(1) c call by simp
    then show ?thesis
      using call False IH new b by auto
  qed
next
  case Nil
  then show ?case
    using bounds [of s] by simp
qed

end

text \<open>
  The calls made on a manager: the two readings of the clock, the delegation and the operation.
  Only the uses of one delegation are counted.
\<close>

type_synonym use_call = "int64 \<times> int64 \<times> hash32 \<times> string"

definition attempt :: "('sk, 'pk) crypto \<Rightarrow> hash32 \<Rightarrow> use_call \<Rightarrow> DelegationManager \<Rightarrow> DelegationManager \<times> bool" where
  "attempt cr i = (\<lambda>(t1, now, j, operation) dm.
     let (dm', e) = DelegationManager_CheckAndUse cr t1 now j operation dm in (dm', j = i \<and> e = None))"

definition call_time :: "use_call \<Rightarrow> int" where
  "call_time = (\<lambda>(t1, now, j, operation). now)"

definition clock_ok :: "use_call \<Rightarrow> bool" where
  "clock_ok c \<longleftrightarrow> 0 \<le> call_time c \<and> in_int64 (call_time c + 86400)"

definition tracked :: "DelegationManager \<Rightarrow> hash32 \<Rightarrow> UsageTracker" where
  "tracked dm i = (case dm_UsageTracking dm i of None \<Rightarrow> new_tracker 0 0 | Some t \<Rightarrow> t)"

definition counter_ok :: "int \<Rightarrow> int \<Rightarrow> bool" where
  "counter_ok limit n \<longleftrightarrow> 0 < limit \<and> in_int64 limit \<longrightarrow> 0 \<le> n \<and> n \<le> limit"

definition tracker_ok :: "DelegationManager \<Rightarrow> bool" where
  "tracker_ok dm \<longleftrightarrow> (\<forall>i d. dm_Delegations dm i = Some d \<longrightarrow> dm_UsageTracking dm i \<noteq> None \<and>
     counter_ok (dp_RateLimitPerHour (d_Policy d)) (ut_HourlyUses (tracked dm i)) \<and>
     counter_ok (dp_RateLimitPerDay (d_Policy d)) (ut_DailyUses (tracked dm i)))"

lemma tracker_window_fields:
  "ut_HourlyUses (tracker_window now t) = (if ut_HourlyReset t \<le> now then 0 else ut_HourlyUses t)"
  "ut_DailyUses (tracker_window now t) = (if ut_DailyReset t \<le> now then 0 else ut_DailyUses t)"
  "ut_HourlyReset (tracker_window now t) = (if ut_HourlyReset t \<le> now then wrap64 (now + 3600) else ut_HourlyReset t)"
  "ut_DailyReset (tracker_window now t) = (if ut_DailyReset t \<le> now then wrap64 (now + 86400) else ut_DailyReset t)"
  by (simp_all add: tracker_window_def Let_def)

text \<open>What one call does to the tracker of its delegation.\<close>

lemma CheckAndUse_tracker:
  assumes "dm_Delegations dm i = Some d" and "dm_UsageTracking dm i = Some t"
    and "DelegationManager_CheckAndUse cr t1 now i operation dm = (dm', e)"
  shows "(e = None \<longrightarrow> tracked dm' i = (tracker_window now t)\<lparr>
        ut_HourlyUses := wrap64 (ut_HourlyUses (tracker_window now t) + 1), ut_DailyUses := wrap64 (ut_DailyUses (tracker_window now t) + 1)\<rparr> \<and>
      (0 < dp_RateLimitPerHour (d_Policy d) \<longrightarrow> ut_HourlyUses (tracker_window now t) < dp_RateLimitPerHour (d_Policy d)) \<and>
      (0 < dp_RateLimitPerDay (d_Policy d) \<longrightarrow> ut_DailyUses (tracker_window now t) < dp_RateLimitPerDay (d_Policy d))) \<and>
    (e \<noteq> None \<longrightarrow> tracked dm' i = t \<or> tracked dm' i = tracker_window now t) \<and> dm_UsageTracking dm' i \<noteq> None"
  using assms by (auto simp: DelegationManager_CheckAndUse_def tracked_def Let_def split: if_splits)

lemma CheckAndUse_other:
  "j \<noteq> i \<Longrightarrow> dm_UsageTracking (fst (DelegationManager_CheckAndUse cr t1 now j operation dm)) i = dm_UsageTracking dm i"
  by (cases "dm_Delegations dm j"; cases "dm_UsageTracking dm j") (auto simp: DelegationManager_CheckAndUse_def Let_def)

lemma counter_ok_step: "counter_ok limit n \<Longrightarrow> (0 < limit \<longrightarrow> n < limit) \<Longrightarrow> counter_ok limit (wrap64 (n + 1))"
proof -
  assume n: "counter_ok limit n" "0 < limit \<longrightarrow> n < limit"
  have "wrap64 (n + 1) = n + 1" if "0 < limit" "in_int64 limit"
    using n that by (intro wrap64_id) (auto simp: in_int64_def counter_ok_def)
  then show ?thesis
    using n by (auto simp: counter_ok_def)
qed

lemma counter_ok_0 [simp]: "counter_ok limit 0"
  by (simp add: counter_ok_def)

lemma tracker_ok_CheckAndUse:
  assumes "tracker_ok dm"
  shows "tracker_ok (fst (DelegationManager_CheckAndUse cr t1 now i operation dm))"
  unfolding tracker_ok_def CheckAndUse_delegations
proof (intro allI impI)
  fix j d
  let ?dm = "fst (DelegationManager_CheckAndUse cr t1 now i operation dm)"
  assume d: "dm_Delegations dm j = Some d"
  then obtain t where t: "dm_UsageTracking dm j = Some t" "counter_ok (dp_RateLimitPerHour (d_Policy d)) (ut_HourlyUses t)"
    "counter_ok (dp_RateLimitPerDay (d_Policy d)) (ut_DailyUses t)"
    using assms unfolding tracker_ok_def tracked_def by fastforce
  show "dm_UsageTracking ?dm j \<noteq> None \<and> counter_ok (dp_RateLimitPerHour (d_Policy d)) (ut_HourlyUses (tracked ?dm j)) \<and>
      counter_ok (dp_RateLimitPerDay (d_Policy d)) (ut_DailyUses (tracked ?dm j))"
  proof (cases "j = i")
    case True
    have w: "counter_ok (dp_RateLimitPerHour (d_Policy d)) (ut_HourlyUses (tracker_window now t))"
      "counter_ok (dp_RateLimitPerDay (d_Policy d)) (ut_DailyUses (tracker_window now t))"
      using t by (simp_all add: tracker_window_fields)
    obtain dm' e where call: "DelegationManager_CheckAndUse cr t1 now i operation dm = (dm', e)"
      by fastforce
    note after = CheckAndUse_tracker [OF d [unfolded True] t(1) [unfolded True] call]
    show ?thesis
    proof (cases e)
      case None
      then show ?thesis
        using after True call counter_ok_step [OF w(1)] counter_ok_step [OF w(2)] by simp
    next
      case (Some _)
      then have "tracked dm' i = t \<or> tracked dm' i = tracker_window now t"
        using after by simp
      then show ?thesis
        using after t(2,3) w True call by auto
    qed
  next
    case False
    then show ?thesis
      using CheckAndUse_other [of i j cr t1 now operation dm] t by (simp add: tracked_def)
  qed
qed

lemma same_shape_revoke_children:
  assumes "revoke_children stamp revoker cs dm = Some dm'"
  shows "same_shape dm dm'"
proof (rule revoke_children.raw_induct [OF _ assms, where P = "\<lambda>stamp revoker cs dm dm'. same_shape dm dm'"])
  fix f stamp revoker children dm r
  assume IH: "\<And>stamp revoker cs dm r. f stamp revoker cs dm = Some r \<Longrightarrow> same_shape dm r"
    and step: "(case children of [] \<Rightarrow> Some dm
        | childID # rest \<Rightarrow> (case dm_Delegations dm childID of None \<Rightarrow> f stamp revoker rest dm
          | Some child \<Rightarrow> Option.bind (let dm' = revoke_at stamp revoker childID dm
               in f stamp revoker (slot (dm_DelegationChains dm') childID) dm') (f stamp revoker rest))) = Some r"
  show "same_shape dm r"
    using step IH same_shape_revoke_at same_shape_trans
    by (auto simp: Let_def split: list.splits option.splits bind_splits) (metis same_shape_trans same_shape_revoke_at)
qed

lemma tracker_ok_same_shape: "same_shape dm dm' \<Longrightarrow> tracker_ok dm \<Longrightarrow> tracker_ok dm'"
proof -
  assume sh: "same_shape dm dm'" and ok: "tracker_ok dm"
  have "\<exists>d. dm_Delegations dm i = Some d \<and> d_Policy d = d_Policy d'" if "dm_Delegations dm' i = Some d'" for i d'
    using same_shape_Some [OF sh that] by (metis unrevoke_policy)
  moreover have "dm_UsageTracking dm' = dm_UsageTracking dm"
    using sh by (simp add: same_shape_def)
  ultimately show ?thesis
    using ok unfolding tracker_ok_def tracked_def by metis
qed

lemma delegation_run_tracker: "delegation_run cr owner ids dm \<Longrightarrow> tracker_ok dm"
proof (induction "NewDelegationManager owner" ids dm rule: issuing_run.induct)
  case none
  show ?case
    by (simp add: tracker_ok_def NewDelegationManager_def)
next
  case (more ids dm js dm')
  have add: "tracker_ok (delegation_add (new_tracker a b) d dm)" for a b d
    using more by (auto simp: tracker_ok_def delegation_add_def tracked_def new_tracker_def)
  from more.hyps(3) show ?case
  proof cases
    case (create now key delegate rightType streamID scope depth validUntil policy d)
    then show ?thesis
      using CreateDelegation_succeeds [OF create(2)] add by simp
  next
    case sub
    from sub(2) show ?thesis
      by (rule CreateSubDelegation_succeeds) (use add in \<open>simp add: tracker_ok_def tracked_def\<close>)
  next
    case (revoke stamp i revoker e)
    then have "same_shape dm dm'"
      by (auto simp: DelegationManager_RevokeDelegation_def revokeSubDelegations_def split: option.splits bind_splits if_splits
          intro: same_shape_trans [OF same_shape_revoke_at same_shape_revoke_children])
    then show ?thesis
      using tracker_ok_same_shape more.hyps(2) by blast
  next
    case use
    then show ?thesis
      using tracker_ok_CheckAndUse more.hyps(2) by blast
  qed
qed

text \<open>The states from which the counters of a delegation are followed, and the two counters.\<close>

definition limited :: "(DelegationPolicy \<Rightarrow> int) \<Rightarrow> hash32 \<Rightarrow> Delegation \<Rightarrow> DelegationManager \<Rightarrow> bool" where
  "limited limit i d dm \<longleftrightarrow> tracker_ok dm \<and> dm_Delegations dm i = Some d \<and> 0 < limit (d_Policy d) \<and> in_int64 (limit (d_Policy d))"

lemma limited_attempt: "limited limit i d dm \<Longrightarrow> limited limit i d (fst (attempt cr j c dm))"
proof -
  assume "limited limit i d dm"
  moreover obtain t1 now k operation where "c = (t1, now, k, operation)"
    by (cases c)
  moreover have "tracker_ok (fst (DelegationManager_CheckAndUse cr t1 now k operation dm))" if "tracker_ok dm"
    using that by (rule tracker_ok_CheckAndUse)
  moreover have "dm_Delegations (fst (DelegationManager_CheckAndUse cr t1 now k operation dm)) = dm_Delegations dm"
    by (rule CheckAndUse_delegations)
  ultimately show ?thesis
    by (simp add: limited_def attempt_def Let_def case_prod_beta)
qed

lemma limited_tracker:
  assumes "limited limit i d dm"
  obtains t where "dm_UsageTracking dm i = Some t" "tracked dm i = t"
    "counter_ok (dp_RateLimitPerHour (d_Policy d)) (ut_HourlyUses t)" "counter_ok (dp_RateLimitPerDay (d_Policy d)) (ut_DailyUses t)"
  using assms that unfolding limited_def tracker_ok_def tracked_def by fastforce

lemma limited_hourly: "limited dp_RateLimitPerHour i d dm \<Longrightarrow> 0 \<le> ut_HourlyUses (tracked dm i) \<and>
    ut_HourlyUses (tracked dm i) \<le> dp_RateLimitPerHour (d_Policy d) \<and> in_int64 (dp_RateLimitPerHour (d_Policy d)) \<and>
    0 < dp_RateLimitPerHour (d_Policy d)"
  by (rule limited_tracker, assumption) (simp add: limited_def counter_ok_def)

lemma limited_daily: "limited dp_RateLimitPerDay i d dm \<Longrightarrow> 0 \<le> ut_DailyUses (tracked dm i) \<and>
    ut_DailyUses (tracked dm i) \<le> dp_RateLimitPerDay (d_Policy d) \<and> in_int64 (dp_RateLimitPerDay (d_Policy d)) \<and>
    0 < dp_RateLimitPerDay (d_Policy d)"
  by (rule limited_tracker, assumption) (simp add: limited_def counter_ok_def)

lemma attempt_tracker:
  assumes "limited limit i d dm" and "attempt cr i c dm = (dm', g)" and "clock_ok c"
  shows "(g \<longrightarrow> tracked dm' i = (tracker_window (call_time c) (tracked dm i))\<lparr>
        ut_HourlyUses := wrap64 (ut_HourlyUses (tracker_window (call_time c) (tracked dm i)) + 1),
        ut_DailyUses := wrap64 (ut_DailyUses (tracker_window (call_time c) (tracked dm i)) + 1)\<rparr> \<and>
      (0 < dp_RateLimitPerHour (d_Policy d) \<longrightarrow>
         ut_HourlyUses (tracker_window (call_time c) (tracked dm i)) < dp_RateLimitPerHour (d_Policy d)) \<and>
      (0 < dp_RateLimitPerDay (d_Policy d) \<longrightarrow>
         ut_DailyUses (tracker_window (call_time c) (tracked dm i)) < dp_RateLimitPerDay (d_Policy d))) \<and>
    (\<not> g \<longrightarrow> tracked dm' i = tracked dm i \<or> tracked dm' i = tracker_window (call_time c) (tracked dm i))"
proof -
  obtain t1 now j operation where c: "c = (t1, now, j, operation)"
    by (cases c)
  obtain e where call: "DelegationManager_CheckAndUse cr t1 now j operation dm = (dm', e)" and g: "g \<longleftrightarrow> j = i \<and> e = None"
    using assms(2) by (auto simp: attempt_def c split: prod.splits)
  obtain t where t: "dm_UsageTracking dm i = Some t" "tracked dm i = t"
    by (rule limited_tracker [OF assms(1)])
  show ?thesis
  proof (cases "j = i")
    case True
    then show ?thesis
      using CheckAndUse_tracker [of dm i d t] call t assms(1) g by (fastforce simp: limited_def c call_time_def)
  next
    case False
    then show ?thesis
      using CheckAndUse_other [OF False, of cr t1 now operation dm] call t g by (simp add: tracked_def)
  qed
qed

lemma wrap64_use: "0 \<le> n \<Longrightarrow> n < l \<Longrightarrow> in_int64 l \<Longrightarrow> wrap64 (n + 1) = n + 1"
  by (rule wrap64_id) (simp add: in_int64_def)

lemma wrap64_1: "wrap64 1 = 1"
  by (simp add: wrap64_def)

lemma clock_ok_periods: "clock_ok c \<Longrightarrow> wrap64 (call_time c + 3600) = call_time c + 3600 \<and> wrap64 (call_time c + 86400) = call_time c + 86400"
  by (simp add: clock_ok_def wrap64_id in_int64_def)

interpretation hourly: window_limit "attempt cr i" call_time clock_ok "limited dp_RateLimitPerHour i d"
  "\<lambda>dm. ut_HourlyUses (tracked dm i)" "\<lambda>dm. ut_HourlyReset (tracked dm i)" 3600 "dp_RateLimitPerHour (d_Policy d)" for cr i d
proof (unfold_locales, goal_cases)
  case (1 dm)
  then show ?case
    using limited_hourly by blast
next
  case (2 dm c)
  then show ?case by (blast intro: limited_attempt)
next
  case (3 dm c dm')
  show ?case
    using limited_hourly [OF 3(1)] attempt_tracker [OF 3(1,3,2)] clock_ok_periods [OF 3(2)] wrap64_use [of _ "dp_RateLimitPerHour (d_Policy d)"]
    by (simp add: tracker_window_fields wrap64_1 split: if_splits)
next
  case (4 dm c dm')
  then show ?case
    using attempt_tracker [OF 4(1,3,2)] clock_ok_periods [OF 4(2)] by (auto simp: tracker_window_fields)
qed

interpretation daily: window_limit "attempt cr i" call_time clock_ok "limited dp_RateLimitPerDay i d"
  "\<lambda>dm. ut_DailyUses (tracked dm i)" "\<lambda>dm. ut_DailyReset (tracked dm i)" 86400 "dp_RateLimitPerDay (d_Policy d)" for cr i d
proof (unfold_locales, goal_cases)
  case (1 dm)
  then show ?case
    using limited_daily by blast
next
  case (2 dm c)
  then show ?case by (blast intro: limited_attempt)
next
  case (3 dm c dm')
  show ?case
    using limited_daily [OF 3(1)] attempt_tracker [OF 3(1,3,2)] clock_ok_periods [OF 3(2)] wrap64_use [of _ "dp_RateLimitPerDay (d_Policy d)"]
    by (simp add: tracker_window_fields wrap64_1 split: if_splits)
next
  case (4 dm c dm')
  then show ?case
    using attempt_tracker [OF 4(1,3,2)] clock_ok_periods [OF 4(2)] by (auto simp: tracker_window_fields)
qed

text \<open>
  C23: the rate limits hold over time. From every state a manager reaches, whatever calls of
  \<open>CheckAndUse\<close> follow within an hour, for this delegation and for others, at most twice the hourly
  limit of uses of the delegation succeed, and at most the limit when the window of the tracker is over
  at the start of that hour; the same holds for a day and the daily limit. Once both windows are over
  a valid delegation can be used again for the operations it lists. The clock readings are not
  negative and the limits are those of a positive \<open>int64\<close>; nothing is said of a limit of zero, which
  means none.
\<close>

theorem rate_limits_enforced:
  assumes "delegation_run cr owner ids dm" and "dm_Delegations dm i = Some d" and "\<forall>c\<in>set calls. clock_ok c"
    and "in_int64 (dp_RateLimitPerHour (d_Policy d))" and "in_int64 (dp_RateLimitPerDay (d_Policy d))"
  shows "\<exists>t. dm_UsageTracking dm i = Some t \<and>
    (0 < dp_RateLimitPerHour (d_Policy d) \<and> within call_time start 3600 calls \<longrightarrow>
       int (count_granted (attempt cr i) calls dm) \<le> 2 * dp_RateLimitPerHour (d_Policy d) \<and>
       (ut_HourlyReset t \<le> start \<longrightarrow> int (count_granted (attempt cr i) calls dm) \<le> dp_RateLimitPerHour (d_Policy d))) \<and>
    (0 < dp_RateLimitPerDay (d_Policy d) \<and> within call_time start 86400 calls \<longrightarrow>
       int (count_granted (attempt cr i) calls dm) \<le> 2 * dp_RateLimitPerDay (d_Policy d) \<and>
       (ut_DailyReset t \<le> start \<longrightarrow> int (count_granted (attempt cr i) calls dm) \<le> dp_RateLimitPerDay (d_Policy d))) \<and>
    (ut_HourlyReset t \<le> now \<and> ut_DailyReset t \<le> now \<and> Delegation_IsValid cr t1 d \<and>
       ds_AllowedOperations (d_Scope d) = Some ops \<and> operation \<in> set ops \<longrightarrow>
       succeeded (DelegationManager_CheckAndUse cr t1 now i operation dm))"
proof -
  have ok: "tracker_ok dm"
    by (rule delegation_run_tracker [OF assms(1)])
  then obtain t where t: "dm_UsageTracking dm i = Some t" "tracked dm i = t"
    using assms(2) unfolding tracker_ok_def tracked_def by fastforce
  have lim: "0 < limit (d_Policy d) \<Longrightarrow> in_int64 (limit (d_Policy d)) \<Longrightarrow> limited limit i d dm" for limit
    using ok assms(2) by (simp add: limited_def)
  have "succeeded (DelegationManager_CheckAndUse cr t1 now i operation dm)"
    if "ut_HourlyReset t \<le> now" "ut_DailyReset t \<le> now" "Delegation_IsValid cr t1 d"
      "ds_AllowedOperations (d_Scope d) = Some ops" "operation \<in> set ops"
    using that assms(2) t(1) by (simp add: DelegationManager_CheckAndUse_def Let_def list_ex_iff tracker_window_fields)
  moreover have "int (count_granted (attempt cr i) calls dm) \<le> 2 * dp_RateLimitPerHour (d_Policy d) \<and>
      (ut_HourlyReset t \<le> start \<longrightarrow> int (count_granted (attempt cr i) calls dm) \<le> dp_RateLimitPerHour (d_Policy d))"
    if "0 < dp_RateLimitPerHour (d_Policy d)" "within call_time start 3600 calls"
    using hourly.count_period [OF lim [of dp_RateLimitPerHour, OF that(1) assms(4)] assms(3) that(2), of cr] limited_hourly [OF lim [of dp_RateLimitPerHour, OF that(1) assms(4)]] t(2) by auto
  moreover have "int (count_granted (attempt cr i) calls dm) \<le> 2 * dp_RateLimitPerDay (d_Policy d) \<and>
      (ut_DailyReset t \<le> start \<longrightarrow> int (count_granted (attempt cr i) calls dm) \<le> dp_RateLimitPerDay (d_Policy d))"
    if "0 < dp_RateLimitPerDay (d_Policy d)" "within call_time start 86400 calls"
    using daily.count_period [OF lim [of dp_RateLimitPerDay, OF that(1) assms(5)] assms(3) that(2), of cr] limited_daily [OF lim [of dp_RateLimitPerDay, OF that(1) assms(5)]] t(2) by auto
  ultimately show ?thesis
    using t(1) by blast
qed

section \<open>A delegation to oneself\<close>

text \<open>
  A delegation whose parent is itself: none of the walks over it returns.
\<close>

definition self_parent :: "DelegationManager \<Rightarrow> hash32 \<Rightarrow> bool" where
  "self_parent dm i \<longleftrightarrow> i \<noteq> zero32 \<and> (\<exists>d. dm_Delegations dm i = Some d \<and> d_ParentDelegation d = i) \<and>
     slot (dm_DelegationChains dm) i = [i]"

lemma self_parent_chain: "self_parent dm i \<Longrightarrow> chain_loop dm i acc \<noteq> Some r"
proof
  assume i: "self_parent dm i" and "chain_loop dm i acc = Some r"
  have "\<not> self_parent dm i"
    by (rule chain_loop.raw_induct [OF _ \<open>chain_loop dm i acc = Some r\<close>, where P = "\<lambda>dm i _ _. \<not> self_parent dm i"])
      (auto simp: self_parent_def split: if_splits option.splits, blast)
  with i show False by contradiction
qed

lemma self_parent_canRevoke:
  assumes "self_parent dm i" and "dm_Delegations dm i = Some d" and "canRevoke dm d revoker = Some b"
  shows "d_Delegator d = revoker"
proof -
  have "self_parent dm i \<and> dm_Delegations dm i = Some d \<longrightarrow> d_Delegator d = revoker"
    by (rule canRevoke.raw_induct [OF _ assms(3),
          where P = "\<lambda>dm d r _. self_parent dm i \<and> dm_Delegations dm i = Some d \<longrightarrow> d_Delegator d = r"])
      (auto simp: self_parent_def split: if_splits option.splits)
  with assms(1,2) show ?thesis
    by simp
qed

lemma self_parent_revoke:
  assumes "self_parent dm i" shows "revoke_children stamp revoker [i] dm \<noteq> Some dm'"
proof
  assume r: "revoke_children stamp revoker [i] dm = Some dm'"
  have "\<not> ([i] = [i] \<and> self_parent dm i)"
  proof (rule revoke_children.raw_induct [OF _ r, where P = "\<lambda>s r cs dm dm'. \<not> (cs = [i] \<and> self_parent dm i)"])
    fix f stamp revoker children dm r
    assume IH: "\<And>stamp revoker cs dm r. f stamp revoker cs dm = Some r \<Longrightarrow> \<not> (cs = [i] \<and> self_parent dm i)"
      and step: "(case children of [] \<Rightarrow> Some dm
        | childID # rest \<Rightarrow> (case dm_Delegations dm childID of None \<Rightarrow> f stamp revoker rest dm
          | Some child \<Rightarrow> Option.bind (let dm' = revoke_at stamp revoker childID dm
               in f stamp revoker (slot (dm_DelegationChains dm') childID) dm') (f stamp revoker rest))) = Some r"
    show "\<not> (children = [i] \<and> self_parent dm i)"
    proof
      let ?dm = "revoke_at stamp revoker i dm"
      assume self: "children = [i] \<and> self_parent dm i"
      then obtain d where "dm_Delegations dm i = Some d" and chains: "slot (dm_DelegationChains ?dm) i = [i]"
        and self': "self_parent ?dm i"
        by (auto simp: self_parent_def revoke_at_def Delegation_Revoke_def)
      with self step have "f stamp revoker [i] ?dm \<noteq> None"
        by (cases "f stamp revoker [i] ?dm") (auto simp: Let_def)
      with IH self' show False by blast
    qed
  qed
  with assms show False by simp
qed

text \<open>
  C25: a party who delegates a right to itself and sub-delegates it to itself within the same
  second gets a sub-delegation with the identifier of its parent, since the identifier is the hash
  of the parties, the right, the stream and the second of creation. The sub-delegation replaces its
  parent and is its own parent: \<open>GetDelegationChain\<close>, \<open>VerifyDelegationChain\<close> and
  \<open>RevokeDelegation\<close> then never return, whoever revokes.
\<close>

theorem self_delegation_never_returns:
  assumes "DelegationManager_CreateDelegation cr now key (key_address cr key) rightType streamID scope depth validUntil
      policy dm = (dm1, Inr d)"
    and "slot (dm_DelegationChains dm) (d_ID d) = []" and "d_ID d \<noteq> zero32"
    and "DelegationManager_CreateSubDelegation cr t1 now t3 t4 key (d_ID d) (key_address cr key) until dm1 = (dm2, Inr s)"
  shows "d_ID s = d_ID d \<and> GetDelegationChain (d_ID d) dm2 = None \<and> VerifyDelegationChain cr clock (d_ID d) dm2 = None \<and>
    DelegationManager_RevokeDelegation stamp (d_ID d) revoker dm2 = None"
proof -
  let ?i = "d_ID d"
  have d: "dm1 = delegation_add (new_tracker now now) d dm" "d_Delegate d = key_address cr key"
    "d_Delegator d = key_address cr key" "d_Created d = now" "d_ID d = d_ID (Delegation_GenerateID cr d)"
    using assms(1) by (auto simp: DelegationManager_CreateDelegation_def Let_def Delegation_GenerateID_def
      split: prod.splits option.splits elim!: delegation_doc.sign_succeeded_cases)
  have self: "self_parent dm2 ?i \<and> d_ID s = ?i \<and> dm_Delegations dm2 ?i = Some s"
    using assms(4)
  proof (rule CreateSubDelegation_succeeds)
    fix parent s0
    assume parent: "dm_Delegations dm1 ?i = Some parent"
      and s0: "Delegation_CreateSubDelegation cr t1 now (key_address cr key) until parent = Inr s0"
      and sign: "Delegation_Sign cr key s0 = (s, None)"
      and dm2: "dm2 = (delegation_add (new_tracker t3 t4) s dm1)\<lparr>dm_DelegationChains :=
          push ?i (d_ID s) (dm_DelegationChains dm1)\<rparr>"
    have "parent = d"
      using parent by (simp add: d(1) delegation_add_def)
    then have "d_ID s0 = d_ID (Delegation_GenerateID cr d) \<and> d_ParentDelegation s0 = d_ID d"
      using s0 d(2-4) by (auto simp: Delegation_CreateSubDelegation_def Delegation_GenerateID_def split: if_splits)
    then have "d_ID s = ?i \<and> d_ParentDelegation s = ?i"
      using sign d(5) by (auto elim!: delegation_doc.sign_succeeded_cases)
    then show ?thesis
      using assms(2,3) by (simp add: self_parent_def dm2 d(1) delegation_add_def)
  qed
  then have chain: "GetDelegationChain ?i dm2 = None"
    using self_parent_chain [of dm2 ?i "[]"] by (auto simp: GetDelegationChain_def)
  have "self_parent (revoke_at stamp revoker ?i dm2) ?i"
    using self by (auto simp: self_parent_def revoke_at_def Delegation_Revoke_def)
  then have "revokeSubDelegations stamp revoker ?i (revoke_at stamp revoker ?i dm2) = None"
    using self_parent_revoke [of "revoke_at stamp revoker ?i dm2" ?i stamp revoker]
    by (auto simp: revokeSubDelegations_def self_parent_def)
  moreover have "canRevoke dm2 s revoker \<noteq> Some False"
  proof
    assume no: "canRevoke dm2 s revoker = Some False"
    then have "d_Delegator s = revoker"
      using self_parent_canRevoke [of dm2 ?i s revoker False] self by blast
    with no show False
      by (simp add: canRevoke.simps [of dm2 s revoker])
  qed
  ultimately show ?thesis
    using self chain
    by (cases "canRevoke dm2 s revoker") (auto simp: DelegationManager_RevokeDelegation_def VerifyDelegationChain_def)
qed

section \<open>A concrete manager\<close>

text \<open>
  Party 1 delegates to itself in second 10 and passes the delegation on to itself, in second 20
  or, for the endless walks, within the same second.
\<close>

definition demo_scope :: DelegationScope where
  "demo_scope = \<lparr>ds_AllowedOperations = Some [''read''], ds_ReadOnly = True, ds_LayerRestriction = [], ds_MaxDataSize = 0\<rparr>"

definition demo_policy :: DelegationPolicy where
  "demo_policy = empty_policy\<lparr>dp_AllowSubDelegation := True, dp_RateLimitPerHour := 2\<rparr>"

definition demo_unsigned :: "int64 \<Rightarrow> Delegation" where
  "demo_unsigned now = Delegation_GenerateID demo_crypto
     \<lparr>d_ID = zero32, d_Delegator = [1], d_Delegate = [1], d_RightType = ''read'', d_StreamID = zero32, d_Scope = demo_scope,
      d_Depth = 2, d_CurrentDepth = 0, d_ParentDelegation = zero32, d_Created = now, d_ValidFrom = now, d_ValidUntil = 100,
      d_Policy = demo_policy, d_Revoked = False, d_RevokedAt = 0, d_RevokedBy = zero_address, d_Signature = None\<rparr>"

definition demo_root :: Delegation where
  "demo_root = fst (Delegation_Sign demo_crypto [1] (demo_unsigned 10))"

definition demo_dm :: DelegationManager where
  "demo_dm = delegation_add (new_tracker 10 10) demo_root (NewDelegationManager [1])"

definition demo_sub :: "int64 \<Rightarrow> int64 \<Rightarrow> Delegation" where
  "demo_sub now until = fst (Delegation_Sign demo_crypto [1]
     (projr (Delegation_CreateSubDelegation demo_crypto 20 now [1] until demo_root)))"

definition demo_dm2 :: "int64 \<Rightarrow> int64 \<Rightarrow> DelegationManager" where
  "demo_dm2 now until = (delegation_add (new_tracker 20 20) (demo_sub now until) demo_dm)\<lparr>dm_DelegationChains :=
     push (d_ID demo_root) (d_ID (demo_sub now until)) (dm_DelegationChains demo_dm)\<rparr>"

lemma demo_delegation_sign: "d_Delegator d = [1] \<Longrightarrow> \<exists>sig. Delegation_Sign demo_crypto [1] d = (d\<lparr>d_Signature := Some sig\<rparr>, None)"
  using delegation_doc.sign_complete [of demo_crypto "[1]" d] by (metis demo_key_address demo_sign)

lemma demo_root_fields:
  "Delegation_Sign demo_crypto [1] (demo_unsigned 10) = (demo_root, None) \<and> d_ID demo_root = d_ID (demo_unsigned 10) \<and>
   d_Delegator demo_root = [1] \<and> d_Delegate demo_root = [1] \<and> d_RightType demo_root = ''read'' \<and>
   d_StreamID demo_root = zero32 \<and> d_Scope demo_root = demo_scope \<and> d_Depth demo_root = 2 \<and>
   d_CurrentDepth demo_root = 0 \<and> d_ParentDelegation demo_root = zero32 \<and> d_ValidFrom demo_root = 10 \<and>
   d_ValidUntil demo_root = 100 \<and> d_Policy demo_root = demo_policy \<and> \<not> d_Revoked demo_root"
proof -
  obtain sig where "Delegation_Sign demo_crypto [1] (demo_unsigned 10) = ((demo_unsigned 10)\<lparr>d_Signature := Some sig\<rparr>, None)"
    using demo_delegation_sign [of "demo_unsigned 10"] by (auto simp: demo_unsigned_def Delegation_GenerateID_def)
  then show ?thesis
    by (simp add: demo_root_def) (simp add: demo_unsigned_def Delegation_GenerateID_def)
qed

lemma demo_root_create:
  "DelegationManager_CreateDelegation demo_crypto 10 [1] [1] ''read'' zero32 demo_scope 2 100 demo_policy
     (NewDelegationManager [1]) = (demo_dm, Inr demo_root)"
  using demo_root_fields
  by (simp add: DelegationManager_CreateDelegation_def demo_unsigned_def [symmetric] demo_dm_def)

lemma demo_dm_root: "dm_Delegations demo_dm (d_ID demo_root) = Some demo_root"
  by (simp add: demo_dm_def delegation_add_def)

lemma demo_root_can: "CanSubDelegate demo_crypto 20 demo_root"
  using demo_root_fields delegation_doc.sign_then_verify [OF demo_crypto_recovers, of "[1]" "demo_unsigned 10" demo_root]
  by (simp add: CanSubDelegate_def Delegation_IsValid_def demo_policy_def)

lemma demo_sub_signed:
  "\<exists>sig s. Delegation_CreateSubDelegation demo_crypto 20 now [1] until demo_root = Inr s \<and>
     Delegation_Sign demo_crypto [1] s = (demo_sub now until, None) \<and>
     demo_sub now until = s\<lparr>d_Signature := Some sig\<rparr> \<and> d_ID s = d_ID (demo_unsigned now)"
proof -
  obtain s where s: "Delegation_CreateSubDelegation demo_crypto 20 now [1] until demo_root = Inr s"
    "d_Delegator s = [1]" "d_ID s = d_ID (demo_unsigned now)"
    using demo_root_can demo_root_fields
    by (auto simp: Delegation_CreateSubDelegation_def Delegation_GenerateID_def demo_unsigned_def Let_def)
  with demo_delegation_sign [of s] show ?thesis
    by (auto simp: demo_sub_def)
qed

lemma demo_sub_create:
  "DelegationManager_CreateSubDelegation demo_crypto 20 now 20 20 [1] (d_ID demo_root) [1] until demo_dm =
     (demo_dm2 now until, Inr (demo_sub now until))"
  using demo_sub_signed [of now until] demo_dm_root demo_root_fields
  by (auto simp: DelegationManager_CreateSubDelegation_def demo_dm2_def delegation_add_def)

lemma demo_id_ne: "d_ID (demo_unsigned now) \<noteq> zero32"
proof -
  have "supported (JObj fs) \<Longrightarrow> hash_json demo_crypto (JObj fs) \<noteq> zero32" for fs
    using supported_marshals [of "JObj fs"]
    by (auto simp: hash_json_def json_bytes_def demo_crypto_def bytes_of_string_def zero32_def
        dest!: arg_cong [where f = hd])
  then show ?thesis
    by (simp add: demo_unsigned_def Delegation_GenerateID_def del: json_marshal.simps)
qed

lemma demo_id_inj: assumes "d_ID (demo_unsigned 20) = d_ID (demo_unsigned 10)" shows False
proof -
  let ?a = "[(''Delegator'', JAddr demo_crypto [1]), (''Delegate'', JAddr demo_crypto [1]), (''RightType'', JStr ''read''),
    (''StreamID'', JBytes zero32)]"
  have "hash_json demo_crypto (JObj (?a @ (''Created'', JInt (int 20)) # [])) =
      hash_json demo_crypto (JObj (?a @ (''Created'', JInt (int 10)) # []))"
    using assms by (simp add: demo_unsigned_def Delegation_GenerateID_def del: json_marshal.simps)
  moreover obtain s t where "json_marshal (JObj (?a @ (''Created'', JInt (int 20)) # [])) = Some s"
    "json_marshal (JObj (?a @ (''Created'', JInt (int 10)) # [])) = Some t"
    using supported_marshals [of "JObj (?a @ (''Created'', JInt (int 20)) # [])"]
      supported_marshals [of "JObj (?a @ (''Created'', JInt (int 10)) # [])"] by auto
  ultimately have "json_marshal (JObj (?a @ (''Created'', JInt (int 20)) # [])) =
      json_marshal (JObj (?a @ (''Created'', JInt (int 10)) # []))"
    by (simp add: hash_json_def json_bytes_def demo_crypto_def del: json_marshal.simps)
  then have "20 = (10::nat)"
    by (rule marshal_JInt_field_inject [rotated 2]) simp_all
  then show False by simp
qed

lemma demo_sub_id: "d_ID (demo_sub now until) = d_ID (demo_unsigned now)"
  using demo_sub_signed [of now until] by auto

lemma demo_dm_run: "delegation_run demo_crypto [1] [d_ID demo_root] demo_dm"
  by (rule issuing_run_one, rule delegation_step.create [OF demo_root_create]) (simp add: in_int64_def)

lemma demo_dm2_run: "delegation_run demo_crypto [1] [d_ID demo_root, d_ID (demo_sub 20 until)] (demo_dm2 20 until)"
  using issuing_run.more [OF demo_dm_run delegation_step.sub [OF demo_sub_create]] by simp

lemma demo_dm2_ids: "distinct [d_ID demo_root, d_ID (demo_sub 20 until)]" "zero32 \<notin> set [d_ID demo_root, d_ID (demo_sub 20 until)]"
  using demo_id_inj demo_root_fields demo_id_ne [of 10] demo_id_ne [of 20] by (auto simp: demo_sub_id)

lemma demo_dm2_child: "child_of (demo_dm2 20 until) (d_ID demo_root) (d_ID (demo_sub 20 until))"
  by (simp add: child_of_def demo_dm2_def)

lemma demo_dm2_root: "dm_Delegations (demo_dm2 20 until) (d_ID demo_root) = Some demo_root"
  using demo_id_inj demo_root_fields demo_dm_root
  by (auto simp: demo_dm2_def delegation_add_def demo_sub_id)

theorem RevokeDelegation_revokes_subtree_witness:
  "\<exists>dm'. DelegationManager_RevokeDelegation (\<lambda>_. 30) (d_ID demo_root) [1] (demo_dm2 20 50) = Some (dm', None) \<and>
     is_revoked dm' (d_ID (demo_sub 20 50))"
  using RevokeDelegation_revokes_subtree [OF demo_dm2_run [of 50] demo_dm2_ids, of "\<lambda>_. 30" "d_ID demo_root" "[1]"]
    demo_dm2_root [of 50] demo_root_fields demo_dm2_child [of 50]
  by (metis option.distinct(1) r_into_rtranclp rtranclp.rtrancl_refl)

theorem GetDelegationChain_linked_witness:
  "\<exists>ds. GetDelegationChain (d_ID (demo_sub 20 50)) (demo_dm2 20 50) = Some ds \<and> last ds = demo_sub 20 50 \<and> linked ds"
proof -
  have "dm_Delegations (demo_dm2 20 50) (d_ID (demo_sub 20 50)) = Some (demo_sub 20 50)"
    by (simp add: demo_dm2_def delegation_add_def)
  from GetDelegationChain_linked [OF demo_dm2_run demo_dm2_ids this] show ?thesis
    by blast
qed

theorem CreateSubDelegation_bounds_witness:
  "\<exists>s. Delegation_CreateSubDelegation demo_crypto 20 20 [1] 500 demo_root = Inr s \<and> d_ValidUntil s \<le> 100"
proof -
  obtain s where s: "Delegation_CreateSubDelegation demo_crypto 20 20 [1] 500 demo_root = Inr s"
    using demo_sub_signed [of 20 500] by blast
  with CreateSubDelegation_bounds [OF s] demo_root_fields show ?thesis
    by (simp add: in_int64_def)
qed

theorem negative_expiry_outlives_parent_witness:
  "\<not> Delegation_IsValid demo_crypto 1000 demo_root \<and> Delegation_IsValid demo_crypto 1000 (demo_sub 20 (-1))"
  using negative_expiry_outlives_parent [OF demo_crypto_recovers _ demo_sub_create [of 20 "-1"], of 1000] demo_root_fields
  by (simp add: Delegation_IsValid_def [of _ _ demo_root])

theorem rate_limits_enforced_witness:
  "int (count_granted (attempt demo_crypto (d_ID demo_root)) (replicate 9 (20, 4000, d_ID demo_root, ''read'')) demo_dm) \<le> 2"
proof -
  define calls :: "use_call list" where "calls = replicate 9 (20, 4000, d_ID demo_root, ''read'')"
  have policy: "dp_RateLimitPerHour (d_Policy demo_root) = 2" "in_int64 (dp_RateLimitPerHour (d_Policy demo_root))"
    "in_int64 (dp_RateLimitPerDay (d_Policy demo_root))"
    using demo_root_fields by (simp_all add: demo_policy_def empty_policy_def in_int64_def)
  have clock: "\<forall>c\<in>set calls. clock_ok c" and hour: "within call_time 4000 3600 calls"
    by (simp_all add: calls_def clock_ok_def in_int64_def within_def call_time_def)
  obtain t where t: "dm_UsageTracking demo_dm (d_ID demo_root) = Some t"
    and "0 < dp_RateLimitPerHour (d_Policy demo_root) \<and> within call_time 4000 3600 calls \<longrightarrow>
      ut_HourlyReset t \<le> 4000 \<longrightarrow>
      int (count_granted (attempt demo_crypto (d_ID demo_root)) calls demo_dm) \<le> dp_RateLimitPerHour (d_Policy demo_root)"
    using rate_limits_enforced [OF demo_dm_run demo_dm_root clock policy(2,3), of 4000] by blast
  moreover have "t = new_tracker 10 10"
    using t by (simp add: demo_dm_def delegation_add_def)
  ultimately show ?thesis
    using hour by (simp add: calls_def policy(1) new_tracker_def wrap64_def)
qed

theorem self_delegation_never_returns_witness:
  "DelegationManager_RevokeDelegation (\<lambda>_. 30) (d_ID demo_root) [1] (demo_dm2 10 50) = None"
  using self_delegation_never_returns [of demo_crypto 10 "[1]" _ _ _ _ _ _ _ demo_dm demo_root 20 20 20 50 "demo_dm2 10 50"
      "demo_sub 10 50" "\<lambda>_. 0" "\<lambda>_. 30" "[1]"] demo_root_create demo_sub_create [of 10 50] demo_id_ne [of 10] demo_root_fields
  by (simp add: NewDelegationManager_def)

end
