(* ===== verification/Rotation.thy ===== *)
theory Rotation
  imports Signed_Document
begin

text \<open>
  Key rotation (\<open>identity/rotation.go\<close>): continuity proofs signed by the old and the new key,
  the manager that rotates keys or recovers them behind a time lock, and the verification of the
  whole chain of proofs. An absent \<open>*RecoveryProof\<close> or \<open>*PendingRecovery\<close> is \<open>None\<close>; a clock
  reading is an argument.
\<close>

section \<open>Data\<close>

definition RotationScheduled :: string where "RotationScheduled = ''scheduled''"
definition RotationCompromise :: string where "RotationCompromise = ''compromise''"
definition RotationUpgrade :: string where "RotationUpgrade = ''upgrade''"
definition RotationRecovery :: string where "RotationRecovery = ''recovery''"
definition RotationMigration :: string where "RotationMigration = ''migration''"

definition RecoveryPhrase :: string where "RecoveryPhrase = ''phrase''"
definition RecoverySocial :: string where "RecoverySocial = ''social''"
definition RecoveryTimeLock :: string where "RecoveryTimeLock = ''timelock''"

record SocialRecoverySignature =
  srs_Guardian :: address
  srs_Signature :: slice
  srs_Timestamp :: int64

record TimeLockProof =
  tl_InitiatedAt :: int64
  tl_LockDuration :: int64
  tl_InitiationTxHash :: hash32

record RecoveryProof =
  rp_Method :: string
  rp_RecoveryPhraseHash :: slice
  rp_SocialRecoverySignatures :: "SocialRecoverySignature list"
  rp_TimeLockProof :: "TimeLockProof option"

record ContinuityProof =
  kp_Version :: int
  kp_OldAddress :: address
  kp_NewAddress :: address
  kp_ForkID :: hash32
  kp_RotationNumber :: int
  kp_Reason :: string
  kp_Timestamp :: int64
  kp_EffectiveAt :: int64
  kp_GracePeriodEnd :: int64
  kp_OldKeySignature :: slice
  kp_NewKeySignature :: slice
  kp_RecoveryProof :: "RecoveryProof option"

record PendingRecovery =
  pr_NewAddress :: address
  pr_InitiatedAt :: int64
  pr_CanComplete :: int64

record KeyRotationManager =
  krm_ForkID :: hash32
  krm_CurrentAddress :: address
  krm_RotationHistory :: "ContinuityProof list"
  krm_SocialRecoveryGuardians :: "address list"
  krm_SocialRecoveryThreshold :: int
  krm_TimeLockDuration :: int64
  krm_PendingRecovery :: "PendingRecovery option"

definition SocialRecoverySignature_json :: "('sk, 'pk) crypto \<Rightarrow> SocialRecoverySignature \<Rightarrow> json" where
  "SocialRecoverySignature_json cr s = JObj
     [(''guardian'', JAddr cr (srs_Guardian s)), (''signature'', JSlice (srs_Signature s)),
      (''timestamp'', JInt (srs_Timestamp s))]"

definition TimeLockProof_json :: "TimeLockProof \<Rightarrow> json" where
  "TimeLockProof_json t = JObj
     [(''initiated_at'', JInt (tl_InitiatedAt t)), (''lock_duration'', JInt (tl_LockDuration t)),
      (''initiation_tx_hash'', JBytes (tl_InitiationTxHash t))]"

definition RecoveryProof_json :: "('sk, 'pk) crypto \<Rightarrow> RecoveryProof \<Rightarrow> json" where
  "RecoveryProof_json cr r = JObj (
     [(''method'', JStr (rp_Method r))]
     @ omitempty (slice_bytes (rp_RecoveryPhraseHash r) = []) ''recovery_phrase_hash'' (JSlice (rp_RecoveryPhraseHash r))
     @ omitempty (rp_SocialRecoverySignatures r = []) ''social_recovery_signatures''
         (JArr (map (SocialRecoverySignature_json cr) (rp_SocialRecoverySignatures r)))
     @ (case rp_TimeLockProof r of None \<Rightarrow> [] | Some t \<Rightarrow> [(''time_lock_proof'', TimeLockProof_json t)]))"

definition ContinuityProof_json :: "('sk, 'pk) crypto \<Rightarrow> ContinuityProof \<Rightarrow> json" where
  "ContinuityProof_json cr p = JObj (
     [(''version'', JInt (kp_Version p)), (''old_address'', JAddr cr (kp_OldAddress p)),
      (''new_address'', JAddr cr (kp_NewAddress p)), (''fork_id'', JBytes (kp_ForkID p)),
      (''rotation_number'', JInt (kp_RotationNumber p)), (''reason'', JStr (kp_Reason p)),
      (''timestamp'', JInt (kp_Timestamp p)), (''effective_at'', JInt (kp_EffectiveAt p)),
      (''grace_period_end'', JInt (kp_GracePeriodEnd p)), (''old_key_signature'', JSlice (kp_OldKeySignature p)),
      (''new_key_signature'', JSlice (kp_NewKeySignature p))]
     @ (case kp_RecoveryProof p of None \<Rightarrow> [] | Some r \<Rightarrow> [(''recovery_proof'', RecoveryProof_json cr r)]))"

section \<open>Continuity proofs\<close>

text \<open>The document both keys sign: the proof without its signatures.\<close>

definition unsigned_proof :: "ContinuityProof \<Rightarrow> ContinuityProof" where
  "unsigned_proof p = p\<lparr>kp_OldKeySignature := None, kp_NewKeySignature := None\<rparr>"

definition SignWithOldKey :: "('sk, 'pk) crypto \<Rightarrow> 'sk \<Rightarrow> ContinuityProof \<Rightarrow> ContinuityProof outcome" where
  "SignWithOldKey cr oldKey p =
     (if key_address cr oldKey \<noteq> kp_OldAddress p then (p, Some (Errorf ''key address does not match old address''))
      else let p0 = unsigned_proof p in
        case sign_body cr oldKey (ContinuityProof_json cr p0) of
          Inl e \<Rightarrow> (p0, Some e)
        | Inr sig \<Rightarrow> (p0\<lparr>kp_OldKeySignature := Some sig\<rparr>, None))"

definition SignWithNewKey :: "('sk, 'pk) crypto \<Rightarrow> 'sk \<Rightarrow> ContinuityProof \<Rightarrow> ContinuityProof outcome" where
  "SignWithNewKey cr newKey p =
     (if key_address cr newKey \<noteq> kp_NewAddress p then (p, Some (Errorf ''key address does not match new address''))
      else let oldSig = kp_OldKeySignature p; p1 = p\<lparr>kp_NewKeySignature := None\<rparr> in
        case json_bytes (ContinuityProof_json cr (unsigned_proof p)) of
          None \<Rightarrow> (p1, Some (Wrapped ''failed to marshal for signing'' marshal_error))
        | Some data \<Rightarrow>
            (case Sign cr (Keccak256 cr (data @ slice_bytes oldSig)) newKey of
               None \<Rightarrow> (p1, Some (Wrapped ''failed to sign'' sign_error))
             | Some sig \<Rightarrow> (p\<lparr>kp_NewKeySignature := Some sig\<rparr>, None)))"

definition verifyNewKeyOnly :: "('sk, 'pk) crypto \<Rightarrow> ContinuityProof \<Rightarrow> go_error option" where
  "verifyNewKeyOnly cr p =
     (if slice_bytes (kp_NewKeySignature p) = [] then Some (Errorf ''missing new key signature'')
      else if kp_RecoveryProof p = None then Some (Errorf ''recovery rotation requires recovery proof'')
      else (case json_bytes (ContinuityProof_json cr (p\<lparr>kp_NewKeySignature := None\<rparr>)) of
        None \<Rightarrow> Some (Wrapped ''failed to marshal'' marshal_error)
      | Some data \<Rightarrow>
          (case SigToPub cr (Keccak256 cr data) (slice_bytes (kp_NewKeySignature p)) of
             None \<Rightarrow> Some (Wrapped ''invalid new key signature'' recover_error)
           | Some pub \<Rightarrow> if PubkeyToAddress cr pub \<noteq> kp_NewAddress p
               then Some (Errorf ''new key signature does not match new address'') else None)))"

definition ContinuityProof_Verify :: "('sk, 'pk) crypto \<Rightarrow> ContinuityProof \<Rightarrow> go_error option" where
  "ContinuityProof_Verify cr p =
     (if kp_Reason p = RotationRecovery then verifyNewKeyOnly cr p
      else if slice_bytes (kp_OldKeySignature p) = [] then Some (Errorf ''missing old key signature'')
      else if slice_bytes (kp_NewKeySignature p) = [] then Some (Errorf ''missing new key signature'')
      else let oldSig = slice_bytes (kp_OldKeySignature p); newSig = slice_bytes (kp_NewKeySignature p) in
      (case json_bytes (ContinuityProof_json cr (unsigned_proof p)) of
         None \<Rightarrow> Some (Wrapped ''failed to marshal'' marshal_error)
       | Some data \<Rightarrow>
           (case SigToPub cr (Keccak256 cr data) oldSig of
              None \<Rightarrow> Some (Wrapped ''invalid old key signature'' recover_error)
            | Some pub \<Rightarrow>
                if PubkeyToAddress cr pub \<noteq> kp_OldAddress p
                then Some (Errorf ''old key signature does not match old address'')
                else (case SigToPub cr (Keccak256 cr (data @ oldSig)) newSig of
                  None \<Rightarrow> Some (Wrapped ''invalid new key signature'' recover_error)
                | Some pub' \<Rightarrow>
                    if PubkeyToAddress cr pub' \<noteq> kp_NewAddress p
                    then Some (Errorf ''new key signature does not match new address'')
                    else None))))"

definition IsEffective :: "int64 \<Rightarrow> ContinuityProof \<Rightarrow> bool" where
  "IsEffective now p \<longleftrightarrow> now \<ge> kp_EffectiveAt p"

definition IsInGracePeriod :: "int64 \<Rightarrow> ContinuityProof \<Rightarrow> bool" where
  "IsInGracePeriod now p \<longleftrightarrow> now < kp_GracePeriodEnd p"

section \<open>The manager\<close>

definition NewKeyRotationManager :: "hash32 \<Rightarrow> address \<Rightarrow> KeyRotationManager" where
  \<comment> \<open>the arguments are the identity's \<open>ForkID\<close> and \<open>Address\<close>\<close>
  "NewKeyRotationManager forkID addr = \<lparr>krm_ForkID = forkID, krm_CurrentAddress = addr, krm_RotationHistory = [],
     krm_SocialRecoveryGuardians = [], krm_SocialRecoveryThreshold = 0, krm_TimeLockDuration = 7 * 24 * 60 * 60,
     krm_PendingRecovery = None\<rparr>"

definition KeyRotationManager_Rotate ::
  "('sk, 'pk) crypto \<Rightarrow> int64 \<Rightarrow> 'sk \<Rightarrow> 'sk \<Rightarrow> string \<Rightarrow> int \<Rightarrow> KeyRotationManager
    \<Rightarrow> KeyRotationManager \<times> (go_error + ContinuityProof)" where
  "KeyRotationManager_Rotate cr now oldKey newKey reason gracePeriodDays krm =
     (if key_address cr oldKey \<noteq> krm_CurrentAddress krm
      then (krm, Inl (Errorf ''old key does not match current address''))
      else
        let gracePeriod = wrap64 (gracePeriodDays * 24 * 60 * 60);
            proof0 = \<lparr>kp_Version = 1, kp_OldAddress = key_address cr oldKey, kp_NewAddress = key_address cr newKey,
              kp_ForkID = krm_ForkID krm, kp_RotationNumber = int (length (krm_RotationHistory krm)) + 1,
              kp_Reason = reason, kp_Timestamp = now, kp_EffectiveAt = now,
              kp_GracePeriodEnd = wrap64 (now + gracePeriod), kp_OldKeySignature = None, kp_NewKeySignature = None,
              kp_RecoveryProof = None\<rparr>
        in (case SignWithOldKey cr oldKey proof0 of
              (_, Some e) \<Rightarrow> (krm, Inl (Wrapped ''failed to sign with old key'' e))
            | (proof1, None) \<Rightarrow>
                (case SignWithNewKey cr newKey proof1 of
                   (_, Some e) \<Rightarrow> (krm, Inl (Wrapped ''failed to sign with new key'' e))
                 | (proof2, None) \<Rightarrow>
                     (case ContinuityProof_Verify cr proof2 of
                        Some e \<Rightarrow> (krm, Inl (Wrapped ''proof verification failed'' e))
                      | None \<Rightarrow> (krm\<lparr>krm_CurrentAddress := key_address cr newKey,
                                   krm_RotationHistory := krm_RotationHistory krm @ [proof2]\<rparr>, Inr proof2)))))"

definition KeyRotationManager_SetupSocialRecovery ::
  "address list \<Rightarrow> int \<Rightarrow> KeyRotationManager \<Rightarrow> KeyRotationManager outcome" where
  "KeyRotationManager_SetupSocialRecovery guardians threshold krm =
     (if threshold > int (length guardians)
      then (krm, Some (Errorf ''threshold cannot exceed number of guardians''))
      else if threshold < 1 then (krm, Some (Errorf ''threshold must be at least 1''))
      else (krm\<lparr>krm_SocialRecoveryGuardians := guardians, krm_SocialRecoveryThreshold := threshold\<rparr>, None))"

definition KeyRotationManager_InitiateTimeLockRecovery ::
  "int64 \<Rightarrow> address \<Rightarrow> KeyRotationManager \<Rightarrow> KeyRotationManager outcome" where
  "KeyRotationManager_InitiateTimeLockRecovery now newAddr krm =
     (if krm_PendingRecovery krm \<noteq> None then (krm, Some (Errorf ''recovery already in progress''))
      else (krm\<lparr>krm_PendingRecovery := Some \<lparr>pr_NewAddress = newAddr, pr_InitiatedAt = now,
              pr_CanComplete = wrap64 (now + krm_TimeLockDuration krm)\<rparr>\<rparr>, None))"

definition timelock_proof :: "address \<Rightarrow> int64 \<Rightarrow> PendingRecovery \<Rightarrow> KeyRotationManager \<Rightarrow> ContinuityProof" where
  \<comment> \<open>the proof literal of \<open>CompleteTimeLockRecovery\<close>\<close>
  "timelock_proof newAddr now pending krm =
     \<lparr>kp_Version = 1, kp_OldAddress = krm_CurrentAddress krm, kp_NewAddress = newAddr,
      kp_ForkID = krm_ForkID krm, kp_RotationNumber = int (length (krm_RotationHistory krm)) + 1,
      kp_Reason = RotationRecovery, kp_Timestamp = now, kp_EffectiveAt = now, kp_GracePeriodEnd = now,
      kp_OldKeySignature = None, kp_NewKeySignature = None,
      kp_RecoveryProof = Some \<lparr>rp_Method = RecoveryTimeLock, rp_RecoveryPhraseHash = None,
        rp_SocialRecoverySignatures = [],
        rp_TimeLockProof = Some \<lparr>tl_InitiatedAt = pr_InitiatedAt pending,
          tl_LockDuration = krm_TimeLockDuration krm, tl_InitiationTxHash = zero32\<rparr>\<rparr>\<rparr>"

definition CompleteTimeLockRecovery ::
  "('sk, 'pk) crypto \<Rightarrow> int64 \<Rightarrow> 'sk \<Rightarrow> KeyRotationManager \<Rightarrow> KeyRotationManager \<times> (go_error + ContinuityProof)" where
  "CompleteTimeLockRecovery cr now newKey krm =
     (case krm_PendingRecovery krm of
        None \<Rightarrow> (krm, Inl (Errorf ''no pending recovery''))
      | Some pending \<Rightarrow>
          if key_address cr newKey \<noteq> pr_NewAddress pending
          then (krm, Inl (Errorf ''new key does not match pending recovery address''))
          else if now < pr_CanComplete pending then (krm, Inl (Errorf ''time lock has not expired''))
          else
            (case SignWithNewKey cr newKey (timelock_proof (key_address cr newKey) now pending krm) of
               (_, Some e) \<Rightarrow> (krm, Inl (Wrapped ''failed to sign with new key'' e))
             | (proof1, None) \<Rightarrow>
                 (krm\<lparr>krm_CurrentAddress := key_address cr newKey,
                    krm_RotationHistory := krm_RotationHistory krm @ [proof1], krm_PendingRecovery := None\<rparr>, Inr proof1)))"

text \<open>The loop of \<open>VerifyChain\<close> from index \<open>i\<close> on: the first error, or the address it ends at.\<close>

fun verify_chain_from :: "('sk, 'pk) crypto \<Rightarrow> hash32 \<Rightarrow> nat \<Rightarrow> address \<Rightarrow> ContinuityProof list \<Rightarrow> go_error + address" where
  "verify_chain_from cr forkID i currentAddr [] = Inr currentAddr"
| "verify_chain_from cr forkID i currentAddr (p # ps) =
     (if kp_RotationNumber p \<noteq> int i + 1 then Inl (Errorf ''rotation has incorrect number'')
      else if kp_OldAddress p \<noteq> currentAddr then Inl (Errorf ''old address mismatch'')
      else if kp_ForkID p \<noteq> forkID then Inl (Errorf ''fork ID mismatch'')
      else (case ContinuityProof_Verify cr p of
         Some e \<Rightarrow> Inl (Wrapped ''rotation'' e)
       | None \<Rightarrow> verify_chain_from cr forkID (Suc i) (kp_NewAddress p) ps))"

definition VerifyChain :: "('sk, 'pk) crypto \<Rightarrow> address \<Rightarrow> KeyRotationManager \<Rightarrow> go_error option" where
  "VerifyChain cr genesisAddress krm =
     (case verify_chain_from cr (krm_ForkID krm) 0 genesisAddress (krm_RotationHistory krm) of
        Inl e \<Rightarrow> Some e
      | Inr currentAddr \<Rightarrow>
          if currentAddr \<noteq> krm_CurrentAddress krm then Some (Errorf ''chain does not end at current address'') else None)"

definition GetRotationHistory :: "KeyRotationManager \<Rightarrow> ContinuityProof list" where
  "GetRotationHistory krm = krm_RotationHistory krm"

definition KeyRotationManager_ExportChain :: "('sk, 'pk) crypto \<Rightarrow> KeyRotationManager \<Rightarrow> go_error + bytes" where
  "KeyRotationManager_ExportChain cr krm =
     (case json_bytes (JObj [(''fork_id'', JBytes (krm_ForkID krm)), (''current_address'', JAddr cr (krm_CurrentAddress krm)),
        (''rotation_history'', JArr (map (ContinuityProof_json cr) (krm_RotationHistory krm)))]) of
        None \<Rightarrow> Inl marshal_error | Some data \<Rightarrow> Inr data)"

section \<open>Signing and verifying a proof\<close>

lemma supported_ContinuityProof_json [simp]: "supported (ContinuityProof_json cr p)"
  by (simp add: ContinuityProof_json_def RecoveryProof_json_def TimeLockProof_json_def
      SocialRecoverySignature_json_def split: option.split)

lemma unsigned_proof_sig [simp]:
  "unsigned_proof (p\<lparr>kp_OldKeySignature := s\<rparr>) = unsigned_proof p"
  "unsigned_proof (p\<lparr>kp_NewKeySignature := s\<rparr>) = unsigned_proof p"
  "unsigned_proof (unsigned_proof p) = unsigned_proof p"
  by (simp_all add: unsigned_proof_def)

lemma SignWithOldKey_succeeds:
  assumes "SignWithOldKey cr key p = (p', None)"
  obtains sig where "key_address cr key = kp_OldAddress p" "sign_body cr key (ContinuityProof_json cr (unsigned_proof p)) = Inr sig"
    "p' = (unsigned_proof p)\<lparr>kp_OldKeySignature := Some sig\<rparr>"
  using assms by (auto simp: SignWithOldKey_def Let_def split: if_splits sum.splits)

lemma SignWithNewKey_succeeds:
  assumes "SignWithNewKey cr key p = (p', None)"
  obtains data sig where "key_address cr key = kp_NewAddress p"
    "json_bytes (ContinuityProof_json cr (unsigned_proof p)) = Some data"
    "Sign cr (Keccak256 cr (data @ slice_bytes (kp_OldKeySignature p))) key = Some sig"
    "p' = p\<lparr>kp_NewKeySignature := Some sig\<rparr>"
  using assms by (auto simp: SignWithNewKey_def Let_def split: if_splits option.splits)

text \<open>A recovered proof: signed by the new key only, over the document with no old signature.\<close>

lemma recovery_proof_verifies:
  assumes "signature_recovers cr" and sign: "SignWithNewKey cr key p = (p', None)"
    and "kp_Reason p = RotationRecovery" and "kp_RecoveryProof p \<noteq> None"
    and "kp_OldKeySignature p = None" and "kp_NewKeySignature p = None"
  shows "ContinuityProof_Verify cr p' = None"
proof -
  from sign obtain data sig where k: "key_address cr key = kp_NewAddress p"
    and d: "json_bytes (ContinuityProof_json cr (unsigned_proof p)) = Some data"
    and s: "Sign cr (Keccak256 cr (data @ slice_bytes (kp_OldKeySignature p))) key = Some sig"
    and p': "p' = p\<lparr>kp_NewKeySignature := Some sig\<rparr>"
    by (rule SignWithNewKey_succeeds)
  have "unsigned_proof p = p'\<lparr>kp_NewKeySignature := None\<rparr>"
    using assms(5) by (simp add: p' unsigned_proof_def)
  moreover have "sig \<noteq> [] \<and> SigToPub cr (Keccak256 cr data) sig = Some (PublicKey cr key)"
    using assms(1,5) s by (auto simp: signature_recovers_def)
  ultimately show ?thesis
    using d k assms(3,4)
    by (simp add: ContinuityProof_Verify_def verifyNewKeyOnly_def p' key_address_def del: unsigned_proof_sig)
qed

lemma SignWithOldKey_total:
  assumes "\<And>h. Sign cr h key \<noteq> None" and "key_address cr key = kp_OldAddress p"
  shows "\<exists>p'. SignWithOldKey cr key p = (p', None)"
proof -
  obtain sig where "Sign cr (hash_json cr (ContinuityProof_json cr (unsigned_proof p))) key = Some sig"
    using assms(1) by blast
  then have "sign_body cr key (ContinuityProof_json cr (unsigned_proof p)) = Inr sig"
    by (rule sign_body_total [rotated]) simp
  with assms(2) show ?thesis
    by (simp add: SignWithOldKey_def)
qed

lemma SignWithNewKey_total:
  assumes "\<And>h. Sign cr h key \<noteq> None" and "key_address cr key = kp_NewAddress p"
  shows "\<exists>p'. SignWithNewKey cr key p = (p', None)"
proof -
  obtain s where "json_marshal (ContinuityProof_json cr (unsigned_proof p)) = Some s"
    using supported_marshals by (metis supported_ContinuityProof_json)
  moreover obtain sig where "Sign cr (Keccak256 cr (bytes_of_string s @ slice_bytes (kp_OldKeySignature p))) key = Some sig"
    using assms(1) by blast
  ultimately show ?thesis
    using assms(2) by (simp add: SignWithNewKey_def json_bytes_def)
qed

lemma rotation_proof_verifies:
  assumes recovers: "signature_recovers cr" and old: "SignWithOldKey cr oldKey p = (p1, None)"
    and new: "SignWithNewKey cr newKey p1 = (p2, None)" and reason: "kp_Reason p \<noteq> RotationRecovery"
  shows "ContinuityProof_Verify cr p2 = None"
proof -
  from old obtain oldSig where o: "key_address cr oldKey = kp_OldAddress p"
    "sign_body cr oldKey (ContinuityProof_json cr (unsigned_proof p)) = Inr oldSig"
    "p1 = (unsigned_proof p)\<lparr>kp_OldKeySignature := Some oldSig\<rparr>"
    by (rule SignWithOldKey_succeeds)
  from new obtain data newSig where n: "key_address cr newKey = kp_NewAddress p1"
    "json_bytes (ContinuityProof_json cr (unsigned_proof p1)) = Some data"
    "Sign cr (Keccak256 cr (data @ slice_bytes (kp_OldKeySignature p1))) newKey = Some newSig"
    "p2 = p1\<lparr>kp_NewKeySignature := Some newSig\<rparr>"
    by (rule SignWithNewKey_succeeds)
  have data: "json_bytes (ContinuityProof_json cr (unsigned_proof p)) = Some data"
    using n(2) o(3) by simp
  have "oldSig \<noteq> [] \<and> map_option (PubkeyToAddress cr) (SigToPub cr (Keccak256 cr data) oldSig) = Some (kp_OldAddress p)"
    using sign_body_recovers [OF recovers o(2)] data o(1) by (simp add: recover_body_def)
  moreover have "newSig \<noteq> [] \<and> SigToPub cr (Keccak256 cr (data @ oldSig)) newSig = Some (PublicKey cr newKey)"
    using recovers n(3) o(3) by (auto simp: signature_recovers_def)
  moreover have "kp_Reason p2 = kp_Reason p" "kp_OldAddress p2 = kp_OldAddress p" "kp_NewAddress p2 = key_address cr newKey"
    using n(1) by (simp_all add: n(4) o(3) unsigned_proof_def)
  moreover have "json_bytes (ContinuityProof_json cr (unsigned_proof p2)) = Some data"
    "kp_OldKeySignature p2 = Some oldSig" "kp_NewKeySignature p2 = Some newSig"
    using data by (simp_all add: n(4) o(3))
  ultimately show ?thesis
    using reason by (auto simp: ContinuityProof_Verify_def key_address_def)
qed

section \<open>Runs of the manager\<close>

inductive rotation_step :: "('sk, 'pk) crypto \<Rightarrow> KeyRotationManager \<Rightarrow> KeyRotationManager \<Rightarrow> bool" for cr where
  rotate: "rotation_step cr krm (fst (KeyRotationManager_Rotate cr now oldKey newKey reason days krm))"
| social: "rotation_step cr krm (fst (KeyRotationManager_SetupSocialRecovery guardians threshold krm))"
| initiate: "rotation_step cr krm (fst (KeyRotationManager_InitiateTimeLockRecovery now newAddr krm))"
| complete: "rotation_step cr krm (fst (CompleteTimeLockRecovery cr now newKey krm))"

inductive_cases rotation_stepE: "rotation_step cr krm krm'"

text \<open>What \<open>Rotate\<close> and \<open>CompleteTimeLockRecovery\<close> do when they succeed.\<close>

definition extends :: "('sk, 'pk) crypto \<Rightarrow> ContinuityProof \<Rightarrow> KeyRotationManager \<Rightarrow> KeyRotationManager \<Rightarrow> bool" where
  "extends cr p krm krm' \<longleftrightarrow> kp_OldAddress p = krm_CurrentAddress krm \<and> krm_CurrentAddress krm' = kp_NewAddress p \<and>
     kp_RotationNumber p = int (length (krm_RotationHistory krm)) + 1 \<and> kp_ForkID p = krm_ForkID krm \<and>
     krm_RotationHistory krm' = krm_RotationHistory krm @ [p] \<and> krm_ForkID krm' = krm_ForkID krm \<and>
     krm_TimeLockDuration krm' = krm_TimeLockDuration krm"

lemma Rotate_succeeds:
  assumes "KeyRotationManager_Rotate cr now oldKey newKey reason days krm = (krm', Inr p)"
  shows "extends cr p krm krm' \<and> ContinuityProof_Verify cr p = None \<and> kp_NewAddress p = key_address cr newKey \<and>
    key_address cr oldKey = krm_CurrentAddress krm \<and> krm_PendingRecovery krm' = krm_PendingRecovery krm"
  using assms
  by (auto simp: KeyRotationManager_Rotate_def Let_def extends_def unsigned_proof_def split: if_splits prod.splits option.splits
      elim!: SignWithOldKey_succeeds SignWithNewKey_succeeds)

lemma Rotate_fails: "KeyRotationManager_Rotate cr now oldKey newKey reason days krm = (krm', Inl e) \<Longrightarrow> krm' = krm"
  by (auto simp: KeyRotationManager_Rotate_def Let_def split: if_splits prod.splits option.splits)

lemma Complete_succeeds:
  assumes "CompleteTimeLockRecovery cr now newKey krm = (krm', Inr p)"
  obtains pending where "krm_PendingRecovery krm = Some pending" "key_address cr newKey = pr_NewAddress pending"
    "pr_CanComplete pending \<le> now" "extends cr p krm krm'" "kp_NewAddress p = key_address cr newKey"
    "krm_PendingRecovery krm' = None"
    "SignWithNewKey cr newKey (timelock_proof (key_address cr newKey) now pending krm) = (p, None)"
proof -
  obtain pending where pending: "krm_PendingRecovery krm = Some pending" "key_address cr newKey = pr_NewAddress pending"
    "pr_CanComplete pending \<le> now"
    and sign: "SignWithNewKey cr newKey (timelock_proof (key_address cr newKey) now pending krm) = (p, None)"
    and krm': "krm' = krm\<lparr>krm_CurrentAddress := key_address cr newKey,
       krm_RotationHistory := krm_RotationHistory krm @ [p], krm_PendingRecovery := None\<rparr>"
    using assms by (auto simp: CompleteTimeLockRecovery_def split: if_splits prod.splits option.splits)
  obtain sig where "p = (timelock_proof (key_address cr newKey) now pending krm)\<lparr>kp_NewKeySignature := Some sig\<rparr>"
    using sign by (rule SignWithNewKey_succeeds)
  then show thesis
    using that [OF pending] sign by (simp add: krm' extends_def timelock_proof_def)
qed

lemma Complete_fails: "CompleteTimeLockRecovery cr now newKey krm = (krm', Inl e) \<Longrightarrow> krm' = krm"
  by (auto simp: CompleteTimeLockRecovery_def Let_def split: if_splits prod.splits option.splits)

lemma verify_chain_append:
  "verify_chain_from cr f i a (ps @ [p]) =
     (case verify_chain_from cr f i a ps of Inl e \<Rightarrow> Inl e | Inr b \<Rightarrow> verify_chain_from cr f (i + length ps) b [p])"
  by (induction ps arbitrary: i a) (simp_all split: option.split sum.split)

definition chain_ok :: "('sk, 'pk) crypto \<Rightarrow> address \<Rightarrow> KeyRotationManager \<Rightarrow> bool" where
  "chain_ok cr genesis krm \<longleftrightarrow>
     verify_chain_from cr (krm_ForkID krm) 0 genesis (krm_RotationHistory krm) = Inr (krm_CurrentAddress krm)"

lemma chain_ok_VerifyChain: "chain_ok cr genesis krm \<longleftrightarrow> VerifyChain cr genesis krm = None"
  by (auto simp: chain_ok_def VerifyChain_def split: sum.splits)

lemma chain_ok_extends:
  "chain_ok cr genesis krm \<Longrightarrow> extends cr p krm krm' \<Longrightarrow> ContinuityProof_Verify cr p = None \<Longrightarrow> chain_ok cr genesis krm'"
  by (simp add: chain_ok_def extends_def verify_chain_append)

lemma chain_ok_step:
  assumes recovers: "signature_recovers cr" and ok: "chain_ok cr genesis krm" and step: "rotation_step cr krm krm'"
  shows "chain_ok cr genesis krm'"
  using step
proof (cases rule: rotation_step.cases)
  case (rotate now oldKey newKey reason days)
  then show ?thesis
    using Rotate_succeeds Rotate_fails chain_ok_extends [OF ok] ok by (metis prod.collapse sum.exhaust)
next
  case (complete now newKey)
  show ?thesis
  proof (cases "snd (CompleteTimeLockRecovery cr now newKey krm)")
    case (Inr p)
    with complete have "CompleteTimeLockRecovery cr now newKey krm = (krm', Inr p)"
      by (metis prod.collapse)
    then show ?thesis
      by (rule Complete_succeeds) (use recovery_proof_verifies [OF recovers] chain_ok_extends [OF ok] in \<open>simp add: timelock_proof_def\<close>)
  qed (use complete ok Complete_fails in \<open>metis prod.collapse\<close>)
qed (use ok in \<open>auto simp: chain_ok_def KeyRotationManager_SetupSocialRecovery_def
      KeyRotationManager_InitiateTimeLockRecovery_def\<close>)

text \<open>
  C26: the history of a manager verifies. From a fresh manager, after any sequence of rotations,
  guardian set-ups and time-locked recoveries, successful or refused, \<open>VerifyChain\<close> accepts the
  history from the genesis address to the current one.
\<close>

theorem rotation_chain_verifies:
  assumes "signature_recovers cr" and "(rotation_step cr)\<^sup>*\<^sup>* (NewKeyRotationManager forkID genesis) krm"
  shows "VerifyChain cr genesis krm = None"
proof -
  have "chain_ok cr genesis krm"
    using assms(2)
    by (induction rule: rtranclp_induct)
      (auto simp: chain_ok_def NewKeyRotationManager_def intro: chain_ok_step [OF assms(1), unfolded chain_ok_def])
  then show ?thesis
    by (simp add: chain_ok_VerifyChain)
qed

lemma rotate_ok:
  assumes "signature_recovers cr" and "\<And>h. Sign cr h oldKey \<noteq> None" and "\<And>h. Sign cr h newKey \<noteq> None"
    and "KeyRotationManager_Rotate cr now oldKey newKey reason days krm = (krm', r)"
  shows "(\<not> isl r \<longleftrightarrow> key_address cr oldKey = krm_CurrentAddress krm \<and> reason \<noteq> RotationRecovery) \<and>
    (isl r \<longrightarrow> krm' = krm) \<and>
    (\<not> isl r \<longrightarrow> krm_CurrentAddress krm' = key_address cr newKey \<and>
       krm_RotationHistory krm' = krm_RotationHistory krm @ [projr r] \<and> ContinuityProof_Verify cr (projr r) = None)"
proof (cases "key_address cr oldKey = krm_CurrentAddress krm")
  case True
  let ?proof = "\<lparr>kp_Version = 1, kp_OldAddress = key_address cr oldKey, kp_NewAddress = key_address cr newKey,
      kp_ForkID = krm_ForkID krm, kp_RotationNumber = int (length (krm_RotationHistory krm)) + 1,
      kp_Reason = reason, kp_Timestamp = now, kp_EffectiveAt = now,
      kp_GracePeriodEnd = wrap64 (now + wrap64 (days * 24 * 60 * 60)), kp_OldKeySignature = None, kp_NewKeySignature = None,
      kp_RecoveryProof = None\<rparr>"
  obtain p1 where p1: "SignWithOldKey cr oldKey ?proof = (p1, None)"
    using SignWithOldKey_total [OF assms(2), of ?proof] by auto
  then have fields: "kp_NewAddress p1 = key_address cr newKey" "kp_Reason p1 = reason" "kp_RecoveryProof p1 = None"
    by (auto elim!: SignWithOldKey_succeeds simp: unsigned_proof_def)
  then obtain p2 where p2: "SignWithNewKey cr newKey p1 = (p2, None)"
    using SignWithNewKey_total [OF assms(3), of p1] by auto
  then have "kp_Reason p2 = reason" "kp_RecoveryProof p2 = None"
    using fields by (auto elim!: SignWithNewKey_succeeds)
  then have "ContinuityProof_Verify cr p2 = None \<longleftrightarrow> reason \<noteq> RotationRecovery"
    using rotation_proof_verifies [OF assms(1) p1 p2]
    by (auto simp: ContinuityProof_Verify_def [of _ p2] verifyNewKeyOnly_def)
  then show ?thesis
    using assms(4) True p1 p2 by (cases "reason = RotationRecovery") (auto simp: KeyRotationManager_Rotate_def Let_def)
qed (use assms(4) in \<open>auto simp: KeyRotationManager_Rotate_def\<close>)

text \<open>
  \<open>Rotate\<close> succeeds exactly when the old key is the current one, the reason is not
  \<open>recovery\<close> and both keys produce a signature; the new key is then the current one and the
  proof is appended to the history. A refused rotation changes nothing.
\<close>

theorem Rotate_correct:
  assumes "signature_recovers cr" and "\<And>h. Sign cr h oldKey \<noteq> None" and "\<And>h. Sign cr h newKey \<noteq> None"
    and "KeyRotationManager_Rotate cr now oldKey newKey reason days krm = (krm', r)"
  shows "(\<not> isl r \<longleftrightarrow> key_address cr oldKey = krm_CurrentAddress krm \<and> reason \<noteq> RotationRecovery) \<and>
    (isl r \<longrightarrow> krm' = krm) \<and>
    (\<not> isl r \<longrightarrow> krm_CurrentAddress krm' = key_address cr newKey \<and>
       krm_RotationHistory krm' = krm_RotationHistory krm @ [projr r] \<and> ContinuityProof_Verify cr (projr r) = None)"
  using rotate_ok [OF assms] .

section \<open>Time-locked recovery\<close>

lemma timelock_proof_NewAddress [simp]: "kp_NewAddress (timelock_proof a now pending krm) = a"
  by (simp add: timelock_proof_def)

definition lock_ok :: "KeyRotationManager \<Rightarrow> bool" where
  "lock_ok krm \<longleftrightarrow> krm_TimeLockDuration krm = 604800 \<and>
     (\<forall>p. krm_PendingRecovery krm = Some p \<longrightarrow> pr_CanComplete p = wrap64 (pr_InitiatedAt p + 604800))"

lemma lock_ok_step:
  assumes "rotation_step cr krm krm'" and ok: "lock_ok krm"
  shows "lock_ok krm'"
  using assms(1)
proof (cases rule: rotation_step.cases)
  case (rotate now oldKey newKey reason days)
  with ok show ?thesis
    by (cases "KeyRotationManager_Rotate cr now oldKey newKey reason days krm"; cases "snd (KeyRotationManager_Rotate cr now oldKey newKey reason days krm)")
      (auto dest!: Rotate_succeeds Rotate_fails simp: lock_ok_def extends_def)
next
  case (complete now newKey)
  with ok show ?thesis
    by (cases "CompleteTimeLockRecovery cr now newKey krm"; cases "snd (CompleteTimeLockRecovery cr now newKey krm)")
      (auto dest!: Complete_fails elim!: Complete_succeeds simp: lock_ok_def extends_def)
qed (use ok in \<open>auto simp: lock_ok_def KeyRotationManager_SetupSocialRecovery_def KeyRotationManager_InitiateTimeLockRecovery_def\<close>)

lemma lock_ok_run:
  assumes "(rotation_step cr)\<^sup>*\<^sup>* (NewKeyRotationManager forkID genesis) krm"
  shows "lock_ok krm"
  using assms
proof (induction rule: rtranclp_induct)
  case base
  show ?case by (simp add: lock_ok_def NewKeyRotationManager_def)
qed (rule lock_ok_step)

text \<open>
  A recovery completes only for the address it was initiated for and not before seven days
  have passed, as long as the clock does not overflow; it makes the new key current and ends the
  pending recovery.
\<close>

theorem CompleteTimeLockRecovery_waits:
  assumes "(rotation_step cr)\<^sup>*\<^sup>* (NewKeyRotationManager forkID genesis) krm"
    and "CompleteTimeLockRecovery cr now newKey krm = (krm', Inr p)"
  shows "\<exists>pending. krm_PendingRecovery krm = Some pending \<and> pr_NewAddress pending = key_address cr newKey \<and>
    (in_int64 (pr_InitiatedAt pending + 604800) \<longrightarrow> 604800 \<le> now - pr_InitiatedAt pending) \<and>
    krm_CurrentAddress krm' = key_address cr newKey \<and> krm_PendingRecovery krm' = None"
  using assms(2)
proof (rule Complete_succeeds)
  fix pending
  assume "krm_PendingRecovery krm = Some pending" "key_address cr newKey = pr_NewAddress pending"
    "pr_CanComplete pending \<le> now" "extends cr p krm krm'" "kp_NewAddress p = key_address cr newKey"
    "krm_PendingRecovery krm' = None"
  then show ?thesis
    using lock_ok_run [OF assms(1)] by (auto simp: lock_ok_def extends_def)
qed

text \<open>Everything an owner can do while a recovery is pending.\<close>

definition owner_step :: "('sk, 'pk) crypto \<Rightarrow> KeyRotationManager \<Rightarrow> KeyRotationManager \<Rightarrow> bool" where
  "owner_step cr krm krm' \<longleftrightarrow>
     (\<exists>now oldKey newKey reason days. krm' = fst (KeyRotationManager_Rotate cr now oldKey newKey reason days krm)) \<or>
     (\<exists>guardians threshold. krm' = fst (KeyRotationManager_SetupSocialRecovery guardians threshold krm)) \<or>
     (\<exists>now newAddr. krm' = fst (KeyRotationManager_InitiateTimeLockRecovery now newAddr krm))"

lemma owner_step_pending:
  assumes "owner_step cr krm krm'" and "krm_PendingRecovery krm \<noteq> None"
  shows "krm_PendingRecovery krm' = krm_PendingRecovery krm"
proof -
  have "krm_PendingRecovery (fst (KeyRotationManager_Rotate cr now oldKey newKey reason days krm)) = krm_PendingRecovery krm"
    for now oldKey newKey reason days
    by (cases "KeyRotationManager_Rotate cr now oldKey newKey reason days krm"; cases "snd (KeyRotationManager_Rotate cr now oldKey newKey reason days krm)")
      (auto dest!: Rotate_succeeds Rotate_fails)
  with assms show ?thesis
    by (auto simp: owner_step_def KeyRotationManager_SetupSocialRecovery_def KeyRotationManager_InitiateTimeLockRecovery_def)
qed

text \<open>
  A pending recovery cannot be stopped. \<open>InitiateTimeLockRecovery\<close> asks for no key, and
  whatever the owner does afterwards, rotating to a new key included, the recovery still completes
  for the address that initiated it once the lock has expired, and takes over the identity.
\<close>

theorem pending_recovery_cannot_be_stopped:
  assumes "krm_PendingRecovery krm = Some pending" and "(owner_step cr)\<^sup>*\<^sup>* krm krm1"
    and "key_address cr newKey = pr_NewAddress pending" and "pr_CanComplete pending \<le> now"
    and "\<And>h. Sign cr h newKey \<noteq> None"
  shows "\<exists>krm2 p. CompleteTimeLockRecovery cr now newKey krm1 = (krm2, Inr p) \<and>
    krm_CurrentAddress krm2 = pr_NewAddress pending"
proof -
  have pending: "krm_PendingRecovery krm1 = Some pending"
    using assms(2,1) by (induction rule: rtranclp_induct) (simp_all add: owner_step_pending)
  obtain p where "SignWithNewKey cr newKey (timelock_proof (key_address cr newKey) now pending krm1) = (p, None)"
    using SignWithNewKey_total [OF assms(5), of "timelock_proof (key_address cr newKey) now pending krm1"]
    by (auto simp: timelock_proof_def)
  with pending assms(3,4) show ?thesis
    by (simp add: CompleteTimeLockRecovery_def)
qed

section \<open>Witnesses\<close>

definition demo_krm :: KeyRotationManager where
  "demo_krm = fst (KeyRotationManager_Rotate demo_crypto 10 [1] [2] RotationScheduled 30 (NewKeyRotationManager zero32 [1]))"

definition demo_pending :: KeyRotationManager where
  "demo_pending = fst (KeyRotationManager_InitiateTimeLockRecovery 20 [3] demo_krm)"

lemma demo_rotated:
  "\<exists>p. KeyRotationManager_Rotate demo_crypto 10 [1] [2] RotationScheduled 30 (NewKeyRotationManager zero32 [1]) = (demo_krm, Inr p)"
proof -
  obtain krm r where rot: "KeyRotationManager_Rotate demo_crypto 10 [1] [2] RotationScheduled 30 (NewKeyRotationManager zero32 [1]) = (krm, r)"
    by fastforce
  moreover from rotate_ok [OF demo_crypto_recovers _ _ rot] have "\<not> isl r"
    by (simp add: NewKeyRotationManager_def RotationScheduled_def RotationRecovery_def)
  ultimately show ?thesis
    by (cases r) (simp_all add: demo_krm_def)
qed

lemma demo_pending_fields:
  "krm_PendingRecovery demo_pending = Some \<lparr>pr_NewAddress = [3], pr_InitiatedAt = 20, pr_CanComplete = 604820\<rparr> \<and>
   krm_PendingRecovery demo_krm = None"
proof -
  have "lock_ok (NewKeyRotationManager zero32 [1])" "krm_PendingRecovery (NewKeyRotationManager zero32 [1]) = None"
    by (simp_all add: lock_ok_def NewKeyRotationManager_def)
  moreover obtain p where
    "KeyRotationManager_Rotate demo_crypto 10 [1] [2] RotationScheduled 30 (NewKeyRotationManager zero32 [1]) = (demo_krm, Inr p)"
    using demo_rotated by blast
  ultimately have "lock_ok demo_krm \<and> krm_PendingRecovery demo_krm = None"
    by (auto dest!: Rotate_succeeds simp: lock_ok_def extends_def)
  then show ?thesis
    by (simp add: demo_pending_def KeyRotationManager_InitiateTimeLockRecovery_def lock_ok_def wrap64_def)
qed

lemma demo_pending_run: "(rotation_step demo_crypto)\<^sup>*\<^sup>* (NewKeyRotationManager zero32 [1]) demo_pending"
  unfolding demo_pending_def demo_krm_def
  by (rule rtranclp.rtrancl_into_rtrancl [OF r_into_rtranclp]) (rule rotation_step.intros)+

theorem rotation_chain_verifies_witness: "VerifyChain demo_crypto [1] demo_pending = None"
  using rotation_chain_verifies [OF demo_crypto_recovers demo_pending_run] .

theorem Rotate_correct_witness: "krm_CurrentAddress demo_krm = [2]"
proof -
  obtain p where "KeyRotationManager_Rotate demo_crypto 10 [1] [2] RotationScheduled 30 (NewKeyRotationManager zero32 [1]) = (demo_krm, Inr p)"
    using demo_rotated by blast
  from Rotate_correct [OF demo_crypto_recovers _ _ this] show ?thesis
    by simp
qed

theorem pending_recovery_cannot_be_stopped_witness:
  "\<exists>krm2 p. CompleteTimeLockRecovery demo_crypto 604820 [3]
     (fst (KeyRotationManager_Rotate demo_crypto 30 [2] [4] RotationCompromise 0 demo_pending)) = (krm2, Inr p) \<and>
     krm_CurrentAddress krm2 = [3]"
proof -
  let ?krm = "fst (KeyRotationManager_Rotate demo_crypto 30 [2] [4] RotationCompromise 0 demo_pending)"
  have "(owner_step demo_crypto)\<^sup>*\<^sup>* demo_pending ?krm"
    unfolding owner_step_def by blast
  from pending_recovery_cannot_be_stopped [OF conjunct1 [OF demo_pending_fields] this, of "[3]" 604820] show ?thesis
    by simp
qed

theorem CompleteTimeLockRecovery_waits_witness:
  "\<exists>krm' p. CompleteTimeLockRecovery demo_crypto 604820 [3] demo_pending = (krm', Inr p) \<and>
     krm_PendingRecovery krm' = None"
proof -
  let ?proof = "timelock_proof [3] 604820 \<lparr>pr_NewAddress = [3], pr_InitiatedAt = 20, pr_CanComplete = 604820\<rparr> demo_pending"
  obtain p where "SignWithNewKey demo_crypto [3] ?proof = (p, None)"
    using SignWithNewKey_total [of demo_crypto "[3]" ?proof] by auto
  then obtain krm' where c: "CompleteTimeLockRecovery demo_crypto 604820 [3] demo_pending = (krm', Inr p)"
    using demo_pending_fields by (simp add: CompleteTimeLockRecovery_def)
  from CompleteTimeLockRecovery_waits [OF demo_pending_run this] c show ?thesis
    by blast
qed

end
