(* ===== verification/Recovery.thy ===== *)
theory Recovery
  imports Rotation
begin

text \<open>
  Recovery of an identity (\<open>identity/recovery.go\<close>): recoveries by time lock, by guardians and by
  phrase, with their state machine, the signed checkpoints, and the manager that owns them.
  Clock readings are arguments; the order in which a Go map is ranged over is an argument too
  (a list of its keys).
\<close>

section \<open>Data\<close>

definition RecoveryInitiated :: string where "RecoveryInitiated = ''initiated''"
definition RecoveryPending :: string where "RecoveryPending = ''pending''"
definition RecoveryApproved :: string where "RecoveryApproved = ''approved''"
definition RecoveryExecuted :: string where "RecoveryExecuted = ''executed''"
definition RecoveryCancelled :: string where "RecoveryCancelled = ''cancelled''"
definition RecoveryFailed :: string where "RecoveryFailed = ''failed''"

lemmas recovery_states = RecoveryInitiated_def RecoveryPending_def RecoveryApproved_def RecoveryExecuted_def
  RecoveryCancelled_def RecoveryFailed_def

lemmas recovery_methods = RecoveryPhrase_def RecoverySocial_def RecoveryTimeLock_def

record RecoveryApproval =
  ra_Approver :: address
  ra_ApprovedAt :: int64
  ra_Signature :: slice
  ra_Comment :: string

record RecoveryData =
  rd_PhraseHash :: slice
  rd_Guardians :: "address list"
  rd_GuardianQuorum :: int
  rd_CheckpointHash :: hash32
  rd_CheckpointEpoch :: int64
  rd_SourceNetworkID :: string
  rd_TargetNetworkID :: string
  rd_MigrationProof :: slice

record CrossForkRecovery =
  cfr_ID :: hash32
  cfr_SourceForkID :: hash32
  cfr_TargetForkID :: hash32
  cfr_SourceAddress :: address
  cfr_TargetAddress :: address
  cfr_State :: string
  cfr_Method :: string
  cfr_InitiatedAt :: int64
  cfr_CompletedAt :: int64
  cfr_TimeLockExpiry :: int64
  cfr_Approvals :: "RecoveryApproval list"
  cfr_RequiredApprovals :: int
  cfr_RecoveryData :: "RecoveryData option"
  cfr_StreamsToRecover :: "hash32 list"
  cfr_TargetSignature :: slice

record RecoveryCheckpoint =
  rc_ID :: hash32
  rc_ForkID :: hash32
  rc_Address :: address
  rc_Epoch :: int64
  rc_Timestamp :: int64
  rc_StateRoot :: hash32
  rc_StreamHashes :: "hash32 \<Rightarrow> hash32 option"
  rc_RightsHash :: hash32
  rc_DelegationsHash :: hash32
  rc_Signature :: slice

record RecoveryManager =
  rcm_ForkID :: hash32
  rcm_Owner :: address
  rcm_Recoveries :: "hash32 \<Rightarrow> CrossForkRecovery option"
  rcm_Checkpoints :: "int64 \<Rightarrow> RecoveryCheckpoint option"
  rcm_Guardians :: "address list"
  rcm_GuardianQuorum :: int
  rcm_TimeLockDuration :: int64
  rcm_RecoveryPhraseHash :: slice

definition RecoveryApproval_json :: "('sk, 'pk) crypto \<Rightarrow> RecoveryApproval \<Rightarrow> json" where
  "RecoveryApproval_json cr a = JObj (
     [(''approver'', JAddr cr (ra_Approver a)), (''approved_at'', JInt (ra_ApprovedAt a)),
      (''signature'', JSlice (ra_Signature a))]
     @ omitempty (ra_Comment a = []) ''comment'' (JStr (ra_Comment a)))"

definition RecoveryData_json :: "('sk, 'pk) crypto \<Rightarrow> RecoveryData \<Rightarrow> json" where
  "RecoveryData_json cr d = JObj (
     omitempty (slice_bytes (rd_PhraseHash d) = []) ''phrase_hash'' (JSlice (rd_PhraseHash d))
     @ omitempty (rd_Guardians d = []) ''guardians'' (JArr (map (JAddr cr) (rd_Guardians d)))
     @ omitempty (rd_GuardianQuorum d = 0) ''guardian_quorum'' (JInt (rd_GuardianQuorum d))
     @ [(''checkpoint_hash'', JBytes (rd_CheckpointHash d))]
     @ omitempty (rd_CheckpointEpoch d = 0) ''checkpoint_epoch'' (JInt (rd_CheckpointEpoch d))
     @ omitempty (rd_SourceNetworkID d = []) ''source_network_id'' (JStr (rd_SourceNetworkID d))
     @ omitempty (rd_TargetNetworkID d = []) ''target_network_id'' (JStr (rd_TargetNetworkID d))
     @ omitempty (slice_bytes (rd_MigrationProof d) = []) ''migration_proof'' (JSlice (rd_MigrationProof d)))"

definition CrossForkRecovery_json :: "('sk, 'pk) crypto \<Rightarrow> CrossForkRecovery \<Rightarrow> json" where
  "CrossForkRecovery_json cr r = JObj (
     [(''id'', JBytes (cfr_ID r)), (''source_fork_id'', JBytes (cfr_SourceForkID r)),
      (''target_fork_id'', JBytes (cfr_TargetForkID r)), (''source_address'', JAddr cr (cfr_SourceAddress r)),
      (''target_address'', JAddr cr (cfr_TargetAddress r)), (''state'', JStr (cfr_State r)),
      (''method'', JStr (cfr_Method r)), (''initiated_at'', JInt (cfr_InitiatedAt r))]
     @ omitempty (cfr_CompletedAt r = 0) ''completed_at'' (JInt (cfr_CompletedAt r))
     @ omitempty (cfr_TimeLockExpiry r = 0) ''time_lock_expiry'' (JInt (cfr_TimeLockExpiry r))
     @ omitempty (cfr_Approvals r = []) ''approvals'' (JArr (map (RecoveryApproval_json cr) (cfr_Approvals r)))
     @ omitempty (cfr_RequiredApprovals r = 0) ''required_approvals'' (JInt (cfr_RequiredApprovals r))
     @ [(''recovery_data'', case cfr_RecoveryData r of None \<Rightarrow> JNull | Some d \<Rightarrow> RecoveryData_json cr d)]
     @ omitempty (cfr_StreamsToRecover r = []) ''streams_to_recover'' (JArr (map JBytes (cfr_StreamsToRecover r)))
     @ [(''target_signature'', JSlice (cfr_TargetSignature r))])"

text \<open>\<open>stream_hashes\<close> is a map keyed by byte arrays, which \<open>encoding/json\<close> refuses.\<close>

definition RecoveryCheckpoint_json :: "('sk, 'pk) crypto \<Rightarrow> RecoveryCheckpoint \<Rightarrow> json" where
  "RecoveryCheckpoint_json cr c = JObj
     [(''id'', JBytes (rc_ID c)), (''fork_id'', JBytes (rc_ForkID c)), (''address'', JAddr cr (rc_Address c)),
      (''epoch'', JInt (rc_Epoch c)), (''timestamp'', JInt (rc_Timestamp c)), (''state_root'', JBytes (rc_StateRoot c)),
      (''stream_hashes'', JUnsupported), (''rights_hash'', JBytes (rc_RightsHash c)),
      (''delegations_hash'', JBytes (rc_DelegationsHash c)), (''signature'', JSlice (rc_Signature c))]"

section \<open>A recovery\<close>

definition CrossForkRecovery_GenerateID :: "('sk, 'pk) crypto \<Rightarrow> CrossForkRecovery \<Rightarrow> CrossForkRecovery" where
  "CrossForkRecovery_GenerateID cr r = r\<lparr>cfr_ID := hash_json cr (JObj
     [(''SourceForkID'', JBytes (cfr_SourceForkID r)), (''TargetForkID'', JBytes (cfr_TargetForkID r)),
      (''SourceAddress'', JAddr cr (cfr_SourceAddress r)), (''TargetAddress'', JAddr cr (cfr_TargetAddress r)),
      (''InitiatedAt'', JInt (cfr_InitiatedAt r))])\<rparr>"

definition SignWithTarget :: "('sk, 'pk) crypto \<Rightarrow> 'sk \<Rightarrow> CrossForkRecovery \<Rightarrow> CrossForkRecovery outcome" where
  "SignWithTarget cr key r =
     (if key_address cr key \<noteq> cfr_TargetAddress r then (r, Some (Errorf ''signer is not target address''))
      else let r0 = r\<lparr>cfr_TargetSignature := None\<rparr> in
        case sign_body cr key (CrossForkRecovery_json cr r0) of
          Inl e \<Rightarrow> (r0, Some e)
        | Inr sig \<Rightarrow> (r0\<lparr>cfr_TargetSignature := Some sig\<rparr>, None))"

definition CrossForkRecovery_Verify :: "('sk, 'pk) crypto \<Rightarrow> CrossForkRecovery \<Rightarrow> bool" where
  "CrossForkRecovery_Verify cr r =
     (if slice_bytes (cfr_TargetSignature r) = [] then False
      else recover_body cr (CrossForkRecovery_json cr (r\<lparr>cfr_TargetSignature := None\<rparr>))
             (slice_bytes (cfr_TargetSignature r)) = Some (cfr_TargetAddress r))"

definition approval_json :: "('sk, 'pk) crypto \<Rightarrow> hash32 \<Rightarrow> address \<Rightarrow> json" where
  \<comment> \<open>the message a guardian signs\<close>
  "approval_json cr recoveryID approver = JObj
     [(''RecoveryID'', JBytes recoveryID), (''Approver'', JAddr cr approver), (''Approve'', JBool True)]"

definition AddApproval ::
  "('sk, 'pk) crypto \<Rightarrow> int64 \<Rightarrow> address \<Rightarrow> slice \<Rightarrow> string \<Rightarrow> CrossForkRecovery \<Rightarrow> CrossForkRecovery outcome" where
  "AddApproval cr now approver signature comment r =
     (case SigToPub cr (hash_json cr (approval_json cr (cfr_ID r) approver)) (slice_bytes signature) of
        None \<Rightarrow> (r, Some (Wrapped ''invalid signature'' recover_error))
      | Some pub \<Rightarrow>
          if PubkeyToAddress cr pub \<noteq> approver then (r, Some (Errorf ''signature does not match approver''))
          else if \<not> (case cfr_RecoveryData r of None \<Rightarrow> False | Some d \<Rightarrow> list_ex (\<lambda>g. g = approver) (rd_Guardians d))
          then (r, Some (Errorf ''approver is not a guardian''))
          else if list_ex (\<lambda>a. ra_Approver a = approver) (cfr_Approvals r)
          then (r, Some (Errorf ''already approved by this guardian''))
          else
            let r1 = r\<lparr>cfr_Approvals := cfr_Approvals r @ [\<lparr>ra_Approver = approver, ra_ApprovedAt = now,
                  ra_Signature = signature, ra_Comment = comment\<rparr>]\<rparr>
            in (if int (length (cfr_Approvals r1)) \<ge> cfr_RequiredApprovals r1 then r1\<lparr>cfr_State := RecoveryApproved\<rparr> else r1, None))"

definition CanExecute :: "int64 \<Rightarrow> CrossForkRecovery \<Rightarrow> bool \<times> string" where
  "CanExecute now r =
     (if cfr_State r = RecoveryExecuted then (False, ''already executed'')
      else if cfr_State r = RecoveryCancelled then (False, ''cancelled'')
      else if cfr_State r = RecoveryFailed then (False, ''failed'')
      else if cfr_Method r = RecoveryTimeLock then
        (if now < cfr_TimeLockExpiry r
         then (False, ''time lock expires in '' @ dec_int (wrap64 (cfr_TimeLockExpiry r - now)) @ '' seconds'')
         else (True, []))
      else if cfr_Method r = RecoverySocial then
        (if int (length (cfr_Approvals r)) < cfr_RequiredApprovals r
         then (False, ''need '' @ dec_int (cfr_RequiredApprovals r - int (length (cfr_Approvals r))) @ '' more approvals'')
         else (True, []))
      else if cfr_Method r = RecoveryPhrase then
        (if cfr_State r = RecoveryApproved \<or> cfr_State r = RecoveryPending then (True, []) else (False, ''not approved''))
      else (False, ''unknown recovery method''))"

definition CrossForkRecovery_Execute :: "int64 \<Rightarrow> int64 \<Rightarrow> CrossForkRecovery \<Rightarrow> CrossForkRecovery outcome" where
  "CrossForkRecovery_Execute t1 t2 r =
     (case CanExecute t1 r of
        (False, reason) \<Rightarrow> (r, Some (Errorf (''cannot execute: '' @ reason)))
      | (True, reason) \<Rightarrow> (r\<lparr>cfr_State := RecoveryExecuted, cfr_CompletedAt := t2\<rparr>, None))"

definition CrossForkRecovery_Cancel :: "int64 \<Rightarrow> CrossForkRecovery \<Rightarrow> CrossForkRecovery" where
  "CrossForkRecovery_Cancel now r = r\<lparr>cfr_State := RecoveryCancelled, cfr_CompletedAt := now\<rparr>"

section \<open>Checkpoints\<close>

definition RecoveryCheckpoint_Sign :: "('sk, 'pk) crypto \<Rightarrow> 'sk \<Rightarrow> RecoveryCheckpoint \<Rightarrow> RecoveryCheckpoint outcome" where
  "RecoveryCheckpoint_Sign cr key c =
     (if key_address cr key \<noteq> rc_Address c then (c, Some (Errorf ''signer does not match checkpoint address''))
      else let c0 = c\<lparr>rc_Signature := None\<rparr> in
        case json_bytes (RecoveryCheckpoint_json cr c0) of
          None \<Rightarrow> (c0, Some marshal_error)
        | Some data \<Rightarrow>
            (case Sign cr (Keccak256 cr data) key of
               None \<Rightarrow> (c0, Some sign_error)
             | Some sig \<Rightarrow> (c0\<lparr>rc_Signature := Some sig\<rparr>, None)))"

definition RecoveryCheckpoint_Verify :: "('sk, 'pk) crypto \<Rightarrow> RecoveryCheckpoint \<Rightarrow> bool" where
  "RecoveryCheckpoint_Verify cr c =
     (if slice_bytes (rc_Signature c) = [] then False
      else recover_body cr (RecoveryCheckpoint_json cr (c\<lparr>rc_Signature := None\<rparr>)) (slice_bytes (rc_Signature c))
             = Some (rc_Address c))"

section \<open>The manager\<close>

definition NewRecoveryManager :: "hash32 \<Rightarrow> address \<Rightarrow> RecoveryManager" where
  "NewRecoveryManager forkID owner = \<lparr>rcm_ForkID = forkID, rcm_Owner = owner, rcm_Recoveries = Map.empty,
     rcm_Checkpoints = Map.empty, rcm_Guardians = [], rcm_GuardianQuorum = 0, rcm_TimeLockDuration = 7 * 24 * 60 * 60,
     rcm_RecoveryPhraseHash = None\<rparr>"

definition RecoveryManager_SetupSocialRecovery :: "address list \<Rightarrow> int \<Rightarrow> RecoveryManager \<Rightarrow> RecoveryManager outcome" where
  "RecoveryManager_SetupSocialRecovery guardians quorum rm =
     (if quorum > int (length guardians) then (rm, Some (Errorf ''quorum cannot exceed number of guardians''))
      else if quorum < 1 then (rm, Some (Errorf ''quorum must be at least 1''))
      else (rm\<lparr>rcm_Guardians := guardians, rcm_GuardianQuorum := quorum\<rparr>, None))"

definition SetRecoveryPhrase :: "slice \<Rightarrow> RecoveryManager \<Rightarrow> RecoveryManager" where
  "SetRecoveryPhrase phraseHash rm = rm\<lparr>rcm_RecoveryPhraseHash := phraseHash\<rparr>"

definition empty_recovery_data :: RecoveryData where
  "empty_recovery_data = \<lparr>rd_PhraseHash = None, rd_Guardians = [], rd_GuardianQuorum = 0, rd_CheckpointHash = zero32,
     rd_CheckpointEpoch = 0, rd_SourceNetworkID = [], rd_TargetNetworkID = [], rd_MigrationProof = None\<rparr>"

text \<open>
  The three initiations differ in their guards and in the state, method, lock, quorum and data of
  the recovery; they share its other fields, its signature and its storage.
\<close>

definition new_recovery ::
  "('sk, 'pk) crypto \<Rightarrow> RecoveryManager \<Rightarrow> address \<Rightarrow> int64 \<Rightarrow> string \<Rightarrow> string \<Rightarrow> int64 \<Rightarrow> int \<Rightarrow> RecoveryData
    \<Rightarrow> CrossForkRecovery" where
  "new_recovery cr rm target now state meth expiry required data = CrossForkRecovery_GenerateID cr
     \<lparr>cfr_ID = zero32, cfr_SourceForkID = rcm_ForkID rm, cfr_TargetForkID = rcm_ForkID rm,
      cfr_SourceAddress = rcm_Owner rm, cfr_TargetAddress = target, cfr_State = state, cfr_Method = meth,
      cfr_InitiatedAt = now, cfr_CompletedAt = 0, cfr_TimeLockExpiry = expiry, cfr_Approvals = [],
      cfr_RequiredApprovals = required, cfr_RecoveryData = Some data, cfr_StreamsToRecover = [],
      cfr_TargetSignature = None\<rparr>"

definition store_recovery ::
  "('sk, 'pk) crypto \<Rightarrow> 'sk \<Rightarrow> CrossForkRecovery \<Rightarrow> RecoveryManager \<Rightarrow> RecoveryManager \<times> (go_error + CrossForkRecovery)" where
  "store_recovery cr key r rm =
     (case SignWithTarget cr key r of
        (_, Some e) \<Rightarrow> (rm, Inl e)
      | (r', None) \<Rightarrow> (rm\<lparr>rcm_Recoveries := (rcm_Recoveries rm)(cfr_ID r' \<mapsto> r')\<rparr>, Inr r'))"

definition RecoveryManager_InitiateTimeLockRecovery ::
  "('sk, 'pk) crypto \<Rightarrow> int64 \<Rightarrow> address \<Rightarrow> 'sk \<Rightarrow> RecoveryManager \<Rightarrow> RecoveryManager \<times> (go_error + CrossForkRecovery)" where
  "RecoveryManager_InitiateTimeLockRecovery cr now target key rm =
     store_recovery cr key (new_recovery cr rm target now RecoveryPending RecoveryTimeLock
       (wrap64 (now + rcm_TimeLockDuration rm)) 0 empty_recovery_data) rm"

definition InitiateSocialRecovery ::
  "('sk, 'pk) crypto \<Rightarrow> int64 \<Rightarrow> address \<Rightarrow> 'sk \<Rightarrow> RecoveryManager \<Rightarrow> RecoveryManager \<times> (go_error + CrossForkRecovery)" where
  "InitiateSocialRecovery cr now target key rm =
     (if rcm_Guardians rm = [] then (rm, Inl (Errorf ''social recovery not configured''))
      else store_recovery cr key (new_recovery cr rm target now RecoveryPending RecoverySocial 0 (rcm_GuardianQuorum rm)
        (empty_recovery_data\<lparr>rd_Guardians := rcm_Guardians rm, rd_GuardianQuorum := rcm_GuardianQuorum rm\<rparr>)) rm)"

definition InitiatePhraseRecovery ::
  "('sk, 'pk) crypto \<Rightarrow> int64 \<Rightarrow> address \<Rightarrow> 'sk \<Rightarrow> slice \<Rightarrow> RecoveryManager
    \<Rightarrow> RecoveryManager \<times> (go_error + CrossForkRecovery)" where
  "InitiatePhraseRecovery cr now target key phraseHash rm =
     (if rcm_RecoveryPhraseHash rm = None then (rm, Inl (Errorf ''recovery phrase not configured''))
      else if length (slice_bytes phraseHash) \<noteq> length (slice_bytes (rcm_RecoveryPhraseHash rm))
      then (rm, Inl (Errorf ''invalid recovery phrase''))
      else if list_ex (\<lambda>(a, b). a \<noteq> b) (zip (slice_bytes phraseHash) (slice_bytes (rcm_RecoveryPhraseHash rm)))
      then (rm, Inl (Errorf ''invalid recovery phrase''))
      else store_recovery cr key (new_recovery cr rm target now RecoveryApproved RecoveryPhrase 0 0
        (empty_recovery_data\<lparr>rd_PhraseHash := phraseHash\<rparr>)) rm)"

definition AddGuardianApproval ::
  "('sk, 'pk) crypto \<Rightarrow> int64 \<Rightarrow> hash32 \<Rightarrow> 'sk \<Rightarrow> string \<Rightarrow> RecoveryManager \<Rightarrow> RecoveryManager outcome" where
  "AddGuardianApproval cr now recoveryID key comment rm =
     (case rcm_Recoveries rm recoveryID of
        None \<Rightarrow> (rm, Some (Errorf ''recovery not found''))
      | Some r \<Rightarrow>
          if cfr_Method r \<noteq> RecoverySocial then (rm, Some (Errorf ''not a social recovery''))
          else (case Sign cr (hash_json cr (approval_json cr recoveryID (key_address cr key))) key of
            None \<Rightarrow> (rm, Some sign_error)
          | Some sig \<Rightarrow>
              let (r', e) = AddApproval cr now (key_address cr key) (Some sig) comment r
              in (rm\<lparr>rcm_Recoveries := (rcm_Recoveries rm)(recoveryID \<mapsto> r')\<rparr>, e)))"

definition CreateCheckpoint ::
  "('sk, 'pk) crypto \<Rightarrow> int64 \<Rightarrow> 'sk \<Rightarrow> int64 \<Rightarrow> hash32 \<Rightarrow> (hash32 \<Rightarrow> hash32 option) \<Rightarrow> hash32 \<Rightarrow> hash32
    \<Rightarrow> RecoveryManager \<Rightarrow> RecoveryManager \<times> (go_error + RecoveryCheckpoint)" where
  "CreateCheckpoint cr now key epoch stateRoot streamHashes rightsHash delegationsHash rm =
     (if key_address cr key \<noteq> rcm_Owner rm then (rm, Inl (Errorf ''only owner can create checkpoints''))
      else
        let c = \<lparr>rc_ID = hash_json cr (JObj [(''ForkID'', JBytes (rcm_ForkID rm)), (''Address'', JAddr cr (rcm_Owner rm)),
                   (''Epoch'', JInt epoch)]),
                 rc_ForkID = rcm_ForkID rm, rc_Address = rcm_Owner rm, rc_Epoch = epoch, rc_Timestamp = now,
                 rc_StateRoot = stateRoot, rc_StreamHashes = streamHashes, rc_RightsHash = rightsHash,
                 rc_DelegationsHash = delegationsHash, rc_Signature = None\<rparr>
        in (case RecoveryCheckpoint_Sign cr key c of
              (_, Some e) \<Rightarrow> (rm, Inl e)
            | (c', None) \<Rightarrow> (rm\<lparr>rcm_Checkpoints := (rcm_Checkpoints rm)(epoch \<mapsto> c')\<rparr>, Inr c')))"

definition GetCheckpoint :: "int64 \<Rightarrow> RecoveryManager \<Rightarrow> RecoveryCheckpoint option" where
  "GetCheckpoint epoch rm = rcm_Checkpoints rm epoch"

fun latest_loop :: "(int64 \<Rightarrow> RecoveryCheckpoint option) \<Rightarrow> int64 \<Rightarrow> RecoveryCheckpoint option \<Rightarrow> int64 list
    \<Rightarrow> RecoveryCheckpoint option" where
  "latest_loop cs latestEpoch latest [] = latest"
| "latest_loop cs latestEpoch latest (epoch # order) =
     (if epoch > latestEpoch then latest_loop cs epoch (cs epoch) order else latest_loop cs latestEpoch latest order)"

definition GetLatestCheckpoint :: "int64 list \<Rightarrow> RecoveryManager \<Rightarrow> RecoveryCheckpoint option" where
  "GetLatestCheckpoint order rm = latest_loop (rcm_Checkpoints rm) (-1) None order"

definition ExecuteRecovery :: "int64 \<Rightarrow> int64 \<Rightarrow> hash32 \<Rightarrow> RecoveryManager \<Rightarrow> RecoveryManager outcome" where
  "ExecuteRecovery t1 t2 recoveryID rm =
     (case rcm_Recoveries rm recoveryID of
        None \<Rightarrow> (rm, Some (Errorf ''recovery not found''))
      | Some r \<Rightarrow>
          (case CrossForkRecovery_Execute t1 t2 r of
             (_, Some e) \<Rightarrow> (rm, Some e)
           | (r', None) \<Rightarrow> (rm\<lparr>rcm_Recoveries := (rcm_Recoveries rm)(recoveryID \<mapsto> r'),
                               rcm_Owner := cfr_TargetAddress r'\<rparr>, None)))"

definition GetRecovery :: "hash32 \<Rightarrow> RecoveryManager \<Rightarrow> CrossForkRecovery option" where
  "GetRecovery recoveryID rm = rcm_Recoveries rm recoveryID"

definition GetActiveRecoveries :: "hash32 list \<Rightarrow> RecoveryManager \<Rightarrow> CrossForkRecovery list" where
  "GetActiveRecoveries order rm =
     filter (\<lambda>r. cfr_State r \<noteq> RecoveryExecuted \<and> cfr_State r \<noteq> RecoveryCancelled \<and> cfr_State r \<noteq> RecoveryFailed)
       (List.map_filter (rcm_Recoveries rm) order)"

definition ExportRecoveryData :: "('sk, 'pk) crypto \<Rightarrow> int64 list \<Rightarrow> RecoveryManager \<Rightarrow> go_error + bytes" where
  \<comment> \<open>\<open>order\<close> lists the epochs; a map of recoveries keyed by byte arrays cannot be marshalled\<close>
  "ExportRecoveryData cr order rm =
     (case json_bytes (JObj [(''fork_id'', JBytes (rcm_ForkID rm)), (''owner'', JAddr cr (rcm_Owner rm)),
        (''guardians'', JArr (map (JAddr cr) (rcm_Guardians rm))), (''guardian_quorum'', JInt (rcm_GuardianQuorum rm)),
        (''time_lock_duration'', JInt (rcm_TimeLockDuration rm)),
        (''checkpoints'', JObj (map (\<lambda>e. (dec_int e, case rcm_Checkpoints rm e of
             None \<Rightarrow> JNull | Some c \<Rightarrow> RecoveryCheckpoint_json cr c)) order)),
        (''recoveries'', JUnsupported)]) of
        None \<Rightarrow> Inl marshal_error | Some data \<Rightarrow> Inr data)"

section \<open>Recoveries and checkpoints as signed documents\<close>

lemma supported_CrossForkRecovery_json: "supported (CrossForkRecovery_json cr r)"
  by (simp add: CrossForkRecovery_json_def RecoveryData_json_def RecoveryApproval_json_def split: option.split)

interpretation recovery_doc: marshalled_document cr
  "\<lambda>r. CrossForkRecovery_json cr (r\<lparr>cfr_TargetSignature := None\<rparr>)" cfr_TargetAddress cfr_TargetSignature
  "\<lambda>s r. r\<lparr>cfr_TargetSignature := s\<rparr>" "SignWithTarget cr" "CrossForkRecovery_Verify cr" for cr
  by unfold_locales
    (auto simp: SignWithTarget_def CrossForkRecovery_Verify_def Let_def supported_CrossForkRecovery_json
      slice_bytes_def split: option.splits sum.splits)

interpretation checkpoint_doc: signed_document cr
  "\<lambda>c. RecoveryCheckpoint_json cr (c\<lparr>rc_Signature := None\<rparr>)" rc_Address rc_Signature
  "\<lambda>s c. c\<lparr>rc_Signature := s\<rparr>" "RecoveryCheckpoint_Sign cr" "RecoveryCheckpoint_Verify cr" for cr
  by unfold_locales
    (auto simp: RecoveryCheckpoint_Sign_def RecoveryCheckpoint_Verify_def sign_body_def Let_def slice_bytes_def
      split: option.splits sum.splits)

section \<open>Invariant\<close>

definition guardians_of :: "CrossForkRecovery \<Rightarrow> address list" where
  "guardians_of r = (case cfr_RecoveryData r of None \<Rightarrow> [] | Some d \<Rightarrow> rd_Guardians d)"

text \<open>An approval counts when its signature over the recovery recovers the approver, a guardian.\<close>

definition approval_ok :: "('sk, 'pk) crypto \<Rightarrow> CrossForkRecovery \<Rightarrow> RecoveryApproval \<Rightarrow> bool" where
  "approval_ok cr r a \<longleftrightarrow> ra_Approver a \<in> set (guardians_of r) \<and>
     map_option (PubkeyToAddress cr) (SigToPub cr (hash_json cr (approval_json cr (cfr_ID r) (ra_Approver a)))
       (slice_bytes (ra_Signature a))) = Some (ra_Approver a)"

definition recovery_ok :: "('sk, 'pk) crypto \<Rightarrow> CrossForkRecovery \<Rightarrow> bool" where
  "recovery_ok cr r \<longleftrightarrow> distinct (map ra_Approver (cfr_Approvals r)) \<and> list_all (approval_ok cr r) (cfr_Approvals r) \<and>
     (cfr_Method r = RecoveryTimeLock \<longrightarrow> cfr_TimeLockExpiry r = wrap64 (cfr_InitiatedAt r + 604800)) \<and>
     (cfr_Method r = RecoverySocial \<longrightarrow> 1 \<le> cfr_RequiredApprovals r \<and> cfr_RequiredApprovals r \<le> int (length (guardians_of r)))"

definition recovery_inv :: "('sk, 'pk) crypto \<Rightarrow> RecoveryManager \<Rightarrow> bool" where
  "recovery_inv cr rm \<longleftrightarrow> rcm_TimeLockDuration rm = 604800 \<and>
     (rcm_Guardians rm \<noteq> [] \<longrightarrow> 1 \<le> rcm_GuardianQuorum rm \<and> rcm_GuardianQuorum rm \<le> int (length (rcm_Guardians rm))) \<and>
     (\<forall>i r. rcm_Recoveries rm i = Some r \<longrightarrow> cfr_ID r = i \<and> recovery_ok cr r)"

text \<open>
  The operations of the manager, and \<open>AddApproval\<close> and \<open>Cancel\<close> on a recovery that
  \<open>GetRecovery\<close> handed out.
\<close>

definition on_recovery :: "hash32 \<Rightarrow> (CrossForkRecovery \<Rightarrow> CrossForkRecovery) \<Rightarrow> RecoveryManager \<Rightarrow> RecoveryManager" where
  "on_recovery i f rm = rm\<lparr>rcm_Recoveries := (rcm_Recoveries rm)(i := map_option f (rcm_Recoveries rm i))\<rparr>"

inductive recovery_step :: "('sk, 'pk) crypto \<Rightarrow> RecoveryManager \<Rightarrow> RecoveryManager \<Rightarrow> bool" for cr where
  guardians: "recovery_step cr rm (fst (RecoveryManager_SetupSocialRecovery guardians quorum rm))"
| phrase: "recovery_step cr rm (SetRecoveryPhrase phraseHash rm)"
| by_time: "recovery_step cr rm (fst (RecoveryManager_InitiateTimeLockRecovery cr now target key rm))"
| by_guardians: "recovery_step cr rm (fst (InitiateSocialRecovery cr now target key rm))"
| by_phrase: "recovery_step cr rm (fst (InitiatePhraseRecovery cr now target key phraseHash rm))"
| approval: "recovery_step cr rm (fst (AddGuardianApproval cr now i key comment rm))"
| direct: "recovery_step cr rm (on_recovery i (\<lambda>r. fst (AddApproval cr now approver sig comment r)) rm)"
| checkpoint: "recovery_step cr rm (fst (CreateCheckpoint cr now key epoch root streams rights delegations rm))"
| execute: "recovery_step cr rm (fst (ExecuteRecovery t1 t2 i rm))"
| cancel: "recovery_step cr rm (on_recovery i (CrossForkRecovery_Cancel now) rm)"

abbreviation recovery_run :: "('sk, 'pk) crypto \<Rightarrow> hash32 \<Rightarrow> address \<Rightarrow> RecoveryManager \<Rightarrow> bool" where
  "recovery_run cr forkID owner \<equiv> (recovery_step cr)\<^sup>*\<^sup>* (NewRecoveryManager forkID owner)"

lemma recovery_ok_updates [simp]:
  "recovery_ok cr (r\<lparr>cfr_TargetSignature := s\<rparr>) = recovery_ok cr r"
  "recovery_ok cr (r\<lparr>cfr_State := st, cfr_CompletedAt := t\<rparr>) = recovery_ok cr r"
  by (simp_all add: recovery_ok_def approval_ok_def [abs_def] guardians_of_def)

lemma AddApproval_cases:
  obtains (refused) e where "AddApproval cr now approver sig comment r = (r, Some e)"
  | (added) r1 where "AddApproval cr now approver sig comment r = (r1, None)"
      "approver \<in> set (guardians_of r)" "\<forall>a\<in>set (cfr_Approvals r). ra_Approver a \<noteq> approver"
      "map_option (PubkeyToAddress cr) (SigToPub cr (hash_json cr (approval_json cr (cfr_ID r) approver)) (slice_bytes sig))
        = Some approver"
      "r1 = r\<lparr>cfr_Approvals := cfr_Approvals r @ [\<lparr>ra_Approver = approver, ra_ApprovedAt = now, ra_Signature = sig,
          ra_Comment = comment\<rparr>], cfr_State := (if cfr_RequiredApprovals r \<le> int (length (cfr_Approvals r)) + 1
            then RecoveryApproved else cfr_State r)\<rparr>"
proof (cases "SigToPub cr (hash_json cr (approval_json cr (cfr_ID r) approver)) (slice_bytes sig)")
  case None
  then show thesis
    using that(1) by (simp add: AddApproval_def)
next
  case (Some pub)
  let ?guard = "PubkeyToAddress cr pub = approver \<and> approver \<in> set (guardians_of r) \<and>
    (\<forall>a\<in>set (cfr_Approvals r). ra_Approver a \<noteq> approver)"
  have data: "(case cfr_RecoveryData r of None \<Rightarrow> False | Some d \<Rightarrow> list_ex (\<lambda>g. g = approver) (rd_Guardians d)) \<longleftrightarrow>
      approver \<in> set (guardians_of r)"
    by (auto simp: guardians_of_def list_ex_iff split: option.split)
  show thesis
  proof (cases ?guard)
    case True
    with Some show thesis
      by (intro that(2)) (simp_all add: AddApproval_def data list_ex_iff Let_def)
  next
    case False
    with Some have "\<exists>e. AddApproval cr now approver sig comment r = (r, Some e)"
      by (simp add: AddApproval_def data list_ex_iff)
    then show thesis
      using that(1) by blast
  qed
qed

lemma AddApproval_ok:
  "recovery_ok cr r \<Longrightarrow> recovery_ok cr (fst (AddApproval cr now approver sig comment r)) \<and>
     cfr_ID (fst (AddApproval cr now approver sig comment r)) = cfr_ID r"
  by (rule AddApproval_cases [of cr now approver sig comment r])
    (auto simp: recovery_ok_def approval_ok_def guardians_of_def list_all_iff)

lemma on_recovery_inv:
  assumes "recovery_inv cr rm" and "\<And>r. recovery_ok cr r \<Longrightarrow> recovery_ok cr (f r) \<and> cfr_ID (f r) = cfr_ID r"
  shows "recovery_inv cr (on_recovery i f rm)"
  using assms by (auto simp: recovery_inv_def on_recovery_def)

lemma store_recovery_cases:
  obtains (refused) e where "store_recovery cr key r rm = (rm, Inl e)"
  | (stored) sig where "store_recovery cr key r rm =
      (rm\<lparr>rcm_Recoveries := (rcm_Recoveries rm)(cfr_ID r \<mapsto> r\<lparr>cfr_TargetSignature := Some sig\<rparr>)\<rparr>,
       Inr (r\<lparr>cfr_TargetSignature := Some sig\<rparr>))" "key_address cr key = cfr_TargetAddress r"
proof -
  obtain r' e where sign: "SignWithTarget cr key r = (r', e)"
    by fastforce
  show thesis
  proof (cases e)
    case None
    from sign [unfolded None] obtain sig where "key_address cr key = cfr_TargetAddress r"
      "r' = r\<lparr>cfr_TargetSignature := Some sig\<rparr>"
      by (rule recovery_doc.sign_succeeded_cases)
    then show thesis
      using sign None by (intro that(2) [of sig]) (simp_all add: store_recovery_def)
  next
    case (Some e')
    then show thesis
      using sign that(1) by (simp add: store_recovery_def)
  qed
qed

lemma recovery_inv_put:
  "recovery_inv cr rm \<Longrightarrow> recovery_ok cr r \<Longrightarrow> recovery_inv cr (rm\<lparr>rcm_Recoveries := (rcm_Recoveries rm)(cfr_ID r \<mapsto> r)\<rparr>)"
  by (simp add: recovery_inv_def)

lemma store_recovery_inv:
  assumes "recovery_inv cr rm" and "recovery_ok cr r"
  shows "recovery_inv cr (fst (store_recovery cr key r rm))"
proof (cases rule: store_recovery_cases [of cr key r rm])
  case (stored sig)
  show ?thesis
    unfolding stored(1) fst_conv
    using recovery_inv_put [OF assms(1), of "r\<lparr>cfr_TargetSignature := Some sig\<rparr>"] assms(2) by simp
qed (use assms in simp)

lemma new_recovery_fields [simp]:
  "cfr_State (new_recovery cr rm target now state meth expiry required data) = state"
  "cfr_Method (new_recovery cr rm target now state meth expiry required data) = meth"
  "cfr_InitiatedAt (new_recovery cr rm target now state meth expiry required data) = now"
  "cfr_TimeLockExpiry (new_recovery cr rm target now state meth expiry required data) = expiry"
  "cfr_Approvals (new_recovery cr rm target now state meth expiry required data) = []"
  "cfr_RequiredApprovals (new_recovery cr rm target now state meth expiry required data) = required"
  "cfr_RecoveryData (new_recovery cr rm target now state meth expiry required data) = Some data"
  "cfr_TargetAddress (new_recovery cr rm target now state meth expiry required data) = target"
  by (simp_all add: new_recovery_def CrossForkRecovery_GenerateID_def)

lemma CreateCheckpoint_refused: "\<exists>e. CreateCheckpoint cr now key epoch root streams rights delegations rm = (rm, Inl e)"
proof -
  have "failed (RecoveryCheckpoint_Sign cr key c)" for c
    by (rule checkpoint_doc.unsupported_never_signed) (simp add: RecoveryCheckpoint_json_def)
  then show ?thesis
    by (auto simp: CreateCheckpoint_def Let_def split: prod.splits option.splits) (metis option.discI snd_conv)
qed

lemma AddGuardianApproval_frame:
  "fst (AddGuardianApproval cr now i key comment rm) = rm \<or>
   (\<exists>sig. fst (AddGuardianApproval cr now i key comment rm) =
     on_recovery i (\<lambda>r. fst (AddApproval cr now (key_address cr key) sig comment r)) rm)"
proof (cases "rcm_Recoveries rm i")
  case (Some r)
  show ?thesis
  proof (cases "Sign cr (hash_json cr (approval_json cr i (key_address cr key))) key")
    case (Some sig)
    with \<open>rcm_Recoveries rm i = Some r\<close> have "cfr_Method r = RecoverySocial \<Longrightarrow>
      fst (AddGuardianApproval cr now i key comment rm) =
        on_recovery i (\<lambda>r. fst (AddApproval cr now (key_address cr key) (Some sig) comment r)) rm"
      by (simp add: AddGuardianApproval_def on_recovery_def split: prod.split)
    moreover have "cfr_Method r \<noteq> RecoverySocial \<Longrightarrow> fst (AddGuardianApproval cr now i key comment rm) = rm"
      using \<open>rcm_Recoveries rm i = Some r\<close> by (simp add: AddGuardianApproval_def)
    ultimately show ?thesis by blast
  qed (simp add: AddGuardianApproval_def Some)
qed (simp add: AddGuardianApproval_def)

lemma ExecuteRecovery_succeeds:
  assumes "ExecuteRecovery t1 t2 i rm = (rm', None)"
  obtains r reason where "rcm_Recoveries rm i = Some r" "CanExecute t1 r = (True, reason)"
    "rm' = rm\<lparr>rcm_Recoveries := (rcm_Recoveries rm)(i \<mapsto> r\<lparr>cfr_State := RecoveryExecuted, cfr_CompletedAt := t2\<rparr>),
       rcm_Owner := cfr_TargetAddress r\<rparr>"
  using assms by (auto simp: ExecuteRecovery_def CrossForkRecovery_Execute_def split: option.splits prod.splits bool.splits)

lemma ExecuteRecovery_fails: "ExecuteRecovery t1 t2 i rm = (rm', Some e) \<Longrightarrow> rm' = rm"
  by (auto simp: ExecuteRecovery_def split: option.splits prod.splits)

lemma ExecuteRecovery_inv: "recovery_inv cr rm \<Longrightarrow> recovery_inv cr (fst (ExecuteRecovery t1 t2 i rm))"
  by (cases "ExecuteRecovery t1 t2 i rm"; cases "snd (ExecuteRecovery t1 t2 i rm)")
    (auto dest!: ExecuteRecovery_fails elim!: ExecuteRecovery_succeeds simp: recovery_inv_def split: if_splits)

lemma recovery_inv_step:
  assumes "recovery_step cr rm rm'" and inv: "recovery_inv cr rm"
  shows "recovery_inv cr rm'"
  using assms(1)
proof (cases rule: recovery_step.cases)
  case (guardians gs q)
  with inv show ?thesis by (auto simp: RecoveryManager_SetupSocialRecovery_def recovery_inv_def)
next
  case (phrase h)
  with inv show ?thesis by (simp add: SetRecoveryPhrase_def recovery_inv_def)
next
  case (by_time now target key)
  have "recovery_ok cr (new_recovery cr rm target now RecoveryPending RecoveryTimeLock
      (wrap64 (now + rcm_TimeLockDuration rm)) 0 empty_recovery_data)"
    using inv by (simp add: recovery_ok_def recovery_inv_def recovery_methods)
  then show ?thesis
    unfolding by_time RecoveryManager_InitiateTimeLockRecovery_def by (rule store_recovery_inv [OF inv])
next
  case (by_guardians now target key)
  have "recovery_ok cr (new_recovery cr rm target now RecoveryPending RecoverySocial 0 (rcm_GuardianQuorum rm)
        (empty_recovery_data\<lparr>rd_Guardians := rcm_Guardians rm, rd_GuardianQuorum := rcm_GuardianQuorum rm\<rparr>))"
    if "rcm_Guardians rm \<noteq> []"
    using inv that by (simp add: recovery_ok_def recovery_inv_def recovery_methods guardians_of_def)
  then show ?thesis
    unfolding by_guardians InitiateSocialRecovery_def using store_recovery_inv [OF inv] inv by simp
next
  case (by_phrase now target key h)
  have "recovery_ok cr (new_recovery cr rm target now RecoveryApproved RecoveryPhrase 0 0
        (empty_recovery_data\<lparr>rd_PhraseHash := h\<rparr>))"
    by (simp add: recovery_ok_def recovery_methods)
  then show ?thesis
    unfolding by_phrase InitiatePhraseRecovery_def using store_recovery_inv [OF inv] inv by simp
next
  case (approval now i key comment)
  have "recovery_inv cr (on_recovery i (\<lambda>r. fst (AddApproval cr now (key_address cr key) sig comment r)) rm)" for sig
    by (rule on_recovery_inv [OF inv AddApproval_ok])
  then show ?thesis
    using AddGuardianApproval_frame [of cr now i key comment rm] inv unfolding approval by auto
next
  case (direct i now approver sig comment)
  show ?thesis unfolding direct by (rule on_recovery_inv [OF inv AddApproval_ok])
next
  case (checkpoint now key epoch root streams rights delegations)
  then show ?thesis using inv CreateCheckpoint_refused by (metis fst_conv)
next
  case (execute t1 t2 i)
  then show ?thesis using ExecuteRecovery_inv [OF inv] by simp
next
  case (cancel i now)
  then show ?thesis
    by (auto intro!: on_recovery_inv [OF inv] simp: CrossForkRecovery_Cancel_def)
qed

lemma recovery_run_inv: "recovery_run cr forkID owner rm \<Longrightarrow> recovery_inv cr rm"
proof (induction rule: rtranclp_induct)
  case base
  show ?case by (simp add: recovery_inv_def NewRecoveryManager_def)
qed (rule recovery_inv_step)

section \<open>Properties\<close>

lemma CanExecute_cases:
  assumes "CanExecute now r = (True, reason)"
  shows "cfr_State r \<noteq> RecoveryExecuted \<and> cfr_State r \<noteq> RecoveryCancelled \<and> cfr_State r \<noteq> RecoveryFailed \<and>
    (cfr_Method r = RecoveryTimeLock \<and> cfr_TimeLockExpiry r \<le> now \<or>
     cfr_Method r = RecoverySocial \<and> cfr_RequiredApprovals r \<le> int (length (cfr_Approvals r)) \<or>
     cfr_Method r = RecoveryPhrase)"
  using assms by (auto simp: CanExecute_def split: if_splits)

text \<open>
  C27: on every state a recovery manager reaches, the owner changes only as the recovery allows. A
  successful \<open>ExecuteRecovery\<close> is of a recovery that is neither executed nor cancelled; by time
  lock it comes seven days after the initiation, unless the clock overflows; by guardians, at least
  the quorum of distinct guardians has signed this recovery; else it was initiated by phrase. The
  owner becomes the target; a refused execution changes nothing.
\<close>

theorem ExecuteRecovery_authorised:
  assumes "recovery_run cr forkID owner rm" and "ExecuteRecovery t1 t2 i rm = (rm', e)"
  shows "(e \<noteq> None \<longrightarrow> rm' = rm) \<and>
    (e = None \<longrightarrow> (\<exists>r. rcm_Recoveries rm i = Some r \<and> rcm_Owner rm' = cfr_TargetAddress r \<and>
      cfr_State r \<noteq> RecoveryExecuted \<and> cfr_State r \<noteq> RecoveryCancelled \<and>
      (cfr_Method r = RecoveryTimeLock \<and>
         (in_int64 (cfr_InitiatedAt r + 604800) \<longrightarrow> 604800 \<le> t1 - cfr_InitiatedAt r) \<or>
       cfr_Method r = RecoverySocial \<and>
         (\<exists>gs. gs \<subseteq> set (guardians_of r) \<and> 1 \<le> cfr_RequiredApprovals r \<and> cfr_RequiredApprovals r \<le> int (card gs) \<and>
            (\<forall>g\<in>gs. \<exists>a\<in>set (cfr_Approvals r). ra_Approver a = g \<and> approval_ok cr r a)) \<or>
       cfr_Method r = RecoveryPhrase)))"
proof (cases e)
  case None
  from assms(2) [unfolded None] show ?thesis
  proof (rule ExecuteRecovery_succeeds)
    fix r reason
    assume r: "rcm_Recoveries rm i = Some r" and can: "CanExecute t1 r = (True, reason)"
      and rm': "rm' = rm\<lparr>rcm_Recoveries := (rcm_Recoveries rm)(i \<mapsto> r\<lparr>cfr_State := RecoveryExecuted, cfr_CompletedAt := t2\<rparr>),
       rcm_Owner := cfr_TargetAddress r\<rparr>"
    have ok: "recovery_ok cr r"
      using recovery_run_inv [OF assms(1)] r by (simp add: recovery_inv_def)
    let ?gs = "ra_Approver ` set (cfr_Approvals r)"
    let ?social = "\<lambda>gs. gs \<subseteq> set (guardians_of r) \<and> 1 \<le> cfr_RequiredApprovals r \<and> cfr_RequiredApprovals r \<le> int (card gs) \<and>
      (\<forall>g\<in>gs. \<exists>a\<in>set (cfr_Approvals r). ra_Approver a = g \<and> approval_ok cr r a)"
    have "card ?gs = length (cfr_Approvals r)"
      using ok by (metis recovery_ok_def distinct_card length_map set_map)
    then have social: "?social ?gs" if "cfr_Method r = RecoverySocial" "cfr_RequiredApprovals r \<le> int (length (cfr_Approvals r))"
      using ok that by (auto simp: recovery_ok_def list_all_iff approval_ok_def)
    have time: "604800 \<le> t1 - cfr_InitiatedAt r"
      if "cfr_Method r = RecoveryTimeLock" "cfr_TimeLockExpiry r \<le> t1" "in_int64 (cfr_InitiatedAt r + 604800)"
      using ok that by (simp add: recovery_ok_def)
    have "rcm_Owner rm' = cfr_TargetAddress r"
      by (simp add: rm')
    with CanExecute_cases [OF can] social time r None show ?thesis
      by blast
  qed
qed (use assms(2) ExecuteRecovery_fails in auto)

text \<open>
  Guardians listed twice can make a recovery impossible. \<open>SetupSocialRecovery\<close> compares the
  quorum with the length of the list, but a guardian approves only once: a social recovery that
  requires more approvals than there are different guardians is never executed, in any run.
\<close>

theorem duplicate_guardians_block_recovery:
  assumes "recovery_run cr forkID owner rm" and "rcm_Recoveries rm i = Some r" and "cfr_Method r = RecoverySocial"
    and "int (card (set (guardians_of r))) < cfr_RequiredApprovals r"
  shows "failed (ExecuteRecovery t1 t2 i rm)"
proof -
  have ok: "recovery_ok cr r"
    using recovery_run_inv [OF assms(1)] assms(2) by (simp add: recovery_inv_def)
  have "length (cfr_Approvals r) = card (ra_Approver ` set (cfr_Approvals r))"
    using ok by (metis recovery_ok_def distinct_card length_map set_map)
  also have "\<dots> \<le> card (set (guardians_of r))"
    using ok by (intro card_mono) (auto simp: recovery_ok_def list_all_iff approval_ok_def)
  finally have "int (length (cfr_Approvals r)) < cfr_RequiredApprovals r"
    using assms(4) by simp
  then show ?thesis
    using assms(2,3) CanExecute_cases [of t1 r]
    by (cases "CanExecute t1 r") (auto simp: ExecuteRecovery_def CrossForkRecovery_Execute_def recovery_methods split: bool.splits)
qed

text \<open>
  A social recovery that was cancelled or executed comes back to life. \<open>AddApproval\<close> does not
  look at the state and sets it to approved when the quorum is reached, so that one more guardian's
  approval lets the recovery be executed, again, and hands the identity to its target.
\<close>

theorem cancelled_recovery_revived:
  assumes "signature_recovers cr" and "Sign cr (hash_json cr (approval_json cr i (key_address cr key))) key \<noteq> None"
    and "rcm_Recoveries rm i = Some r" and "cfr_ID r = i" and "cfr_Method r = RecoverySocial"
    and "cfr_State r = RecoveryCancelled \<or> cfr_State r = RecoveryExecuted"
    and "key_address cr key \<in> set (guardians_of r)" and "key_address cr key \<notin> ra_Approver ` set (cfr_Approvals r)"
    and "cfr_RequiredApprovals r \<le> int (length (cfr_Approvals r)) + 1"
  shows "failed (ExecuteRecovery t1 t2 i rm) \<and>
    (\<exists>rm1 rm2. AddGuardianApproval cr now i key comment rm = (rm1, None) \<and> ExecuteRecovery t1 t2 i rm1 = (rm2, None) \<and>
       rcm_Owner rm2 = cfr_TargetAddress r)"
proof -
  obtain sig where sig: "Sign cr (hash_json cr (approval_json cr i (key_address cr key))) key = Some sig"
    using assms(2) by blast
  then have "SigToPub cr (hash_json cr (approval_json cr i (key_address cr key))) sig = Some (PublicKey cr key)"
    using assms(1) by (simp add: signature_recovers_def)
  then have "succeeded (AddApproval cr now (key_address cr key) (Some sig) comment r)"
    using assms(4,7,8)
    by (auto simp: AddApproval_def key_address_def guardians_of_def list_ex_iff Let_def image_iff split: option.splits)
  then obtain r1 where r1: "AddApproval cr now (key_address cr key) (Some sig) comment r = (r1, None)"
    "cfr_State r1 = RecoveryApproved" "cfr_Method r1 = RecoverySocial" "cfr_TargetAddress r1 = cfr_TargetAddress r"
    "cfr_RequiredApprovals r1 \<le> int (length (cfr_Approvals r1))"
    by (cases rule: AddApproval_cases [of cr now "key_address cr key" "Some sig" comment r]) (use assms(5,9) in auto)
  then have add: "AddGuardianApproval cr now i key comment rm = (rm\<lparr>rcm_Recoveries := (rcm_Recoveries rm)(i \<mapsto> r1)\<rparr>, None)"
    using assms(3,5) sig by (simp add: AddGuardianApproval_def)
  have "CanExecute t1 r1 = (True, [])"
    using r1 by (simp add: CanExecute_def recovery_states recovery_methods)
  then have "\<exists>rm2. ExecuteRecovery t1 t2 i (rm\<lparr>rcm_Recoveries := (rcm_Recoveries rm)(i \<mapsto> r1)\<rparr>) = (rm2, None) \<and>
      rcm_Owner rm2 = cfr_TargetAddress r"
    using r1(4) by (simp add: ExecuteRecovery_def CrossForkRecovery_Execute_def)
  moreover have "failed (ExecuteRecovery t1 t2 i rm)"
    using assms(3,6) by (auto simp: ExecuteRecovery_def CrossForkRecovery_Execute_def CanExecute_def recovery_states)
  ultimately show ?thesis
    using add by blast
qed

text \<open>
  No checkpoint is ever created. A checkpoint holds a map keyed by byte arrays, which
  \<open>json.Marshal\<close> refuses, so \<open>CreateCheckpoint\<close> always returns an error and leaves the manager as it
  was, and no checkpoint verifies. \<open>ExportRecoveryData\<close> fails for the same reason.
\<close>

theorem CreateCheckpoint_always_fails:
  "(\<exists>e. CreateCheckpoint cr now key epoch root streams rights delegations rm = (rm, Inl e)) \<and> \<not> RecoveryCheckpoint_Verify cr c \<and>
   isl (ExportRecoveryData cr order rm)"
proof -
  have "\<not> RecoveryCheckpoint_Verify cr c"
    by (rule checkpoint_doc.unsupported_never_verified) (simp add: RecoveryCheckpoint_json_def)
  moreover have "isl (ExportRecoveryData cr order rm)"
    unfolding ExportRecoveryData_def by (subst json_bytes_unsupported) simp_all
  ultimately show ?thesis
    by (intro conjI CreateCheckpoint_refused)
qed

section \<open>Witnesses\<close>

definition demo_rcm :: "address list \<Rightarrow> int \<Rightarrow> RecoveryManager" where
  "demo_rcm guardians quorum = fst (RecoveryManager_SetupSocialRecovery guardians quorum (NewRecoveryManager zero32 [1]))"

definition demo_timed :: CrossForkRecovery where
  "demo_timed = new_recovery demo_crypto (demo_rcm [[5]] 1) [3] 0 RecoveryPending RecoveryTimeLock 604800 0 empty_recovery_data"

definition demo_social :: "address list \<Rightarrow> int \<Rightarrow> CrossForkRecovery" where
  "demo_social guardians quorum = new_recovery demo_crypto (demo_rcm guardians quorum) [3] 0 RecoveryPending RecoverySocial 0 quorum
     (empty_recovery_data\<lparr>rd_Guardians := guardians, rd_GuardianQuorum := quorum\<rparr>)"

lemma demo_store:
  "cfr_TargetAddress r = [3] \<Longrightarrow> \<exists>sig. store_recovery demo_crypto [3] r rm =
     (rm\<lparr>rcm_Recoveries := (rcm_Recoveries rm)(cfr_ID r \<mapsto> r\<lparr>cfr_TargetSignature := Some sig\<rparr>)\<rparr>,
      Inr (r\<lparr>cfr_TargetSignature := Some sig\<rparr>))"
  using recovery_doc.sign_complete [of demo_crypto "[3]" r] by (auto simp: store_recovery_def)

lemma demo_rcm_run: "recovery_run demo_crypto zero32 [1] (demo_rcm gs q)"
  unfolding demo_rcm_def by (rule r_into_rtranclp) (rule recovery_step.guardians)

lemma demo_timed_stored:
  "\<exists>sig rm. recovery_run demo_crypto zero32 [1] rm \<and>
     rcm_Recoveries rm (cfr_ID demo_timed) = Some (demo_timed\<lparr>cfr_TargetSignature := Some sig\<rparr>)"
proof -
  obtain sig where "RecoveryManager_InitiateTimeLockRecovery demo_crypto 0 [3] [3] (demo_rcm [[5]] 1) =
      ((demo_rcm [[5]] 1)\<lparr>rcm_Recoveries := (rcm_Recoveries (demo_rcm [[5]] 1))(cfr_ID demo_timed \<mapsto>
         demo_timed\<lparr>cfr_TargetSignature := Some sig\<rparr>)\<rparr>, Inr (demo_timed\<lparr>cfr_TargetSignature := Some sig\<rparr>))"
    using demo_store [of demo_timed "demo_rcm [[5]] 1"]
    by (auto simp: demo_timed_def RecoveryManager_InitiateTimeLockRecovery_def demo_rcm_def NewRecoveryManager_def
        RecoveryManager_SetupSocialRecovery_def wrap64_def)
  then have "rcm_Recoveries (fst (RecoveryManager_InitiateTimeLockRecovery demo_crypto 0 [3] [3] (demo_rcm [[5]] 1)))
      (cfr_ID demo_timed) = Some (demo_timed\<lparr>cfr_TargetSignature := Some sig\<rparr>)"
    by simp
  moreover have "recovery_run demo_crypto zero32 [1]
      (fst (RecoveryManager_InitiateTimeLockRecovery demo_crypto 0 [3] [3] (demo_rcm [[5]] 1)))"
    using demo_rcm_run by (rule rtranclp.rtrancl_into_rtrancl) (rule recovery_step.by_time)
  ultimately show ?thesis
    by blast
qed

lemma demo_social_stored:
  assumes "gs \<noteq> []" and "1 \<le> q" and "q \<le> int (length gs)"
  shows "\<exists>sig rm. recovery_run demo_crypto zero32 [1] rm \<and>
     rcm_Recoveries rm (cfr_ID (demo_social gs q)) = Some ((demo_social gs q)\<lparr>cfr_TargetSignature := Some sig\<rparr>)"
proof -
  let ?r = "demo_social gs q" and ?rm = "demo_rcm gs q"
  obtain sig where "InitiateSocialRecovery demo_crypto 0 [3] [3] ?rm =
      (?rm\<lparr>rcm_Recoveries := (rcm_Recoveries ?rm)(cfr_ID ?r \<mapsto> ?r\<lparr>cfr_TargetSignature := Some sig\<rparr>)\<rparr>,
       Inr (?r\<lparr>cfr_TargetSignature := Some sig\<rparr>))"
    using demo_store [of ?r ?rm] assms
    by (auto simp: demo_social_def InitiateSocialRecovery_def demo_rcm_def NewRecoveryManager_def
        RecoveryManager_SetupSocialRecovery_def)
  then have "rcm_Recoveries (fst (InitiateSocialRecovery demo_crypto 0 [3] [3] ?rm)) (cfr_ID ?r) =
      Some (?r\<lparr>cfr_TargetSignature := Some sig\<rparr>)"
    by simp
  moreover have "recovery_run demo_crypto zero32 [1] (fst (InitiateSocialRecovery demo_crypto 0 [3] [3] ?rm))"
    using demo_rcm_run by (rule rtranclp.rtrancl_into_rtrancl) (rule recovery_step.by_guardians)
  ultimately show ?thesis
    by blast
qed

theorem ExecuteRecovery_authorised_witness:
  "\<exists>rm rm'. recovery_run demo_crypto zero32 [1] rm \<and> ExecuteRecovery 604800 604800 (cfr_ID demo_timed) rm = (rm', None) \<and>
     rcm_Owner rm' = [3]"
proof -
  obtain sig rm where rm: "recovery_run demo_crypto zero32 [1] rm"
    "rcm_Recoveries rm (cfr_ID demo_timed) = Some (demo_timed\<lparr>cfr_TargetSignature := Some sig\<rparr>)"
    using demo_timed_stored by blast
  have "CanExecute 604800 (demo_timed\<lparr>cfr_TargetSignature := Some sig\<rparr>) = (True, [])"
    by (simp add: CanExecute_def demo_timed_def recovery_states)
  then obtain rm' where "ExecuteRecovery 604800 604800 (cfr_ID demo_timed) rm = (rm', None)"
    using rm(2) by (simp add: ExecuteRecovery_def CrossForkRecovery_Execute_def)
  moreover from ExecuteRecovery_authorised [OF rm(1) this] rm(2) have "rcm_Owner rm' = [3]"
    by (auto simp: demo_timed_def)
  ultimately show ?thesis
    using rm(1) by blast
qed

theorem duplicate_guardians_block_recovery_witness:
  "\<exists>rm r. recovery_run demo_crypto zero32 [1] rm \<and> rcm_Recoveries rm (cfr_ID (demo_social [[5], [5]] 2)) = Some r \<and>
     failed (ExecuteRecovery 9 9 (cfr_ID (demo_social [[5], [5]] 2)) rm)"
proof -
  obtain sig rm where rm: "recovery_run demo_crypto zero32 [1] rm"
    "rcm_Recoveries rm (cfr_ID (demo_social [[5], [5]] 2)) = Some ((demo_social [[5], [5]] 2)\<lparr>cfr_TargetSignature := Some sig\<rparr>)"
    using demo_social_stored [of "[[5], [5]]" 2] by auto
  have "failed (ExecuteRecovery 9 9 (cfr_ID (demo_social [[5], [5]] 2)) rm)"
    by (rule duplicate_guardians_block_recovery [OF rm]) (simp_all add: demo_social_def guardians_of_def)
  with rm show ?thesis
    by blast
qed

theorem cancelled_recovery_revived_witness:
  "\<exists>rm1 rm2. AddGuardianApproval demo_crypto 7 [9] [5] [] ((NewRecoveryManager zero32 [1])\<lparr>rcm_Recoveries :=
       [[9] \<mapsto> CrossForkRecovery_Cancel 6 ((demo_social [[5], [6]] 1)\<lparr>cfr_ID := [9]\<rparr>)]\<rparr>) = (rm1, None) \<and>
     ExecuteRecovery 8 8 [9] rm1 = (rm2, None) \<and> rcm_Owner rm2 = [3]"
  using cancelled_recovery_revived [OF demo_crypto_recovers, of "[9]" "[5]"
      "(NewRecoveryManager zero32 [1])\<lparr>rcm_Recoveries :=
       [[9] \<mapsto> CrossForkRecovery_Cancel 6 ((demo_social [[5], [6]] 1)\<lparr>cfr_ID := [9]\<rparr>)]\<rparr>" _ 8 8 7 "[]"]
  by (simp add: CrossForkRecovery_Cancel_def demo_social_def guardians_of_def)

end
