(* ===== verification/Hardware_Gate.thy ===== *)
theory Hardware_Gate
  imports Signed_Document
begin

text \<open>
  Hardware gates (\<open>identity/hardware_gate.go\<close>): the four implementations of the
  \<open>HardwareGate\<close> interface, the detection of the platform's gate and the attestation challenge.
  Go's P-256 signatures and point encoding are a parameter, the record \<open>p256\<close>; the law the
  software gate relies on is \<open>p256_verifies\<close>.
\<close>

section \<open>P-256\<close>

record ('gk, 'gp) p256 =
  EcdsaSign :: "'gk \<Rightarrow> bytes \<Rightarrow> (nat \<times> nat) option"
  EcdsaVerify :: "'gp \<Rightarrow> bytes \<Rightarrow> nat \<Rightarrow> nat \<Rightarrow> bool"
  EcdsaPublic :: "'gk \<Rightarrow> 'gp"
  MarshalCompressed :: "'gp \<Rightarrow> bytes"

text \<open>The components of a signature are below the group order and the signature verifies.\<close>

definition p256_verifies :: "('gk, 'gp) p256 \<Rightarrow> bool" where
  "p256_verifies ec \<longleftrightarrow> (\<forall>k h r s. EcdsaSign ec k h = Some (r, s) \<longrightarrow>
     r < 256 ^ 32 \<and> s < 256 ^ 32 \<and> EcdsaVerify ec (EcdsaPublic ec k) h r s)"

section \<open>The gates\<close>

definition GateTypeSecureEnclave :: string where "GateTypeSecureEnclave = ''secure_enclave''"
definition GateTypeTPM :: string where "GateTypeTPM = ''tpm''"
definition GateTypeWebAuthn :: string where "GateTypeWebAuthn = ''webauthn''"
definition GateTypeSoftware :: string where "GateTypeSoftware = ''software''"
definition GateTypeNone :: string where "GateTypeNone = ''none''"

lemmas gate_types = GateTypeSecureEnclave_def GateTypeTPM_def GateTypeWebAuthn_def GateTypeSoftware_def GateTypeNone_def

record GateCapabilities =
  CanAttest :: bool
  CanVerify :: bool
  KeyNeverExportable :: bool
  RequiresBiometric :: bool
  RequiresPIN :: bool

record SecureEnclaveGate =
  se_available :: bool
  se_pubKey :: slice

record TPMGate =
  tpm_available :: bool
  tpm_pubKey :: slice

record 'gk SoftwareGate =
  sw_privateKey :: "'gk option"
  sw_available :: bool

datatype 'gk HardwareGate =
    SecureEnclave SecureEnclaveGate
  | TPM TPMGate
  | Software "'gk SoftwareGate"
  | NoGate

subsection \<open>Secure Enclave\<close>

definition NewSecureEnclaveGate :: SecureEnclaveGate where
  "NewSecureEnclaveGate = \<lparr>se_available = False, se_pubKey = None\<rparr>"

definition SecureEnclaveGate_Attest :: "SecureEnclaveGate \<Rightarrow> bytes \<Rightarrow> go_error + bytes" where
  "SecureEnclaveGate_Attest g challenge =
     (if \<not> se_available g then Inl (Errorf ''Secure Enclave not available'')
      else Inl (Errorf ''Secure Enclave not implemented - requires native code''))"

definition SecureEnclaveGate_Verify :: "SecureEnclaveGate \<Rightarrow> bytes \<Rightarrow> bytes \<Rightarrow> bool" where
  "SecureEnclaveGate_Verify g challenge attestation = False"

definition SecureEnclaveGate_PublicKey :: "SecureEnclaveGate \<Rightarrow> go_error + slice" where
  "SecureEnclaveGate_PublicKey g =
     (if \<not> se_available g then Inl (Errorf ''Secure Enclave not available'') else Inr (se_pubKey g))"

definition SecureEnclaveGate_Capabilities :: GateCapabilities where
  "SecureEnclaveGate_Capabilities = \<lparr>CanAttest = True, CanVerify = True, KeyNeverExportable = True,
     RequiresBiometric = True, RequiresPIN = False\<rparr>"

subsection \<open>TPM\<close>

definition NewTPMGate :: TPMGate where
  "NewTPMGate = \<lparr>tpm_available = False, tpm_pubKey = None\<rparr>"

definition TPMGate_Attest :: "TPMGate \<Rightarrow> bytes \<Rightarrow> go_error + bytes" where
  "TPMGate_Attest g challenge =
     (if \<not> tpm_available g then Inl (Errorf ''TPM not available'')
      else Inl (Errorf ''TPM not implemented - requires native code''))"

definition TPMGate_Verify :: "TPMGate \<Rightarrow> bytes \<Rightarrow> bytes \<Rightarrow> bool" where
  "TPMGate_Verify g challenge attestation = False"

definition TPMGate_PublicKey :: "TPMGate \<Rightarrow> go_error + slice" where
  "TPMGate_PublicKey g = (if \<not> tpm_available g then Inl (Errorf ''TPM not available'') else Inr (tpm_pubKey g))"

definition TPMGate_Capabilities :: GateCapabilities where
  "TPMGate_Capabilities = \<lparr>CanAttest = True, CanVerify = True, KeyNeverExportable = True,
     RequiresBiometric = False, RequiresPIN = True\<rparr>"

subsection \<open>Software\<close>

definition NewSoftwareGate :: "'gk option \<Rightarrow> 'gk SoftwareGate" where
  \<comment> \<open>the argument is what \<open>ecdsa.GenerateKey\<close> returned\<close>
  "NewSoftwareGate generated = (case generated of
      None \<Rightarrow> \<lparr>sw_privateKey = None, sw_available = False\<rparr>
    | Some key \<Rightarrow> \<lparr>sw_privateKey = Some key, sw_available = True\<rparr>)"

text \<open>
  \<open>copy(sig[32-len(b):32], b)\<close> right-aligns at most 32 bytes in each half of the signature;
  a longer one makes the slice expression panic.
\<close>

definition SoftwareGate_Attest ::
  "('gk, 'gp) p256 \<Rightarrow> ('sk, 'pk) crypto \<Rightarrow> 'gk SoftwareGate \<Rightarrow> bytes \<Rightarrow> go_error + bytes" where
  "SoftwareGate_Attest ec cr g challenge =
     (case sw_privateKey g of
        None \<Rightarrow> Inl (Errorf ''software gate not available'')
      | Some key \<Rightarrow>
          if \<not> sw_available g then Inl (Errorf ''software gate not available'')
          else (case EcdsaSign ec key (Sha256 cr challenge) of
            None \<Rightarrow> Inl (Wrapped ''failed to sign'' sign_error)
          | Some (r, s) \<Rightarrow>
              if length (big_bytes r) > 32 \<or> length (big_bytes s) > 32 then Inl (Panic ''slice bounds out of range'')
              else Inr (left_pad 32 (big_bytes r) @ left_pad 32 (big_bytes s))))"

definition SoftwareGate_Verify ::
  "('gk, 'gp) p256 \<Rightarrow> ('sk, 'pk) crypto \<Rightarrow> 'gk SoftwareGate \<Rightarrow> bytes \<Rightarrow> bytes \<Rightarrow> bool" where
  "SoftwareGate_Verify ec cr g challenge attestation =
     (case sw_privateKey g of
        None \<Rightarrow> False
      | Some key \<Rightarrow>
          if length attestation \<noteq> 64 then False
          else EcdsaVerify ec (EcdsaPublic ec key) (Sha256 cr challenge)
                 (be_nat (take 32 attestation)) (be_nat (drop 32 attestation)))"

definition SoftwareGate_PublicKey :: "('gk, 'gp) p256 \<Rightarrow> 'gk SoftwareGate \<Rightarrow> go_error + slice" where
  "SoftwareGate_PublicKey ec g = (case sw_privateKey g of
      None \<Rightarrow> Inl (Errorf ''no key available'')
    | Some key \<Rightarrow> Inr (Some (MarshalCompressed ec (EcdsaPublic ec key))))"

definition SoftwareGate_Capabilities :: GateCapabilities where
  "SoftwareGate_Capabilities = \<lparr>CanAttest = True, CanVerify = True, KeyNeverExportable = False,
     RequiresBiometric = False, RequiresPIN = False\<rparr>"

definition SoftwareGate_Clear :: "'gk SoftwareGate \<Rightarrow> 'gk SoftwareGate" where
  "SoftwareGate_Clear g = g\<lparr>sw_privateKey := None\<rparr>"

subsection \<open>No gate\<close>

definition NoGate_Attest :: "bytes \<Rightarrow> go_error + bytes" where
  "NoGate_Attest challenge = Inr []"

definition NoGate_Verify :: "bytes \<Rightarrow> bytes \<Rightarrow> bool" where
  "NoGate_Verify challenge attestation \<longleftrightarrow> length attestation = 0"

definition NoGate_Capabilities :: GateCapabilities where
  "NoGate_Capabilities = \<lparr>CanAttest = False, CanVerify = False, KeyNeverExportable = False,
     RequiresBiometric = False, RequiresPIN = False\<rparr>"

subsection \<open>The interface\<close>

definition Gate_Available :: "'gk HardwareGate \<Rightarrow> bool" where
  "Gate_Available gate = (case gate of SecureEnclave g \<Rightarrow> se_available g | TPM g \<Rightarrow> tpm_available g
     | Software g \<Rightarrow> sw_available g | NoGate \<Rightarrow> True)"

definition Gate_Type :: "'gk HardwareGate \<Rightarrow> string" where
  "Gate_Type gate = (case gate of SecureEnclave g \<Rightarrow> GateTypeSecureEnclave | TPM g \<Rightarrow> GateTypeTPM
     | Software g \<Rightarrow> GateTypeSoftware | NoGate \<Rightarrow> GateTypeNone)"

definition Gate_Attest :: "('gk, 'gp) p256 \<Rightarrow> ('sk, 'pk) crypto \<Rightarrow> 'gk HardwareGate \<Rightarrow> bytes \<Rightarrow> go_error + bytes" where
  "Gate_Attest ec cr gate challenge = (case gate of
      SecureEnclave g \<Rightarrow> SecureEnclaveGate_Attest g challenge
    | TPM g \<Rightarrow> TPMGate_Attest g challenge
    | Software g \<Rightarrow> SoftwareGate_Attest ec cr g challenge
    | NoGate \<Rightarrow> NoGate_Attest challenge)"

definition Gate_Verify :: "('gk, 'gp) p256 \<Rightarrow> ('sk, 'pk) crypto \<Rightarrow> 'gk HardwareGate \<Rightarrow> bytes \<Rightarrow> bytes \<Rightarrow> bool" where
  "Gate_Verify ec cr gate challenge attestation = (case gate of
      SecureEnclave g \<Rightarrow> SecureEnclaveGate_Verify g challenge attestation
    | TPM g \<Rightarrow> TPMGate_Verify g challenge attestation
    | Software g \<Rightarrow> SoftwareGate_Verify ec cr g challenge attestation
    | NoGate \<Rightarrow> NoGate_Verify challenge attestation)"

definition DetectHardwareGate :: "string \<Rightarrow> 'gk option \<Rightarrow> 'gk HardwareGate" where
  \<comment> \<open>\<open>goos\<close> is \<open>runtime.GOOS\<close>\<close>
  "DetectHardwareGate goos generated =
     (if goos = ''darwin'' \<and> se_available NewSecureEnclaveGate then SecureEnclave NewSecureEnclaveGate
      else if (goos = ''windows'' \<or> goos = ''linux'') \<and> tpm_available NewTPMGate then TPM NewTPMGate
      else Software (NewSoftwareGate generated))"

text \<open>
  The timestamp is written byte by byte from the right, with an arithmetic shift: the low 64 bits
  in big-endian order.
\<close>

definition AttestationChallenge :: "('sk, 'pk) crypto \<Rightarrow> bytes \<Rightarrow> int64 \<Rightarrow> bytes \<Rightarrow> bytes" where
  "AttestationChallenge cr chainSalt timestamp nonce =
     Keccak256 cr (bytes_of_string ''ZEAM_ATTESTATION_V1'' @ chainSalt @ be_bytes 8 (nat (timestamp mod 2 ^ 64)) @ nonce)"

section \<open>The contract of a gate\<close>

text \<open>What a client of the interface relies on: an attestation verifies for its own challenge.\<close>

locale attesting_gate =
  fixes attest :: "bytes \<Rightarrow> go_error + bytes" and verify :: "bytes \<Rightarrow> bytes \<Rightarrow> bool"
  assumes attest_verifies: "attest challenge = Inr attestation \<Longrightarrow> verify challenge attestation"
begin

lemma rejected_not_attested: "\<not> verify challenge attestation \<Longrightarrow> attest challenge \<noteq> Inr attestation"
  using attest_verifies by blast

end

lemma SoftwareGate_roundtrip:
  assumes "p256_verifies ec" and "SoftwareGate_Attest ec cr g challenge = Inr attestation"
  shows "length attestation = 64 \<and> SoftwareGate_Verify ec cr g challenge attestation"
proof -
  from assms(2) obtain key r s where "sw_privateKey g = Some key" "EcdsaSign ec key (Sha256 cr challenge) = Some (r, s)"
    and len: "length (big_bytes r) \<le> 32" "length (big_bytes s) \<le> 32"
    and att: "attestation = left_pad 32 (big_bytes r) @ left_pad 32 (big_bytes s)"
    by (auto simp: SoftwareGate_Attest_def not_less split: option.splits if_splits)
  then have "length (left_pad 32 (big_bytes r)) = 32" "length (left_pad 32 (big_bytes s)) = 32"
    and ok: "EcdsaVerify ec (EcdsaPublic ec key) (Sha256 cr challenge) r s"
    using assms(1) by (auto simp: p256_verifies_def)
  then show ?thesis
    using \<open>sw_privateKey g = Some key\<close> by (simp add: SoftwareGate_Verify_def att)
qed

interpretation silent_gate: attesting_gate NoGate_Attest NoGate_Verify
  by unfold_locales (simp add: NoGate_Attest_def NoGate_Verify_def)

text \<open>A software gate with P-256 signatures that verify has the contract; so does every detected gate.\<close>

lemma gate_contract:
  assumes "p256_verifies ec"
  shows "attesting_gate (Gate_Attest ec cr gate) (Gate_Verify ec cr gate)"
proof
  fix challenge attestation
  assume "Gate_Attest ec cr gate challenge = Inr attestation"
  then show "Gate_Verify ec cr gate challenge attestation"
    using SoftwareGate_roundtrip [OF assms]
    by (cases gate) (auto simp: Gate_Attest_def Gate_Verify_def SecureEnclaveGate_Attest_def TPMGate_Attest_def
        NoGate_Attest_def NoGate_Verify_def split: if_splits)
qed

text \<open>
  The attestation of the detected gate, whatever the platform, verifies for its challenge, is 64
  bytes long, and is produced whenever key generation and signing succeed.
\<close>

theorem detected_gate_attests:
  assumes "p256_verifies ec" and "EcdsaSign ec key (Sha256 cr challenge) \<noteq> None"
  shows "\<exists>attestation. Gate_Attest ec cr (DetectHardwareGate goos (Some key)) challenge = Inr attestation \<and>
    length attestation = 64 \<and> Gate_Verify ec cr (DetectHardwareGate goos (Some key)) challenge attestation"
proof -
  obtain r s where rs: "EcdsaSign ec key (Sha256 cr challenge) = Some (r, s)"
    using assms(2) by (metis not_None_eq surj_pair)
  then have len: "length (big_bytes r) \<le> 32 \<and> length (big_bytes s) \<le> 32"
    using assms(1) length_big_bytes by (simp add: p256_verifies_def)
  let ?att = "left_pad 32 (big_bytes r) @ left_pad 32 (big_bytes s)"
  have gate: "DetectHardwareGate goos (Some key) = Software \<lparr>sw_privateKey = Some key, sw_available = True\<rparr>"
    by (simp add: DetectHardwareGate_def NewSecureEnclaveGate_def NewTPMGate_def NewSoftwareGate_def)
  have att: "SoftwareGate_Attest ec cr \<lparr>sw_privateKey = Some key, sw_available = True\<rparr> challenge = Inr ?att"
    using rs len by (simp add: SoftwareGate_Attest_def not_less)
  then have "Gate_Attest ec cr (DetectHardwareGate goos (Some key)) challenge = Inr ?att"
    by (simp add: gate Gate_Attest_def)
  moreover from this have "Gate_Verify ec cr (DetectHardwareGate goos (Some key)) challenge ?att"
    by (rule attesting_gate.attest_verifies [OF gate_contract [OF assms(1)]])
  ultimately show ?thesis
    using SoftwareGate_roundtrip [OF assms(1) att] by blast
qed

definition demo_p256 :: "(nat, nat) p256" where
  "demo_p256 = \<lparr>EcdsaSign = (\<lambda>k h. Some (7, length h mod 256)), EcdsaVerify = (\<lambda>p h r s. r = 7 \<and> s = length h mod 256),
     EcdsaPublic = (\<lambda>k. k), MarshalCompressed = (\<lambda>p. [])\<rparr>"

lemma demo_p256_verifies: "p256_verifies demo_p256"
proof -
  have "length (h :: bytes) mod 256 < 256 ^ 32" for h
    by (rule less_trans [of _ 256]) simp_all
  then show ?thesis
    by (simp add: p256_verifies_def demo_p256_def)
qed

theorem detected_gate_attests_witness:
  "\<exists>attestation. Gate_Attest demo_p256 demo_crypto (DetectHardwareGate ''linux'' (Some 1)) [1, 2, 3] = Inr attestation \<and>
     length attestation = 64"
  using detected_gate_attests [OF demo_p256_verifies, of 1 demo_crypto "[1, 2, 3]" "''linux''"]
  by (auto simp: demo_p256_def)

end
