(* ===== verification/Stateless.thy ===== *)
theory Stateless
  imports Hardware_Gate
begin

text \<open>
  Stateless identities (\<open>identity/stateless.go\<close>): a key derived from a secret, a chain salt and the
  attestation of a hardware gate, a session that expires, and the session manager that locks it.

  Argon2 and the conversion of a seed to a key are a parameter, the record \<open>kdf\<close>. Random bytes and
  clock readings are arguments, \<open>time.Time\<close> an \<open>int\<close> of nanoseconds, \<open>None\<close> a nil pointer or
  interface. Zeroing of buffers that are dropped right after is not modelled.
\<close>

record 'sk kdf =
  IDKey :: "bytes \<Rightarrow> bytes \<Rightarrow> nat \<Rightarrow> nat \<Rightarrow> nat \<Rightarrow> nat \<Rightarrow> bytes"
  ToECDSA :: "bytes \<Rightarrow> 'sk option"

record DerivationConfig =
  dc_Time :: nat
  dc_Memory :: nat
  dc_Threads :: nat
  dc_Domain :: string

definition DefaultDerivationConfig :: DerivationConfig where
  "DefaultDerivationConfig = \<lparr>dc_Time = 3, dc_Memory = 256 * 1024, dc_Threads = 4, dc_Domain = ''ZEAM_IDENTITY_V1''\<rparr>"

definition LightDerivationConfig :: DerivationConfig where
  "LightDerivationConfig = \<lparr>dc_Time = 1, dc_Memory = 64 * 1024, dc_Threads = 4, dc_Domain = ''ZEAM_IDENTITY_V1''\<rparr>"

record ('sk, 'gk) StatelessIdentity =
  si_privateKey :: "'sk option"
  si_address :: address
  si_forkID :: hash32
  si_chainSalt :: bytes
  si_attestation :: slice
  si_derivedAt :: int
  si_expiresAt :: int
  si_gate :: "'gk HardwareGate option"

definition hour_ns :: int where "hour_ns = 3600 * 1000000000"
definition minute_ns :: int where "minute_ns = 60 * 1000000000"

section \<open>Derivation\<close>

definition attests :: "'gk HardwareGate option \<Rightarrow> bool" where
  \<comment> \<open>the guard of the attestation branch\<close>
  "attests gate = (case gate of None \<Rightarrow> False
     | Some g \<Rightarrow> Gate_Available g \<and> Gate_Type g \<noteq> GateTypeSoftware \<and> Gate_Type g \<noteq> GateTypeNone)"

definition DeriveIdentity ::
  "'sk kdf \<Rightarrow> ('gk, 'gp) p256 \<Rightarrow> ('sk, 'pk) crypto \<Rightarrow> bytes option \<Rightarrow> int64 \<Rightarrow> int \<Rightarrow> bytes \<Rightarrow> bytes
    \<Rightarrow> 'gk HardwareGate option \<Rightarrow> DerivationConfig \<Rightarrow> go_error + ('sk, 'gk) StatelessIdentity" where
  "DeriveIdentity kd ec cr random timestamp now userSecret chainSalt gate config =
     (if length userSecret < 8 then Inl (Errorf ''user secret too short (minimum 8 bytes)'')
      else if length chainSalt < 16 then Inl (Errorf ''chain salt too short (minimum 16 bytes)'')
      else
        (case (if attests gate
               then (case random of
                       None \<Rightarrow> Inl (Wrapped ''failed to generate nonce'' (Errorf ''rand''))
                     | Some nonce \<Rightarrow>
                         (case Gate_Attest ec cr (the gate) (AttestationChallenge cr chainSalt timestamp nonce) of
                            Inl e \<Rightarrow> Inl (Wrapped ''hardware attestation failed'' e)
                          | Inr a \<Rightarrow> Inr (a, gate)))
               else Inr ([], Some (case gate of None \<Rightarrow> NoGate | Some g \<Rightarrow> g))) of
           Inl e \<Rightarrow> Inl e
         | Inr (attestation, gate') \<Rightarrow>
             let combined = userSecret @ chainSalt @ attestation;
                 salt = Keccak256 cr (bytes_of_string (dc_Domain config));
                 seed = IDKey kd combined salt (dc_Time config) (dc_Memory config) (dc_Threads config) 32
             in (case ToECDSA kd seed of
                   None \<Rightarrow> Inl (Wrapped ''failed to derive private key'' (Errorf ''invalid seed''))
                 | Some key \<Rightarrow>
                     let addr = key_address cr key
                     in Inr \<lparr>si_privateKey = Some key, si_address = addr, si_forkID = Keccak256 cr (chainSalt @ addr),
                          si_chainSalt = chainSalt, si_attestation = Some attestation, si_derivedAt = now,
                          si_expiresAt = now + 24 * hour_ns, si_gate = gate'\<rparr>)))"

definition ShortID :: "('sk, 'gk) StatelessIdentity \<Rightarrow> string" where
  "ShortID si = hex_encode (take 4 (si_forkID si)) @ ''...'' @ hex_encode (drop 28 (si_forkID si))"

definition StatelessIdentity_IsValid :: "int \<Rightarrow> ('sk, 'gk) StatelessIdentity \<Rightarrow> bool" where
  "StatelessIdentity_IsValid now si =
     (if si_privateKey si = None then False else if now > si_expiresAt si then False else True)"

definition StatelessIdentity_Sign ::
  "('sk, 'pk) crypto \<Rightarrow> int \<Rightarrow> bytes \<Rightarrow> ('sk, 'gk) StatelessIdentity \<Rightarrow> go_error + bytes" where
  "StatelessIdentity_Sign cr now hash si =
     (case si_privateKey si of
        None \<Rightarrow> Inl (Errorf ''identity not available (locked or expired)'')
      | Some key \<Rightarrow>
          if now > si_expiresAt si then Inl (Errorf ''session expired'')
          else (case Sign cr hash key of None \<Rightarrow> Inl sign_error | Some sig \<Rightarrow> Inr sig))"

definition SignTransaction ::
  "('sk, 'pk) crypto \<Rightarrow> int \<Rightarrow> bytes \<Rightarrow> ('sk, 'gk) StatelessIdentity \<Rightarrow> go_error + bytes" where
  "SignTransaction cr now txHash si = StatelessIdentity_Sign cr now txHash si"

definition StatelessIdentity_Lock :: "('sk, 'gk) StatelessIdentity \<Rightarrow> ('sk, 'gk) StatelessIdentity" where
  "StatelessIdentity_Lock si = si\<lparr>si_privateKey := None, si_attestation := None\<rparr>"

definition ExtendSession :: "int \<Rightarrow> int \<Rightarrow> ('sk, 'gk) StatelessIdentity \<Rightarrow> ('sk, 'gk) StatelessIdentity" where
  "ExtendSession now duration si = si\<lparr>si_expiresAt := now + duration\<rparr>"

definition StatelessIdentity_GateType :: "('sk, 'gk) StatelessIdentity \<Rightarrow> string" where
  "StatelessIdentity_GateType si = (case si_gate si of None \<Rightarrow> GateTypeNone | Some g \<Rightarrow> Gate_Type g)"

definition StatelessIdentity_ChainSalt :: "('sk, 'gk) StatelessIdentity \<Rightarrow> bytes" where
  "StatelessIdentity_ChainSalt si = si_chainSalt si"

definition GenerateChainSalt :: "bytes option \<Rightarrow> go_error + bytes" where
  "GenerateChainSalt random = (case random of
      None \<Rightarrow> Inl (Wrapped ''failed to generate chain salt'' (Errorf ''rand'')) | Some salt \<Rightarrow> Inr salt)"

definition ChainSaltFromBlockHash :: "('sk, 'pk) crypto \<Rightarrow> bytes \<Rightarrow> bytes \<Rightarrow> bytes" where
  "ChainSaltFromBlockHash cr blockHash randomCommitment =
     Keccak256 cr (bytes_of_string ''ZEAM_CHAIN_SALT_V1'' @ blockHash @ randomCommitment)"

definition VerifyIdentity ::
  "'sk kdf \<Rightarrow> ('gk, 'gp) p256 \<Rightarrow> ('sk, 'pk) crypto \<Rightarrow> bytes option \<Rightarrow> int64 \<Rightarrow> int \<Rightarrow> bytes \<Rightarrow> bytes \<Rightarrow> address
    \<Rightarrow> 'gk HardwareGate option \<Rightarrow> DerivationConfig \<Rightarrow> go_error + bool" where
  "VerifyIdentity kd ec cr random timestamp now userSecret chainSalt expectedAddress gate config =
     (case DeriveIdentity kd ec cr random timestamp now userSecret chainSalt gate config of
        Inl e \<Rightarrow> Inl e
      | Inr identity \<Rightarrow> Inr (si_address identity = expectedAddress))"

section \<open>Sessions\<close>

record ('sk, 'gk) SessionManager =
  sm_current :: "('sk, 'gk) StatelessIdentity option"
  sm_autoLockAt :: int
  sm_lockTimeout :: int
  sm_gate :: "'gk HardwareGate option"
  sm_config :: DerivationConfig

definition NewSessionManager :: "string \<Rightarrow> 'gk option \<Rightarrow> 'gk HardwareGate option \<Rightarrow> DerivationConfig \<Rightarrow> ('sk, 'gk) SessionManager" where
  \<comment> \<open>the zero time stands for \<open>autoLockAt\<close> before the first unlock\<close>
  "NewSessionManager goos generated gate config =
     \<lparr>sm_current = None, sm_autoLockAt = 0, sm_lockTimeout = 15 * minute_ns,
      sm_gate = Some (case gate of None \<Rightarrow> DetectHardwareGate goos generated | Some g \<Rightarrow> g), sm_config = config\<rparr>"

definition SessionManager_Unlock ::
  "'sk kdf \<Rightarrow> ('gk, 'gp) p256 \<Rightarrow> ('sk, 'pk) crypto \<Rightarrow> bytes option \<Rightarrow> int64 \<Rightarrow> int \<Rightarrow> int \<Rightarrow> bytes \<Rightarrow> bytes
    \<Rightarrow> ('sk, 'gk) SessionManager \<Rightarrow> ('sk, 'gk) SessionManager outcome" where
  "SessionManager_Unlock kd ec cr random timestamp t1 t2 userSecret chainSalt sm =
     (let sm1 = sm\<lparr>sm_current := map_option StatelessIdentity_Lock (sm_current sm)\<rparr>
      in case DeriveIdentity kd ec cr random timestamp t1 userSecret chainSalt (sm_gate sm) (sm_config sm) of
           Inl e \<Rightarrow> (sm1, Some e)
         | Inr identity \<Rightarrow> (sm1\<lparr>sm_current := Some identity, sm_autoLockAt := t2 + sm_lockTimeout sm\<rparr>, None))"

definition SessionManager_Lock :: "('sk, 'gk) SessionManager \<Rightarrow> ('sk, 'gk) SessionManager" where
  "SessionManager_Lock sm = (case sm_current sm of None \<Rightarrow> sm | Some identity \<Rightarrow> sm\<lparr>sm_current := None\<rparr>)"

definition SessionManager_Current ::
  "int \<Rightarrow> int \<Rightarrow> ('sk, 'gk) SessionManager \<Rightarrow> ('sk, 'gk) SessionManager \<times> ('sk, 'gk) StatelessIdentity option" where
  "SessionManager_Current t1 t2 sm =
     (case sm_current sm of
        None \<Rightarrow> (sm, None)
      | Some identity \<Rightarrow>
          if t1 > sm_autoLockAt sm then (SessionManager_Lock sm, None)
          else if \<not> StatelessIdentity_IsValid t2 identity then (sm, None)
          else (sm, Some identity))"

definition SessionManager_Touch :: "int \<Rightarrow> ('sk, 'gk) SessionManager \<Rightarrow> ('sk, 'gk) SessionManager" where
  "SessionManager_Touch now sm = sm\<lparr>sm_autoLockAt := now + sm_lockTimeout sm\<rparr>"

definition SetLockTimeout :: "int \<Rightarrow> int \<Rightarrow> ('sk, 'gk) SessionManager \<Rightarrow> ('sk, 'gk) SessionManager" where
  "SetLockTimeout now d sm = sm\<lparr>sm_lockTimeout := d, sm_autoLockAt := now + d\<rparr>"

definition SessionManager_IsUnlocked :: "int \<Rightarrow> int \<Rightarrow> ('sk, 'gk) SessionManager \<Rightarrow> ('sk, 'gk) SessionManager \<times> bool" where
  "SessionManager_IsUnlocked t1 t2 sm =
     (let (sm', identity) = SessionManager_Current t1 t2 sm in (sm', identity \<noteq> None))"

section \<open>Derivation is reproducible\<close>

text \<open>The gates the package constructs: none of them reaches the attestation branch.\<close>

definition constructed_gate :: "'gk HardwareGate option \<Rightarrow> bool" where
  "constructed_gate gate \<longleftrightarrow> gate = None \<or> gate = Some NoGate \<or> gate = Some (SecureEnclave NewSecureEnclaveGate) \<or>
     gate = Some (TPM NewTPMGate) \<or> (\<exists>g. gate = Some (Software g))"

lemma constructed_not_attests: "constructed_gate gate \<Longrightarrow> \<not> attests gate"
  by (auto simp: constructed_gate_def attests_def Gate_Available_def Gate_Type_def NewSecureEnclaveGate_def NewTPMGate_def)

definition derived_key :: "'sk kdf \<Rightarrow> ('sk, 'pk) crypto \<Rightarrow> bytes \<Rightarrow> bytes \<Rightarrow> DerivationConfig \<Rightarrow> 'sk option" where
  "derived_key kd cr userSecret chainSalt config = ToECDSA kd (IDKey kd (userSecret @ chainSalt)
     (Keccak256 cr (bytes_of_string (dc_Domain config))) (dc_Time config) (dc_Memory config) (dc_Threads config) 32)"

lemma DeriveIdentity_constructed:
  assumes "constructed_gate gate"
  shows "(\<exists>si. DeriveIdentity kd ec cr random timestamp now userSecret chainSalt gate config = Inr si) \<longleftrightarrow>
      8 \<le> length userSecret \<and> 16 \<le> length chainSalt \<and> derived_key kd cr userSecret chainSalt config \<noteq> None"
    and "DeriveIdentity kd ec cr random timestamp now userSecret chainSalt gate config = Inr si \<Longrightarrow>
      si_privateKey si = derived_key kd cr userSecret chainSalt config \<and> si_privateKey si \<noteq> None \<and>
      si_address si = key_address cr (the (si_privateKey si)) \<and> si_forkID si = Keccak256 cr (chainSalt @ si_address si) \<and>
      si_expiresAt si = now + 24 * hour_ns"
  using constructed_not_attests [OF assms]
  by (auto simp: DeriveIdentity_def derived_key_def Let_def split: option.splits if_splits)

text \<open>
  With the gates the package has, a derived identity is a function of the secret, the salt and
  the configuration: deriving again, at any time, with other random bytes and another such gate,
  gives the same key, address and fork, so \<open>VerifyIdentity\<close> accepts exactly the derived address.
\<close>

theorem DeriveIdentity_reproducible:
  assumes "constructed_gate gate" and "constructed_gate gate'"
    and "DeriveIdentity kd ec cr random timestamp now userSecret chainSalt gate config = Inr si"
  shows "\<exists>si'. DeriveIdentity kd ec cr random' timestamp' now' userSecret chainSalt gate' config = Inr si' \<and>
    si_privateKey si' = si_privateKey si \<and> si_address si' = si_address si \<and> si_forkID si' = si_forkID si \<and>
    VerifyIdentity kd ec cr random' timestamp' now' userSecret chainSalt a gate' config = Inr (a = si_address si)"
proof -
  note derive = DeriveIdentity_constructed(1) [OF assms(1), of kd ec cr random timestamp now userSecret chainSalt config]
    DeriveIdentity_constructed(1) [OF assms(2), of kd ec cr random' timestamp' now' userSecret chainSalt config]
  then obtain si' where si': "DeriveIdentity kd ec cr random' timestamp' now' userSecret chainSalt gate' config = Inr si'"
    using assms(3) by blast
  moreover have "si_privateKey si' = si_privateKey si \<and> si_address si' = si_address si \<and> si_forkID si' = si_forkID si"
    using DeriveIdentity_constructed(2) [OF assms(1,3)] DeriveIdentity_constructed(2) [OF assms(2) si'] by simp
  ultimately show ?thesis
    by (auto simp: VerifyIdentity_def)
qed

section \<open>Sessions end\<close>

inductive session_step :: "('sk, 'gk) SessionManager \<Rightarrow> ('sk, 'gk) SessionManager \<Rightarrow> bool" where
  lock: "session_step sm (SessionManager_Lock sm)"
| current: "session_step sm (fst (SessionManager_Current t1 t2 sm))"
| touch: "session_step sm (SessionManager_Touch now sm)"
| timeout: "session_step sm (SetLockTimeout now d sm)"

text \<open>A manager whose key is gone.\<close>

definition no_key :: "('sk, 'gk) SessionManager \<Rightarrow> bool" where
  "no_key sm \<longleftrightarrow> (\<forall>si. sm_current sm = Some si \<longrightarrow> si_privateKey si = None)"

lemma no_key_step: "session_step sm sm' \<Longrightarrow> no_key sm \<Longrightarrow> no_key sm'"
  by (induction rule: session_step.induct)
    (auto simp: no_key_def SessionManager_Lock_def SessionManager_Current_def SessionManager_Touch_def SetLockTimeout_def
      split: option.splits)

lemma no_key_steps: "session_step\<^sup>*\<^sup>* sm sm' \<Longrightarrow> no_key sm \<Longrightarrow> no_key sm'"
  by (induction rule: rtranclp_induct) (auto intro: no_key_step)

lemma no_key_Current: "no_key sm \<Longrightarrow> snd (SessionManager_Current t1 t2 sm) = None"
  by (auto simp: no_key_def SessionManager_Current_def StatelessIdentity_IsValid_def split: option.splits)

text \<open>
  A session that was locked, explicitly, by a failed unlock or because \<open>Current\<close> saw its lock
  time pass, stays locked: until the next successful \<open>Unlock\<close> no sequence of operations, touching
  the session or changing its timeout included, makes \<open>Current\<close> return an identity.
\<close>

theorem locked_session_stays_locked:
  assumes "sm1 = SessionManager_Lock sm \<or> sm1 = fst (SessionManager_Unlock kd ec cr random timestamp t3 t4 secret salt sm) \<and>
      failed (SessionManager_Unlock kd ec cr random timestamp t3 t4 secret salt sm) \<or>
      sm1 = fst (SessionManager_Current t5 t6 sm) \<and> t5 > sm_autoLockAt sm"
    and "session_step\<^sup>*\<^sup>* sm1 sm2"
  shows "snd (SessionManager_Current t1 t2 sm2) = None \<and> snd (SessionManager_IsUnlocked t1 t2 sm2) = False"
proof -
  have "no_key sm1"
    using assms(1)
    by (auto simp: no_key_def SessionManager_Lock_def SessionManager_Unlock_def SessionManager_Current_def
        StatelessIdentity_Lock_def Let_def split: option.splits sum.splits)
  then have "no_key sm2"
    by (rule no_key_steps [OF assms(2)])
  then show ?thesis
    using no_key_Current [of sm2 t1 t2] by (simp add: SessionManager_IsUnlocked_def split_beta)
qed

text \<open>
  \<open>Current\<close> hands out the unlocked identity exactly while neither the lock time nor the
  identity's own expiry has passed, and the identity then signs with its derived key.
\<close>

theorem Current_signs:
  assumes "SessionManager_Unlock kd ec cr random timestamp t1 t2 secret salt sm = (sm1, None)"
    and "constructed_gate (sm_gate sm)"
  shows "\<exists>si key. sm_current sm1 = Some si \<and> derived_key kd cr secret salt (sm_config sm) = Some key \<and>
    (snd (SessionManager_Current t3 t4 sm1) =
       (if t3 \<le> t2 + sm_lockTimeout sm \<and> t4 \<le> t1 + 24 * hour_ns then Some si else None)) \<and>
    (t4 \<le> t1 + 24 * hour_ns \<longrightarrow>
       StatelessIdentity_Sign cr t4 h si = (case Sign cr h key of None \<Rightarrow> Inl sign_error | Some sig \<Rightarrow> Inr sig))"
proof -
  obtain si where si: "DeriveIdentity kd ec cr random timestamp t1 secret salt (sm_gate sm) (sm_config sm) = Inr si"
    and sm1: "sm_current sm1 = Some si" "sm_autoLockAt sm1 = t2 + sm_lockTimeout sm"
    using assms(1) by (auto simp: SessionManager_Unlock_def Let_def split: sum.splits)
  from DeriveIdentity_constructed(2) [OF assms(2) si] obtain key where
    "si_privateKey si = Some key" "derived_key kd cr secret salt (sm_config sm) = Some key" "si_expiresAt si = t1 + 24 * hour_ns"
    by (metis option.exhaust)
  with sm1 show ?thesis
    by (auto simp: SessionManager_Current_def StatelessIdentity_IsValid_def StatelessIdentity_Sign_def SessionManager_Lock_def)
qed

section \<open>Witnesses\<close>

definition demo_kdf :: "bytes kdf" where
  "demo_kdf = \<lparr>IDKey = (\<lambda>p s t m c n. p), ToECDSA = Some\<rparr>"

definition demo_secret :: bytes where "demo_secret = replicate 8 1"
definition demo_salt :: bytes where "demo_salt = replicate 16 2"

definition demo_session :: "(bytes, nat) SessionManager" where
  "demo_session = NewSessionManager ''linux'' (Some 1) None LightDerivationConfig"

lemma demo_session_gate: "constructed_gate (sm_gate demo_session)"
  by (simp add: constructed_gate_def demo_session_def NewSessionManager_def DetectHardwareGate_def NewSecureEnclaveGate_def
      NewTPMGate_def)

lemma demo_derives: "\<exists>si. DeriveIdentity demo_kdf demo_p256 demo_crypto None 0 0 demo_secret demo_salt
    (sm_gate demo_session) (sm_config demo_session) = Inr si"
  by (subst DeriveIdentity_constructed(1) [OF demo_session_gate])
    (simp add: demo_secret_def demo_salt_def derived_key_def demo_kdf_def)

theorem DeriveIdentity_reproducible_witness:
  "\<exists>a. VerifyIdentity demo_kdf demo_p256 demo_crypto None 5 9 demo_secret demo_salt a None (sm_config demo_session) = Inr True"
proof -
  obtain si where si: "DeriveIdentity demo_kdf demo_p256 demo_crypto None 0 0 demo_secret demo_salt
    (sm_gate demo_session) (sm_config demo_session) = Inr si"
    using demo_derives by blast
  have "constructed_gate None"
    by (simp add: constructed_gate_def)
  from DeriveIdentity_reproducible [OF demo_session_gate this si, of None 5 9 "si_address si"] show ?thesis
    by auto
qed

theorem Current_signs_witness:
  "\<exists>sm1. SessionManager_Unlock demo_kdf demo_p256 demo_crypto None 0 0 0 demo_secret demo_salt demo_session = (sm1, None) \<and>
     snd (SessionManager_Current 1 1 sm1) \<noteq> None"
proof -
  obtain sm1 where sm1: "SessionManager_Unlock demo_kdf demo_p256 demo_crypto None 0 0 0 demo_secret demo_salt demo_session = (sm1, None)"
    using demo_derives by (auto simp: SessionManager_Unlock_def Let_def)
  from Current_signs [OF this demo_session_gate, of 1 1] sm1 show ?thesis
    by (auto simp: demo_session_def NewSessionManager_def hour_ns_def minute_ns_def)
qed

theorem locked_session_stays_locked_witness:
  "snd (SessionManager_Current 1 1 (SessionManager_Touch 0 (SessionManager_Lock demo_session))) = None"
proof -
  have "session_step\<^sup>*\<^sup>* (SessionManager_Lock demo_session) (SessionManager_Touch 0 (SessionManager_Lock demo_session))"
    by (rule r_into_rtranclp) (rule session_step.touch)
  from locked_session_stays_locked [OF disjI1 [OF refl] this] show ?thesis
    by blast
qed

end
