(* ===== verification/Fork_State.thy ===== *)
theory Fork_State
  imports Stateless Recovery
begin

text \<open>
  The on-chain state of an identity (\<open>identity/fork_state.go\<close>): the signed genesis, signed state
  transitions, and the state they are applied to.

  The \<open>json.Unmarshal\<close> calls that read the payload of a transition and the compaction of a
  \<open>json.RawMessage\<close> are a parameter, the record \<open>codec\<close>; nothing is assumed of it.
\<close>

section \<open>Data\<close>

record RecoveryConfig =
  cfg_Guardians :: "address list"
  cfg_GuardianThreshold :: int
  cfg_TimelockEnabled :: bool
  cfg_TimelockDuration :: int64
  cfg_UpdatedAt :: int64
  cfg_UpdatedBy :: address

record Checkpoint =
  ck_Epoch :: uint64
  ck_StateRoot :: hash32
  ck_Timestamp :: int64
  ck_BlockNumber :: uint64
  ck_PreviousCheckpoint :: hash32
  ck_Signature :: slice

record PendingRecoveryState =
  ps_NewAddress :: address
  ps_NewChainSalt :: slice
  ps_InitiatedAt :: int64
  ps_InitiatedBy :: address
  ps_Method :: string
  ps_Approvals :: "RecoveryApproval list"
  ps_CanCompleteAt :: int64
  ps_TxHash :: hash32

record ForkState =
  fs_ForkID :: hash32
  fs_ChainSalt :: slice
  fs_CreatedAt :: int64
  fs_GenesisBlock :: uint64
  fs_GenesisChain :: string
  fs_GenesisTxHash :: hash32
  fs_CurrentAddress :: address
  fs_RecoveryConfig :: RecoveryConfig
  fs_LastCheckpoint :: "Checkpoint option"
  fs_LastSyncBlock :: uint64
  fs_PendingRecovery :: "PendingRecoveryState option"

record ForkGenesis =
  fg_Version :: int
  fg_Type :: string
  fg_ForkID :: hash32
  fg_ChainSalt :: slice
  fg_InitialAddress :: address
  fg_CreatedAt :: int64
  fg_RecoveryConfig :: RecoveryConfig
  fg_Signature :: slice

record StateTransition =
  st_Version :: int
  st_Type :: string
  st_ForkID :: hash32
  st_From :: address
  st_Timestamp :: int64
  st_Nonce :: uint64
  st_Data :: slice
  st_Signature :: slice

record codec =
  CompactRaw :: "bytes \<Rightarrow> string option"
  UnmarshalCheckpoint :: "bytes \<Rightarrow> Checkpoint option"
  UnmarshalRecoveryConfig :: "bytes \<Rightarrow> RecoveryConfig option"
  UnmarshalPendingRecovery :: "bytes \<Rightarrow> PendingRecoveryState option"
  UnmarshalRecoveryApproval :: "bytes \<Rightarrow> RecoveryApproval option"
  UnmarshalForkGenesis :: "bytes \<Rightarrow> ForkGenesis option"
  UnmarshalStateTransition :: "bytes \<Rightarrow> StateTransition option"

definition unmarshal_error :: go_error where
  "unmarshal_error = Errorf ''json: cannot unmarshal''"

definition TransitionCheckpoint :: string where "TransitionCheckpoint = ''checkpoint''"
definition TransitionRecoveryConfig :: string where "TransitionRecoveryConfig = ''recovery_config''"
definition TransitionRecoveryInitiate :: string where "TransitionRecoveryInitiate = ''recovery_initiate''"
definition TransitionRecoveryApprove :: string where "TransitionRecoveryApprove = ''recovery_approve''"
definition TransitionRecoveryComplete :: string where "TransitionRecoveryComplete = ''recovery_complete''"
definition TransitionRecoveryCancel :: string where "TransitionRecoveryCancel = ''recovery_cancel''"
definition TransitionMemoryWrite :: string where "TransitionMemoryWrite = ''memory_write''"
definition TransitionConsentGrant :: string where "TransitionConsentGrant = ''consent_grant''"
definition TransitionConsentRevoke :: string where "TransitionConsentRevoke = ''consent_revoke''"

lemmas transition_types = TransitionCheckpoint_def TransitionRecoveryConfig_def TransitionRecoveryInitiate_def
  TransitionRecoveryApprove_def TransitionRecoveryComplete_def TransitionRecoveryCancel_def TransitionMemoryWrite_def
  TransitionConsentGrant_def TransitionConsentRevoke_def

definition RecoveryConfig_json :: "('sk, 'pk) crypto \<Rightarrow> RecoveryConfig \<Rightarrow> json" where
  "RecoveryConfig_json cr c = JObj (
     omitempty (cfg_Guardians c = []) ''guardians'' (JArr (map (JAddr cr) (cfg_Guardians c)))
     @ omitempty (cfg_GuardianThreshold c = 0) ''guardian_threshold'' (JInt (cfg_GuardianThreshold c))
     @ [(''timelock_enabled'', JBool (cfg_TimelockEnabled c)), (''timelock_duration'', JInt (cfg_TimelockDuration c)),
        (''updated_at'', JInt (cfg_UpdatedAt c)), (''updated_by'', JAddr cr (cfg_UpdatedBy c))])"

definition ForkGenesis_json :: "('sk, 'pk) crypto \<Rightarrow> ForkGenesis \<Rightarrow> json" where
  "ForkGenesis_json cr g = JObj
     [(''version'', JInt (fg_Version g)), (''type'', JStr (fg_Type g)), (''fork_id'', JBytes (fg_ForkID g)),
      (''chain_salt'', JSlice (fg_ChainSalt g)), (''initial_address'', JAddr cr (fg_InitialAddress g)),
      (''created_at'', JInt (fg_CreatedAt g)), (''recovery_config'', RecoveryConfig_json cr (fg_RecoveryConfig g)),
      (''signature'', JSlice (fg_Signature g))]"

definition RawMessage_json :: "codec \<Rightarrow> slice \<Rightarrow> json" where
  "RawMessage_json co m = (case m of
      None \<Rightarrow> JNull
    | Some bs \<Rightarrow> (case CompactRaw co bs of None \<Rightarrow> JUnsupported | Some t \<Rightarrow> JText t))"

definition StateTransition_json :: "codec \<Rightarrow> ('sk, 'pk) crypto \<Rightarrow> StateTransition \<Rightarrow> json" where
  "StateTransition_json co cr t = JObj
     [(''version'', JInt (st_Version t)), (''type'', JStr (st_Type t)), (''fork_id'', JBytes (st_ForkID t)),
      (''from'', JAddr cr (st_From t)), (''timestamp'', JInt (st_Timestamp t)), (''nonce'', JInt (uint (st_Nonce t))),
      (''data'', RawMessage_json co (st_Data t)), (''signature'', JSlice (st_Signature t))]"

section \<open>Genesis\<close>

text \<open>
  \<open>identity\<close> is the pointer argument; \<open>t1\<close>, \<open>t2\<close> are the session clock at \<open>IsValid\<close> and
  \<open>Sign\<close>, \<open>now\<close> the Unix time.
\<close>

definition NewForkGenesis ::
  "('sk, 'pk) crypto \<Rightarrow> int \<Rightarrow> int \<Rightarrow> int64 \<Rightarrow> ('sk, 'gk) StatelessIdentity option \<Rightarrow> RecoveryConfig \<Rightarrow> go_error + ForkGenesis" where
  "NewForkGenesis cr t1 t2 now identity config =
     (case identity of
        None \<Rightarrow> Inl (Errorf ''valid identity required'')
      | Some si \<Rightarrow>
          if \<not> StatelessIdentity_IsValid t1 si then Inl (Errorf ''valid identity required'')
          else
            let genesis = \<lparr>fg_Version = 1, fg_Type = ''ZEAM_FORK_GENESIS'', fg_ForkID = si_forkID si,
                  fg_ChainSalt = Some (StatelessIdentity_ChainSalt si), fg_InitialAddress = si_address si, fg_CreatedAt = now,
                  fg_RecoveryConfig = config\<lparr>cfg_UpdatedAt := now, cfg_UpdatedBy := si_address si\<rparr>, fg_Signature = None\<rparr>
            in (case json_bytes (ForkGenesis_json cr genesis) of
                  None \<Rightarrow> Inl (Wrapped ''failed to marshal genesis'' marshal_error)
                | Some data \<Rightarrow>
                    (case StatelessIdentity_Sign cr t2 (Keccak256 cr data) si of
                       Inl e \<Rightarrow> Inl (Wrapped ''failed to sign genesis'' e)
                     | Inr sig \<Rightarrow> Inr (genesis\<lparr>fg_Signature := Some sig\<rparr>))))"

definition ForkGenesis_Verify :: "('sk, 'pk) crypto \<Rightarrow> ForkGenesis \<Rightarrow> address \<times> bool" where
  "ForkGenesis_Verify cr g =
     (case recover_body cr (ForkGenesis_json cr (g\<lparr>fg_Signature := None\<rparr>)) (slice_bytes (fg_Signature g)) of
        None \<Rightarrow> (zero_address, False)
      | Some signer \<Rightarrow> (signer, signer = fg_InitialAddress g))"

definition ForkGenesis_ToBytes :: "('sk, 'pk) crypto \<Rightarrow> ForkGenesis \<Rightarrow> go_error + bytes" where
  "ForkGenesis_ToBytes cr g = (case json_bytes (ForkGenesis_json cr g) of None \<Rightarrow> Inl marshal_error | Some data \<Rightarrow> Inr data)"

definition ForkGenesisFromBytes :: "codec \<Rightarrow> bytes \<Rightarrow> go_error + ForkGenesis" where
  "ForkGenesisFromBytes co data = (case UnmarshalForkGenesis co data of None \<Rightarrow> Inl unmarshal_error | Some g \<Rightarrow> Inr g)"

definition ForkStateFromGenesis ::
  "('sk, 'pk) crypto \<Rightarrow> ForkGenesis \<Rightarrow> uint64 \<Rightarrow> hash32 \<Rightarrow> string \<Rightarrow> go_error + ForkState" where
  "ForkStateFromGenesis cr genesis blockNumber txHash chainID =
     (let (signer, valid) = ForkGenesis_Verify cr genesis in
      if \<not> valid then Inl (Errorf ''invalid genesis signature'')
      else if signer \<noteq> fg_InitialAddress genesis then Inl (Errorf ''genesis signer mismatch'')
      else Inr \<lparr>fs_ForkID = fg_ForkID genesis, fs_ChainSalt = fg_ChainSalt genesis, fs_CreatedAt = fg_CreatedAt genesis,
        fs_GenesisBlock = blockNumber, fs_GenesisChain = chainID, fs_GenesisTxHash = txHash,
        fs_CurrentAddress = fg_InitialAddress genesis, fs_RecoveryConfig = fg_RecoveryConfig genesis,
        fs_LastCheckpoint = None, fs_LastSyncBlock = blockNumber, fs_PendingRecovery = None\<rparr>)"

section \<open>Transitions\<close>

definition NewStateTransition ::
  "codec \<Rightarrow> ('sk, 'pk) crypto \<Rightarrow> int \<Rightarrow> int \<Rightarrow> int64 \<Rightarrow> ('sk, 'gk) StatelessIdentity option \<Rightarrow> string \<Rightarrow> json \<Rightarrow> uint64
    \<Rightarrow> go_error + StateTransition" where
  \<comment> \<open>\<open>data\<close> is the JSON tree of the payload\<close>
  "NewStateTransition co cr t1 t2 now identity txType data nonce =
     (case identity of
        None \<Rightarrow> Inl (Errorf ''valid identity required'')
      | Some si \<Rightarrow>
          if \<not> StatelessIdentity_IsValid t1 si then Inl (Errorf ''valid identity required'')
          else (case json_bytes data of
            None \<Rightarrow> Inl (Wrapped ''failed to marshal data'' marshal_error)
          | Some dataBytes \<Rightarrow>
              let tx = \<lparr>st_Version = 1, st_Type = txType, st_ForkID = si_forkID si, st_From = si_address si, st_Timestamp = now,
                    st_Nonce = nonce, st_Data = Some dataBytes, st_Signature = None\<rparr>
              in (case json_bytes (StateTransition_json co cr tx) of
                    None \<Rightarrow> Inl (Wrapped ''failed to marshal for signing'' marshal_error)
                  | Some sigData \<Rightarrow>
                      (case StatelessIdentity_Sign cr t2 (Keccak256 cr sigData) si of
                         Inl e \<Rightarrow> Inl (Wrapped ''failed to sign'' e)
                       | Inr sig \<Rightarrow> Inr (tx\<lparr>st_Signature := Some sig\<rparr>)))))"

definition StateTransition_Verify :: "codec \<Rightarrow> ('sk, 'pk) crypto \<Rightarrow> StateTransition \<Rightarrow> address \<times> bool" where
  "StateTransition_Verify co cr t =
     (case recover_body cr (StateTransition_json co cr (t\<lparr>st_Signature := None\<rparr>)) (slice_bytes (st_Signature t)) of
        None \<Rightarrow> (zero_address, False)
      | Some signer \<Rightarrow> (signer, signer = st_From t))"

definition StateTransition_ToBytes :: "codec \<Rightarrow> ('sk, 'pk) crypto \<Rightarrow> StateTransition \<Rightarrow> go_error + bytes" where
  "StateTransition_ToBytes co cr t =
     (case json_bytes (StateTransition_json co cr t) of None \<Rightarrow> Inl marshal_error | Some data \<Rightarrow> Inr data)"

definition StateTransitionFromBytes :: "codec \<Rightarrow> bytes \<Rightarrow> go_error + StateTransition" where
  "StateTransitionFromBytes co data =
     (case UnmarshalStateTransition co data of None \<Rightarrow> Inl unmarshal_error | Some t \<Rightarrow> Inr t)"

definition isAuthorized :: "address \<Rightarrow> string \<Rightarrow> ForkState \<Rightarrow> bool" where
  "isAuthorized signer txType fs =
     (if signer = fs_CurrentAddress fs then True
      else if txType = TransitionRecoveryApprove \<and> list_ex (\<lambda>g. g = signer) (cfg_Guardians (fs_RecoveryConfig fs)) then True
      else if txType = TransitionRecoveryInitiate then cfg_TimelockEnabled (fs_RecoveryConfig fs)
      else False)"

definition applyCheckpoint :: "codec \<Rightarrow> bytes \<Rightarrow> ForkState \<Rightarrow> ForkState outcome" where
  "applyCheckpoint co data fs = (case UnmarshalCheckpoint co data of
      None \<Rightarrow> (fs, Some unmarshal_error)
    | Some cp \<Rightarrow> (fs\<lparr>fs_LastCheckpoint := Some cp\<rparr>, None))"

definition applyRecoveryConfig :: "codec \<Rightarrow> int64 \<Rightarrow> bytes \<Rightarrow> address \<Rightarrow> ForkState \<Rightarrow> ForkState outcome" where
  "applyRecoveryConfig co now data signer fs = (case UnmarshalRecoveryConfig co data of
      None \<Rightarrow> (fs, Some unmarshal_error)
    | Some config \<Rightarrow> (fs\<lparr>fs_RecoveryConfig := config\<lparr>cfg_UpdatedAt := now, cfg_UpdatedBy := signer\<rparr>\<rparr>, None))"

definition applyRecoveryInitiate :: "codec \<Rightarrow> int64 \<Rightarrow> bytes \<Rightarrow> address \<Rightarrow> ForkState \<Rightarrow> ForkState outcome" where
  "applyRecoveryInitiate co now data signer fs = (case UnmarshalPendingRecovery co data of
      None \<Rightarrow> (fs, Some unmarshal_error)
    | Some p \<Rightarrow>
        let p1 = p\<lparr>ps_InitiatedAt := now, ps_InitiatedBy := signer\<rparr>;
            p2 = (if ps_Method p1 = ''timelock''
                  then p1\<lparr>ps_CanCompleteAt := wrap64 (ps_InitiatedAt p1 + cfg_TimelockDuration (fs_RecoveryConfig fs))\<rparr> else p1)
        in (fs\<lparr>fs_PendingRecovery := Some p2\<rparr>, None))"

definition applyRecoveryApprove :: "codec \<Rightarrow> int64 \<Rightarrow> int64 \<Rightarrow> bytes \<Rightarrow> address \<Rightarrow> ForkState \<Rightarrow> ForkState outcome" where
  "applyRecoveryApprove co t1 t2 data signer fs = (case fs_PendingRecovery fs of
      None \<Rightarrow> (fs, Some (Errorf ''no pending recovery''))
    | Some p \<Rightarrow>
        (case UnmarshalRecoveryApproval co data of
           None \<Rightarrow> (fs, Some unmarshal_error)
         | Some a \<Rightarrow>
             if \<not> list_ex (\<lambda>g. g = signer) (cfg_Guardians (fs_RecoveryConfig fs))
             then (fs, Some (Errorf ''signer is not a guardian''))
             else if list_ex (\<lambda>a. ra_Approver a = signer) (ps_Approvals p) then (fs, Some (Errorf ''already approved''))
             else
               let p1 = p\<lparr>ps_Approvals := ps_Approvals p @ [a\<lparr>ra_Approver := signer, ra_ApprovedAt := t1\<rparr>]\<rparr>;
                   p2 = (if int (length (ps_Approvals p1)) \<ge> cfg_GuardianThreshold (fs_RecoveryConfig fs)
                         then p1\<lparr>ps_Method := ''social'', ps_CanCompleteAt := t2\<rparr> else p1)
               in (fs\<lparr>fs_PendingRecovery := Some p2\<rparr>, None)))"

definition applyRecoveryComplete :: "int64 \<Rightarrow> address \<Rightarrow> ForkState \<Rightarrow> ForkState outcome" where
  "applyRecoveryComplete now signer fs = (case fs_PendingRecovery fs of
      None \<Rightarrow> (fs, Some (Errorf ''no pending recovery''))
    | Some p \<Rightarrow>
        if now < ps_CanCompleteAt p then (fs, Some (Errorf ''recovery not yet completable''))
        else if signer \<noteq> ps_NewAddress p then (fs, Some (Errorf ''signer must be the new address''))
        else
          let fs1 = fs\<lparr>fs_CurrentAddress := ps_NewAddress p\<rparr>;
              fs2 = (if length (slice_bytes (ps_NewChainSalt p)) > 0 then fs1\<lparr>fs_ChainSalt := ps_NewChainSalt p\<rparr> else fs1)
          in (fs2\<lparr>fs_PendingRecovery := None\<rparr>, None))"

definition applyRecoveryCancel :: "address \<Rightarrow> ForkState \<Rightarrow> ForkState outcome" where
  "applyRecoveryCancel signer fs = (case fs_PendingRecovery fs of
      None \<Rightarrow> (fs, Some (Errorf ''no pending recovery''))
    | Some p \<Rightarrow>
        if signer \<noteq> fs_CurrentAddress fs then (fs, Some (Errorf ''only current owner can cancel recovery''))
        else (fs\<lparr>fs_PendingRecovery := None\<rparr>, None))"

definition ApplyTransition ::
  "codec \<Rightarrow> ('sk, 'pk) crypto \<Rightarrow> int64 \<Rightarrow> int64 \<Rightarrow> StateTransition \<Rightarrow> ForkState \<Rightarrow> ForkState outcome" where
  "ApplyTransition co cr t1 t2 tx fs =
     (let (signer, valid) = StateTransition_Verify co cr tx; data = slice_bytes (st_Data tx) in
      if \<not> valid then (fs, Some (Errorf ''invalid transition signature''))
      else if st_ForkID tx \<noteq> fs_ForkID fs then (fs, Some (Errorf ''fork ID mismatch''))
      else if \<not> isAuthorized signer (st_Type tx) fs then (fs, Some (Errorf ''signer not authorized''))
      else if st_Type tx = TransitionCheckpoint then applyCheckpoint co data fs
      else if st_Type tx = TransitionRecoveryConfig then applyRecoveryConfig co t1 data signer fs
      else if st_Type tx = TransitionRecoveryInitiate then applyRecoveryInitiate co t1 data signer fs
      else if st_Type tx = TransitionRecoveryApprove then applyRecoveryApprove co t1 t2 data signer fs
      else if st_Type tx = TransitionRecoveryComplete then applyRecoveryComplete t1 signer fs
      else if st_Type tx = TransitionRecoveryCancel then applyRecoveryCancel signer fs
      else (fs, None))"

section \<open>Queries\<close>

definition ForkState_CanRecover :: "string \<Rightarrow> ForkState \<Rightarrow> bool \<times> string" where
  "ForkState_CanRecover meth fs =
     (if meth = ''social'' then
        (if length (cfg_Guardians (fs_RecoveryConfig fs)) = 0 then (False, ''no guardians configured'')
         else if cfg_GuardianThreshold (fs_RecoveryConfig fs) = 0 then (False, ''no guardian threshold set'')
         else (True, []))
      else if meth = ''timelock'' then
        (if \<not> cfg_TimelockEnabled (fs_RecoveryConfig fs) then (False, ''timelock recovery not enabled'')
         else if cfg_TimelockDuration (fs_RecoveryConfig fs) = 0 then (False, ''no timelock duration set'')
         else (True, []))
      else (False, ''unknown recovery method''))"

definition HasPendingRecovery :: "ForkState \<Rightarrow> bool" where
  "HasPendingRecovery fs \<longleftrightarrow> fs_PendingRecovery fs \<noteq> None"

definition GetPendingRecovery :: "ForkState \<Rightarrow> PendingRecoveryState option" where
  "GetPendingRecovery fs = fs_PendingRecovery fs"

definition IsOwner :: "address \<Rightarrow> ForkState \<Rightarrow> bool" where
  "IsOwner addr fs \<longleftrightarrow> addr = fs_CurrentAddress fs"

definition GetCurrentAddress :: "ForkState \<Rightarrow> address" where
  "GetCurrentAddress fs = fs_CurrentAddress fs"

definition GetChainSalt :: "ForkState \<Rightarrow> bytes" where
  "GetChainSalt fs = slice_bytes (fs_ChainSalt fs)"

section \<open>Signatures\<close>

lemma supported_ForkGenesis_json: "supported (ForkGenesis_json cr g)"
  by (simp add: ForkGenesis_json_def RecoveryConfig_json_def)

lemma StatelessIdentity_Sign_recovers:
  assumes "signature_recovers cr" and "StatelessIdentity_Sign cr now h si = Inr sig"
  obtains key where "si_privateKey si = Some key" "map_option (PubkeyToAddress cr) (SigToPub cr h sig) = Some (key_address cr key)"
  using assms by (auto simp: StatelessIdentity_Sign_def signature_recovers_def key_address_def split: option.splits if_splits)

text \<open>An identity whose address is that of its key, as \<open>DeriveIdentity\<close> makes them.\<close>

definition identity_ok :: "('sk, 'pk) crypto \<Rightarrow> ('sk, 'gk) StatelessIdentity \<Rightarrow> bool" where
  "identity_ok cr si \<longleftrightarrow> (\<forall>key. si_privateKey si = Some key \<longrightarrow> si_address si = key_address cr key)"

lemma DeriveIdentity_identity_ok:
  "DeriveIdentity kd ec cr random timestamp now userSecret chainSalt gate config = Inr si \<Longrightarrow> identity_ok cr si"
  by (auto simp: DeriveIdentity_def identity_ok_def Let_def split: if_splits option.splits sum.splits)

lemma sign_by_identity_recovers:
  assumes "signature_recovers cr" and "identity_ok cr si" and "json_bytes j = Some data"
    and "StatelessIdentity_Sign cr now (Keccak256 cr data) si = Inr sig"
  shows "recover_body cr j sig = Some (si_address si)"
proof -
  obtain key where "si_privateKey si = Some key"
    "map_option (PubkeyToAddress cr) (SigToPub cr (Keccak256 cr data) sig) = Some (key_address cr key)"
    using assms(1,4) by (rule StatelessIdentity_Sign_recovers)
  with assms(2,3) show ?thesis
    by (simp add: recover_body_def identity_ok_def)
qed

lemma NewForkGenesis_succeeds:
  assumes "NewForkGenesis cr t1 t2 now identity config = Inr g"
  obtains si data sig where "identity = Some si" "json_bytes (ForkGenesis_json cr (g\<lparr>fg_Signature := None\<rparr>)) = Some data"
    "StatelessIdentity_Sign cr t2 (Keccak256 cr data) si = Inr sig" "fg_Signature g = Some sig"
    "fg_InitialAddress g = si_address si" "fg_ForkID g = si_forkID si" "fg_ChainSalt g = Some (si_chainSalt si)"
    "fg_RecoveryConfig g = config\<lparr>cfg_UpdatedAt := now, cfg_UpdatedBy := si_address si\<rparr>"
  using assms
  by (auto simp: NewForkGenesis_def Let_def StatelessIdentity_ChainSalt_def split: option.splits if_splits sum.splits)

lemma NewForkGenesis_total:
  assumes "StatelessIdentity_IsValid t1 si" and "\<forall>h. \<exists>sig. StatelessIdentity_Sign cr t2 h si = Inr sig"
  shows "\<exists>g. NewForkGenesis cr t1 t2 now (Some si) config = Inr g"
proof -
  let ?g = "\<lparr>fg_Version = 1, fg_Type = ''ZEAM_FORK_GENESIS'', fg_ForkID = si_forkID si,
      fg_ChainSalt = Some (StatelessIdentity_ChainSalt si), fg_InitialAddress = si_address si, fg_CreatedAt = now,
      fg_RecoveryConfig = config\<lparr>cfg_UpdatedAt := now, cfg_UpdatedBy := si_address si\<rparr>, fg_Signature = None\<rparr>"
  obtain s where "json_marshal (ForkGenesis_json cr ?g) = Some s"
    using supported_marshals [OF supported_ForkGenesis_json] by blast
  moreover obtain sig where "StatelessIdentity_Sign cr t2 (Keccak256 cr (bytes_of_string s)) si = Inr sig"
    using assms(2) by blast
  ultimately show ?thesis
    using assms(1) by (simp add: NewForkGenesis_def Let_def json_bytes_def)
qed

lemma NewStateTransition_total:
  assumes "StatelessIdentity_IsValid t1 si" and "\<forall>h. \<exists>sig. StatelessIdentity_Sign cr t2 h si = Inr sig"
    and "supported data" and "\<And>tx. supported (StateTransition_json co cr tx)"
  shows "\<exists>tx. NewStateTransition co cr t1 t2 now (Some si) txType data nonce = Inr tx"
proof -
  obtain d where d: "json_marshal data = Some d"
    using supported_marshals [OF assms(3)] by blast
  let ?tx = "\<lparr>st_Version = 1, st_Type = txType, st_ForkID = si_forkID si, st_From = si_address si, st_Timestamp = now,
      st_Nonce = nonce, st_Data = Some (bytes_of_string d), st_Signature = None\<rparr>"
  obtain s where "json_marshal (StateTransition_json co cr ?tx) = Some s"
    using supported_marshals [OF assms(4)] by blast
  moreover obtain sig where "StatelessIdentity_Sign cr t2 (Keccak256 cr (bytes_of_string s)) si = Inr sig"
    using assms(2) by blast
  ultimately show ?thesis
    using assms(1) d by (simp add: NewStateTransition_def Let_def json_bytes_def)
qed

lemma NewStateTransition_succeeds:
  assumes "NewStateTransition co cr t1 t2 now identity txType data nonce = Inr tx"
  obtains si body sig where "identity = Some si" "json_bytes (StateTransition_json co cr (tx\<lparr>st_Signature := None\<rparr>)) = Some body"
    "StatelessIdentity_Sign cr t2 (Keccak256 cr body) si = Inr sig" "st_Signature tx = Some sig"
    "st_From tx = si_address si" "st_ForkID tx = si_forkID si" "st_Type tx = txType" "st_Data tx = json_bytes data"
  using assms
  by (auto simp: NewStateTransition_def Let_def split: option.splits if_splits sum.splits)

text \<open>
  The genesis an identity creates is accepted: \<open>ForkStateFromGenesis\<close> builds a state owned by
  the identity's address, with its fork, salt and recovery configuration, and no recovery pending.
\<close>

theorem genesis_accepted:
  assumes "signature_recovers cr" and "DeriveIdentity kd ec cr random timestamp t0 secret salt gate dconfig = Inr si"
    and "NewForkGenesis cr t1 t2 now (Some si) config = Inr g"
  shows "\<exists>fs. ForkStateFromGenesis cr g block txHash chain = Inr fs \<and> IsOwner (si_address si) fs \<and>
    fs_ForkID fs = si_forkID si \<and> GetChainSalt fs = salt \<and> \<not> HasPendingRecovery fs \<and>
    cfg_Guardians (fs_RecoveryConfig fs) = cfg_Guardians config"
  using assms(3)
proof (rule NewForkGenesis_succeeds)
  fix si' data sig
  assume g: "Some si = Some si'" "json_bytes (ForkGenesis_json cr (g\<lparr>fg_Signature := None\<rparr>)) = Some data"
    "StatelessIdentity_Sign cr t2 (Keccak256 cr data) si' = Inr sig" "fg_Signature g = Some sig"
    "fg_InitialAddress g = si_address si'" "fg_ForkID g = si_forkID si'" "fg_ChainSalt g = Some (si_chainSalt si')"
    "fg_RecoveryConfig g = config\<lparr>cfg_UpdatedAt := now, cfg_UpdatedBy := si_address si'\<rparr>"
  have salt: "si_chainSalt si = salt"
    using assms(2) by (auto simp: DeriveIdentity_def Let_def split: if_splits option.splits sum.splits)
  have "recover_body cr (ForkGenesis_json cr (g\<lparr>fg_Signature := None\<rparr>)) sig = Some (si_address si)"
    using sign_by_identity_recovers [OF assms(1) DeriveIdentity_identity_ok [OF assms(2)] g(2)] g(1,3) by simp
  then show ?thesis
    using g(1,4-) salt by (simp add: ForkStateFromGenesis_def ForkGenesis_Verify_def IsOwner_def GetChainSalt_def HasPendingRecovery_def)
qed

section \<open>Applying transitions\<close>

lemmas apply_defs = applyCheckpoint_def applyRecoveryConfig_def applyRecoveryInitiate_def applyRecoveryApprove_def
  applyRecoveryComplete_def applyRecoveryCancel_def

lemma apply_failed_unchanged:
  "applyCheckpoint co data fs = (fs', Some e) \<Longrightarrow> fs' = fs"
  "applyRecoveryConfig co t1 data signer fs = (fs', Some e) \<Longrightarrow> fs' = fs"
  "applyRecoveryInitiate co t1 data signer fs = (fs', Some e) \<Longrightarrow> fs' = fs"
  "applyRecoveryApprove co t1 t2 data signer fs = (fs', Some e) \<Longrightarrow> fs' = fs"
  "applyRecoveryComplete t1 signer fs = (fs', Some e) \<Longrightarrow> fs' = fs"
  "applyRecoveryCancel signer fs = (fs', Some e) \<Longrightarrow> fs' = fs"
  by (auto simp: apply_defs Let_def split: option.splits if_splits)

lemma Verify_signer: "StateTransition_Verify co cr tx = (signer, True) \<Longrightarrow> signer = st_From tx"
  by (auto simp: StateTransition_Verify_def split: option.splits)

text \<open>
  C28: a transition changes the state only if its signature recovers its sender, it names the
  state's fork, and the sender is the current owner, or a guardian who approves, or initiates a
  recovery while time-locked recovery is enabled. A refused transition changes nothing.
\<close>

theorem ApplyTransition_authorised:
  assumes "ApplyTransition co cr t1 t2 tx fs = (fs', e)"
  shows "(e \<noteq> None \<longrightarrow> fs' = fs) \<and>
    (fs' \<noteq> fs \<longrightarrow>
      recover_body cr (StateTransition_json co cr (tx\<lparr>st_Signature := None\<rparr>)) (slice_bytes (st_Signature tx)) = Some (st_From tx) \<and>
      st_ForkID tx = fs_ForkID fs \<and>
      (IsOwner (st_From tx) fs \<or>
       st_Type tx = TransitionRecoveryApprove \<and> st_From tx \<in> set (cfg_Guardians (fs_RecoveryConfig fs)) \<or>
       st_Type tx = TransitionRecoveryInitiate \<and> cfg_TimelockEnabled (fs_RecoveryConfig fs)))"
proof (cases "StateTransition_Verify co cr tx")
  case (Pair signer valid)
  show ?thesis
  proof (cases "valid \<and> st_ForkID tx = fs_ForkID fs \<and> isAuthorized signer (st_Type tx) fs")
    case True
    then have "recover_body cr (StateTransition_json co cr (tx\<lparr>st_Signature := None\<rparr>)) (slice_bytes (st_Signature tx)) = Some (st_From tx)"
      "signer = st_From tx"
      using Pair by (auto simp: StateTransition_Verify_def split: option.splits)
    moreover have "e \<noteq> None \<longrightarrow> fs' = fs"
      using assms True by (auto simp: ApplyTransition_def Pair Let_def dest: apply_failed_unchanged split: if_splits)
    ultimately show ?thesis
      using True by (auto simp: isAuthorized_def IsOwner_def list_ex_iff split: if_splits)
  next
    case False
    then have "\<exists>e. ApplyTransition co cr t1 t2 tx fs = (fs, Some e)"
      by (cases valid; cases "st_ForkID tx = fs_ForkID fs"; cases "isAuthorized signer (st_Type tx) fs")
        (simp_all add: ApplyTransition_def Pair)
    then show ?thesis
      using assms by auto
  qed
qed

lemma ApplyTransition_keeps:
  "fs_CurrentAddress (fst (ApplyTransition co cr t1 t2 tx fs)) = fs_CurrentAddress fs \<and>
   fs_ForkID (fst (ApplyTransition co cr t1 t2 tx fs)) = fs_ForkID fs"
proof (cases "StateTransition_Verify co cr tx")
  case (Pair signer valid)
  have "fs_CurrentAddress (fst (applyRecoveryComplete t1 signer fs)) = fs_CurrentAddress fs"
    if "isAuthorized signer TransitionRecoveryComplete fs"
    using that by (auto simp: applyRecoveryComplete_def isAuthorized_def transition_types Let_def split: option.splits if_splits)
  moreover have "fs_ForkID (fst (applyRecoveryComplete t1 signer fs)) = fs_ForkID fs"
    by (simp add: applyRecoveryComplete_def Let_def split: option.splits)
  moreover have "fs_CurrentAddress (fst (applyCheckpoint co data fs)) = fs_CurrentAddress fs \<and>
      fs_ForkID (fst (applyCheckpoint co data fs)) = fs_ForkID fs"
    "fs_CurrentAddress (fst (applyRecoveryConfig co t1 data signer fs)) = fs_CurrentAddress fs \<and>
      fs_ForkID (fst (applyRecoveryConfig co t1 data signer fs)) = fs_ForkID fs"
    "fs_CurrentAddress (fst (applyRecoveryInitiate co t1 data signer fs)) = fs_CurrentAddress fs \<and>
      fs_ForkID (fst (applyRecoveryInitiate co t1 data signer fs)) = fs_ForkID fs"
    "fs_CurrentAddress (fst (applyRecoveryApprove co t1 t2 data signer fs)) = fs_CurrentAddress fs \<and>
      fs_ForkID (fst (applyRecoveryApprove co t1 t2 data signer fs)) = fs_ForkID fs"
    "fs_CurrentAddress (fst (applyRecoveryCancel signer fs)) = fs_CurrentAddress fs \<and>
      fs_ForkID (fst (applyRecoveryCancel signer fs)) = fs_ForkID fs" for data
    by (simp_all add: apply_defs Let_def split: option.split)
  ultimately show ?thesis
    by (auto simp: ApplyTransition_def Pair Let_def)
qed

inductive transition_step :: "codec \<Rightarrow> ('sk, 'pk) crypto \<Rightarrow> ForkState \<Rightarrow> ForkState \<Rightarrow> bool" for co cr where
  apply_tx: "transition_step co cr fs (fst (ApplyTransition co cr t1 t2 tx fs))"

lemma transition_steps_keep:
  "(transition_step co cr)\<^sup>*\<^sup>* fs fs' \<Longrightarrow> fs_CurrentAddress fs' = fs_CurrentAddress fs \<and> fs_ForkID fs' = fs_ForkID fs"
  by (induction rule: rtranclp_induct) (auto elim!: transition_step.cases simp: ApplyTransition_keeps)

text \<open>
  No sequence of transitions ever changes the owner. Completing a recovery is open only to the
  current owner, but must be signed by the new address: a recovery completes only when it leads back
  to the same address, and for every other pending address each attempt is refused.
\<close>

theorem recovery_never_completes:
  assumes "(transition_step co cr)\<^sup>*\<^sup>* fs fs'"
  shows "fs_CurrentAddress fs' = fs_CurrentAddress fs \<and>
    (\<forall>p tx t1 t2. fs_PendingRecovery fs' = Some p \<and> ps_NewAddress p \<noteq> fs_CurrentAddress fs \<and>
       st_Type tx = TransitionRecoveryComplete \<longrightarrow> failed (ApplyTransition co cr t1 t2 tx fs'))"
proof -
  have "failed (ApplyTransition co cr t1 t2 tx fs')"
    if "fs_PendingRecovery fs' = Some p" "ps_NewAddress p \<noteq> fs_CurrentAddress fs'" "st_Type tx = TransitionRecoveryComplete"
    for p tx t1 t2
    using that
    by (cases "StateTransition_Verify co cr tx")
      (auto simp: ApplyTransition_def applyRecoveryComplete_def isAuthorized_def transition_types Let_def split: if_splits)
  then show ?thesis
    using transition_steps_keep [OF assms] by auto
qed

text \<open>
  With time-locked recovery enabled, any party can replace the pending recovery by one with
  ready-made approvals and a completion time of its own choice: \<open>applyRecoveryInitiate\<close> keeps both
  from the payload when the method is not \<open>timelock\<close>, and discards what the guardians had approved.
\<close>

theorem initiator_chooses_approvals:
  assumes "StateTransition_Verify co cr tx = (signer, True)" and "st_ForkID tx = fs_ForkID fs"
    and "st_Type tx = TransitionRecoveryInitiate" and "cfg_TimelockEnabled (fs_RecoveryConfig fs)"
    and "UnmarshalPendingRecovery co (slice_bytes (st_Data tx)) = Some p" and "ps_Method p \<noteq> ''timelock''"
  shows "\<exists>fs' p'. ApplyTransition co cr t1 t2 tx fs = (fs', None) \<and> GetPendingRecovery fs' = Some p' \<and>
    ps_Approvals p' = ps_Approvals p \<and> ps_CanCompleteAt p' = ps_CanCompleteAt p \<and> ps_NewAddress p' = ps_NewAddress p"
  using assms
  by (simp add: ApplyTransition_def isAuthorized_def applyRecoveryInitiate_def transition_types Let_def GetPendingRecovery_def)

text \<open>
  A transition the owner's own identity creates is accepted by the state's checks, and one of a
  type the state does not interpret leaves the state as it is.
\<close>

theorem own_transition_accepted:
  assumes "signature_recovers cr" and "identity_ok cr si"
    and "NewStateTransition co cr t1 t2 now (Some si) txType data nonce = Inr tx"
    and "IsOwner (si_address si) fs" and "fs_ForkID fs = si_forkID si"
  shows "StateTransition_Verify co cr tx = (si_address si, True) \<and> isAuthorized (si_address si) txType fs \<and>
    (txType = TransitionMemoryWrite \<or> txType = TransitionConsentGrant \<or> txType = TransitionConsentRevoke \<longrightarrow>
       ApplyTransition co cr t3 t4 tx fs = (fs, None))"
  using assms(3)
proof (rule NewStateTransition_succeeds)
  fix si' body sig
  assume tx: "Some si = Some si'" "json_bytes (StateTransition_json co cr (tx\<lparr>st_Signature := None\<rparr>)) = Some body"
    "StatelessIdentity_Sign cr t2 (Keccak256 cr body) si' = Inr sig" "st_Signature tx = Some sig"
    "st_From tx = si_address si'" "st_ForkID tx = si_forkID si'" "st_Type tx = txType"
  have "recover_body cr (StateTransition_json co cr (tx\<lparr>st_Signature := None\<rparr>)) sig = Some (si_address si)"
    using sign_by_identity_recovers [OF assms(1,2) tx(2)] tx(1,3) by simp
  then have "StateTransition_Verify co cr tx = (si_address si, True)"
    using tx by (simp add: StateTransition_Verify_def)
  then show ?thesis
    using assms(4,5) tx(1,6,7) by (auto simp: ApplyTransition_def isAuthorized_def IsOwner_def transition_types)
qed

section \<open>Witnesses\<close>

definition demo_identity :: "(bytes, nat) StatelessIdentity" where
  "demo_identity = projr (DeriveIdentity demo_kdf demo_p256 demo_crypto None 0 0 demo_secret demo_salt
     (sm_gate demo_session) (sm_config demo_session))"

definition demo_config :: RecoveryConfig where
  "demo_config = \<lparr>cfg_Guardians = [[5]], cfg_GuardianThreshold = 1, cfg_TimelockEnabled = True, cfg_TimelockDuration = 100,
     cfg_UpdatedAt = 0, cfg_UpdatedBy = zero_address\<rparr>"

definition demo_fork :: ForkState where
  "demo_fork = \<lparr>fs_ForkID = zero32, fs_ChainSalt = None, fs_CreatedAt = 0, fs_GenesisBlock = 0, fs_GenesisChain = [],
     fs_GenesisTxHash = zero32, fs_CurrentAddress = [1], fs_RecoveryConfig = demo_config, fs_LastCheckpoint = None,
     fs_LastSyncBlock = 0, fs_PendingRecovery = None\<rparr>"

definition demo_takeover :: PendingRecoveryState where
  "demo_takeover = \<lparr>ps_NewAddress = [7], ps_NewChainSalt = None, ps_InitiatedAt = 0, ps_InitiatedBy = zero_address,
     ps_Method = ''social'', ps_Approvals = [], ps_CanCompleteAt = 0, ps_TxHash = zero32\<rparr>"

definition demo_codec :: codec where
  "demo_codec = \<lparr>CompactRaw = (\<lambda>b. Some ''{}''), UnmarshalCheckpoint = (\<lambda>b. None), UnmarshalRecoveryConfig = (\<lambda>b. None),
     UnmarshalPendingRecovery = (\<lambda>b. Some demo_takeover), UnmarshalRecoveryApproval = (\<lambda>b. None),
     UnmarshalForkGenesis = (\<lambda>b. None), UnmarshalStateTransition = (\<lambda>b. None)\<rparr>"

lemma demo_codec_simps [simp]:
  "UnmarshalPendingRecovery demo_codec b = Some demo_takeover" "CompactRaw demo_codec b = Some ''{}''"
  by (simp_all add: demo_codec_def)

lemma demo_fork_simps [simp]:
  "fs_CurrentAddress demo_fork = [1]" "fs_ForkID demo_fork = zero32" "fs_PendingRecovery demo_fork = None"
  "cfg_TimelockEnabled (fs_RecoveryConfig demo_fork)"
  by (simp_all add: demo_fork_def demo_config_def)

definition demo_tx :: "string \<Rightarrow> StateTransition" where
  "demo_tx txType = (let tx = \<lparr>st_Version = 1, st_Type = txType, st_ForkID = zero32, st_From = [7], st_Timestamp = 0, st_Nonce = 0,
     st_Data = Some [], st_Signature = None\<rparr>
   in tx\<lparr>st_Signature := Some (1 # [7] @ hash_json demo_crypto (StateTransition_json demo_codec demo_crypto tx))\<rparr>)"

lemma demo_tx_fields [simp]:
  "st_Type (demo_tx txType) = txType" "st_ForkID (demo_tx txType) = zero32" "st_From (demo_tx txType) = [7]"
  by (simp_all add: demo_tx_def Let_def)

lemma demo_identity_derived: "DeriveIdentity demo_kdf demo_p256 demo_crypto None 0 0 demo_secret demo_salt
    (sm_gate demo_session) (sm_config demo_session) = Inr demo_identity"
  using demo_derives by (auto simp: demo_identity_def)

lemma demo_identity_signs:
  "identity_ok demo_crypto demo_identity \<and> StatelessIdentity_IsValid 1 demo_identity \<and>
   (\<forall>h. \<exists>sig. StatelessIdentity_Sign demo_crypto 1 h demo_identity = Inr sig)"
proof -
  obtain key where "si_privateKey demo_identity = Some key" "si_expiresAt demo_identity = 24 * hour_ns"
    using DeriveIdentity_constructed(2) [OF demo_session_gate demo_identity_derived] by (metis add_0 option.exhaust)
  then show ?thesis
    using DeriveIdentity_identity_ok [OF demo_identity_derived]
    by (simp add: StatelessIdentity_IsValid_def StatelessIdentity_Sign_def hour_ns_def)
qed

lemma demo_tx_verifies: "StateTransition_Verify demo_codec demo_crypto (demo_tx txType) = ([7], True)"
proof -
  let ?tx = "(demo_tx txType)\<lparr>st_Signature := None\<rparr>"
  have "sign_body demo_crypto [7] (StateTransition_json demo_codec demo_crypto ?tx) =
      Inr (1 # [7] @ hash_json demo_crypto (StateTransition_json demo_codec demo_crypto ?tx))"
    by (rule sign_body_total) (simp_all add: StateTransition_json_def RawMessage_json_def split: option.split)
  from sign_body_recovers [OF demo_crypto_recovers this] show ?thesis
    by (simp add: StateTransition_Verify_def demo_tx_def Let_def)
qed

theorem genesis_accepted_witness:
  "\<exists>g fs. NewForkGenesis demo_crypto 1 1 0 (Some demo_identity) demo_config = Inr g \<and>
     ForkStateFromGenesis demo_crypto g 0 zero32 [] = Inr fs \<and> IsOwner (si_address demo_identity) fs"
proof -
  obtain g where g: "NewForkGenesis demo_crypto 1 1 0 (Some demo_identity) demo_config = Inr g"
    using NewForkGenesis_total [of 1 demo_identity demo_crypto 1] demo_identity_signs by blast
  with genesis_accepted [OF demo_crypto_recovers demo_identity_derived this, of 0 zero32 "[]"] show ?thesis
    by blast
qed

theorem initiator_chooses_approvals_witness:
  "\<exists>fs'. ApplyTransition demo_codec demo_crypto 9 9 (demo_tx TransitionRecoveryInitiate) demo_fork = (fs', None) \<and>
     map_option ps_CanCompleteAt (GetPendingRecovery fs') = Some 0"
  using initiator_chooses_approvals [OF demo_tx_verifies, of TransitionRecoveryInitiate demo_fork demo_takeover 9 9]
  by (auto simp: demo_takeover_def)

theorem ApplyTransition_authorised_witness:
  "\<exists>fs'. ApplyTransition demo_codec demo_crypto 9 9 (demo_tx TransitionRecoveryInitiate) demo_fork = (fs', None) \<and>
     fs' \<noteq> demo_fork \<and> recover_body demo_crypto (StateTransition_json demo_codec demo_crypto
       ((demo_tx TransitionRecoveryInitiate)\<lparr>st_Signature := None\<rparr>))
       (slice_bytes (st_Signature (demo_tx TransitionRecoveryInitiate))) = Some [7]"
proof -
  obtain fs' where fs': "ApplyTransition demo_codec demo_crypto 9 9 (demo_tx TransitionRecoveryInitiate) demo_fork = (fs', None)"
    "fs_PendingRecovery fs' \<noteq> None"
    by (simp add: ApplyTransition_def demo_tx_verifies isAuthorized_def applyRecoveryInitiate_def transition_types Let_def)
  then have "fs' \<noteq> demo_fork"
    by auto
  then show ?thesis
    using fs'(1) ApplyTransition_authorised [OF fs'(1)] by simp
qed

theorem recovery_never_completes_witness:
  "\<exists>fs'. (transition_step demo_codec demo_crypto)\<^sup>*\<^sup>* demo_fork fs' \<and> HasPendingRecovery fs' \<and>
     failed (ApplyTransition demo_codec demo_crypto 9 9 (demo_tx TransitionRecoveryComplete) fs')"
proof -
  let ?fs = "fst (ApplyTransition demo_codec demo_crypto 9 9 (demo_tx TransitionRecoveryInitiate) demo_fork)"
  have run: "(transition_step demo_codec demo_crypto)\<^sup>*\<^sup>* demo_fork ?fs"
    by (rule r_into_rtranclp) (rule transition_step.apply_tx)
  have pending: "fs_PendingRecovery ?fs = Some (demo_takeover\<lparr>ps_InitiatedAt := 9, ps_InitiatedBy := [7]\<rparr>)"
    by (simp add: ApplyTransition_def demo_tx_verifies isAuthorized_def applyRecoveryInitiate_def transition_types Let_def
        demo_takeover_def)
  then have "failed (ApplyTransition demo_codec demo_crypto 9 9 (demo_tx TransitionRecoveryComplete) ?fs)"
    using recovery_never_completes [OF run] by (simp add: demo_takeover_def)
  with run pending show ?thesis
    by (auto simp: HasPendingRecovery_def)
qed

theorem own_transition_accepted_witness:
  "\<exists>tx. NewStateTransition demo_codec demo_crypto 1 1 0 (Some demo_identity) TransitionMemoryWrite JNull 0 = Inr tx \<and>
     succeeded (ApplyTransition demo_codec demo_crypto 5 5 tx
       (demo_fork\<lparr>fs_CurrentAddress := si_address demo_identity, fs_ForkID := si_forkID demo_identity\<rparr>))"
proof -
  have "supported (StateTransition_json demo_codec demo_crypto t)" for t
    by (simp add: StateTransition_json_def RawMessage_json_def split: option.split)
  then obtain tx where tx: "NewStateTransition demo_codec demo_crypto 1 1 0 (Some demo_identity) TransitionMemoryWrite JNull 0 = Inr tx"
    using NewStateTransition_total [of 1 demo_identity demo_crypto 1 JNull demo_codec 0 TransitionMemoryWrite 0] demo_identity_signs by auto
  with own_transition_accepted [OF demo_crypto_recovers _ this,
      of "demo_fork\<lparr>fs_CurrentAddress := si_address demo_identity, fs_ForkID := si_forkID demo_identity\<rparr>" 5 5] demo_identity_signs
  show ?thesis
    by (auto simp: IsOwner_def)
qed

end
