(* ===== verification/Layers.thy ===== *)
theory Layers
  imports Signed_Document
begin

text \<open>
  Memory layers (\<open>identity/layers.go\<close>): signed layer configurations, the rules a layer inherits
  from its parents, access checks and the placement of streams. \<open>GetEffectiveRules\<close> follows parent
  links with no bound of its own: it is a partial function, \<open>None\<close> where the Go code never
  returns. The default layers take their creation time from one clock reading each.
\<close>

section \<open>Data\<close>

definition LayerPublic :: string where "LayerPublic = ''public''"
definition LayerRestricted :: string where "LayerRestricted = ''restricted''"
definition LayerPrivate :: string where "LayerPrivate = ''private''"
definition LayerLocal :: string where "LayerLocal = ''local''"
definition LayerArchive :: string where "LayerArchive = ''archive''"

lemmas layer_ids = LayerPublic_def LayerRestricted_def LayerPrivate_def LayerLocal_def LayerArchive_def

definition AccessOwnerOnly :: string where "AccessOwnerOnly = ''owner_only''"
definition AccessExplicitGrant :: string where "AccessExplicitGrant = ''explicit_grant''"
definition AccessWithProof :: string where "AccessWithProof = ''with_proof''"
definition AccessPublic :: string where "AccessPublic = ''public''"

lemmas access_policies = AccessOwnerOnly_def AccessExplicitGrant_def AccessWithProof_def AccessPublic_def

record PrivacyRules =
  pv_ReadAccess :: string
  pv_WriteAccess :: string
  pv_CrossLayerExport :: bool
  pv_ExportRequiresConsent :: bool
  pv_RetentionDays :: int
  pv_EncryptionRequired :: bool
  pv_AuditLogging :: bool
  pv_InheritFromParent :: bool

record LayerConfig =
  lc_ID :: string
  lc_Parent :: string
  lc_Rules :: PrivacyRules
  lc_TrustedLayers :: "string list"
  lc_Created :: int64
  lc_Owner :: address
  lc_Signature :: slice

record MemoryLayerManager =
  ml_Owner :: address
  ml_Layers :: "string \<Rightarrow> LayerConfig option"
  ml_DataPlacement :: "hash32 \<Rightarrow> string option"

definition PrivacyRules_json :: "PrivacyRules \<Rightarrow> json" where
  "PrivacyRules_json r = JObj (
     [(''read_access'', JStr (pv_ReadAccess r)), (''write_access'', JStr (pv_WriteAccess r)),
      (''cross_layer_export'', JBool (pv_CrossLayerExport r)),
      (''export_requires_consent'', JBool (pv_ExportRequiresConsent r))]
     @ omitempty (pv_RetentionDays r = 0) ''retention_days'' (JInt (pv_RetentionDays r))
     @ [(''encryption_required'', JBool (pv_EncryptionRequired r)), (''audit_logging'', JBool (pv_AuditLogging r)),
        (''inherit_from_parent'', JBool (pv_InheritFromParent r))])"

definition LayerConfig_json :: "('sk, 'pk) crypto \<Rightarrow> LayerConfig \<Rightarrow> json" where
  "LayerConfig_json cr l = JObj (
     [(''id'', JStr (lc_ID l))]
     @ omitempty (lc_Parent l = []) ''parent'' (JStr (lc_Parent l))
     @ [(''rules'', PrivacyRules_json (lc_Rules l))]
     @ omitempty (lc_TrustedLayers l = []) ''trusted_layers'' (JArr (map JStr (lc_TrustedLayers l)))
     @ [(''created'', JInt (lc_Created l)), (''owner'', JAddr cr (lc_Owner l))]
     @ omitempty (slice_bytes (lc_Signature l) = []) ''signature'' (JSlice (lc_Signature l)))"

section \<open>Layer configurations\<close>

definition LayerConfig_Sign :: "('sk, 'pk) crypto \<Rightarrow> 'sk \<Rightarrow> LayerConfig \<Rightarrow> LayerConfig outcome" where
  "LayerConfig_Sign cr key l =
     (if key_address cr key \<noteq> lc_Owner l then (l, Some (Errorf ''signer is not owner''))
      else let l0 = l\<lparr>lc_Signature := None\<rparr> in
        case sign_body cr key (LayerConfig_json cr l0) of
          Inl e \<Rightarrow> (l0, Some e)
        | Inr sig \<Rightarrow> (l0\<lparr>lc_Signature := Some sig\<rparr>, None))"

definition LayerConfig_Verify :: "('sk, 'pk) crypto \<Rightarrow> LayerConfig \<Rightarrow> bool" where
  "LayerConfig_Verify cr l =
     (if slice_bytes (lc_Signature l) = [] then False
      else recover_body cr (LayerConfig_json cr (l\<lparr>lc_Signature := None\<rparr>)) (slice_bytes (lc_Signature l)) = Some (lc_Owner l))"

section \<open>The manager\<close>

definition default_rules :: PrivacyRules where
  \<comment> \<open>the zero value\<close>
  "default_rules = \<lparr>pv_ReadAccess = [], pv_WriteAccess = [], pv_CrossLayerExport = False, pv_ExportRequiresConsent = False,
     pv_RetentionDays = 0, pv_EncryptionRequired = False, pv_AuditLogging = False, pv_InheritFromParent = False\<rparr>"

definition default_layer :: "string \<Rightarrow> string \<Rightarrow> int64 \<Rightarrow> address \<Rightarrow> PrivacyRules \<Rightarrow> LayerConfig" where
  "default_layer i parent created owner rules = \<lparr>lc_ID = i, lc_Parent = parent, lc_Rules = rules, lc_TrustedLayers = [],
     lc_Created = created, lc_Owner = owner, lc_Signature = None\<rparr>"

definition NewMemoryLayerManager :: "(string \<Rightarrow> int64) \<Rightarrow> address \<Rightarrow> MemoryLayerManager" where
  \<comment> \<open>\<open>clock i\<close> is the reading for layer \<open>i\<close>\<close>
  "NewMemoryLayerManager clock owner = \<lparr>ml_Owner = owner, ml_Layers =
     [LayerPublic \<mapsto> default_layer LayerPublic [] (clock LayerPublic) owner (default_rules\<lparr>pv_ReadAccess := AccessPublic,
        pv_WriteAccess := AccessOwnerOnly, pv_CrossLayerExport := True, pv_AuditLogging := True\<rparr>),
      LayerRestricted \<mapsto> default_layer LayerRestricted LayerPublic (clock LayerRestricted) owner
        (default_rules\<lparr>pv_ReadAccess := AccessWithProof, pv_WriteAccess := AccessExplicitGrant, pv_CrossLayerExport := True,
          pv_ExportRequiresConsent := True, pv_EncryptionRequired := True, pv_AuditLogging := True,
          pv_InheritFromParent := True\<rparr>),
      LayerPrivate \<mapsto> default_layer LayerPrivate LayerRestricted (clock LayerPrivate) owner
        (default_rules\<lparr>pv_ReadAccess := AccessExplicitGrant, pv_WriteAccess := AccessOwnerOnly, pv_CrossLayerExport := True,
          pv_ExportRequiresConsent := True, pv_EncryptionRequired := True, pv_AuditLogging := True,
          pv_InheritFromParent := True\<rparr>),
      LayerLocal \<mapsto> default_layer LayerLocal LayerPrivate (clock LayerLocal) owner
        (default_rules\<lparr>pv_ReadAccess := AccessOwnerOnly, pv_WriteAccess := AccessOwnerOnly, pv_EncryptionRequired := True\<rparr>),
      LayerArchive \<mapsto> default_layer LayerArchive LayerPrivate (clock LayerArchive) owner
        (default_rules\<lparr>pv_ReadAccess := AccessExplicitGrant, pv_WriteAccess := AccessOwnerOnly, pv_CrossLayerExport := True,
          pv_ExportRequiresConsent := True, pv_EncryptionRequired := True, pv_AuditLogging := True\<rparr>)],
     ml_DataPlacement = Map.empty\<rparr>"

definition AddLayer :: "('sk, 'pk) crypto \<Rightarrow> LayerConfig \<Rightarrow> MemoryLayerManager \<Rightarrow> MemoryLayerManager outcome" where
  "AddLayer cr config mlm =
     (if \<not> LayerConfig_Verify cr config then (mlm, Some (Errorf ''invalid signature on layer config''))
      else if lc_Parent config \<noteq> [] \<and> ml_Layers mlm (lc_Parent config) = None
      then (mlm, Some (Errorf ''parent layer does not exist''))
      else (mlm\<lparr>ml_Layers := (ml_Layers mlm)(lc_ID config \<mapsto> config)\<rparr>, None))"

definition merge_rules :: "PrivacyRules \<Rightarrow> PrivacyRules \<Rightarrow> PrivacyRules" where
  \<comment> \<open>the merge at the end of \<open>GetEffectiveRules\<close>\<close>
  "merge_rules parentRules childRules =
     (let m1 = (if pv_ReadAccess childRules \<noteq> [] then parentRules\<lparr>pv_ReadAccess := pv_ReadAccess childRules\<rparr> else parentRules);
          m2 = (if pv_WriteAccess childRules \<noteq> [] then m1\<lparr>pv_WriteAccess := pv_WriteAccess childRules\<rparr> else m1);
          m3 = m2\<lparr>pv_CrossLayerExport := pv_CrossLayerExport childRules,
                  pv_ExportRequiresConsent := pv_ExportRequiresConsent childRules,
                  pv_EncryptionRequired := pv_EncryptionRequired childRules \<or> pv_EncryptionRequired parentRules,
                  pv_AuditLogging := pv_AuditLogging childRules \<or> pv_AuditLogging parentRules\<rparr>
      in if pv_RetentionDays childRules > 0 then m3\<lparr>pv_RetentionDays := pv_RetentionDays childRules\<rparr> else m3)"

partial_function (option) GetEffectiveRules :: "MemoryLayerManager \<Rightarrow> string \<Rightarrow> (go_error + PrivacyRules) option" where
  "GetEffectiveRules mlm layerID =
     (case ml_Layers mlm layerID of
        None \<Rightarrow> Some (Inl (Errorf ''layer does not exist''))
      | Some layer \<Rightarrow>
          if \<not> pv_InheritFromParent (lc_Rules layer) \<or> lc_Parent layer = [] then Some (Inr (lc_Rules layer))
          else Option.bind (GetEffectiveRules mlm (lc_Parent layer)) (\<lambda>r.
            case r of
              Inl e \<Rightarrow> Some (Inl e)
            | Inr parentRules \<Rightarrow> Some (Inr (merge_rules parentRules (lc_Rules layer)))))"

definition PlaceData :: "hash32 \<Rightarrow> string \<Rightarrow> MemoryLayerManager \<Rightarrow> MemoryLayerManager outcome" where
  "PlaceData streamID layerID mlm =
     (if ml_Layers mlm layerID = None then (mlm, Some (Errorf ''layer does not exist''))
      else (mlm\<lparr>ml_DataPlacement := (ml_DataPlacement mlm)(streamID \<mapsto> layerID)\<rparr>, None))"

definition GetDataLayer :: "hash32 \<Rightarrow> MemoryLayerManager \<Rightarrow> string \<times> bool" where
  "GetDataLayer streamID mlm = (case ml_DataPlacement mlm streamID of None \<Rightarrow> ([], False) | Some l \<Rightarrow> (l, True))"

definition CanAccess :: "address \<Rightarrow> string \<Rightarrow> bool \<Rightarrow> MemoryLayerManager \<Rightarrow> (go_error + bool) option" where
  "CanAccess addr layerID isWrite mlm =
     map_option (\<lambda>r. case r of
        Inl e \<Rightarrow> Inl e
      | Inr rules \<Rightarrow>
          let policy = (if isWrite then pv_WriteAccess rules else pv_ReadAccess rules)
          in if policy = AccessPublic then Inr True
             else if policy = AccessOwnerOnly then Inr (addr = ml_Owner mlm)
             else if policy = AccessExplicitGrant \<or> policy = AccessWithProof then Inr (addr = ml_Owner mlm)
             else Inr False) (GetEffectiveRules mlm layerID)"

definition IsTrustedLayer :: "string \<Rightarrow> string \<Rightarrow> MemoryLayerManager \<Rightarrow> bool" where
  "IsTrustedLayer from_layer to_layer mlm = (case ml_Layers mlm from_layer of
      None \<Rightarrow> False
    | Some layer \<Rightarrow> list_ex (\<lambda>trusted. trusted = to_layer) (lc_TrustedLayers layer))"

definition ListLayers :: "string list \<Rightarrow> MemoryLayerManager \<Rightarrow> string list" where
  \<comment> \<open>\<open>order\<close> is the order in which the map is ranged over\<close>
  "ListLayers order mlm = filter (\<lambda>i. ml_Layers mlm i \<noteq> None) order"

section \<open>Layers as signed documents\<close>

lemma supported_LayerConfig_json: "supported (LayerConfig_json cr l)"
  by (simp add: LayerConfig_json_def PrivacyRules_json_def)

interpretation layer_doc: marshalled_document cr
  "\<lambda>l. LayerConfig_json cr (l\<lparr>lc_Signature := None\<rparr>)" lc_Owner lc_Signature
  "\<lambda>s l. l\<lparr>lc_Signature := s\<rparr>" "LayerConfig_Sign cr" "LayerConfig_Verify cr" for cr
  by unfold_locales
    (auto simp: LayerConfig_Sign_def LayerConfig_Verify_def Let_def supported_LayerConfig_json slice_bytes_def
      split: option.splits sum.splits)

section \<open>The layer forest\<close>

text \<open>
  A layer that is there inherits from layers that are there, and parent links descend along some
  rank: no cycle.
\<close>

definition layers_ok :: "(string \<Rightarrow> nat) \<Rightarrow> MemoryLayerManager \<Rightarrow> bool" where
  "layers_ok rank mlm \<longleftrightarrow> (\<forall>i l. ml_Layers mlm i = Some l \<longrightarrow> lc_ID l = i \<and>
     (lc_Parent l \<noteq> [] \<longrightarrow> ml_Layers mlm (lc_Parent l) \<noteq> None \<and> rank (lc_Parent l) < rank i))"

inductive layer_step :: "('sk, 'pk) crypto \<Rightarrow> MemoryLayerManager \<Rightarrow> MemoryLayerManager \<Rightarrow> bool" for cr where
  \<comment> \<open>a layer is added under a new name\<close>
  add: "ml_Layers mlm (lc_ID config) = None \<Longrightarrow> layer_step cr mlm (fst (AddLayer cr config mlm))"
| place: "layer_step cr mlm (fst (PlaceData streamID layerID mlm))"

definition inherits :: "MemoryLayerManager \<Rightarrow> string \<Rightarrow> string \<Rightarrow> bool" where
  "inherits mlm i p \<longleftrightarrow> (\<exists>l. ml_Layers mlm i = Some l \<and> pv_InheritFromParent (lc_Rules l) \<and> lc_Parent l = p \<and> p \<noteq> [])"

lemma layers_ok_new:
  "layers_ok (\<lambda>i. if i = LayerPublic then 0 else if i = LayerRestricted then 1 else if i = LayerPrivate then 2 else 3)
     (NewMemoryLayerManager clock owner)"
  by (auto simp: layers_ok_def NewMemoryLayerManager_def default_layer_def layer_ids)

lemma layers_ok_absent:
  assumes "layers_ok rank mlm" and "ml_Layers mlm x = None" and "ml_Layers mlm i = Some l"
  shows "i \<noteq> x \<and> (lc_Parent l \<noteq> [] \<longrightarrow> lc_Parent l \<noteq> x)"
  using assms unfolding layers_ok_def by (metis option.discI)

lemma layers_ok_step:
  assumes "layer_step cr mlm mlm'" and "layers_ok rank mlm"
  shows "\<exists>rank'. layers_ok rank' mlm'"
  using assms(1)
proof cases
  case (add config)
  define rank' where "rank' = rank(lc_ID config := Suc (rank (lc_Parent config)))"
  have "layers_ok rank' mlm'"
  proof (cases "succeeded (AddLayer cr config mlm)")
    case True
    then have mlm': "mlm' = mlm\<lparr>ml_Layers := (ml_Layers mlm)(lc_ID config \<mapsto> config)\<rparr>"
      and parent: "lc_Parent config \<noteq> [] \<Longrightarrow> ml_Layers mlm (lc_Parent config) \<noteq> None"
      using add(1) by (auto simp: AddLayer_def split: if_splits)
    have "lc_Parent config \<noteq> [] \<Longrightarrow> lc_Parent config \<noteq> lc_ID config"
      using parent add(2) by auto
    with parent assms(2) show ?thesis
      using layers_ok_absent [OF assms(2) add(2)] by (auto simp: layers_ok_def mlm' rank'_def)
  next
    case False
    then have "mlm' = mlm"
      using add(1) by (auto simp: AddLayer_def)
    then show ?thesis
      using assms(2) layers_ok_absent [OF assms(2) add(2)] by (auto simp: layers_ok_def rank'_def)
  qed
  then show ?thesis by blast
next
  case (place streamID layerID)
  then show ?thesis
    using assms(2) by (auto simp: PlaceData_def layers_ok_def)
qed

lemma layers_ok_run:
  "(layer_step cr)\<^sup>*\<^sup>* (NewMemoryLayerManager clock owner) mlm \<Longrightarrow> \<exists>rank. layers_ok rank mlm"
  by (induction rule: rtranclp_induct) (use layers_ok_new layers_ok_step in blast)+

lemma merge_rules_fields [simp]:
  "pv_EncryptionRequired (merge_rules p c) = (pv_EncryptionRequired c \<or> pv_EncryptionRequired p)"
  "pv_AuditLogging (merge_rules p c) = (pv_AuditLogging c \<or> pv_AuditLogging p)"
  "pv_ReadAccess (merge_rules p c) = (if pv_ReadAccess c \<noteq> [] then pv_ReadAccess c else pv_ReadAccess p)"
  "pv_WriteAccess (merge_rules p c) = (if pv_WriteAccess c \<noteq> [] then pv_WriteAccess c else pv_WriteAccess p)"
  by (simp_all add: merge_rules_def Let_def)

lemma inherits_cases:
  assumes "ml_Layers mlm i = Some l"
  shows "(inherits mlm)\<^sup>*\<^sup>* i j \<longleftrightarrow>
    j = i \<or> pv_InheritFromParent (lc_Rules l) \<and> lc_Parent l \<noteq> [] \<and> (inherits mlm)\<^sup>*\<^sup>* (lc_Parent l) j"
proof
  assume "(inherits mlm)\<^sup>*\<^sup>* i j"
  then show "j = i \<or> pv_InheritFromParent (lc_Rules l) \<and> lc_Parent l \<noteq> [] \<and> (inherits mlm)\<^sup>*\<^sup>* (lc_Parent l) j"
    using assms by (cases rule: converse_rtranclpE) (auto simp: inherits_def)
next
  assume "j = i \<or> pv_InheritFromParent (lc_Rules l) \<and> lc_Parent l \<noteq> [] \<and> (inherits mlm)\<^sup>*\<^sup>* (lc_Parent l) j"
  then show "(inherits mlm)\<^sup>*\<^sup>* i j"
    using assms by (auto intro: converse_rtranclp_into_rtranclp simp: inherits_def)
qed

lemma GetEffectiveRules_total:
  assumes "layers_ok rank mlm" and "ml_Layers mlm i = Some l"
  shows "\<exists>rules. GetEffectiveRules mlm i = Some (Inr rules) \<and>
    (pv_EncryptionRequired rules \<longleftrightarrow>
       (\<exists>j lj. (inherits mlm)\<^sup>*\<^sup>* i j \<and> ml_Layers mlm j = Some lj \<and> pv_EncryptionRequired (lc_Rules lj))) \<and>
    (pv_AuditLogging rules \<longleftrightarrow>
       (\<exists>j lj. (inherits mlm)\<^sup>*\<^sup>* i j \<and> ml_Layers mlm j = Some lj \<and> pv_AuditLogging (lc_Rules lj)))"
  using assms(2)
proof (induction "rank i" arbitrary: i l rule: less_induct)
  case less
  note cases = inherits_cases [OF less.prems]
  show ?case
  proof (cases "pv_InheritFromParent (lc_Rules l) \<and> lc_Parent l \<noteq> []")
    case True
    then obtain lp where "ml_Layers mlm (lc_Parent l) = Some lp" "rank (lc_Parent l) < rank i"
      using assms(1) less.prems by (auto simp: layers_ok_def)
    from less.hyps [OF this(2,1)] obtain rules where
      rules: "GetEffectiveRules mlm (lc_Parent l) = Some (Inr rules)"
      "pv_EncryptionRequired rules \<longleftrightarrow>
         (\<exists>j lj. (inherits mlm)\<^sup>*\<^sup>* (lc_Parent l) j \<and> ml_Layers mlm j = Some lj \<and> pv_EncryptionRequired (lc_Rules lj))"
      "pv_AuditLogging rules \<longleftrightarrow>
         (\<exists>j lj. (inherits mlm)\<^sup>*\<^sup>* (lc_Parent l) j \<and> ml_Layers mlm j = Some lj \<and> pv_AuditLogging (lc_Rules lj))"
      by blast
    then have "GetEffectiveRules mlm i = Some (Inr (merge_rules rules (lc_Rules l)))"
      using less.prems True by (subst GetEffectiveRules.simps) simp
    moreover have "(\<exists>j lj. (inherits mlm)\<^sup>*\<^sup>* i j \<and> ml_Layers mlm j = Some lj \<and> P lj) \<longleftrightarrow>
        P l \<or> (\<exists>j lj. (inherits mlm)\<^sup>*\<^sup>* (lc_Parent l) j \<and> ml_Layers mlm j = Some lj \<and> P lj)" for P
      unfolding cases using True less.prems by auto
    ultimately show ?thesis
      unfolding merge_rules_fields rules(2,3) [symmetric]
      by (intro exI [of _ "merge_rules rules (lc_Rules l)"]) (simp add: rules(2,3))
  next
    case False
    then have "GetEffectiveRules mlm i = Some (Inr (lc_Rules l))"
      using less.prems by (subst GetEffectiveRules.simps) auto
    moreover have "(\<exists>j lj. (inherits mlm)\<^sup>*\<^sup>* i j \<and> ml_Layers mlm j = Some lj \<and> P lj) \<longleftrightarrow> P l" for P
      unfolding cases using False less.prems by auto
    ultimately show ?thesis
      by simp
  qed
qed

section \<open>Properties\<close>

text \<open>
  C29: as long as layers are added under new names, \<open>GetEffectiveRules\<close> returns rules for every
  layer there is, encryption and audit logging are never lost on the way: they are required exactly
  when the layer or one it inherits from requires them.
\<close>

theorem effective_rules_inherited:
  assumes "(layer_step cr)\<^sup>*\<^sup>* (NewMemoryLayerManager clock owner) mlm" and "ml_Layers mlm i \<noteq> None"
  shows "\<exists>rules. GetEffectiveRules mlm i = Some (Inr rules) \<and>
    (pv_EncryptionRequired rules \<longleftrightarrow>
       (\<exists>j lj. (inherits mlm)\<^sup>*\<^sup>* i j \<and> ml_Layers mlm j = Some lj \<and> pv_EncryptionRequired (lc_Rules lj))) \<and>
    (pv_AuditLogging rules \<longleftrightarrow>
       (\<exists>j lj. (inherits mlm)\<^sup>*\<^sup>* i j \<and> ml_Layers mlm j = Some lj \<and> pv_AuditLogging (lc_Rules lj)))"
proof -
  obtain rank where "layers_ok rank mlm"
    using layers_ok_run [OF assms(1)] by blast
  then show ?thesis
    using GetEffectiveRules_total assms(2) by blast
qed

text \<open>The layers a manager starts with stay as they are.\<close>

lemma layer_run_extends:
  assumes "(layer_step cr)\<^sup>*\<^sup>* mlm mlm'"
  shows "ml_Owner mlm' = ml_Owner mlm \<and> (\<forall>i l. ml_Layers mlm i = Some l \<longrightarrow> ml_Layers mlm' i = Some l)"
  using assms
proof (induction rule: rtranclp_induct)
  case (step a b)
  from step(2) show ?case
    by cases (use step.IH in \<open>auto simp: AddLayer_def PlaceData_def\<close>)
qed simp

lemma default_effective:
  assumes "\<forall>i l. ml_Layers (NewMemoryLayerManager clock owner) i = Some l \<longrightarrow> ml_Layers mlm i = Some l"
  shows "i \<in> {LayerPublic, LayerRestricted, LayerPrivate, LayerLocal, LayerArchive} \<Longrightarrow>
    \<exists>rules. GetEffectiveRules mlm i = Some (Inr rules) \<and>
      pv_ReadAccess rules = (if i = LayerPublic then AccessPublic else if i = LayerRestricted then AccessWithProof
        else if i = LayerLocal then AccessOwnerOnly else AccessExplicitGrant) \<and>
      pv_WriteAccess rules = (if i = LayerRestricted then AccessExplicitGrant else AccessOwnerOnly)"
proof -
  note new = assms [unfolded NewMemoryLayerManager_def, simplified]
  have layers: "\<exists>l. ml_Layers mlm LayerPublic = Some l \<and> lc_Parent l = [] \<and> pv_ReadAccess (lc_Rules l) = AccessPublic \<and>
      pv_WriteAccess (lc_Rules l) = AccessOwnerOnly"
    "\<exists>l. ml_Layers mlm LayerRestricted = Some l \<and> lc_Parent l = LayerPublic \<and> pv_InheritFromParent (lc_Rules l) \<and>
      pv_ReadAccess (lc_Rules l) = AccessWithProof \<and> pv_WriteAccess (lc_Rules l) = AccessExplicitGrant"
    "\<exists>l. ml_Layers mlm LayerPrivate = Some l \<and> lc_Parent l = LayerRestricted \<and> pv_InheritFromParent (lc_Rules l) \<and>
      pv_ReadAccess (lc_Rules l) = AccessExplicitGrant \<and> pv_WriteAccess (lc_Rules l) = AccessOwnerOnly"
    "\<exists>l. ml_Layers mlm LayerLocal = Some l \<and> \<not> pv_InheritFromParent (lc_Rules l) \<and>
      pv_ReadAccess (lc_Rules l) = AccessOwnerOnly \<and> pv_WriteAccess (lc_Rules l) = AccessOwnerOnly"
    "\<exists>l. ml_Layers mlm LayerArchive = Some l \<and> \<not> pv_InheritFromParent (lc_Rules l) \<and>
      pv_ReadAccess (lc_Rules l) = AccessExplicitGrant \<and> pv_WriteAccess (lc_Rules l) = AccessOwnerOnly"
    using new by (auto simp: default_layer_def default_rules_def layer_ids)
  have pub: "\<exists>rules. GetEffectiveRules mlm LayerPublic = Some (Inr rules) \<and> pv_ReadAccess rules = AccessPublic \<and>
      pv_WriteAccess rules = AccessOwnerOnly"
    using layers(1) by (subst GetEffectiveRules.simps) auto
  then have res: "\<exists>rules. GetEffectiveRules mlm LayerRestricted = Some (Inr rules) \<and> pv_ReadAccess rules = AccessWithProof \<and>
      pv_WriteAccess rules = AccessExplicitGrant"
    using layers(2) by (subst GetEffectiveRules.simps) (auto simp: layer_ids access_policies)
  then have pri: "\<exists>rules. GetEffectiveRules mlm LayerPrivate = Some (Inr rules) \<and> pv_ReadAccess rules = AccessExplicitGrant \<and>
      pv_WriteAccess rules = AccessOwnerOnly"
    using layers(3) by (subst GetEffectiveRules.simps) (auto simp: layer_ids access_policies)
  have loc: "\<exists>rules. GetEffectiveRules mlm LayerLocal = Some (Inr rules) \<and> pv_ReadAccess rules = AccessOwnerOnly \<and>
      pv_WriteAccess rules = AccessOwnerOnly"
    using layers(4) by (subst GetEffectiveRules.simps) auto
  have arc: "\<exists>rules. GetEffectiveRules mlm LayerArchive = Some (Inr rules) \<and> pv_ReadAccess rules = AccessExplicitGrant \<and>
      pv_WriteAccess rules = AccessOwnerOnly"
    using layers(5) by (subst GetEffectiveRules.simps) auto
  show "i \<in> {LayerPublic, LayerRestricted, LayerPrivate, LayerLocal, LayerArchive} \<Longrightarrow> ?thesis"
    by (elim insertE emptyE) (use pub res pri loc arc in \<open>simp_all add: layer_ids\<close>)
qed

text \<open>
  As long as layers are added under new names, nobody but the owner reads a default layer other
  than the public one, which everybody reads, and nobody but the owner writes any of them.
\<close>

theorem default_layers_protected:
  assumes "(layer_step cr)\<^sup>*\<^sup>* (NewMemoryLayerManager clock owner) mlm"
    and "i \<in> {LayerPublic, LayerRestricted, LayerPrivate, LayerLocal, LayerArchive}"
  shows "CanAccess addr i isWrite mlm = Some (Inr (addr = owner \<or> i = LayerPublic \<and> \<not> isWrite))"
proof -
  have ext: "ml_Owner mlm = owner"
    "\<forall>i l. ml_Layers (NewMemoryLayerManager clock owner) i = Some l \<longrightarrow> ml_Layers mlm i = Some l"
    using layer_run_extends [OF assms(1)] by (simp_all add: NewMemoryLayerManager_def)
  from default_effective [OF ext(2) assms(2)] obtain rules where
    "GetEffectiveRules mlm i = Some (Inr rules)"
    "pv_ReadAccess rules = (if i = LayerPublic then AccessPublic else if i = LayerRestricted then AccessWithProof
        else if i = LayerLocal then AccessOwnerOnly else AccessExplicitGrant)"
    "pv_WriteAccess rules = (if i = LayerRestricted then AccessExplicitGrant else AccessOwnerOnly)"
    by blast
  then show ?thesis
    using ext(1) by (auto simp: CanAccess_def Let_def access_policies)
qed

text \<open>
  \<open>AddLayer\<close> checks a configuration's signature against the owner the configuration itself
  names, and not against the manager's, and replaces a layer of the same name: anybody can redefine
  the private layer, open it to all readers, or make it its own parent, after which
  \<open>GetEffectiveRules\<close> and \<open>CanAccess\<close> never return.
\<close>

theorem foreign_layer_replaces_private:
  assumes "signature_recovers cr" and "Sign cr (hash_json cr (LayerConfig_json cr (config\<lparr>lc_Signature := None\<rparr>))) key \<noteq> None"
    and "key_address cr key = lc_Owner config" and "lc_ID config = LayerPrivate"
    and "lc_Parent config \<noteq> [] \<longrightarrow> ml_Layers mlm (lc_Parent config) \<noteq> None"
  shows "\<exists>signed mlm'. LayerConfig_Sign cr key config = (signed, None) \<and> AddLayer cr signed mlm = (mlm', None) \<and>
    (\<not> pv_InheritFromParent (lc_Rules config) \<and> pv_ReadAccess (lc_Rules config) = AccessPublic \<longrightarrow>
       (\<forall>addr. CanAccess addr LayerPrivate False mlm' = Some (Inr True))) \<and>
    (pv_InheritFromParent (lc_Rules config) \<and> lc_Parent config = LayerPrivate \<longrightarrow>
       (\<forall>addr isWrite. GetEffectiveRules mlm' LayerPrivate = None \<and> CanAccess addr LayerPrivate isWrite mlm' = None))"
proof -
  obtain sig where "Sign cr (hash_json cr (LayerConfig_json cr (config\<lparr>lc_Signature := None\<rparr>))) key = Some sig"
    using assms(2) by blast
  then have sign: "LayerConfig_Sign cr key config = (config\<lparr>lc_Signature := Some sig\<rparr>, None)"
    by (rule layer_doc.sign_complete [OF assms(3)])
  let ?mlm = "mlm\<lparr>ml_Layers := (ml_Layers mlm)(LayerPrivate \<mapsto> config\<lparr>lc_Signature := Some sig\<rparr>)\<rparr>"
  have add: "AddLayer cr (config\<lparr>lc_Signature := Some sig\<rparr>) mlm = (?mlm, None)"
    using layer_doc.sign_then_verify [OF assms(1) sign] assms(4,5) by (auto simp: AddLayer_def)
  have "GetEffectiveRules ?mlm LayerPrivate = Some (Inr (lc_Rules config))" if "\<not> pv_InheritFromParent (lc_Rules config)"
    using that by (subst GetEffectiveRules.simps) simp
  then have "CanAccess addr LayerPrivate False ?mlm = Some (Inr True)"
    if "\<not> pv_InheritFromParent (lc_Rules config)" "pv_ReadAccess (lc_Rules config) = AccessPublic" for addr
    using that by (simp add: CanAccess_def)
  moreover have "GetEffectiveRules ?mlm LayerPrivate = None"
    if "pv_InheritFromParent (lc_Rules config)" "lc_Parent config = LayerPrivate"
  proof (rule ccontr)
    assume "GetEffectiveRules ?mlm LayerPrivate \<noteq> None"
    then obtain r where r: "GetEffectiveRules ?mlm LayerPrivate = Some r"
      by blast
    have "\<not> (?mlm = ?mlm \<and> LayerPrivate = LayerPrivate)"
      by (rule GetEffectiveRules.raw_induct [OF _ r, where P = "\<lambda>m i r. \<not> (m = ?mlm \<and> i = LayerPrivate)"])
        (use that in \<open>auto simp: layer_ids bind_eq_Some_conv split: option.splits if_splits\<close>, blast)
    then show False by simp
  qed
  ultimately show ?thesis
    using sign add by (intro exI conjI) (auto simp: CanAccess_def)
qed

section \<open>Witnesses\<close>

definition demo_mlm :: MemoryLayerManager where
  "demo_mlm = NewMemoryLayerManager (\<lambda>_. 0) [1]"

definition demo_layer :: LayerConfig where
  "demo_layer = default_layer LayerPrivate [] 0 [2] (default_rules\<lparr>pv_ReadAccess := AccessPublic\<rparr>)"

theorem effective_rules_inherited_witness: "\<exists>rules. GetEffectiveRules demo_mlm LayerPrivate = Some (Inr rules)"
  using effective_rules_inherited [of demo_crypto "\<lambda>_. 0" "[1]" demo_mlm LayerPrivate]
  by (auto simp: demo_mlm_def NewMemoryLayerManager_def layer_ids)

theorem default_layers_protected_witness: "CanAccess [2] LayerPrivate False demo_mlm = Some (Inr False)"
  using default_layers_protected [of demo_crypto "\<lambda>_. 0" "[1]" demo_mlm LayerPrivate "[2]" False]
  by (simp add: demo_mlm_def layer_ids)

theorem foreign_layer_replaces_private_witness:
  "\<exists>signed mlm'. LayerConfig_Sign demo_crypto [2] demo_layer = (signed, None) \<and> AddLayer demo_crypto signed demo_mlm = (mlm', None) \<and>
     CanAccess [9] LayerPrivate False mlm' = Some (Inr True)"
  using foreign_layer_replaces_private [OF demo_crypto_recovers, of demo_layer "[2]" demo_mlm]
  by (auto simp: demo_layer_def default_layer_def default_rules_def)

end
