(* ===== verification/Disclosure.thy ===== *)
theory Disclosure
  imports Signed_Document
begin

text \<open>
  Selective disclosure (\<open>identity/disclosure.go\<close>): signed proofs about a stream, hash commitments,
  Merkle membership proofs, and the manager that stores, verifies and revokes proofs. Index
  expressions of the source that may be out of range are \<open>None\<close>; clock readings are arguments.
\<close>

section \<open>Data\<close>

definition ProofExistence :: string where "ProofExistence = ''existence''"
definition ProofRange :: string where "ProofRange = ''range''"
definition ProofMembership :: string where "ProofMembership = ''membership''"
definition ProofEquality :: string where "ProofEquality = ''equality''"
definition ProofComposite :: string where "ProofComposite = ''composite''"
definition ProofPredicate :: string where "ProofPredicate = ''predicate''"

record SelectiveDisclosureProof =
  sdp_ID :: hash32
  sdp_Type :: string
  sdp_Prover :: address
  sdp_StreamID :: hash32
  sdp_Commitment :: slice
  sdp_Claim :: string
  sdp_ProofData :: slice
  sdp_Created :: int64
  sdp_ValidUntil :: int64
  sdp_Revocable :: bool
  sdp_Revoked :: bool
  sdp_RevokedAt :: int64
  sdp_Nonce :: slice
  sdp_Signature :: slice

record RangeProofData =
  rpd_Min :: int
  rpd_Max :: int
  rpd_ValueCommitment :: bytes
  rpd_RangeCommitment :: bytes
  rpd_Challenge :: bytes
  rpd_Response :: bytes

record MembershipProofData =
  mpd_SetCommitment :: bytes
  mpd_MerkleRoot :: bytes
  mpd_MerklePath :: "bytes list"
  mpd_PathIndices :: "bool list"
  mpd_LeafCommitment :: bytes

record VerificationEntry =
  ve_ProofID :: hash32
  ve_Verifier :: address
  ve_Timestamp :: int64
  ve_Result :: bool

record ProofManager =
  pm_Owner :: address
  pm_Proofs :: "hash32 \<Rightarrow> SelectiveDisclosureProof option"
  pm_ProofsByStream :: "hash32 \<Rightarrow> hash32 list option"
  pm_ProofsByType :: "string \<Rightarrow> hash32 list option"
  pm_VerificationLog :: "VerificationEntry list"

definition SelectiveDisclosureProof_json :: "('sk, 'pk) crypto \<Rightarrow> SelectiveDisclosureProof \<Rightarrow> json" where
  "SelectiveDisclosureProof_json cr p = JObj (
     [(''id'', JBytes (sdp_ID p)), (''type'', JStr (sdp_Type p)), (''prover'', JAddr cr (sdp_Prover p)),
      (''stream_id'', JBytes (sdp_StreamID p)), (''commitment'', JSlice (sdp_Commitment p)), (''claim'', JStr (sdp_Claim p)),
      (''proof_data'', JSlice (sdp_ProofData p)), (''created'', JInt (sdp_Created p))]
     @ omitempty (sdp_ValidUntil p = 0) ''valid_until'' (JInt (sdp_ValidUntil p))
     @ [(''revocable'', JBool (sdp_Revocable p)), (''revoked'', JBool (sdp_Revoked p))]
     @ omitempty (sdp_RevokedAt p = 0) ''revoked_at'' (JInt (sdp_RevokedAt p))
     @ [(''nonce'', JSlice (sdp_Nonce p)), (''signature'', JSlice (sdp_Signature p))])"

definition RangeProofData_json :: "RangeProofData \<Rightarrow> json" where
  "RangeProofData_json d = JObj
     [(''min'', JInt (rpd_Min d)), (''max'', JInt (rpd_Max d)), (''value_commitment'', JSlice (Some (rpd_ValueCommitment d))),
      (''range_commitment'', JSlice (Some (rpd_RangeCommitment d))), (''challenge'', JSlice (Some (rpd_Challenge d))),
      (''response'', JSlice (Some (rpd_Response d)))]"

text \<open>\<open>MerklePath\<close> and \<open>PathIndices\<close> are built by \<open>append\<close> from nil: empty ones are written as null.\<close>

definition MembershipProofData_json :: "MembershipProofData \<Rightarrow> json" where
  "MembershipProofData_json d = JObj
     [(''set_commitment'', JSlice (Some (mpd_SetCommitment d))), (''merkle_root'', JSlice (Some (mpd_MerkleRoot d))),
      (''merkle_path'', if mpd_MerklePath d = [] then JNull else JArr (map (\<lambda>b. JSlice (Some b)) (mpd_MerklePath d))),
      (''path_indices'', if mpd_PathIndices d = [] then JNull else JArr (map JBool (mpd_PathIndices d))),
      (''leaf_commitment'', JSlice (Some (mpd_LeafCommitment d)))]"

section \<open>Proofs\<close>

definition SelectiveDisclosureProof_GenerateID :: "('sk, 'pk) crypto \<Rightarrow> SelectiveDisclosureProof \<Rightarrow> SelectiveDisclosureProof" where
  "SelectiveDisclosureProof_GenerateID cr p = p\<lparr>sdp_ID := hash_json cr (JObj
     [(''Type'', JStr (sdp_Type p)), (''Prover'', JAddr cr (sdp_Prover p)), (''StreamID'', JBytes (sdp_StreamID p)),
      (''Claim'', JStr (sdp_Claim p)), (''Created'', JInt (sdp_Created p)), (''Nonce'', JSlice (sdp_Nonce p))])\<rparr>"

definition SelectiveDisclosureProof_Sign ::
  "('sk, 'pk) crypto \<Rightarrow> 'sk \<Rightarrow> SelectiveDisclosureProof \<Rightarrow> SelectiveDisclosureProof outcome" where
  "SelectiveDisclosureProof_Sign cr key p =
     (if key_address cr key \<noteq> sdp_Prover p then (p, Some (Errorf ''signer is not prover''))
      else let p0 = p\<lparr>sdp_Signature := None\<rparr> in
        case sign_body cr key (SelectiveDisclosureProof_json cr p0) of
          Inl e \<Rightarrow> (p0, Some e)
        | Inr sig \<Rightarrow> (p0\<lparr>sdp_Signature := Some sig\<rparr>, None))"

definition SelectiveDisclosureProof_Verify :: "('sk, 'pk) crypto \<Rightarrow> SelectiveDisclosureProof \<Rightarrow> bool" where
  "SelectiveDisclosureProof_Verify cr p =
     (if slice_bytes (sdp_Signature p) = [] then False
      else recover_body cr (SelectiveDisclosureProof_json cr (p\<lparr>sdp_Signature := None\<rparr>)) (slice_bytes (sdp_Signature p))
             = Some (sdp_Prover p))"

definition SelectiveDisclosureProof_IsValid :: "('sk, 'pk) crypto \<Rightarrow> int64 \<Rightarrow> SelectiveDisclosureProof \<Rightarrow> bool" where
  "SelectiveDisclosureProof_IsValid cr now p =
     (if sdp_Revoked p then False
      else if sdp_ValidUntil p > 0 \<and> now > sdp_ValidUntil p then False
      else SelectiveDisclosureProof_Verify cr p)"

definition SelectiveDisclosureProof_Revoke :: "int64 \<Rightarrow> SelectiveDisclosureProof \<Rightarrow> SelectiveDisclosureProof" where
  "SelectiveDisclosureProof_Revoke now p = p\<lparr>sdp_Revoked := True, sdp_RevokedAt := now\<rparr>"

definition CreateCommitment :: "('sk, 'pk) crypto \<Rightarrow> bytes \<Rightarrow> bytes \<Rightarrow> bytes" where
  "CreateCommitment cr v blinding = Sha256 cr (v @ blinding)"

definition VerifyCommitment :: "('sk, 'pk) crypto \<Rightarrow> bytes \<Rightarrow> bytes \<Rightarrow> bytes \<Rightarrow> bool" where
  "VerifyCommitment cr commitment v blinding =
     (let expected = CreateCommitment cr v blinding in
      if length commitment \<noteq> length expected then False
      else list_all (\<lambda>(a, b). a = b) (zip commitment expected))"

text \<open>What the three constructors share: a fresh proof, its identifier and its signature.\<close>

definition new_proof ::
  "('sk, 'pk) crypto \<Rightarrow> 'sk \<Rightarrow> string \<Rightarrow> hash32 \<Rightarrow> bytes \<Rightarrow> string \<Rightarrow> slice \<Rightarrow> int64 \<Rightarrow> int64 \<Rightarrow> bytes
    \<Rightarrow> go_error + SelectiveDisclosureProof" where
  "new_proof cr key ptype streamID commitment claim proofData now validUntil seed =
     (case SelectiveDisclosureProof_Sign cr key (SelectiveDisclosureProof_GenerateID cr
        \<lparr>sdp_ID = zero32, sdp_Type = ptype, sdp_Prover = key_address cr key, sdp_StreamID = streamID,
         sdp_Commitment = Some commitment, sdp_Claim = claim, sdp_ProofData = proofData, sdp_Created = now,
         sdp_ValidUntil = validUntil, sdp_Revocable = True, sdp_Revoked = False, sdp_RevokedAt = 0,
         sdp_Nonce = Some (take 16 (Keccak256 cr (seed @ bytes_of_string (dec_int now)))), sdp_Signature = None\<rparr>) of
        (_, Some e) \<Rightarrow> Inl e
      | (p, None) \<Rightarrow> Inr p)"

definition CreateExistenceProof ::
  "('sk, 'pk) crypto \<Rightarrow> int64 \<Rightarrow> 'sk \<Rightarrow> hash32 \<Rightarrow> bytes \<Rightarrow> int64 \<Rightarrow> go_error + SelectiveDisclosureProof \<times> bytes" where
  "CreateExistenceProof cr now key streamID data validUntil =
     (let blinding = copy_into 32 (take 32 (Keccak256 cr (data @ bytes_of_string ''blinding'')));
          commitment = CreateCommitment cr data blinding
      in case new_proof cr key ProofExistence streamID commitment ''data_exists'' None now validUntil data of
           Inl e \<Rightarrow> Inl e
         | Inr p \<Rightarrow> Inr (p, blinding))"

definition abs_bytes :: "int \<Rightarrow> bytes" where
  \<comment> \<open>\<open>big.Int.Bytes\<close>: the absolute value, big-endian\<close>
  "abs_bytes i = big_bytes (nat \<bar>i\<bar>)"

definition CreateRangeProof ::
  "('sk, 'pk) crypto \<Rightarrow> int64 \<Rightarrow> 'sk \<Rightarrow> hash32 \<Rightarrow> int \<Rightarrow> int \<Rightarrow> int \<Rightarrow> string \<Rightarrow> int64 \<Rightarrow> go_error + SelectiveDisclosureProof" where
  "CreateRangeProof cr now key streamID v lo hi claim validUntil =
     (if v < lo \<or> v > hi then Inl (Errorf ''value is not in range'')
      else
        let valueBytes = abs_bytes v;
            blinding = take 32 (Keccak256 cr (valueBytes @ bytes_of_string ''range_blinding''));
            valueCommitment = CreateCommitment cr valueBytes blinding;
            rangeCommitment = CreateCommitment cr (abs_bytes lo @ abs_bytes hi) blinding;
            challenge = Keccak256 cr (valueCommitment @ rangeCommitment);
            response = Keccak256 cr (challenge @ blinding);
            d = \<lparr>rpd_Min = lo, rpd_Max = hi, rpd_ValueCommitment = valueCommitment, rpd_RangeCommitment = rangeCommitment,
                 rpd_Challenge = challenge, rpd_Response = response\<rparr>
        in new_proof cr key ProofRange streamID valueCommitment claim (json_bytes (RangeProofData_json d)) now validUntil valueBytes)"

section \<open>Merkle proofs\<close>

function pow2_above :: "nat \<Rightarrow> nat \<Rightarrow> nat" where
  \<comment> \<open>\<open>for n < len(leaves) { n *= 2 }\<close>, from \<open>n = 1\<close>\<close>
  "pow2_above len n = (if 0 < n \<and> n < len then pow2_above len (2 * n) else n)"
  by pat_completeness auto
termination
  by (relation "measure (\<lambda>(len, n). len - n)") auto

declare pow2_above.simps [simp del]

text \<open>One level: the hashes of the pairs from position \<open>i\<close> on, and the sibling of the current index.\<close>

fun merkle_pairs :: "(bytes \<Rightarrow> bytes) \<Rightarrow> nat \<Rightarrow> nat \<Rightarrow> bytes list \<Rightarrow> (bytes list \<times> bytes list \<times> bool list) option" where
  "merkle_pairs h i current [] = Some ([], [], [])"
| "merkle_pairs h i current [x] = None"
| "merkle_pairs h i current (left # right # rest) =
     (case merkle_pairs h (i + 2) current rest of
        None \<Rightarrow> None
      | Some (next, path, indices) \<Rightarrow>
          let (p, b) = (if i = current \<or> i + 1 = current
                        then (if current mod 2 = 0 then ([right], [True]) else ([left], [False])) else ([], []))
          in Some (h (left @ right) # next, p @ path, b @ indices))"

lemma merkle_pairs_length: "merkle_pairs h i current level = Some (next, path, indices) \<Longrightarrow> 2 * length next = length level"
  by (induction h i current level arbitrary: "next" path indices rule: merkle_pairs.induct)
    (auto split: option.splits prod.splits if_splits)

function merkle_loop ::
  "(bytes \<Rightarrow> bytes) \<Rightarrow> bytes list \<Rightarrow> nat \<Rightarrow> bytes list \<Rightarrow> bool list \<Rightarrow> (bytes \<times> bytes list \<times> bool list) option" where
  "merkle_loop h level current path indices =
     (if length level > 1 then
        (case merkle_pairs h 0 current level of
           None \<Rightarrow> None
         | Some (next, p, b) \<Rightarrow> merkle_loop h next (current div 2) (path @ p) (indices @ b))
      else if level = [] then None else Some (hd level, path, indices))"
  by pat_completeness auto
termination
  by (relation "measure (\<lambda>(h, level, _). length level)") (auto dest: merkle_pairs_length)

declare merkle_loop.simps [simp del]

definition computeMerkleProof :: "('sk, 'pk) crypto \<Rightarrow> bytes list \<Rightarrow> nat \<Rightarrow> (bytes \<times> bytes list \<times> bool list) option" where
  \<comment> \<open>no leaves: three nil results\<close>
  "computeMerkleProof cr leaves index =
     (if leaves = [] then Some ([], [], [])
      else merkle_loop (Keccak256 cr)
        (leaves @ replicate (pow2_above (length leaves) 1 - length leaves) (Keccak256 cr [])) index [] [])"

fun merkle_fold :: "(bytes \<Rightarrow> bytes) \<Rightarrow> bytes \<Rightarrow> bytes list \<Rightarrow> bool list \<Rightarrow> bytes option" where
  "merkle_fold h current [] indices = Some current"
| "merkle_fold h current (sibling # path) [] = None"
| "merkle_fold h current (sibling # path) (b # indices) =
     merkle_fold h (h (if b then current @ sibling else sibling @ current)) path indices"

definition VerifyMerkleProof :: "('sk, 'pk) crypto \<Rightarrow> bytes \<Rightarrow> bytes \<Rightarrow> bytes list \<Rightarrow> bool list \<Rightarrow> bool option" where
  "VerifyMerkleProof cr leaf root path pathIndices =
     map_option (\<lambda>current. if length current \<noteq> length root then False
        else list_all (\<lambda>(a, b). a = b) (zip current root)) (merkle_fold (Keccak256 cr) leaf path pathIndices)"

fun find_index :: "bytes \<Rightarrow> bytes list \<Rightarrow> nat option" where
  "find_index element [] = None"
| "find_index element (e # es) = (if e = element then Some 0 else map_option Suc (find_index element es))"

definition CreateMembershipProof ::
  "('sk, 'pk) crypto \<Rightarrow> int64 \<Rightarrow> 'sk \<Rightarrow> hash32 \<Rightarrow> bytes \<Rightarrow> bytes list \<Rightarrow> string \<Rightarrow> int64 \<Rightarrow> go_error + SelectiveDisclosureProof" where
  "CreateMembershipProof cr now key streamID element els claim validUntil =
     (case find_index element els of
        None \<Rightarrow> Inl (Errorf ''element not in set'')
      | Some elementIndex \<Rightarrow>
          (case computeMerkleProof cr (map (Keccak256 cr) els) elementIndex of
             None \<Rightarrow> Inl (Panic ''index out of range'')
           | Some (root, path, pathIndices) \<Rightarrow>
               let blinding = take 32 (Keccak256 cr (element @ bytes_of_string ''membership_blinding''));
                   leafCommitment = CreateCommitment cr element blinding;
                   d = \<lparr>mpd_SetCommitment = CreateCommitment cr root blinding, mpd_MerkleRoot = root, mpd_MerklePath = path,
                        mpd_PathIndices = pathIndices, mpd_LeafCommitment = leafCommitment\<rparr>
               in new_proof cr key ProofMembership streamID leafCommitment claim (json_bytes (MembershipProofData_json d))
                    now validUntil element))"

section \<open>The manager\<close>

definition NewProofManager :: "address \<Rightarrow> ProofManager" where
  "NewProofManager owner = \<lparr>pm_Owner = owner, pm_Proofs = Map.empty, pm_ProofsByStream = Map.empty,
     pm_ProofsByType = Map.empty, pm_VerificationLog = []\<rparr>"

definition proof_add :: "SelectiveDisclosureProof \<Rightarrow> ProofManager \<Rightarrow> ProofManager" where
  "proof_add p pm = pm\<lparr>pm_Proofs := (pm_Proofs pm)(sdp_ID p \<mapsto> p),
     pm_ProofsByStream := push (sdp_StreamID p) (sdp_ID p) (pm_ProofsByStream pm),
     pm_ProofsByType := push (sdp_Type p) (sdp_ID p) (pm_ProofsByType pm)\<rparr>"

definition AddProof :: "('sk, 'pk) crypto \<Rightarrow> SelectiveDisclosureProof \<Rightarrow> ProofManager \<Rightarrow> ProofManager outcome" where
  "AddProof cr p pm =
     (if \<not> SelectiveDisclosureProof_Verify cr p then (pm, Some (Errorf ''invalid proof signature''))
      else (proof_add p pm, None))"

definition GetProof :: "hash32 \<Rightarrow> ProofManager \<Rightarrow> SelectiveDisclosureProof option" where
  "GetProof proofID pm = pm_Proofs pm proofID"

definition VerifyProof ::
  "('sk, 'pk) crypto \<Rightarrow> int64 \<Rightarrow> int64 \<Rightarrow> hash32 \<Rightarrow> address \<Rightarrow> ProofManager \<Rightarrow> ProofManager \<times> (go_error + bool)" where
  "VerifyProof cr t1 t2 proofID verifier pm =
     (case pm_Proofs pm proofID of
        None \<Rightarrow> (pm, Inl (Errorf ''proof not found''))
      | Some p \<Rightarrow>
          let result = SelectiveDisclosureProof_IsValid cr t1 p
          in (pm\<lparr>pm_VerificationLog := pm_VerificationLog pm @ [\<lparr>ve_ProofID = proofID, ve_Verifier = verifier,
                 ve_Timestamp = t2, ve_Result = result\<rparr>]\<rparr>, Inr result))"

definition RevokeProof :: "int64 \<Rightarrow> hash32 \<Rightarrow> address \<Rightarrow> ProofManager \<Rightarrow> ProofManager outcome" where
  "RevokeProof now proofID revoker pm =
     (case pm_Proofs pm proofID of
        None \<Rightarrow> (pm, Some (Errorf ''proof not found''))
      | Some p \<Rightarrow>
          if \<not> sdp_Revocable p then (pm, Some (Errorf ''proof is not revocable''))
          else if revoker \<noteq> sdp_Prover p then (pm, Some (Errorf ''only prover can revoke''))
          else (pm\<lparr>pm_Proofs := (pm_Proofs pm)(proofID \<mapsto> SelectiveDisclosureProof_Revoke now p)\<rparr>, None))"

definition GetProofsForStream ::
  "('sk, 'pk) crypto \<Rightarrow> int64 \<Rightarrow> hash32 \<Rightarrow> ProofManager \<Rightarrow> SelectiveDisclosureProof list" where
  "GetProofsForStream cr now streamID pm =
     concat (map (\<lambda>i. case pm_Proofs pm i of
                    None \<Rightarrow> [] | Some p \<Rightarrow> if SelectiveDisclosureProof_IsValid cr now p then [p] else [])
       (slot (pm_ProofsByStream pm) streamID))"

definition ExportProofs :: "ProofManager \<Rightarrow> go_error + bytes" where
  \<comment> \<open>\<open>json.Marshal\<close> of a map keyed by byte arrays\<close>
  "ExportProofs pm = (case json_bytes JUnsupported of None \<Rightarrow> Inl marshal_error | Some data \<Rightarrow> Inr data)"

section \<open>Numbers\<close>

definition IntToBytes :: "int64 \<Rightarrow> bytes" where
  "IntToBytes n = be_bytes 8 (nat (n mod 2 ^ 64))"

definition BytesToInt :: "bytes \<Rightarrow> int64" where
  \<comment> \<open>\<open>binary.BigEndian.Uint64\<close> reads the first eight bytes\<close>
  "BytesToInt b = (let b' = (if length b < 8 then left_pad 8 b else b) in wrap64 (int (be_nat (take 8 b'))))"

section \<open>Signed proofs and indexes\<close>

lemma supported_SelectiveDisclosureProof_json: "supported (SelectiveDisclosureProof_json cr p)"
  by (simp add: SelectiveDisclosureProof_json_def)

interpretation disclosure_doc: marshalled_document cr
  "\<lambda>p. SelectiveDisclosureProof_json cr (p\<lparr>sdp_Signature := None\<rparr>)" sdp_Prover sdp_Signature
  "\<lambda>s p. p\<lparr>sdp_Signature := s\<rparr>" "SelectiveDisclosureProof_Sign cr" "SelectiveDisclosureProof_Verify cr" for cr
  by unfold_locales
    (auto simp: SelectiveDisclosureProof_Sign_def SelectiveDisclosureProof_Verify_def Let_def
      supported_SelectiveDisclosureProof_json slice_bytes_def split: option.splits sum.splits)

interpretation by_stream: id_index pm_Proofs "\<lambda>pm. slot (pm_ProofsByStream pm)" sdp_ID sdp_StreamID proof_add
  by unfold_locales (simp_all add: proof_add_def)

interpretation by_type: id_index pm_Proofs "\<lambda>pm. slot (pm_ProofsByType pm)" sdp_ID sdp_Type proof_add
  by unfold_locales (simp_all add: proof_add_def)

section \<open>Merkle proofs verify\<close>

lemma all_eq_zip: "length xs = length ys \<Longrightarrow> list_all (\<lambda>(a, b). a = b) (zip xs ys) \<longleftrightarrow> xs = ys"
  by (induction xs ys rule: list_induct2) auto

lemma VerifyMerkleProof_iff:
  "VerifyMerkleProof cr leaf root path indices = Some True \<longleftrightarrow> merkle_fold (Keccak256 cr) leaf path indices = Some root"
  by (auto simp: VerifyMerkleProof_def all_eq_zip split: if_splits)

lemma VerifyCommitment_iff: "VerifyCommitment cr c v b \<longleftrightarrow> c = CreateCommitment cr v b"
  by (auto simp: VerifyCommitment_def Let_def all_eq_zip)

text \<open>Above the current index nothing is recorded; at it, the sibling and the side.\<close>

lemma merkle_pairs_beyond:
  assumes "even (length level)" and "current < i"
  shows "\<exists>next. merkle_pairs h i current level = Some (next, [], [])"
  using assms by (induction h i current level rule: merkle_pairs.induct) (auto split: option.splits)

lemma merkle_pairs_at:
  assumes "even (length level)" and "even i" and "i \<le> current" and "current < i + length level"
  shows "\<exists>next sibling. merkle_pairs h i current level = Some (next, [sibling], [even current]) \<and>
    next ! ((current - i) div 2) =
      h (if even current then level ! (current - i) @ sibling else sibling @ level ! (current - i))"
  using assms
proof (induction h i current level rule: merkle_pairs.induct)
  case (3 h i current left right rest)
  show ?case
  proof (cases "current = i \<or> current = Suc i")
    case True
    then obtain "next" where "merkle_pairs h (i + 2) current rest = Some (next, [], [])"
      using merkle_pairs_beyond [of rest current "i + 2" h] 3(2) by auto
    then show ?thesis
      using True 3(3) by (auto simp: even_iff_mod_2_eq_zero [symmetric] odd_iff_mod_2_eq_one)
  next
    case False
    then have "i + 2 \<le> current"
      using 3(4) by linarith
    moreover from this obtain "next" sibling where rest:
      "merkle_pairs h (i + 2) current rest = Some (next, [sibling], [even current])"
      "next ! ((current - (i + 2)) div 2) =
        h (if even current then rest ! (current - (i + 2)) @ sibling else sibling @ rest ! (current - (i + 2)))"
      using 3(1) 3(2,3,5) by auto
    moreover have "(current - i) div 2 = Suc ((current - (i + 2)) div 2)" "current - i = Suc (Suc (current - (i + 2)))"
      using \<open>i + 2 \<le> current\<close> by linarith+
    ultimately show ?thesis
      using False by (auto simp del: nth_Cons_numeral)
  qed
qed auto

lemma merkle_loop_verifies:
  assumes "length level = 2 ^ k" and "current < 2 ^ k"
  shows "\<exists>root p b. merkle_loop h level current path indices = Some (root, path @ p, indices @ b) \<and> length p = k \<and> length b = k \<and>
    merkle_fold h (level ! current) p b = Some root"
  using assms
proof (induction k arbitrary: level current path indices)
  case 0
  then obtain x where "level = [x]"
    by (cases level) auto
  with 0 show ?case
    by (simp add: merkle_loop.simps)
next
  case (Suc k)
  obtain "next" sibling where step: "merkle_pairs h 0 current level = Some (next, [sibling], [even current])"
    "next ! (current div 2) = h (if even current then level ! current @ sibling else sibling @ level ! current)"
    using merkle_pairs_at [of level 0 current h] Suc.prems by auto
  have "length next = 2 ^ k" and "current div 2 < 2 ^ k"
    using merkle_pairs_length [OF step(1)] Suc.prems by auto
  then obtain root p b where rest: "merkle_loop h next (current div 2) (path @ [sibling]) (indices @ [even current]) =
      Some (root, (path @ [sibling]) @ p, (indices @ [even current]) @ b)" "length p = k" "length b = k"
    "merkle_fold h (next ! (current div 2)) p b = Some root"
    using Suc.IH by blast
  have "(0::nat) < 2 ^ k" "length level = 2 * 2 ^ k"
    using Suc.prems(1) by simp_all
  then have "length level > 1"
    by linarith
  then have "merkle_loop h level current path indices =
      Some (root, path @ (sibling # p), indices @ (even current # b))"
    by (subst merkle_loop.simps) (simp add: step(1) rest(1))
  moreover have "merkle_fold h (level ! current) (sibling # p) (even current # b) = Some root"
    using rest(4) step(2) by simp
  ultimately show ?case
    using rest(2,3) by (intro exI [of _ root] exI [of _ "sibling # p"] exI [of _ "even current # b"]) simp
qed

lemma pow2_above_pow: "\<exists>k. pow2_above len (2 ^ j) = 2 ^ k \<and> len \<le> 2 ^ k"
proof (induction "len - 2 ^ j" arbitrary: j rule: less_induct)
  case less
  show ?case
  proof (cases "2 ^ j < len")
    case True
    then have "len - 2 ^ Suc j < len - 2 ^ j"
      by (simp add: diff_less_mono2)
    from less [OF this] show ?thesis
      using True by (simp add: pow2_above.simps [of len "2 ^ j"])
  next
    case False
    then show ?thesis
      by (intro exI [of _ j]) (simp add: pow2_above.simps)
  qed
qed

lemma computeMerkleProof_ok:
  assumes "index < length leaves"
  shows "\<exists>root path indices. computeMerkleProof cr leaves index = Some (root, path, indices) \<and>
    length path = length indices \<and> VerifyMerkleProof cr (leaves ! index) root path indices = Some True"
proof -
  let ?n = "pow2_above (length leaves) 1"
  let ?level = "leaves @ replicate (?n - length leaves) (Keccak256 cr [])"
  obtain k where k: "?n = 2 ^ k" "length leaves \<le> 2 ^ k"
    using pow2_above_pow [of "length leaves" 0] by auto
  then have "length ?level = 2 ^ k" "index < 2 ^ k"
    using assms by auto
  from merkle_loop_verifies [OF this, of "Keccak256 cr" "[]" "[]"] obtain root p b where
    "merkle_loop (Keccak256 cr) ?level index [] [] = Some (root, p, b)" "length p = k" "length b = k"
    "merkle_fold (Keccak256 cr) (?level ! index) p b = Some root"
    by auto
  moreover have "?level ! index = leaves ! index" "leaves \<noteq> []"
    using assms by (auto simp: nth_append)
  ultimately show ?thesis
    by (auto simp: computeMerkleProof_def VerifyMerkleProof_iff)
qed

text \<open>
  The Merkle proof of a leaf verifies. For every non-empty list of leaves and every index into
  it, \<open>computeMerkleProof\<close> returns without running out of range, its path is as long as its list of
  sides, and \<open>VerifyMerkleProof\<close> accepts the leaf against the root.
\<close>

theorem computeMerkleProof_verifies:
  assumes "index < length leaves"
  shows "\<exists>root path indices. computeMerkleProof cr leaves index = Some (root, path, indices) \<and>
    length path = length indices \<and> VerifyMerkleProof cr (leaves ! index) root path indices = Some True"
  using computeMerkleProof_ok [OF assms] .

text \<open>The hash inputs of a verification.\<close>

fun merkle_inputs :: "(bytes \<Rightarrow> bytes) \<Rightarrow> bytes \<Rightarrow> bytes list \<Rightarrow> bool list \<Rightarrow> bytes set" where
  "merkle_inputs h current (sibling # path) (b # indices) =
     (let x = (if b then current @ sibling else sibling @ current) in insert x (merkle_inputs h (h x) path indices))"
| "merkle_inputs h current _ _ = {}"

lemma merkle_fold_binds:
  assumes "merkle_fold h c p b = Some root" and "merkle_fold h c' p' b = Some root" and "length p = length p'"
    and "inj_on h (merkle_inputs h c p b \<union> merkle_inputs h c' p' b)"
    and "\<And>x y. length (h x) = length (h y)" and "length c = length c'"
    and "list_all2 (\<lambda>x y. length x = length y) p p'"
  shows "c = c' \<and> p = p'"
  using assms
proof (induction h c p b arbitrary: c' p' rule: merkle_fold.induct)
  case (3 h c s p d b)
  then obtain s' q where p': "p' = s' # q"
    by (cases p') auto
  let ?x = "if d then c @ s else s @ c" and ?x' = "if d then c' @ s' else s' @ c'"
  have sub: "merkle_inputs h (h ?x) p b \<union> merkle_inputs h (h ?x') q b \<subseteq>
      merkle_inputs h c (s # p) (d # b) \<union> merkle_inputs h c' p' (d # b)"
    "?x \<in> merkle_inputs h c (s # p) (d # b)" "?x' \<in> merkle_inputs h c' p' (d # b)"
    by (auto simp: p' Let_def)
  have inj: "inj_on h (merkle_inputs h (h ?x) p b \<union> merkle_inputs h (h ?x') q b)"
    by (rule inj_on_subset [OF "3.prems"(4) sub(1)])
  have "h ?x = h ?x' \<and> p = q"
    by (rule "3.IH" [OF _ _ _ inj "3.prems"(5)]) (use "3.prems" in \<open>simp_all add: p'\<close>)
  moreover from this have "?x = ?x'"
    using inj_onD [OF "3.prems"(4)] sub(2,3) by blast
  moreover have "length s = length s'" "length c = length c'"
    using "3.prems"(6,7) by (simp_all add: p')
  ultimately show ?case
    by (cases d) (auto simp: p')
qed auto

text \<open>
  A Merkle root binds the leaf at a position. If two proofs with the same sides, equally long
  parts and a hash that does not collide on what they hash are accepted against one root, then they
  are for the same leaf, and have the same path.
\<close>

theorem merkle_root_binds_leaf:
  assumes "VerifyMerkleProof cr leaf root path indices = Some True" and "VerifyMerkleProof cr leaf' root path' indices = Some True"
    and "length leaf = length leaf'" and "list_all2 (\<lambda>x y. length x = length y) path path'"
    and "\<And>x y. length (Keccak256 cr x) = length (Keccak256 cr y)"
    and "inj_on (Keccak256 cr) (merkle_inputs (Keccak256 cr) leaf path indices \<union> merkle_inputs (Keccak256 cr) leaf' path' indices)"
  shows "leaf = leaf' \<and> path = path'"
  using assms by (intro merkle_fold_binds [of "Keccak256 cr" leaf path indices root])
    (auto simp: VerifyMerkleProof_iff list_all2_lengthD)

section \<open>Commitments and numbers\<close>

text \<open>
  A commitment does not bind its value. \<open>CreateCommitment\<close> hashes the value and the blinding
  with nothing between them, so a commitment to a value opens as well to every prefix of it, with
  the rest moved into the blinding.
\<close>

theorem commitment_opens_to_prefix:
  "VerifyCommitment cr (CreateCommitment cr (v @ rest) blinding) v (rest @ blinding)"
  by (simp add: VerifyCommitment_iff CreateCommitment_def)

text \<open>
  \<open>BytesToInt\<close> reads back what \<open>IntToBytes\<close> writes, for every 64-bit integer, and every eight
  bytes are what some integer writes.
\<close>

theorem BytesToInt_IntToBytes:
  "BytesToInt (IntToBytes n) = wrap64 n \<and> IntToBytes (BytesToInt (take 8 (left_pad 8 b))) = take 8 (left_pad 8 b)"
proof -
  have "wrap64 (n mod 2 ^ 64) = wrap64 n"
    by (simp add: wrap64_def mod_simps)
  moreover have "(wrap64 i) mod 2 ^ 64 = i mod 2 ^ 64" for i
    by (simp add: wrap64_def mod_simps)
  moreover have "int (be_nat c) mod 2 ^ 64 = int (be_nat c)" "be_bytes 8 (be_nat c) = c" if "length c = 8" for c :: bytes
    using that be_nat_bound [of c] be_bytes_be_nat [of c] by auto
  moreover have "length (take 8 (left_pad 8 b)) = 8"
    by simp
  ultimately show ?thesis
    by (simp add: BytesToInt_def IntToBytes_def be_nat_be_bytes Let_def)
qed

section \<open>Properties of the manager\<close>

inductive proof_step :: "('sk, 'pk) crypto \<Rightarrow> ProofManager \<Rightarrow> ProofManager \<Rightarrow> bool" for cr where
  \<comment> \<open>proofs are added under new identifiers\<close>
  add: "pm_Proofs pm (sdp_ID p) = None \<Longrightarrow> proof_step cr pm (fst (AddProof cr p pm))"
| verify: "proof_step cr pm (fst (VerifyProof cr t1 t2 i verifier pm))"
| revoke: "proof_step cr pm (fst (RevokeProof now i revoker pm))"

lemma proof_step_indexed:
  assumes "proof_step cr pm pm'" and inv: "by_stream.indexed pm"
  shows "by_stream.indexed pm'"
  using assms(1)
proof cases
  case (add p)
  then show ?thesis
    using inv by_stream.indexed_add by (simp add: AddProof_def)
next
  case (verify t1 t2 i verifier)
  then show ?thesis
    using inv by (auto intro: by_stream.indexed_frame simp: VerifyProof_def Let_def split: option.splits)
next
  case (revoke now i revoker)
  show ?thesis
  proof (cases "pm_Proofs pm i")
    case None
    then show ?thesis using revoke inv by (simp add: RevokeProof_def)
  next
    case (Some p)
    have "by_stream.indexed (pm\<lparr>pm_Proofs := (pm_Proofs pm)(i \<mapsto> SelectiveDisclosureProof_Revoke now p)\<rparr>)"
      by (rule by_stream.indexed_same_keys [OF inv])
        (use Some by_stream.objects_ident [OF inv Some] in \<open>auto simp: SelectiveDisclosureProof_Revoke_def\<close>)
    then show ?thesis
      using revoke inv Some by (simp add: RevokeProof_def)
  qed
qed

lemma proof_run_indexed: "(proof_step cr)\<^sup>*\<^sup>* (NewProofManager owner) pm \<Longrightarrow> by_stream.indexed pm"
proof (induction rule: rtranclp_induct)
  case base
  show ?case by (rule by_stream.indexed_empty) (simp_all add: NewProofManager_def)
qed (rule proof_step_indexed)

text \<open>
  As long as proofs are added under new identifiers, \<open>GetProofsForStream\<close> lists each valid proof
  of the stream, once, and nothing else.
\<close>

theorem GetProofsForStream_iff:
  assumes "(proof_step cr)\<^sup>*\<^sup>* (NewProofManager owner) pm"
  shows "set (GetProofsForStream cr now streamID pm) =
    {p. pm_Proofs pm (sdp_ID p) = Some p \<and> sdp_StreamID p = streamID \<and> SelectiveDisclosureProof_IsValid cr now p} \<and>
    distinct (map sdp_ID (GetProofsForStream cr now streamID pm))"
proof -
  note inv = proof_run_indexed [OF assms]
  let ?is = "slot (pm_ProofsByStream pm) streamID"
  let ?f = "\<lambda>i. case pm_Proofs pm i of None \<Rightarrow> [] | Some p \<Rightarrow> if SelectiveDisclosureProof_IsValid cr now p then [p] else []"
  have ident: "pm_Proofs pm i = Some p \<Longrightarrow> sdp_ID p = i" for i p
    using by_stream.objects_ident [OF inv] by blast
  have mem: "p \<in> set (GetProofsForStream cr now streamID pm) \<longleftrightarrow>
      (\<exists>i\<in>set ?is. pm_Proofs pm i = Some p \<and> SelectiveDisclosureProof_IsValid cr now p)" for p
    unfolding GetProofsForStream_def by (force split: option.splits if_splits)
  have "set (GetProofsForStream cr now streamID pm) =
    {p. pm_Proofs pm (sdp_ID p) = Some p \<and> sdp_StreamID p = streamID \<and> SelectiveDisclosureProof_IsValid cr now p}"
    unfolding set_eq_iff mem mem_Collect_eq Bex_def by_stream.in_index_iff [OF inv] using ident by (metis option.inject)
  moreover have "distinct (map sdp_ID (concat (map ?f js)))" if "distinct js" for js
    using that by (induction js) (auto dest!: ident ident [OF sym] split: option.splits if_splits)
  then have "distinct (map sdp_ID (GetProofsForStream cr now streamID pm))"
    unfolding GetProofsForStream_def using inv unfolding by_stream.indexed_def by blast
  ultimately show ?thesis by blast
qed

lemma proof_step_revoked:
  assumes "proof_step cr pm pm'" and "pm_Proofs pm i = Some p" and "sdp_Revoked p"
  shows "\<exists>p'. pm_Proofs pm' i = Some p' \<and> sdp_Revoked p'"
  using assms(1)
  by cases (use assms(2,3) in \<open>auto simp: AddProof_def proof_add_def VerifyProof_def RevokeProof_def
    SelectiveDisclosureProof_Revoke_def Let_def split: option.splits\<close>)

text \<open>
  A proof that its prover revoked is never accepted again: as long as no other proof is added
  under its identifier, every later \<open>VerifyProof\<close> answers no, and logs it.
\<close>

theorem revoked_proof_never_verifies:
  assumes "RevokeProof now i revoker pm = (pm1, None)" and "(proof_step cr)\<^sup>*\<^sup>* pm1 pm2"
    and "VerifyProof cr t1 t2 i verifier pm2 = (pm3, r)"
  shows "r = Inr False \<and> pm_VerificationLog pm3 = pm_VerificationLog pm2 @
    [\<lparr>ve_ProofID = i, ve_Verifier = verifier, ve_Timestamp = t2, ve_Result = False\<rparr>]"
proof -
  have "\<exists>p. pm_Proofs pm1 i = Some p \<and> sdp_Revoked p"
    using assms(1) by (auto simp: RevokeProof_def SelectiveDisclosureProof_Revoke_def split: option.splits if_splits)
  with assms(2) have "\<exists>p. pm_Proofs pm2 i = Some p \<and> sdp_Revoked p"
    by (induction rule: rtranclp_induct) (use proof_step_revoked in blast)+
  then show ?thesis
    using assms(3) by (auto simp: VerifyProof_def SelectiveDisclosureProof_IsValid_def)
qed

lemma find_index_Some: "find_index e es = Some i \<Longrightarrow> i < length es \<and> es ! i = e"
  by (induction es arbitrary: i) (auto split: if_splits)

lemma find_index_None: "find_index e es = None \<longleftrightarrow> e \<notin> set es"
  by (induction es) auto

lemma new_proof_total:
  assumes "\<And>h. Sign cr h key \<noteq> None"
  shows "\<exists>p. new_proof cr key ptype streamID commitment claim proofData now validUntil seed = Inr p"
proof -
  let ?p = "SelectiveDisclosureProof_GenerateID cr
        \<lparr>sdp_ID = zero32, sdp_Type = ptype, sdp_Prover = key_address cr key, sdp_StreamID = streamID,
         sdp_Commitment = Some commitment, sdp_Claim = claim, sdp_ProofData = proofData, sdp_Created = now,
         sdp_ValidUntil = validUntil, sdp_Revocable = True, sdp_Revoked = False, sdp_RevokedAt = 0,
         sdp_Nonce = Some (take 16 (Keccak256 cr (seed @ bytes_of_string (dec_int now)))), sdp_Signature = None\<rparr>"
  obtain sig where "Sign cr (hash_json cr (SelectiveDisclosureProof_json cr (?p\<lparr>sdp_Signature := None\<rparr>))) key = Some sig"
    using assms by blast
  then have "SelectiveDisclosureProof_Sign cr key ?p = (?p\<lparr>sdp_Signature := Some sig\<rparr>, None)"
    by (rule disclosure_doc.sign_complete [rotated]) (simp add: SelectiveDisclosureProof_GenerateID_def)
  then show ?thesis
    by (simp add: new_proof_def)
qed

lemma new_proof_valid:
  assumes "signature_recovers cr" and "new_proof cr key ptype streamID commitment claim proofData now validUntil seed = Inr p"
    and "validUntil \<le> 0 \<or> t \<le> validUntil"
  shows "SelectiveDisclosureProof_IsValid cr t p \<and> sdp_Prover p = key_address cr key \<and> sdp_StreamID p = streamID \<and>
    sdp_ProofData p = proofData \<and> sdp_Commitment p = Some commitment \<and> sdp_Claim p = claim"
  using assms disclosure_doc.sign_then_verify [OF assms(1)]
  by (auto simp: new_proof_def SelectiveDisclosureProof_IsValid_def SelectiveDisclosureProof_GenerateID_def
      split: prod.splits option.splits elim!: disclosure_doc.sign_succeeded_cases)

text \<open>
  A membership proof is made exactly for the elements of the set: the path in its data verifies
  the element's hash against the root of the set, its commitment opens to the element, it is valid
  until its expiry, and a proof manager accepts it.
\<close>

theorem CreateMembershipProof_correct:
  assumes "signature_recovers cr" and "\<And>h. Sign cr h key \<noteq> None" and "validUntil \<le> 0 \<or> t \<le> validUntil"
  shows "(element \<notin> set els \<longrightarrow> isl (CreateMembershipProof cr now key streamID element els claim validUntil)) \<and>
    (element \<in> set els \<longrightarrow> (\<exists>p d. CreateMembershipProof cr now key streamID element els claim validUntil = Inr p \<and>
       sdp_ProofData p = json_bytes (MembershipProofData_json d) \<and>
       VerifyMerkleProof cr (Keccak256 cr element) (mpd_MerkleRoot d) (mpd_MerklePath d) (mpd_PathIndices d) = Some True \<and>
       (\<exists>blinding. sdp_Commitment p = Some (mpd_LeafCommitment d) \<and> VerifyCommitment cr (mpd_LeafCommitment d) element blinding) \<and>
       SelectiveDisclosureProof_IsValid cr t p \<and> succeeded (AddProof cr p pm)))"
proof (cases "find_index element els")
  case None
  then show ?thesis
    using find_index_None [of element els] by (simp add: CreateMembershipProof_def)
next
  case (Some i)
  then have i: "i < length els" "els ! i = element" "element \<in> set els"
    using find_index_Some [OF Some] by (auto simp: in_set_conv_nth)
  then obtain root path indices where tree: "computeMerkleProof cr (map (Keccak256 cr) els) i = Some (root, path, indices)"
    "VerifyMerkleProof cr (Keccak256 cr element) root path indices = Some True"
    using computeMerkleProof_ok [of i "map (Keccak256 cr) els" cr] by auto
  define blinding where "blinding = take 32 (Keccak256 cr (element @ bytes_of_string ''membership_blinding''))"
  define d where "d = \<lparr>mpd_SetCommitment = CreateCommitment cr root blinding, mpd_MerkleRoot = root, mpd_MerklePath = path,
      mpd_PathIndices = indices, mpd_LeafCommitment = CreateCommitment cr element blinding\<rparr>"
  have create: "CreateMembershipProof cr now key streamID element els claim validUntil =
      new_proof cr key ProofMembership streamID (mpd_LeafCommitment d) claim (json_bytes (MembershipProofData_json d)) now validUntil element"
    by (simp add: CreateMembershipProof_def Some tree(1) d_def blinding_def Let_def)
  obtain p where p: "new_proof cr key ProofMembership streamID (mpd_LeafCommitment d) claim (json_bytes (MembershipProofData_json d))
      now validUntil element = Inr p"
    using new_proof_total [OF assms(2)] by blast
  from new_proof_valid [OF assms(1) p assms(3)] have p': "SelectiveDisclosureProof_IsValid cr t p"
    "sdp_ProofData p = json_bytes (MembershipProofData_json d)" "sdp_Commitment p = Some (mpd_LeafCommitment d)"
    by auto
  then have "succeeded (AddProof cr p pm)"
    by (auto simp: AddProof_def SelectiveDisclosureProof_IsValid_def split: if_splits)
  moreover have "VerifyCommitment cr (mpd_LeafCommitment d) element blinding"
    by (simp add: VerifyCommitment_iff d_def)
  moreover have "VerifyMerkleProof cr (Keccak256 cr element) (mpd_MerkleRoot d) (mpd_MerklePath d) (mpd_PathIndices d) = Some True"
    using tree(2) by (simp add: d_def)
  ultimately show ?thesis
    using i(3) create p p' by auto
qed

section \<open>Witnesses\<close>

definition demo_hash :: "(bytes, bytes) crypto" where
  "demo_hash = demo_crypto\<lparr>Keccak256 := \<lambda>m. [sum_list m]\<rparr>"

theorem computeMerkleProof_verifies_witness:
  "\<exists>root path indices. computeMerkleProof demo_hash [[1], [2], [3]] 2 = Some (root, path, indices) \<and>
     VerifyMerkleProof demo_hash [3] root path indices = Some True"
  using computeMerkleProof_verifies [of 2 "[[1], [2], [3]]" demo_hash] by auto

theorem merkle_root_binds_leaf_witness:
  "VerifyMerkleProof demo_hash [5] [11] [[6]] [True] = Some True \<and> ([5] :: bytes) = [5]"
proof -
  have "VerifyMerkleProof demo_hash [5] [11] [[6]] [True] = Some True"
    by (simp add: VerifyMerkleProof_def demo_hash_def)
  moreover from merkle_root_binds_leaf [OF this this] have "([5] :: bytes) = [5]"
    by (simp add: demo_hash_def)
  ultimately show ?thesis
    by simp
qed

definition demo_sdp :: SelectiveDisclosureProof where
  "demo_sdp = projr (CreateMembershipProof demo_crypto 5 [1] zero32 [7] [[7], [8]] ''member'' 0)"

theorem CreateMembershipProof_correct_witness:
  "isl (CreateMembershipProof demo_crypto 5 [1] zero32 [9] [[7], [8]] ''member'' 0) \<and>
   succeeded (AddProof demo_crypto demo_sdp (NewProofManager [1]))"
  using CreateMembershipProof_correct [OF demo_crypto_recovers, of "[1]" 0 5 "[9]" "[[7], [8]]" 5 zero32 "''member''"]
    CreateMembershipProof_correct [OF demo_crypto_recovers, of "[1]" 0 5 "[7]" "[[7], [8]]" 5 zero32 "''member''" "NewProofManager [1]"]
  by (auto simp: demo_sdp_def)

definition demo_proof :: SelectiveDisclosureProof where
  "demo_proof = \<lparr>sdp_ID = [9], sdp_Type = ProofExistence, sdp_Prover = [1], sdp_StreamID = [4], sdp_Commitment = None, sdp_Claim = [],
     sdp_ProofData = None, sdp_Created = 0, sdp_ValidUntil = 0, sdp_Revocable = True, sdp_Revoked = False, sdp_RevokedAt = 0,
     sdp_Nonce = None, sdp_Signature = None\<rparr>"

definition demo_signed_proof :: SelectiveDisclosureProof where
  "demo_signed_proof = fst (SelectiveDisclosureProof_Sign demo_crypto [1] demo_proof)"

lemma demo_signed_proof_fields:
  "SelectiveDisclosureProof_IsValid demo_crypto t demo_signed_proof \<and> sdp_ID demo_signed_proof = [9] \<and>
   sdp_StreamID demo_signed_proof = [4] \<and> sdp_Prover demo_signed_proof = [1] \<and> sdp_Revocable demo_signed_proof"
proof -
  obtain sig where "SelectiveDisclosureProof_Sign demo_crypto [1] demo_proof = (demo_proof\<lparr>sdp_Signature := Some sig\<rparr>, None)"
    using disclosure_doc.sign_complete [of demo_crypto "[1]" demo_proof] by (auto simp: demo_proof_def)
  from disclosure_doc.sign_then_verify [OF demo_crypto_recovers this] this show ?thesis
    by (simp add: demo_signed_proof_def SelectiveDisclosureProof_IsValid_def) (simp add: demo_proof_def)
qed

definition demo_pm :: ProofManager where
  "demo_pm = fst (AddProof demo_crypto demo_signed_proof (NewProofManager [1]))"

lemma demo_pm_proofs: "pm_Proofs demo_pm [9] = Some demo_signed_proof"
  using demo_signed_proof_fields [of 0]
  by (auto simp: demo_pm_def AddProof_def proof_add_def SelectiveDisclosureProof_IsValid_def split: if_splits)

theorem GetProofsForStream_iff_witness: "demo_signed_proof \<in> set (GetProofsForStream demo_crypto 3 [4] demo_pm)"
proof -
  have "(proof_step demo_crypto)\<^sup>*\<^sup>* (NewProofManager [1]) demo_pm"
    unfolding demo_pm_def by (rule r_into_rtranclp, rule proof_step.add) (simp add: NewProofManager_def)
  from GetProofsForStream_iff [OF this] show ?thesis
    using demo_signed_proof_fields [of 3] demo_pm_proofs by simp
qed

theorem revoked_proof_never_verifies_witness:
  "snd (VerifyProof demo_crypto 8 8 [9] [2] (fst (RevokeProof 7 [9] [1] demo_pm))) = Inr False"
proof -
  obtain pm1 where "RevokeProof 7 [9] [1] demo_pm = (pm1, None)"
    using demo_signed_proof_fields [of 0] demo_pm_proofs by (simp add: RevokeProof_def)
  with revoked_proof_never_verifies [OF this rtranclp.rtrancl_refl, of demo_crypto 8 8 "[2]"] show ?thesis
    by (metis fst_conv prod.collapse)
qed

end
