(* ===== verification/Content_Store.thy ===== *)
theory Content_Store
  imports Signed_Document
begin

text \<open>
  The chunk store and the block DAG of the content package (\<open>content/store.go\<close>,
  \<open>content/dag.go\<close>). Content is cut into leaves and an internal node listing their
  identifiers; a block is stored under its SHA-256 digest, a parameter of the model.

  \<open>block_store\<close> is the contract the DAG needs of the store: a block put is found under its
  key, and other keys are left alone. As long as the blocks put do not collide, all of them stay
  there; the round trip of \<open>Add\<close> and \<open>Get\<close> rests on that.

  The store a builder works on is an argument of its operations, since the protocol and the
  publisher share it. \<open>Get\<close> follows children without a bound; it is a partial function whose
  value is \<open>None\<close> when the recursion does not end.
\<close>

section \<open>The interface of a block store\<close>

locale block_store =
  fixes lookup :: "'s \<Rightarrow> 'i \<Rightarrow> 'b option"
    and put :: "'b \<Rightarrow> 's \<Rightarrow> 's"
    and digest :: "'b \<Rightarrow> 'i"
  assumes lookup_put: "lookup (put b s) i = (if i = digest b then Some b else lookup s i)"
begin

definition holds :: "'s \<Rightarrow> 'b set \<Rightarrow> bool" where
  "holds s bs \<longleftrightarrow> (\<forall>b\<in>bs. lookup s (digest b) = Some b)"

lemma holds_put: "holds s bs \<Longrightarrow> inj_on digest (insert b bs) \<Longrightarrow> holds (put b s) (insert b bs)"
  by (auto simp: holds_def lookup_put inj_on_def)

lemma holds_fold:
  "holds s B \<Longrightarrow> inj_on digest (B \<union> set bs) \<Longrightarrow> holds (fold put bs s) (B \<union> set bs)"
proof (induction bs arbitrary: s B)
  case Nil
  then show ?case by simp
next
  case (Cons b bs)
  have "holds (put b s) (insert b B)"
    using Cons.prems by (intro holds_put) (auto intro: inj_on_subset)
  then have "holds (fold put bs (put b s)) (insert b B \<union> set bs)"
    by (rule Cons.IH) (use Cons.prems in simp)
  then show ?case
    by simp
qed

lemma fold_put_lookup: "lookup (fold put bs s) i = Some b \<Longrightarrow> lookup s i = Some b \<or> b \<in> set bs \<and> i = digest b"
  by (induction bs arbitrary: s) (fastforce simp: lookup_put split: if_splits)+

lemma fold_put_other: "i \<notin> digest ` set bs \<Longrightarrow> lookup (fold put bs s) i = lookup s i"
  by (induction bs arbitrary: s) (simp_all add: lookup_put)

end

section \<open>The store\<close>

type_synonym ContentID = hash32

record Store =
  st_chunks :: "ContentID \<Rightarrow> bytes option"
  st_diskPath :: string

definition HashData :: "('sk, 'pk) crypto \<Rightarrow> bytes \<Rightarrow> ContentID" where
  "HashData cr data = Sha256 cr data"

definition ContentID_Hex :: "ContentID \<Rightarrow> string" where
  "ContentID_Hex c = hex_encode c"

definition ParseContentID :: "string \<Rightarrow> go_error + ContentID" where
  "ParseContentID s =
     (case hex_decode s of
        None \<Rightarrow> Inl (Wrapped ''invalid content ID'' (Errorf ''encoding/hex''))
      | Some b \<Rightarrow>
          if length b \<noteq> 32 then Inl (Errorf ''content ID must be 32 bytes'')
          else Inr (copy_into 32 b))"

definition NewStore :: "string \<Rightarrow> Store" where
  "NewStore diskPath = \<lparr>st_chunks = Map.empty, st_diskPath = diskPath\<rparr>"

definition Store_Has :: "ContentID \<Rightarrow> Store \<Rightarrow> bool" where
  "Store_Has i s \<longleftrightarrow> st_chunks s i \<noteq> None"

definition Store_Get :: "ContentID \<Rightarrow> Store \<Rightarrow> bytes option" where
  "Store_Get i s = st_chunks s i"

definition Store_Put :: "('sk, 'pk) crypto \<Rightarrow> bytes \<Rightarrow> Store \<Rightarrow> Store \<times> ContentID" where
  "Store_Put cr data s = (let i = HashData cr data in (s\<lparr>st_chunks := (st_chunks s)(i \<mapsto> data)\<rparr>, i))"

definition Store_PutWithID :: "ContentID \<Rightarrow> bytes \<Rightarrow> Store \<Rightarrow> Store" where
  "Store_PutWithID i data s = s\<lparr>st_chunks := (st_chunks s)(i \<mapsto> data)\<rparr>"

definition Store_Delete :: "ContentID \<Rightarrow> Store \<Rightarrow> Store" where
  "Store_Delete i s = s\<lparr>st_chunks := (st_chunks s)(i := None)\<rparr>"

text \<open>\<open>order\<close> lists the keys of the map in the order the loop ranges over them.\<close>

definition Store_Keys :: "ContentID list \<Rightarrow> Store \<Rightarrow> ContentID list" where
  "Store_Keys order s = filter (\<lambda>i. st_chunks s i \<noteq> None) order"

definition Store_Size :: "ContentID list \<Rightarrow> Store \<Rightarrow> nat" where
  "Store_Size order s = length (Store_Keys order s)"

definition Store_TotalBytes :: "ContentID list \<Rightarrow> Store \<Rightarrow> int64" where
  "Store_TotalBytes order s =
     fold (\<lambda>i total. wrap64 (total + int (length (case st_chunks s i of None \<Rightarrow> [] | Some d \<Rightarrow> d))))
       (Store_Keys order s) 0"

subsection \<open>The directory on disk\<close>

text \<open>
  What \<open>os\<close> offers the two operations: the directory (absent or a table of names), whether it
  can be created and listed, and which files can be written and read.
\<close>

datatype disk_entry = Directory | File bytes

record disk =
  dk_entries :: "(string \<Rightarrow> disk_entry option) option"
  dk_canCreate :: bool
  dk_canList :: bool
  dk_canWrite :: "string \<Rightarrow> bool"
  dk_canRead :: "string \<Rightarrow> bool"

definition os_error :: go_error where
  "os_error = Errorf ''os: operation failed''"

definition disk_mkdir :: "disk \<Rightarrow> disk outcome" where
  "disk_mkdir d = (case dk_entries d of
      Some _ \<Rightarrow> (d, None)
    | None \<Rightarrow> if dk_canCreate d then (d\<lparr>dk_entries := Some Map.empty\<rparr>, None) else (d, Some os_error))"

definition disk_write :: "string \<Rightarrow> bytes \<Rightarrow> disk \<Rightarrow> disk outcome" where
  "disk_write name data d = (case dk_entries d of
      None \<Rightarrow> (d, Some os_error)
    | Some es \<Rightarrow> if \<not> dk_canWrite d name \<or> es name = Some Directory then (d, Some os_error)
        else (d\<lparr>dk_entries := Some (es(name \<mapsto> File data))\<rparr>, None))"

fun flush_loop :: "(ContentID \<Rightarrow> bytes option) \<Rightarrow> ContentID list \<Rightarrow> disk \<Rightarrow> disk outcome" where
  "flush_loop chunks [] d = (d, None)"
| "flush_loop chunks (i # order) d =
     (case chunks i of
        None \<Rightarrow> flush_loop chunks order d
      | Some data \<Rightarrow>
          (case disk_write (ContentID_Hex i) data d of
             (d', Some e) \<Rightarrow> (d', Some (Wrapped (''flush '' @ ContentID_Hex i) e))
           | (d', None) \<Rightarrow> flush_loop chunks order d'))"

definition Store_Flush :: "ContentID list \<Rightarrow> Store \<Rightarrow> disk \<Rightarrow> disk outcome" where
  "Store_Flush order s d =
     (if st_diskPath s = [] then (d, None)
      else (case disk_mkdir d of
        (d', Some e) \<Rightarrow> (d', Some e)
      | (d', None) \<Rightarrow> flush_loop (st_chunks s) order d'))"

text \<open>\<open>entries\<close> are the names \<open>os.ReadDir\<close> returns, in its order.\<close>

definition load_entry :: "disk \<Rightarrow> string \<Rightarrow> Store \<Rightarrow> Store" where
  "load_entry d name s =
     (case Option.bind (dk_entries d) (\<lambda>es. es name) of
        None \<Rightarrow> s
      | Some Directory \<Rightarrow> s
      | Some (File data) \<Rightarrow>
          (case ParseContentID name of
             Inl e \<Rightarrow> s
           | Inr i \<Rightarrow> if dk_canRead d name then s\<lparr>st_chunks := (st_chunks s)(i \<mapsto> data)\<rparr> else s))"

definition Store_Load :: "string list \<Rightarrow> disk \<Rightarrow> Store \<Rightarrow> Store outcome" where
  "Store_Load entries d s =
     (if st_diskPath s = [] then (s, None)
      else if dk_entries d = None then (s, None)
      else if \<not> dk_canList d then (s, Some os_error)
      else (fold (load_entry d) entries s, None))"

section \<open>The block DAG\<close>

definition DefaultChunkSize :: nat where
  "DefaultChunkSize = 256 * 1024"

definition nodeTypeLeaf :: byte where
  "nodeTypeLeaf = 0"

definition nodeTypeInternal :: byte where
  "nodeTypeInternal = 1"

record DAGNode =
  dn_ID :: ContentID
  dn_Children :: "ContentID list"
  dn_Size :: uint64
  dn_IsLeaf :: bool

record DAGBuilder =
  db_chunkSize :: nat

definition NewDAGBuilder :: "int64 \<Rightarrow> DAGBuilder" where
  "NewDAGBuilder chunkSize = \<lparr>db_chunkSize = (if chunkSize \<le> 0 then DefaultChunkSize else nat chunkSize)\<rparr>"

definition encodeLeaf :: "bytes \<Rightarrow> bytes" where
  "encodeLeaf data = nodeTypeLeaf # data"

definition encodeInternal :: "uint64 \<Rightarrow> ContentID list \<Rightarrow> bytes" where
  "encodeInternal nodeSize children =
     nodeTypeInternal # be_bytes 8 (unat nodeSize) @ concat (map (copy_into 32) children)"

fun split_ids :: "nat \<Rightarrow> bytes \<Rightarrow> ContentID list" where
  \<comment> \<open>the copy loop of \<open>decodeNode\<close>\<close>
  "split_ids 0 bs = []"
| "split_ids (Suc n) bs = copy_into 32 (take 32 bs) # split_ids n (drop 32 bs)"

definition decodeNode :: "bytes \<Rightarrow> go_error + (DAGNode \<times> slice)" where
  "decodeNode raw =
     (case raw of
        [] \<Rightarrow> Inl (Errorf ''empty node data'')
      | t # body \<Rightarrow>
          if t = nodeTypeLeaf then
            Inr (\<lparr>dn_ID = zero32, dn_Children = [], dn_Size = of_nat (length body), dn_IsLeaf = True\<rparr>, Some body)
          else if t = nodeTypeInternal then
            (if length raw < 9 then Inl (Errorf ''internal node too short'')
             else
               let nodeSize = of_nat (be_nat (take 8 body)); childBytes = drop 8 body
               in if length childBytes mod 32 \<noteq> 0
                  then Inl (Errorf ''invalid internal node: child data not aligned'')
                  else Inr (\<lparr>dn_ID = zero32, dn_Children = split_ids (length childBytes div 32) childBytes,
                             dn_Size = nodeSize, dn_IsLeaf = False\<rparr>, None))
          else Inl (Errorf (''unknown node type: 0x'' @ hex_encode [t])))"

text \<open>The chunks \<open>data[offset:end]\<close> of the loop in \<open>Add\<close>.\<close>

function chunk_loop :: "nat \<Rightarrow> bytes \<Rightarrow> bytes list" where
  "chunk_loop chunkSize data =
     (if data = [] \<or> chunkSize = 0 then [] else take chunkSize data # chunk_loop chunkSize (drop chunkSize data))"
  by pat_completeness auto
termination
  by (relation "measure (\<lambda>(_, data). length data)") auto

declare chunk_loop.simps [simp del]

fun put_leaves :: "('sk, 'pk) crypto \<Rightarrow> bytes list \<Rightarrow> Store \<Rightarrow> Store \<times> ContentID list" where
  "put_leaves cr [] s = (s, [])"
| "put_leaves cr (chunk # chunks) s =
     (let (s1, i) = Store_Put cr (encodeLeaf chunk) s; (s2, childIDs) = put_leaves cr chunks s1
      in (s2, i # childIDs))"

definition DAGBuilder_Add ::
  "('sk, 'pk) crypto \<Rightarrow> DAGBuilder \<Rightarrow> bytes \<Rightarrow> Store \<Rightarrow> Store \<times> (go_error + ContentID)" where
  "DAGBuilder_Add cr b data s =
     (if data = [] then (s, Inl (Errorf ''cannot add empty content''))
      else if length data \<le> db_chunkSize b then
        (let (s1, i) = Store_Put cr (encodeLeaf data) s in (s1, Inr i))
      else
        (let (s1, childIDs) = put_leaves cr (chunk_loop (db_chunkSize b) data) s;
             (s2, i) = Store_Put cr (encodeInternal (of_nat (length data)) childIDs) s1
         in (s2, Inr i)))"

text \<open>
  The part of \<open>Get\<close> before its loop: the data of a leaf or the children of an internal
  node. The capacity of the result slice is the size the node claims; beyond the largest
  slice of the 64-bit runtime \<open>make\<close> panics.
\<close>

definition maxAlloc :: nat where
  "maxAlloc = 2 ^ 48"

definition wrap_error :: "string \<Rightarrow> go_error \<Rightarrow> go_error" where
  \<comment> \<open>\<open>fmt.Errorf\<close> with \<open>%w\<close>; a panic is not an error value and unwinds past it\<close>
  "wrap_error msg e = (case e of Panic p \<Rightarrow> Panic p | _ \<Rightarrow> Wrapped msg e)"

definition dag_node :: "Store \<Rightarrow> ContentID \<Rightarrow> go_error + (bytes + ContentID list)" where
  "dag_node s root =
     (case Store_Get root s of
        None \<Rightarrow> Inl (Errorf (''content not found: '' @ ContentID_Hex root))
      | Some raw \<Rightarrow>
          (case decodeNode raw of
             Inl e \<Rightarrow> Inl (Wrapped (''decode '' @ ContentID_Hex root) e)
           | Inr (node, data) \<Rightarrow>
               if dn_IsLeaf node then Inr (Inl (slice_bytes data))
               else if unat (dn_Size node) > maxAlloc then Inl (Panic ''makeslice: cap out of range'')
               else Inr (Inr (dn_Children node))))"

partial_function (option) get_children :: "Store \<Rightarrow> ContentID list \<Rightarrow> bytes \<Rightarrow> (go_error + bytes) option" where
  "get_children s children result =
     (case children of
        [] \<Rightarrow> Some (Inr result)
      | childID # rest \<Rightarrow>
          (case dag_node s childID of
             Inl e \<Rightarrow> Some (Inl (wrap_error (''missing chunk '' @ ContentID_Hex childID) e))
           | Inr n \<Rightarrow>
               (case n of
                  Inl childData \<Rightarrow> get_children s rest (result @ childData)
                | Inr grandchildren \<Rightarrow>
                    Option.bind (get_children s grandchildren []) (\<lambda>r.
                      case r of
                        Inl e \<Rightarrow> Some (Inl (wrap_error (''missing chunk '' @ ContentID_Hex childID) e))
                      | Inr childData \<Rightarrow> get_children s rest (result @ childData)))))"

definition DAGBuilder_Get :: "Store \<Rightarrow> ContentID \<Rightarrow> (go_error + bytes) option" where
  "DAGBuilder_Get s root =
     (case dag_node s root of
        Inl e \<Rightarrow> Some (Inl e)
      | Inr (Inl data) \<Rightarrow> Some (Inr data)
      | Inr (Inr children) \<Rightarrow> get_children s children [])"

definition DAGBuilder_Manifest :: "Store \<Rightarrow> ContentID \<Rightarrow> go_error + DAGNode" where
  "DAGBuilder_Manifest s i =
     (case Store_Get i s of
        None \<Rightarrow> Inl (Errorf (''content not found: '' @ ContentID_Hex i))
      | Some raw \<Rightarrow>
          (case decodeNode raw of
             Inl e \<Rightarrow> Inl e
           | Inr (node, data) \<Rightarrow>
               let node1 = node\<lparr>dn_ID := i\<rparr>
               in Inr (if dn_IsLeaf node1 then node1\<lparr>dn_Size := of_nat (length (slice_bytes data))\<rparr> else node1)))"

definition DAGBuilder_MissingChunks :: "Store \<Rightarrow> ContentID \<Rightarrow> go_error + ContentID list" where
  "DAGBuilder_MissingChunks s root =
     (case Store_Get root s of
        None \<Rightarrow> Inr [root]
      | Some raw \<Rightarrow>
          (case decodeNode raw of
             Inl e \<Rightarrow> Inl e
           | Inr (node, data) \<Rightarrow>
               if dn_IsLeaf node then Inr []
               else Inr (filter (\<lambda>childID. \<not> Store_Has childID s) (dn_Children node))))"

section \<open>The store keeps its contract\<close>

interpretation chunks: block_store "\<lambda>s i. Store_Get i s" "\<lambda>b s. fst (Store_Put cr b s)" "Sha256 cr" for cr
  by unfold_locales (simp add: Store_Get_def Store_Put_def HashData_def Let_def)

definition holds_blocks :: "('sk, 'pk) crypto \<Rightarrow> Store \<Rightarrow> bytes set \<Rightarrow> bool" where
  "holds_blocks cr s bs \<longleftrightarrow> (\<forall>b\<in>bs. Store_Get (Sha256 cr b) s = Some b)"

lemma holds_blocks_iff: "holds_blocks cr s bs \<longleftrightarrow> block_store.holds (\<lambda>s i. Store_Get i s) (Sha256 cr) s bs"
  by (simp add: holds_blocks_def chunks.holds_def)

lemma snd_Store_Put [simp]: "snd (Store_Put cr b s) = Sha256 cr b"
  by (simp add: Store_Put_def HashData_def Let_def)

lemma ParseContentID_Hex [simp]: "length c = 32 \<Longrightarrow> ParseContentID (ContentID_Hex c) = Inr c"
  by (simp add: ParseContentID_def ContentID_Hex_def)

lemma ContentID_Hex_inject [simp]: "ContentID_Hex c = ContentID_Hex c' \<longleftrightarrow> c = c'"
  unfolding ContentID_Hex_def by (metis hex_decode_encode option.inject)

lemma disk_write_ok:
  "disk_write name data d = (d', None) \<Longrightarrow>
     \<exists>es. dk_entries d = Some es \<and> d' = d\<lparr>dk_entries := Some (es(name \<mapsto> File data))\<rparr>"
  by (auto simp: disk_write_def split: option.splits if_splits)

definition flushed :: "(ContentID \<Rightarrow> bytes option) \<Rightarrow> ContentID list \<Rightarrow> (string \<Rightarrow> disk_entry option) \<Rightarrow> (string \<Rightarrow> disk_entry option) \<Rightarrow> bool" where
  "flushed chunks order es es' \<longleftrightarrow>
     (\<forall>i\<in>set order. \<forall>data. chunks i = Some data \<longrightarrow> es' (ContentID_Hex i) = Some (File data)) \<and>
     (\<forall>name. (\<forall>i\<in>set order. chunks i \<noteq> None \<longrightarrow> ContentID_Hex i \<noteq> name) \<longrightarrow> es' name = es name)"

lemma flushed_step:
  assumes "flushed chunks order (es(ContentID_Hex i \<mapsto> File data)) es'" and "chunks i = Some data"
  shows "flushed chunks (i # order) es es'"
  using assms by (auto simp: flushed_def) (metis ContentID_Hex_inject)

lemma flush_loop_ok:
  "flush_loop chunks order d = (d', None) \<Longrightarrow> dk_entries d = Some es \<Longrightarrow>
     \<exists>es'. d' = d\<lparr>dk_entries := Some es'\<rparr> \<and> flushed chunks order es es'"
proof (induction order arbitrary: d es)
  case Nil
  then show ?case
    by (intro exI [of _ es]) (simp add: flushed_def)
next
  case (Cons i order)
  show ?case
  proof (cases "chunks i")
    case None
    with Cons.prems Cons.IH [of d es] show ?thesis
      by (auto simp: flushed_def)
  next
    case (Some data)
    with Cons.prems obtain d1 where w: "disk_write (ContentID_Hex i) data d = (d1, None)"
      and l: "flush_loop chunks order d1 = (d', None)"
      by (auto split: prod.splits option.splits)
    from disk_write_ok [OF w] Cons.prems(2)
    have d1: "d1 = d\<lparr>dk_entries := Some (es(ContentID_Hex i \<mapsto> File data))\<rparr>"
      by auto
    then have "dk_entries d1 = Some (es(ContentID_Hex i \<mapsto> File data))"
      by simp
    from Cons.IH [OF l this] obtain es' where "d' = d1\<lparr>dk_entries := Some es'\<rparr>"
      and "flushed chunks order (es(ContentID_Hex i \<mapsto> File data)) es'"
      by blast
    then show ?thesis
      using flushed_step Some d1 by (intro exI [of _ es']) simp
  qed
qed

lemma load_entry_chunks:
  "st_chunks (load_entry d name s) i =
     (case Option.bind (dk_entries d) (\<lambda>es. es name) of
        Some (File data) \<Rightarrow> if ParseContentID name = Inr i \<and> dk_canRead d name then Some data else st_chunks s i
      | _ \<Rightarrow> st_chunks s i)"
  by (auto simp: load_entry_def split: option.splits disk_entry.splits sum.splits)

lemma st_diskPath_load [simp]: "st_diskPath (fold (load_entry d) names s) = st_diskPath s"
proof (induction names arbitrary: s)
  case (Cons name names)
  have "st_diskPath (load_entry d name s) = st_diskPath s"
    by (auto simp: load_entry_def split: option.splits disk_entry.splits sum.splits)
  with Cons.IH [of "load_entry d name s"] show ?case
    by simp
qed simp

text \<open>A directory that holds nothing but the files of a store is read back as that store.\<close>

lemma load_files:
  assumes "dk_entries d = Some es" and "\<And>name. dk_canRead d name"
    and files: "\<And>name e. es name = Some e \<Longrightarrow> \<exists>i data. chunks i = Some data \<and> length i = 32 \<and> name = ContentID_Hex i \<and> e = File data"
  shows "st_chunks (fold (load_entry d) names s) i =
    (if ContentID_Hex i \<in> set names \<and> (\<exists>e. es (ContentID_Hex i) = Some e) then chunks i else st_chunks s i)"
proof (induction names arbitrary: s)
  case (Cons name names)
  have "st_chunks (load_entry d name s) i = (if ContentID_Hex i = name \<and> (\<exists>e. es name = Some e) then chunks i else st_chunks s i)"
  proof (cases "es name")
    case (Some e)
    then obtain j data where "chunks j = Some data" "length j = 32" "name = ContentID_Hex j" "e = File data"
      using files by blast
    then show ?thesis
      using Some assms(1,2) by (simp add: load_entry_chunks)
  qed (simp add: load_entry_chunks assms(1))
  with Cons.IH [of "load_entry d name s"] show ?case
    by auto
qed simp

text \<open>
  Flush and Load: a store flushed into a new directory is read back by a fresh store of the
  same path, chunk for chunk.
\<close>

theorem Flush_Load:
  assumes "Store_Flush order s d = (d', None)" and "st_diskPath s \<noteq> []" and "dk_entries d = None"
    and "dk_canList d" and "\<And>name. dk_canRead d name"
    and "set order = dom (st_chunks s)" and "\<And>i. i \<in> dom (st_chunks s) \<Longrightarrow> length i = 32"
    and "set entries = dom (the (dk_entries d'))"
  shows "Store_Load entries d' (NewStore (st_diskPath s)) = (s, None)"
proof -
  obtain es' where d': "d' = d\<lparr>dk_entries := Some es'\<rparr>" and fl: "flushed (st_chunks s) order Map.empty es'"
    using assms(1-3) flush_loop_ok [of "st_chunks s" order "d\<lparr>dk_entries := Some Map.empty\<rparr>" d' Map.empty]
    by (auto simp: Store_Flush_def disk_mkdir_def split: if_splits)
  have files: "\<exists>i data. st_chunks s i = Some data \<and> length i = 32 \<and> name = ContentID_Hex i \<and> e = File data" if "es' name = Some e" for name e
  proof -
    have "\<not> (\<forall>i\<in>set order. st_chunks s i \<noteq> None \<longrightarrow> ContentID_Hex i \<noteq> name)"
      using fl that unfolding flushed_def by (metis option.distinct(1))
    then obtain i data where "st_chunks s i = Some data" "ContentID_Hex i = name"
      by blast
    moreover have i: "i \<in> set order" "length i = 32"
      using calculation(1) assms(6,7) by auto
    moreover have "es' (ContentID_Hex i) = Some (File data)"
      using fl calculation(1) i(1) unfolding flushed_def by blast
    ultimately show ?thesis
      using that by auto
  qed
  let ?t = "fold (load_entry d') entries (NewStore (st_diskPath s))"
  have "st_chunks ?t i = st_chunks s i" for i
  proof -
    have "(\<exists>e. es' (ContentID_Hex i) = Some e) \<longleftrightarrow> st_chunks s i \<noteq> None"
      using fl files [of "ContentID_Hex i"] assms(6) unfolding flushed_def by (metis ContentID_Hex_inject domI not_None_eq)
    then show ?thesis
      using load_files [where chunks = "st_chunks s" and d = d' and es = es' and names = entries, OF _ _ files] assms(5,8)
      by (auto simp: d' NewStore_def dom_def)
  qed
  then have "?t = s"
    by (intro Store.equality) (auto simp: NewStore_def)
  then show ?thesis
    using assms(2,4) by (simp add: Store_Load_def d' NewStore_def)
qed

section \<open>The node codec\<close>

lemma length_concat_ids: "\<forall>c\<in>set cs. length c = 32 \<Longrightarrow> length (concat cs) = 32 * length cs"
  by (induction cs) auto

lemma split_ids_concat: "\<forall>c\<in>set cs. length c = 32 \<Longrightarrow> split_ids (length cs) (concat cs) = cs"
  by (induction cs) auto

lemma concat_split_ids: "length bs = 32 * n \<Longrightarrow> concat (split_ids n bs) = bs"
proof (induction n arbitrary: bs)
  case (Suc n)
  then show ?case
    using Suc.IH [of "drop 32 bs"] by simp
qed simp

lemma split_ids_lengths: "c \<in> set (split_ids n bs) \<Longrightarrow> length c = 32"
  by (induction n arbitrary: bs) auto

lemma concat_copy_ids: "\<forall>c\<in>set cs. length c = 32 \<Longrightarrow> concat (map (copy_into 32) cs) = concat cs"
  by (induction cs) auto

lemma be64_roundtrip: "(of_nat (be_nat (be_bytes 8 (unat w))) :: uint64) = w"
proof -
  have "unat w < 2 ^ LENGTH(64)"
    by (rule unsigned_less)
  then show ?thesis
    by (simp add: be_nat_be_bytes)
qed

lemma decode_encodeLeaf [simp]:
  "decodeNode (encodeLeaf data) =
     Inr (\<lparr>dn_ID = zero32, dn_Children = [], dn_Size = of_nat (length data), dn_IsLeaf = True\<rparr>, Some data)"
  by (simp add: decodeNode_def encodeLeaf_def)

lemma decode_encodeInternal:
  "\<forall>c\<in>set cs. length c = 32 \<Longrightarrow> decodeNode (encodeInternal n cs) =
     Inr (\<lparr>dn_ID = zero32, dn_Children = cs, dn_Size = n, dn_IsLeaf = False\<rparr>, None)"
  by (simp add: decodeNode_def encodeInternal_def nodeTypeLeaf_def nodeTypeInternal_def concat_copy_ids
      length_concat_ids split_ids_concat be64_roundtrip Let_def)

text \<open>Every accepted block is the encoding of what it decodes to.\<close>

lemma decodeNode_leaf:
  "decodeNode raw = Inr (node, data) \<Longrightarrow> dn_IsLeaf node \<Longrightarrow> raw = encodeLeaf (slice_bytes data)"
  by (auto simp: decodeNode_def encodeLeaf_def Let_def split: list.splits if_splits)

lemma be_bytes_take8: "length bs \<ge> 8 \<Longrightarrow> be_bytes 8 (unat (of_nat (be_nat (take 8 bs)) :: uint64)) = take 8 bs"
proof -
  assume len: "length bs \<ge> 8"
  then have l: "length (take 8 bs) = 8"
    by simp
  then have "be_nat (take 8 bs) < 2 ^ 64"
    using be_nat_bound [of "take 8 bs"] by simp
  then have "unat (of_nat (be_nat (take 8 bs)) :: uint64) = be_nat (take 8 bs)"
    by (simp add: unat_of_nat take_bit_eq_mod)
  then show ?thesis
    using be_bytes_be_nat [of "take 8 bs"] l by simp
qed

lemma decodeNode_internal:
  assumes "decodeNode raw = Inr (node, data)" and "\<not> dn_IsLeaf node"
  shows "raw = encodeInternal (dn_Size node) (dn_Children node) \<and> (\<forall>c\<in>set (dn_Children node). length c = 32)"
proof -
  obtain body where raw: "raw = nodeTypeInternal # body" and len: "length body \<ge> 8"
    and al: "(length body - 8) mod 32 = 0"
    and node: "dn_Size node = of_nat (be_nat (take 8 body))"
      "dn_Children node = split_ids ((length body - 8) div 32) (drop 8 body)"
    using assms by (auto simp: decodeNode_def Let_def split: list.splits if_splits)
  have "length (drop 8 body) = 32 * ((length body - 8) div 32)"
    using al by auto
  then have "concat (dn_Children node) = drop 8 body"
    by (simp add: node concat_split_ids)
  moreover have c32: "\<forall>c\<in>set (dn_Children node). length c = 32"
    by (auto simp: node dest: split_ids_lengths)
  ultimately show ?thesis
    using be_bytes_take8 [OF len] by (simp add: encodeInternal_def raw concat_copy_ids node(1))
qed

text \<open>
  C21: the node codec is a bijection between well-formed nodes and accepted blocks: a leaf and an
  internal node decode to themselves, and a block that decodes is the encoding of its node, so
  that no two blocks denote the same node.
\<close>

theorem decodeNode_roundtrip:
  "(\<forall>data. decodeNode (encodeLeaf data) =
      Inr (\<lparr>dn_ID = zero32, dn_Children = [], dn_Size = of_nat (length data), dn_IsLeaf = True\<rparr>, Some data)) \<and>
   ((\<forall>c\<in>set cs. length c = 32) \<longrightarrow>
      decodeNode (encodeInternal n cs) =
        Inr (\<lparr>dn_ID = zero32, dn_Children = cs, dn_Size = n, dn_IsLeaf = False\<rparr>, None)) \<and>
   (decodeNode raw = Inr (node, d) \<longrightarrow>
      raw = (if dn_IsLeaf node then encodeLeaf (slice_bytes d) else encodeInternal (dn_Size node) (dn_Children node)))"
  using decode_encodeInternal [of cs n] decodeNode_internal [of raw node d] decodeNode_leaf [of raw node d] by auto

section \<open>Adding and reading content\<close>

lemma chunk_loop_concat: "n > 0 \<Longrightarrow> concat (chunk_loop n data) = data"
  by (induction n data rule: chunk_loop.induct) (subst chunk_loop.simps, simp)

lemma chunk_loop_bounds: "c \<in> set (chunk_loop n data) \<Longrightarrow> c \<noteq> [] \<and> length c \<le> n"
  by (induction n data rule: chunk_loop.induct) (subst (asm) (2) chunk_loop.simps, auto split: if_splits)

text \<open>The blocks \<open>Add\<close> stores for a piece of content and the identifier it returns.\<close>

definition dag_blocks :: "('sk, 'pk) crypto \<Rightarrow> nat \<Rightarrow> bytes \<Rightarrow> bytes list" where
  "dag_blocks cr n data =
     (if data = [] then []
      else if length data \<le> n then [encodeLeaf data]
      else let leaves = map encodeLeaf (chunk_loop n data)
           in leaves @ [encodeInternal (of_nat (length data)) (map (Sha256 cr) leaves)])"

definition dag_root :: "('sk, 'pk) crypto \<Rightarrow> nat \<Rightarrow> bytes \<Rightarrow> ContentID" where
  "dag_root cr n data = Sha256 cr (last (dag_blocks cr n data))"

lemma put_leaves_fold:
  "put_leaves cr cs s = (fold (\<lambda>b s. fst (Store_Put cr b s)) (map encodeLeaf cs) s, map (Sha256 cr \<circ> encodeLeaf) cs)"
proof (induction cs arbitrary: s)
  case (Cons c cs)
  show ?case
    using Cons.IH [of "fst (Store_Put cr (encodeLeaf c) s)"] snd_Store_Put [of cr "encodeLeaf c" s]
    by (cases "Store_Put cr (encodeLeaf c) s") simp
qed simp

lemma Store_Put_case: "(case Store_Put cr x t of (s1, i) \<Rightarrow> f s1 i) = f (fst (Store_Put cr x t)) (Sha256 cr x)"
  by (metis prod.case_eq_if snd_Store_Put)

lemma Add_fold:
  "DAGBuilder_Add cr b data s =
     (fold (\<lambda>b s. fst (Store_Put cr b s)) (dag_blocks cr (db_chunkSize b) data) s,
      if data = [] then Inl (Errorf ''cannot add empty content'') else Inr (dag_root cr (db_chunkSize b) data))"
  by (simp add: DAGBuilder_Add_def dag_blocks_def dag_root_def put_leaves_fold Store_Put_case Let_def comp_def)

lemma dag_node_leaf: "Store_Get i s = Some (encodeLeaf data) \<Longrightarrow> dag_node s i = Inr (Inl data)"
  by (simp add: dag_node_def)

lemma get_children_Nil [simp]: "get_children s [] r = Some (Inr r)"
  by (simp add: get_children.simps)

lemma get_children_leaf:
  "dag_node s i = Inr (Inl data) \<Longrightarrow> get_children s (i # rest) r = get_children s rest (r @ data)"
  by (simp add: get_children.simps [of s "i # rest"])

lemma get_children_leaves:
  "\<forall>c\<in>set cs. Store_Get (h (encodeLeaf c)) s = Some (encodeLeaf c) \<Longrightarrow>
     get_children s (map (h \<circ> encodeLeaf) cs) r = Some (Inr (r @ concat cs))"
  by (induction cs arbitrary: r) (simp_all add: get_children_leaf dag_node_leaf)

text \<open>Content whose blocks a store holds is read back from it.\<close>

lemma Get_held:
  assumes "holds_blocks cr s (set (dag_blocks cr n data))" and "data \<noteq> []" and "n > 0"
    and "length data \<le> maxAlloc" and "\<And>b. length (Sha256 cr b) = 32"
  shows "DAGBuilder_Get s (dag_root cr n data) = Some (Inr data)"
proof (cases "length data \<le> n")
  case True
  then have "Store_Get (dag_root cr n data) s = Some (encodeLeaf data)"
    using assms(1,2) by (simp add: holds_blocks_def dag_blocks_def dag_root_def)
  then show ?thesis
    by (simp add: DAGBuilder_Get_def dag_node_leaf)
next
  case False
  let ?leaves = "map encodeLeaf (chunk_loop n data)"
  let ?node = "encodeInternal (of_nat (length data)) (map (Sha256 cr) ?leaves)"
  have blocks: "dag_blocks cr n data = ?leaves @ [?node]"
    using False assms(2) by (simp add: dag_blocks_def Let_def)
  have held: "Store_Get (Sha256 cr b) s = Some b" if "b \<in> set (?leaves @ [?node])" for b
    using assms(1) that unfolding holds_blocks_def blocks by blast
  have "unat (of_nat (length data) :: uint64) \<le> maxAlloc"
    using assms(4) by (simp add: unat_of_nat maxAlloc_def take_bit_eq_mod)
  moreover have "decodeNode ?node = Inr (\<lparr>dn_ID = zero32, dn_Children = map (Sha256 cr) ?leaves,
      dn_Size = of_nat (length data), dn_IsLeaf = False\<rparr>, None)"
    by (rule decode_encodeInternal) (use assms(5) in auto)
  moreover have "Store_Get (Sha256 cr ?node) s = Some ?node"
    by (rule held) simp
  ultimately have "dag_node s (dag_root cr n data) = Inr (Inr (map (Sha256 cr \<circ> encodeLeaf) (chunk_loop n data)))"
    unfolding dag_root_def blocks by (simp add: dag_node_def)
  then show ?thesis
    using get_children_leaves [of "chunk_loop n data" "Sha256 cr" s "[]"] held
    by (simp add: DAGBuilder_Get_def chunk_loop_concat [OF assms(3)])
qed

definition add_all :: "('sk, 'pk) crypto \<Rightarrow> DAGBuilder \<Rightarrow> bytes list \<Rightarrow> Store \<Rightarrow> Store" where
  "add_all cr b contents s = fold (\<lambda>data s. fst (DAGBuilder_Add cr b data s)) contents s"

lemma add_all_fold:
  "add_all cr b contents s =
     fold (\<lambda>b s. fst (Store_Put cr b s)) (concat (map (dag_blocks cr (db_chunkSize b)) contents)) s"
  unfolding add_all_def by (induction contents arbitrary: s) (simp_all add: Add_fold)

lemma add_all_holds:
  assumes "inj_on (Sha256 cr) (\<Union>data\<in>set contents. set (dag_blocks cr (db_chunkSize b) data))" and "data \<in> set contents"
  shows "holds_blocks cr (add_all cr b contents s) (set (dag_blocks cr (db_chunkSize b) data))"
proof -
  let ?bs = "concat (map (dag_blocks cr (db_chunkSize b)) contents)"
  have "block_store.holds (\<lambda>s i. Store_Get i s) (Sha256 cr) (add_all cr b contents s) ({} \<union> set ?bs)"
    unfolding add_all_fold using assms(1) by (intro chunks.holds_fold) (simp_all add: chunks.holds_def)
  then show ?thesis
    using assms(2) by (auto simp: holds_blocks_def chunks.holds_def)
qed

text \<open>
  C10: everything added stays readable: whatever contents are added one after the other to a store, in
  whatever state it was, each of them is read back from the identifier \<open>Add\<close> returned for it,
  as long as SHA-256 does not collide on the blocks they are cut into.
\<close>

theorem added_content_readable:
  assumes "\<And>b. length (Sha256 cr b) = 32"
    and "inj_on (Sha256 cr) (\<Union>data\<in>set contents. set (dag_blocks cr (db_chunkSize b) data))"
    and "b = NewDAGBuilder chunkSize" and "data \<in> set contents" and "data \<noteq> []" and "length data \<le> maxAlloc"
  shows "\<exists>root. snd (DAGBuilder_Add cr b data s) = Inr root \<and>
    DAGBuilder_Get (add_all cr b contents s) root = Some (Inr data)"
proof -
  have "db_chunkSize b > 0"
    by (simp add: assms(3) NewDAGBuilder_def DefaultChunkSize_def)
  with Get_held [OF add_all_holds [OF assms(2,4)] assms(5) _ assms(6,1)] show ?thesis
    using assms(5) by (simp add: Add_fold)
qed

section \<open>Termination of reading\<close>

text \<open>Reading returns when the children of every internal node have a smaller rank.\<close>

lemma get_children_returns:
  assumes "\<And>i cs c. dag_node s i = Inr (Inr cs) \<Longrightarrow> c \<in> set cs \<Longrightarrow> rank c < (rank i :: nat)"
    and "\<forall>i\<in>set ids. rank i < n"
  shows "\<exists>r. get_children s ids acc = Some r"
  using assms(2)
proof (induction n arbitrary: ids acc rule: less_induct)
  case (less n)
  from less.prems show ?case
  proof (induction ids arbitrary: acc)
    case (Cons i ids)
    have rest: "\<exists>r. get_children s ids acc' = Some r" for acc'
      using Cons by simp
    show ?case
    proof (cases "dag_node s i")
      case (Inr n')
      then show ?thesis
      proof (cases n')
        case (Inr cs)
        with \<open>dag_node s i = Inr n'\<close> assms(1) have "\<forall>c\<in>set cs. rank c < rank i"
          by simp
        then obtain r where "get_children s cs [] = Some r"
          using less.IH [of "rank i" cs "[]"] Cons.prems by auto
        then show ?thesis
          using rest \<open>dag_node s i = Inr n'\<close> Inr by (subst get_children.simps) (auto split: sum.splits)
      qed (use rest in \<open>subst get_children.simps, simp\<close>)
    qed (subst get_children.simps, simp)
  qed simp
qed

lemma decode_block_internal:
  assumes "raw \<in> set (dag_blocks cr n data)" and "\<And>b. length (Sha256 cr b) = 32"
    and "decodeNode raw = Inr (node, d)" and "\<not> dn_IsLeaf node" and "c \<in> set (dn_Children node)"
  shows "\<exists>chunk. c = Sha256 cr (encodeLeaf chunk) \<and> encodeLeaf chunk \<in> set (dag_blocks cr n data)"
  using assms decode_encodeInternal [of "map (Sha256 cr) (map encodeLeaf (chunk_loop n data))" "of_nat (length data)"]
  by (auto simp: dag_blocks_def Let_def split: if_splits) blast

text \<open>
  C20: reading ends: in a store filled by \<open>Add\<close>, \<open>Get\<close> returns a value or an error for every
  identifier, as long as SHA-256 does not collide on the blocks.
\<close>

theorem Get_returns:
  assumes "\<And>b. length (Sha256 cr b) = 32"
    and "inj_on (Sha256 cr) (\<Union>data\<in>set contents. set (dag_blocks cr (db_chunkSize b) data))"
  shows "\<exists>r. DAGBuilder_Get (add_all cr b contents (NewStore path)) root = Some r"
proof -
  let ?s = "add_all cr b contents (NewStore path)"
  let ?bs = "concat (map (dag_blocks cr (db_chunkSize b)) contents)"
  have stored: "\<exists>data\<in>set contents. raw \<in> set (dag_blocks cr (db_chunkSize b) data)" if "Store_Get i ?s = Some raw" for i raw
    using chunks.fold_put_lookup [of i cr ?bs "NewStore path" raw] that
    by (auto simp: add_all_fold NewStore_def Store_Get_def)
  have leaf: "\<exists>d. dag_node ?s c = Inr (Inl d)" if node: "dag_node ?s i = Inr (Inr cs)" and "c \<in> set cs" for i cs c
  proof -
    obtain raw n d where "Store_Get i ?s = Some raw" "decodeNode raw = Inr (n, d)" "\<not> dn_IsLeaf n" "dn_Children n = cs"
      using node by (auto simp: dag_node_def split: option.splits sum.splits if_splits)
    moreover obtain data where "data \<in> set contents" "raw \<in> set (dag_blocks cr (db_chunkSize b) data)"
      using stored calculation(1) by blast
    ultimately obtain chunk where "c = Sha256 cr (encodeLeaf chunk)" "encodeLeaf chunk \<in> set (dag_blocks cr (db_chunkSize b) data)"
      using decode_block_internal [OF _ assms(1)] \<open>c \<in> set cs\<close> by blast
    then have "Store_Get c ?s = Some (encodeLeaf chunk)"
      using add_all_holds [OF assms(2) \<open>data \<in> set contents\<close>] by (simp add: holds_blocks_def)
    then show ?thesis
      by (simp add: dag_node_leaf)
  qed
  let ?rank = "\<lambda>i. case dag_node ?s i of Inr (Inr _) \<Rightarrow> 1 | _ \<Rightarrow> (0::nat)"
  have "\<exists>r. get_children ?s cs [] = Some r" if "dag_node ?s root = Inr (Inr cs)" for cs
    using leaf that by (intro get_children_returns [where rank = ?rank and n = 1]) fastforce+
  then show ?thesis
    by (auto simp: DAGBuilder_Get_def split: sum.splits)
qed

text \<open>A node that lists itself first is followed forever.\<close>

lemma get_children_cycle:
  assumes "dag_node s i = Inr (Inr (i # cs))"
  shows "get_children s (i # rest) acc = None"
proof (rule ccontr)
  assume "get_children s (i # rest) acc \<noteq> None"
  then obtain r where eq: "get_children s (i # rest) acc = Some r"
    by blast
  have "s = s \<and> (\<exists>xs. i # rest = i # xs) \<longrightarrow> False"
    by (rule get_children.raw_induct [OF _ eq, where P = "\<lambda>s' ids _ _. s' = s \<and> (\<exists>xs. ids = i # xs) \<longrightarrow> False"])
      (auto simp: assms split: option.splits Option.bind_splits, blast)
  then show False
    by simp
qed

lemma Get_cycle: "dag_node s i = Inr (Inr (i # cs)) \<Longrightarrow> DAGBuilder_Get s i = None"
  by (simp add: DAGBuilder_Get_def get_children_cycle)

section \<open>Concrete runs\<close>

definition demo_sha :: "(bytes, bytes) crypto" where
  "demo_sha = demo_crypto\<lparr>Sha256 := copy_into 32\<rparr>"

definition demo_content :: bytes where
  "demo_content = [1, 2, 3]"

lemma demo_sha_length: "length (Sha256 demo_sha b) = 32"
  by (simp add: demo_sha_def)

lemma demo_chunks: "chunk_loop 2 demo_content = [[1, 2], [3]]"
  by (simp add: demo_content_def chunk_loop.simps)

lemma demo_blocks:
  "dag_blocks demo_sha 2 demo_content =
     [[0, 1, 2], [0, 3], encodeInternal 3 [copy_into 32 [0, 1, 2], copy_into 32 [0, 3]]]"
  using demo_chunks by (simp add: dag_blocks_def demo_content_def Let_def encodeLeaf_def nodeTypeLeaf_def demo_sha_def)

lemma demo_blocks_inj: "inj_on (Sha256 demo_sha) (set (dag_blocks demo_sha 2 demo_content))"
  unfolding demo_blocks by (simp add: demo_sha_def copy_into_def encodeInternal_def nodeTypeInternal_def)

lemma demo_builder: "db_chunkSize (NewDAGBuilder 2) = 2"
  by (simp add: NewDAGBuilder_def)

definition demo_disk :: disk where
  "demo_disk = \<lparr>dk_entries = None, dk_canCreate = True, dk_canList = True, dk_canWrite = (\<lambda>_. True), dk_canRead = (\<lambda>_. True)\<rparr>"

definition demo_store :: Store where
  "demo_store = \<lparr>st_chunks = [zero32 \<mapsto> [7]], st_diskPath = ''chunks''\<rparr>"

theorem Flush_Load_witness:
  "Store_Load [ContentID_Hex zero32] (fst (Store_Flush [zero32] demo_store demo_disk)) (NewStore ''chunks'') = (demo_store, None)"
proof -
  have fl: "Store_Flush [zero32] demo_store demo_disk =
      (demo_disk\<lparr>dk_entries := Some [ContentID_Hex zero32 \<mapsto> File [7]]\<rparr>, None)"
    by (simp add: Store_Flush_def demo_store_def demo_disk_def disk_mkdir_def disk_write_def)
  have path: "st_diskPath demo_store = ''chunks''" "st_chunks demo_store = [zero32 \<mapsto> [7]]"
    by (simp_all add: demo_store_def)
  have "Store_Load [ContentID_Hex zero32] (demo_disk\<lparr>dk_entries := Some [ContentID_Hex zero32 \<mapsto> File [7]]\<rparr>)
      (NewStore (st_diskPath demo_store)) = (demo_store, None)"
    by (rule Flush_Load [OF fl]) (simp_all add: path demo_disk_def)
  then show ?thesis
    by (simp add: fl path)
qed

theorem decodeNode_roundtrip_witness:
  "decodeNode (encodeInternal 5 [zero32]) =
     Inr (\<lparr>dn_ID = zero32, dn_Children = [zero32], dn_Size = 5, dn_IsLeaf = False\<rparr>, None) \<and>
   [0, 4] = encodeLeaf [4]"
proof -
  have "decodeNode [0, 4] = Inr (\<lparr>dn_ID = zero32, dn_Children = [], dn_Size = 1, dn_IsLeaf = True\<rparr>, Some [4])"
    by (simp add: decodeNode_def nodeTypeLeaf_def)
  with decodeNode_roundtrip [of "[zero32]" 5 "[0, 4]" _ "Some [4]"] show ?thesis
    by auto
qed

theorem added_content_readable_witness:
  "\<exists>root. snd (DAGBuilder_Add demo_sha (NewDAGBuilder 2) demo_content demo_store) = Inr root \<and>
    DAGBuilder_Get (add_all demo_sha (NewDAGBuilder 2) [demo_content] demo_store) root = Some (Inr demo_content)"
  by (rule added_content_readable [where chunkSize = 2])
    (use demo_blocks_inj in \<open>simp_all add: demo_sha_length demo_builder, simp_all add: demo_content_def maxAlloc_def\<close>)

theorem Get_returns_witness:
  "\<exists>r. DAGBuilder_Get (add_all demo_sha (NewDAGBuilder 2) [demo_content] (NewStore [])) zero32 = Some r"
  by (rule Get_returns) (use demo_blocks_inj in \<open>simp_all add: demo_sha_length demo_builder\<close>)

end
