(* ===== verification/Providers.thy ===== *)
theory Providers
  imports Content_Store
begin

text \<open>
  The provider registry of the content package (\<open>content/providers.go\<close>): for each content
  identifier the peers that announced it, with the time of the announcement. Records older than
  the time to live are invisible and removed by \<open>Prune\<close>.

  Times are nanoseconds; \<open>time.Time.Sub\<close> saturates at the ends of a 64-bit duration. The
  identifier of a libp2p peer is an opaque string.
\<close>

type_synonym peer_ID = string

record ProviderRecord =
  pr_PeerID :: peer_ID
  pr_Root :: ContentID
  pr_Size :: uint64
  pr_Announced :: int

record ProviderRegistry =
  pg_providers :: "ContentID \<Rightarrow> ProviderRecord list option"
  pg_ttl :: int64

definition time_sub :: "int \<Rightarrow> int \<Rightarrow> int64" where
  "time_sub t u = (if t - u > 2 ^ 63 - 1 then 2 ^ 63 - 1 else if t - u < - (2 ^ 63) then - (2 ^ 63) else t - u)"

definition NewProviderRegistry :: "int64 \<Rightarrow> ProviderRegistry" where
  "NewProviderRegistry ttl = \<lparr>pg_providers = Map.empty, pg_ttl = ttl\<rparr>"

text \<open>The loop of \<open>Add\<close>: the first record of the peer is refreshed in place, or none is found.\<close>

fun refresh :: "int \<Rightarrow> peer_ID \<Rightarrow> uint64 \<Rightarrow> ProviderRecord list \<Rightarrow> ProviderRecord list option" where
  "refresh now peerID sz [] = None"
| "refresh now peerID sz (r # records) =
     (if pr_PeerID r = peerID then Some (r\<lparr>pr_Announced := now, pr_Size := sz\<rparr> # records)
      else map_option ((#) r) (refresh now peerID sz records))"

definition ProviderRegistry_Add :: "int \<Rightarrow> ContentID \<Rightarrow> peer_ID \<Rightarrow> uint64 \<Rightarrow> ProviderRegistry \<Rightarrow> ProviderRegistry" where
  "ProviderRegistry_Add now root peerID sz pr =
     (let records = slot (pg_providers pr) root in
      case refresh now peerID sz records of
        Some records' \<Rightarrow> pr\<lparr>pg_providers := (pg_providers pr)(root \<mapsto> records')\<rparr>
      | None \<Rightarrow> pr\<lparr>pg_providers := (pg_providers pr)(root \<mapsto> records @
          [\<lparr>pr_PeerID = peerID, pr_Root = root, pr_Size = sz, pr_Announced = now\<rparr>])\<rparr>)"

definition fresh :: "int \<Rightarrow> int64 \<Rightarrow> ProviderRecord \<Rightarrow> bool" where
  "fresh now ttl r \<longleftrightarrow> time_sub now (pr_Announced r) < ttl"

definition ProviderRegistry_Get :: "int \<Rightarrow> ContentID \<Rightarrow> ProviderRegistry \<Rightarrow> ProviderRecord list" where
  "ProviderRegistry_Get now root pr = filter (fresh now (pg_ttl pr)) (slot (pg_providers pr) root)"

definition ProviderRegistry_Remove :: "ContentID \<Rightarrow> peer_ID \<Rightarrow> ProviderRegistry \<Rightarrow> ProviderRegistry" where
  "ProviderRegistry_Remove root peerID pr =
     (let records = slot (pg_providers pr) root in
      if list_ex (\<lambda>r. pr_PeerID r = peerID) records
      then pr\<lparr>pg_providers := (pg_providers pr)(root \<mapsto> remove_first (\<lambda>r. pr_PeerID r = peerID) records)\<rparr>
      else pr)"

definition valid_slot :: "int \<Rightarrow> int64 \<Rightarrow> ProviderRecord list option \<Rightarrow> ProviderRecord list option" where
  \<comment> \<open>the body of the loops of \<open>Prune\<close> and \<open>All\<close>\<close>
  "valid_slot now ttl slot' =
     (case slot' of
        None \<Rightarrow> None
      | Some records \<Rightarrow> let valid = filter (fresh now ttl) records in if valid = [] then None else Some valid)"

definition ProviderRegistry_Prune :: "int \<Rightarrow> ProviderRegistry \<Rightarrow> ProviderRegistry" where
  "ProviderRegistry_Prune now pr =
     pr\<lparr>pg_providers := (\<lambda>root. valid_slot now (pg_ttl pr) (pg_providers pr root))\<rparr>"

definition ProviderRegistry_All :: "int \<Rightarrow> ProviderRegistry \<Rightarrow> ContentID \<Rightarrow> ProviderRecord list option" where
  "ProviderRegistry_All now pr = (\<lambda>root. valid_slot now (pg_ttl pr) (pg_providers pr root))"

definition ProviderRegistry_Count :: "int \<Rightarrow> ContentID list \<Rightarrow> ProviderRegistry \<Rightarrow> nat" where
  \<comment> \<open>\<open>order\<close> lists the keys of the map once each\<close>
  "ProviderRegistry_Count now order pr = length (filter (\<lambda>root. ProviderRegistry_All now pr root \<noteq> None) order)"

section \<open>The registry as a table of leases\<close>

text \<open>
  The contract the protocol relies on: \<open>view now s root\<close> are the peers visible at a time.
\<close>

locale lease_table =
  fixes announce :: "int \<Rightarrow> 'k \<Rightarrow> 'p \<Rightarrow> 's \<Rightarrow> 's"
    and withdraw :: "'k \<Rightarrow> 'p \<Rightarrow> 's \<Rightarrow> 's"
    and prune :: "int \<Rightarrow> 's \<Rightarrow> 's"
    and leases :: "'s \<Rightarrow> 'k \<Rightarrow> ('p \<times> int) list"
    and live :: "'s \<Rightarrow> int \<Rightarrow> int \<Rightarrow> bool"
    and inv :: "'s \<Rightarrow> bool"
  assumes leases_announce: "inv s \<Longrightarrow> set (leases (announce t k p s) k') =
      (if k' = k then {(q, u) \<in> set (leases s k). q \<noteq> p} \<union> {(p, t)} else set (leases s k'))"
    and leases_withdraw: "inv s \<Longrightarrow> set (leases (withdraw k p s) k') =
      (if k' = k then {(q, u) \<in> set (leases s k). q \<noteq> p} else set (leases s k'))"
    and leases_prune: "set (leases (prune t s) k) = {(q, u) \<in> set (leases s k). live s t u}"
    and live_announce: "live (announce t k p s) = live s"
    and live_withdraw: "live (withdraw k p s) = live s"
    and live_prune: "live (prune t s) = live s"
    and live_mono: "live s t' u \<Longrightarrow> t \<le> t' \<Longrightarrow> live s t u"
    and inv_announce: "inv s \<Longrightarrow> inv (announce t k p s)"
    and inv_withdraw: "inv s \<Longrightarrow> inv (withdraw k p s)"
    and inv_prune: "inv s \<Longrightarrow> inv (prune t s)"
begin

definition providers_at :: "'s \<Rightarrow> int \<Rightarrow> 'k \<Rightarrow> 'p set" where
  "providers_at s t k = {p. \<exists>u. (p, u) \<in> set (leases s k) \<and> live s t u}"

lemma providers_prune: "t \<le> t' \<Longrightarrow> providers_at (prune t s) t' k = providers_at s t' k"
  by (auto simp: providers_at_def leases_prune live_prune intro: live_mono)

lemma providers_announce:
  "inv s \<Longrightarrow> live s t' t \<Longrightarrow>
     providers_at (announce t k p s) t' k' = (if k' = k then insert p (providers_at s t' k) else providers_at s t' k')"
  by (auto simp: providers_at_def leases_announce live_announce)

lemma providers_withdraw:
  "inv s \<Longrightarrow> providers_at (withdraw k p s) t k' =
     (if k' = k then providers_at s t k - {p} else providers_at s t k')"
  by (auto simp: providers_at_def leases_withdraw live_withdraw)

end

section \<open>The registry keeps the contract\<close>

definition registry_ok :: "ProviderRegistry \<Rightarrow> bool" where
  "registry_ok pr \<longleftrightarrow> (\<forall>root. distinct (map pr_PeerID (slot (pg_providers pr) root)) \<and>
     (\<forall>r\<in>set (slot (pg_providers pr) root). pr_Root r = root))"

definition lease :: "ProviderRecord \<Rightarrow> peer_ID \<times> int" where
  "lease r = (pr_PeerID r, pr_Announced r)"

definition registry_leases :: "ProviderRegistry \<Rightarrow> ContentID \<Rightarrow> (peer_ID \<times> int) list" where
  "registry_leases pr root = map lease (slot (pg_providers pr) root)"

lemma slot_upd [simp]: "slot (m(k \<mapsto> v)) j = (if j = k then v else slot m j)"
  by (simp add: slot_def)

lemma refresh_None: "refresh t p sz rs = None \<longleftrightarrow> p \<notin> pr_PeerID ` set rs"
  by (induction rs) auto

lemma refresh_Some:
  "refresh t p sz rs = Some rs' \<Longrightarrow>
     map pr_PeerID rs' = map pr_PeerID rs \<and> map pr_Root rs' = map pr_Root rs \<and> p \<in> pr_PeerID ` set rs"
  by (induction rs arbitrary: rs') (auto split: if_splits)

lemma refresh_leases:
  "refresh t p sz rs = Some rs' \<Longrightarrow> distinct (map pr_PeerID rs) \<Longrightarrow>
     lease ` set rs' = {(q, u) \<in> lease ` set rs. q \<noteq> p} \<union> {(p, t)}"
proof (induction rs arbitrary: rs')
  case (Cons r rs)
  show ?case
  proof (cases "pr_PeerID r = p")
    case True
    with Cons.prems show ?thesis
      by (auto simp: lease_def) (metis image_eqI)+
  next
    case False
    with Cons.prems obtain rs1 where "refresh t p sz rs = Some rs1" "rs' = r # rs1"
      by auto
    with Cons.IH [of rs1] Cons.prems False show ?thesis
      by (auto simp: lease_def)
  qed
qed simp

lemma slot_Add:
  "slot (pg_providers (ProviderRegistry_Add t k p sz pr)) j =
     (if j = k then (case refresh t p sz (slot (pg_providers pr) k) of
        Some rs \<Rightarrow> rs
      | None \<Rightarrow> slot (pg_providers pr) k @ [\<lparr>pr_PeerID = p, pr_Root = k, pr_Size = sz, pr_Announced = t\<rparr>])
      else slot (pg_providers pr) j)"
  by (simp add: ProviderRegistry_Add_def Let_def split: option.splits)

lemma pg_ttl_ops [simp]:
  "pg_ttl (ProviderRegistry_Add t k p sz pr) = pg_ttl pr"
  "pg_ttl (ProviderRegistry_Remove k p pr) = pg_ttl pr"
  "pg_ttl (ProviderRegistry_Prune t pr) = pg_ttl pr"
  by (simp_all add: ProviderRegistry_Add_def ProviderRegistry_Remove_def ProviderRegistry_Prune_def Let_def split: option.splits)

text \<open>The list after an announcement: the announcing peer is on it, and whoever was on it before.\<close>

lemma refresh_announces: "refresh t p sz rs = Some rs' \<Longrightarrow> \<exists>r\<in>set rs'. pr_PeerID r = p \<and> pr_Announced r = t"
  by (induction rs arbitrary: rs') (auto split: if_splits)

lemma refresh_others: "refresh t p sz rs = Some rs' \<Longrightarrow> r \<in> set rs' \<Longrightarrow> pr_PeerID r \<noteq> p \<Longrightarrow> r \<in> set rs"
  by (induction rs arbitrary: rs') (auto split: if_splits)

lemma Get_Add_announced:
  assumes "time_sub now t < pg_ttl pr"
  shows "p \<in> pr_PeerID ` set (ProviderRegistry_Get now k (ProviderRegistry_Add t k p sz pr))"
proof (cases "refresh t p sz (slot (pg_providers pr) k)")
  case None
  then show ?thesis
    using assms by (simp add: ProviderRegistry_Get_def slot_Add fresh_def)
next
  case (Some rs)
  with refresh_announces [OF Some] assms show ?thesis
    by (auto simp: ProviderRegistry_Get_def slot_Add fresh_def)
qed

lemma Get_Add_others:
  assumes "r \<in> set (ProviderRegistry_Get now k (ProviderRegistry_Add t k p sz pr))" and "pr_PeerID r \<noteq> p"
  shows "r \<in> set (ProviderRegistry_Get now k pr)"
  using assms by (auto simp: ProviderRegistry_Get_def slot_Add split: option.splits dest: refresh_others)

lemma slot_Remove:
  "slot (pg_providers (ProviderRegistry_Remove k p pr)) j =
     (if j = k then remove_first (\<lambda>r. pr_PeerID r = p) (slot (pg_providers pr) k) else slot (pg_providers pr) j)"
  by (simp add: ProviderRegistry_Remove_def Let_def remove_first_none)

lemma slot_Prune:
  "slot (pg_providers (ProviderRegistry_Prune t pr)) j = filter (fresh t (pg_ttl pr)) (slot (pg_providers pr) j)"
  by (simp add: ProviderRegistry_Prune_def valid_slot_def slot_def Let_def split: option.splits)

lemma registry_ok_Add:
  assumes "registry_ok pr" shows "registry_ok (ProviderRegistry_Add t k p sz pr)"
proof (cases "refresh t p sz (slot (pg_providers pr) k)")
  case None
  with assms show ?thesis
    by (auto simp: registry_ok_def slot_Add refresh_None [THEN iffD1])
next
  case (Some rs)
  from refresh_Some [OF Some] have "distinct (map pr_PeerID rs)"
    using assms by (simp add: registry_ok_def)
  moreover have "pr_Root ` set rs = pr_Root ` set (slot (pg_providers pr) k)"
    using refresh_Some [OF Some] by (metis list.set_map)
  ultimately
  show ?thesis
    using Some assms by (fastforce simp: registry_ok_def slot_Add)
qed

lemma registry_ok_Remove: "registry_ok pr \<Longrightarrow> registry_ok (ProviderRegistry_Remove k p pr)"
  unfolding registry_ok_def slot_Remove
  by (auto intro: distinct_map_remove_first dest: subsetD [OF set_remove_first_subset])

lemma registry_ok_Prune: "registry_ok pr \<Longrightarrow> registry_ok (ProviderRegistry_Prune t pr)"
  unfolding registry_ok_def slot_Prune by (auto intro: distinct_map_filter)

lemma leases_Remove:
  "distinct (map pr_PeerID rs) \<Longrightarrow>
     lease ` set (remove_first (\<lambda>r. pr_PeerID r = p) rs) = {(q, u) \<in> lease ` set rs. q \<noteq> p}"
  by (induction rs) (auto simp: lease_def, metis image_eqI)

lemma leases_Add:
  assumes "registry_ok pr"
  shows "set (registry_leases (ProviderRegistry_Add t k p sz pr) k') =
    (if k' = k then {(q, u) \<in> set (registry_leases pr k). q \<noteq> p} \<union> {(p, t)} else set (registry_leases pr k'))"
proof (cases "refresh t p sz (slot (pg_providers pr) k)")
  case None
  then have "p \<notin> pr_PeerID ` set (slot (pg_providers pr) k)"
    by (simp add: refresh_None)
  with None show ?thesis
    by (auto simp: registry_leases_def slot_Add lease_def)
next
  case (Some rs)
  with refresh_leases [OF Some] assms show ?thesis
    by (auto simp: registry_leases_def slot_Add registry_ok_def)
qed

interpretation registry: lease_table "\<lambda>t k p. ProviderRegistry_Add t k p sz" ProviderRegistry_Remove ProviderRegistry_Prune
  registry_leases "\<lambda>pr t u. time_sub t u < pg_ttl pr" registry_ok for sz
proof (unfold_locales, goal_cases)
  case (1 s t k p k')
  then show ?case by (rule leases_Add)
next
  case (2 s k p k')
  then show ?case
    by (simp add: registry_leases_def slot_Remove leases_Remove registry_ok_def)
next
  case (3 t s k)
  then show ?case
    by (auto simp: registry_leases_def slot_Prune fresh_def lease_def)
next
  case (7 s t' u t)
  then show ?case
    by (simp add: time_sub_def split: if_splits)
qed (auto intro: registry_ok_Add registry_ok_Remove registry_ok_Prune)

section \<open>What the registry shows\<close>

inductive registry_step :: "ProviderRegistry \<Rightarrow> ProviderRegistry \<Rightarrow> bool" where
  add: "registry_step pr (ProviderRegistry_Add now root peerID sz pr)"
| remove: "registry_step pr (ProviderRegistry_Remove root peerID pr)"
| prune: "registry_step pr (ProviderRegistry_Prune now pr)"

lemma registry_run_ok: "registry_step\<^sup>*\<^sup>* (NewProviderRegistry ttl) pr \<Longrightarrow> registry_ok pr"
proof (induction rule: rtranclp_induct)
  case base
  show ?case
    by (simp add: registry_ok_def NewProviderRegistry_def)
next
  case (step pr pr')
  from step.hyps(2) step.IH show ?case
    by cases (simp_all add: registry_ok_Add registry_ok_Remove registry_ok_Prune)
qed

definition visible :: "int \<Rightarrow> ContentID \<Rightarrow> ProviderRegistry \<Rightarrow> peer_ID set" where
  "visible now root pr = pr_PeerID ` set (ProviderRegistry_Get now root pr)"

lemma visible_at: "visible now root pr = lease_table.providers_at registry_leases (\<lambda>pr t u. time_sub t u < pg_ttl pr) pr now root"
  by (auto simp: visible_def registry.providers_at_def ProviderRegistry_Get_def registry_leases_def fresh_def lease_def image_iff)

text \<open>
  C19: in every registry reached by announcements, withdrawals and pruning: no peer is listed twice for
  a content, an announcement that has not expired makes exactly that peer visible in addition,
  \<open>Remove\<close> hides exactly that peer, and pruning is invisible from the time it is done.
\<close>

theorem registry_view:
  assumes "registry_step\<^sup>*\<^sup>* (NewProviderRegistry ttl) pr" and "time_sub now' now < pg_ttl pr" and "now \<le> now'"
  shows "distinct (map pr_PeerID (ProviderRegistry_Get now' root' pr)) \<and>
    visible now' root' (ProviderRegistry_Add now root peerID sz pr) =
      (if root' = root then insert peerID (visible now' root pr) else visible now' root' pr) \<and>
    visible now' root' (ProviderRegistry_Remove root peerID pr) =
      (if root' = root then visible now' root pr - {peerID} else visible now' root' pr) \<and>
    visible now' root' (ProviderRegistry_Prune now pr) = visible now' root' pr"
proof -
  have ok: "registry_ok pr"
    using assms(1) by (rule registry_run_ok)
  then have "distinct (map pr_PeerID (ProviderRegistry_Get now' root' pr))"
    by (auto simp: registry_ok_def ProviderRegistry_Get_def intro: distinct_map_filter)
  then show ?thesis
    unfolding visible_at
    using registry.providers_announce [OF ok assms(2)] registry.providers_withdraw [OF ok] registry.providers_prune [OF assms(3)]
    by simp
qed

theorem registry_view_witness:
  "visible 15 zero32 (ProviderRegistry_Add 10 zero32 ''a'' 4 (ProviderRegistry_Add 5 zero32 ''b'' 4 (NewProviderRegistry 100))) = {''a'', ''b''}"
proof -
  let ?pr = "ProviderRegistry_Add 5 zero32 ''b'' 4 (NewProviderRegistry 100)"
  have run: "registry_step\<^sup>*\<^sup>* (NewProviderRegistry 100) ?pr"
    by (intro r_into_rtranclp registry_step.add)
  have "visible 15 zero32 ?pr = {''b''}"
    by (simp add: visible_def ProviderRegistry_Get_def slot_Add NewProviderRegistry_def fresh_def time_sub_def)
  moreover have "pg_ttl ?pr = 100"
    by (simp add: NewProviderRegistry_def)
  ultimately show ?thesis
    using registry_view [OF run, of 15 10 zero32 zero32 "''a''" 4] by (simp add: time_sub_def)
qed

end
