(* ===== verification/Content_Protocol.thy ===== *)
theory Content_Protocol
  imports Providers
begin

text \<open>
  The content protocol (\<open>content/protocol.go\<close>): announcements over gossip and the request and
  response of a chunk over a stream. What a peer does is a parameter, the \<open>network\<close>: opening a
  stream to a peer fails or gives a function from the request written to the bytes that can be
  read back, or the error of the write. \<open>handleStream\<close> is the function the program itself
  registers. Goroutines, deadlines and the context are left out; a deadline shows as an error or
  a short answer of the network.
\<close>

definition maxWireChunkSize :: nat where
  "maxWireChunkSize = 4 * 1024 * 1024"

definition MsgChunkRequest :: byte where "MsgChunkRequest = 1"
definition MsgChunkResponse :: byte where "MsgChunkResponse = 2"
definition MsgNotFound :: byte where "MsgNotFound = 3"

record ContentAnnounce =
  ca_Root :: ContentID
  ca_Size :: uint64
  ca_PeerID :: peer_ID

definition ContentAnnounce_encode :: "ContentAnnounce \<Rightarrow> bytes" where
  "ContentAnnounce_encode ca = copy_into 32 (ca_Root ca) @ be_bytes 8 (unat (ca_Size ca))"

definition decodeContentAnnounce :: "bytes \<Rightarrow> go_error + ContentAnnounce" where
  "decodeContentAnnounce data =
     (if length data < 40 then Inl (Errorf ''announce too short'')
      else Inr \<lparr>ca_Root = copy_into 32 (take 32 data), ca_Size = of_nat (be_nat (take 8 (drop 32 data))), ca_PeerID = []\<rparr>)"

definition read_full :: "nat \<Rightarrow> bytes \<Rightarrow> (bytes \<times> bytes) option" where
  \<comment> \<open>\<open>io.ReadFull\<close>: the bytes read and the rest of the stream\<close>
  "read_full n stream = (if length stream < n then None else Some (take n stream, drop n stream))"

definition io_error :: go_error where
  "io_error = Errorf ''unexpected EOF''"

definition handleStream :: "Store \<Rightarrow> bytes \<Rightarrow> bytes" where
  "handleStream s input =
     (case read_full 1 input of
        None \<Rightarrow> []
      | Some (msgType, input1) \<Rightarrow>
          if hd msgType \<noteq> MsgChunkRequest then []
          else (case read_full 32 input1 of
            None \<Rightarrow> []
          | Some (i, _) \<Rightarrow>
              (case Store_Get i s of
                 None \<Rightarrow> [MsgNotFound]
               | Some data \<Rightarrow> MsgChunkResponse # copy_into 32 i @ be_bytes 4 (length data) @ data)))"

type_synonym network = "peer_ID \<Rightarrow> go_error + (bytes \<Rightarrow> go_error + bytes)"

definition RequestChunk :: "network option \<Rightarrow> peer_ID \<Rightarrow> ContentID \<Rightarrow> go_error + bytes" where
  "RequestChunk host peerID i =
     (case host of
        None \<Rightarrow> Inl (Errorf ''no libp2p host'')
      | Some net \<Rightarrow>
          (case net peerID of
             Inl e \<Rightarrow> Inl (Wrapped (''open stream to '' @ peerID) e)
           | Inr stream \<Rightarrow>
               (case stream (MsgChunkRequest # copy_into 32 i) of
                  Inl e \<Rightarrow> Inl (Wrapped ''write request'' e)
                | Inr answer \<Rightarrow>
                    (case read_full 1 answer of
                       None \<Rightarrow> Inl (Wrapped ''read response type'' io_error)
                     | Some (msgType, answer1) \<Rightarrow>
                         if hd msgType = MsgNotFound
                         then Inl (Errorf (''chunk '' @ ContentID_Hex i @ '' not found on peer '' @ peerID))
                         else if hd msgType \<noteq> MsgChunkResponse
                         then Inl (Errorf (''unexpected response type: 0x'' @ hex_encode msgType))
                         else (case read_full 36 answer1 of
                           None \<Rightarrow> Inl (Wrapped ''read response header'' io_error)
                         | Some (header, answer2) \<Rightarrow>
                             let dataLen = be_nat (drop 32 header)
                             in if dataLen > maxWireChunkSize then Inl (Errorf ''chunk too large'')
                                else (case read_full dataLen answer2 of
                                  None \<Rightarrow> Inl (Wrapped ''read chunk data'' io_error)
                                | Some (data, _) \<Rightarrow> Inr data))))))"

text \<open>The loops over the providers: the first answer without an error.\<close>

fun try_providers :: "network option \<Rightarrow> ContentID \<Rightarrow> ProviderRecord list \<Rightarrow> bytes option" where
  "try_providers host i [] = None"
| "try_providers host i (p # providers) =
     (case RequestChunk host (pr_PeerID p) i of
        Inr data \<Rightarrow> Some data
      | Inl e \<Rightarrow> try_providers host i providers)"

fun fetch_missing :: "network option \<Rightarrow> ProviderRecord list \<Rightarrow> ContentID list \<Rightarrow> Store \<Rightarrow> Store outcome" where
  "fetch_missing host providers [] s = (s, None)"
| "fetch_missing host providers (chunkID # missing) s =
     (case try_providers host chunkID providers of
        None \<Rightarrow> (s, Some (Errorf (''could not fetch chunk '' @ ContentID_Hex chunkID @ '' from any provider'')))
      | Some data \<Rightarrow> fetch_missing host providers missing (Store_PutWithID chunkID data s))"

definition fetch_root :: "network option \<Rightarrow> ProviderRecord list \<Rightarrow> ContentID \<Rightarrow> Store \<Rightarrow> Store" where
  "fetch_root host providers root s =
     (if Store_Has root s then s
      else (case try_providers host root providers of None \<Rightarrow> s | Some data \<Rightarrow> Store_PutWithID root data s))"

definition FetchContent ::
  "network option \<Rightarrow> int \<Rightarrow> ContentID \<Rightarrow> ProviderRegistry \<Rightarrow> Store \<Rightarrow> (Store \<times> (go_error + bytes)) option" where
  "FetchContent host now root pr s =
     Option.bind (DAGBuilder_Get s root) (\<lambda>local.
       case local of
         Inr data \<Rightarrow> Some (s, Inr data)
       | Inl (Panic p) \<Rightarrow> Some (s, Inl (Panic p))
       | Inl _ \<Rightarrow>
           let providers = ProviderRegistry_Get now root pr in
           if providers = [] then Some (s, Inl (Errorf (''no providers for '' @ ContentID_Hex root)))
           else
             let s1 = fetch_root host providers root s in
             (case DAGBuilder_MissingChunks s1 root of
                Inl e \<Rightarrow> Some (s1, Inl (Wrapped ''cannot determine missing chunks'' e))
              | Inr missing \<Rightarrow>
                  (case fetch_missing host providers missing s1 of
                     (s2, Some e) \<Rightarrow> Some (s2, Inl e)
                   | (s2, None) \<Rightarrow> map_option (Pair s2) (DAGBuilder_Get s2 root))))"

text \<open>
  \<open>Announce\<close> and the body of the loop of \<open>listenAnnouncements\<close>; \<open>hostID\<close> is the node's own
  identifier when it has a host.
\<close>

definition Announce :: "(bytes \<Rightarrow> go_error option) option \<Rightarrow> ContentID \<Rightarrow> uint64 \<Rightarrow> go_error option" where
  "Announce topic root sz =
     (case topic of
        None \<Rightarrow> Some (Errorf ''not connected to gossip'')
      | Some publish \<Rightarrow> publish (ContentAnnounce_encode \<lparr>ca_Root = root, ca_Size = sz, ca_PeerID = []\<rparr>))"

definition listenAnnouncements ::
  "peer_ID option \<Rightarrow> int \<Rightarrow> peer_ID \<Rightarrow> bytes \<Rightarrow> ProviderRegistry \<Rightarrow> ProviderRegistry" where
  "listenAnnouncements hostID now receivedFrom data pr =
     (if hostID = Some receivedFrom then pr
      else (case decodeContentAnnounce data of
        Inl e \<Rightarrow> pr
      | Inr ann0 \<Rightarrow> let ann = ann0\<lparr>ca_PeerID := receivedFrom\<rparr>
                   in ProviderRegistry_Add now (ca_Root ann) (ca_PeerID ann) (ca_Size ann) pr))"

section \<open>The wire formats\<close>

lemma decode_encode_announce:
  "length (ca_Root ca) = 32 \<Longrightarrow> decodeContentAnnounce (ContentAnnounce_encode ca @ rest) = Inr (ca\<lparr>ca_PeerID := []\<rparr>)"
  using be64_roundtrip [of "ca_Size ca"] by (simp add: decodeContentAnnounce_def ContentAnnounce_encode_def)

text \<open>
  An announcement published by one node registers that node as a provider of the content, with
  the size announced, at every other node, and leaves the sender's own registry alone.
\<close>

theorem announcement_registers:
  assumes "length root = 32" and "sender \<noteq> receiver"
  shows "\<exists>msg. (\<forall>publish. Announce (Some publish) root sz = publish msg) \<and>
    listenAnnouncements (Some receiver) now sender msg pr = ProviderRegistry_Add now root sender sz pr \<and>
    listenAnnouncements (Some sender) now sender msg pr = pr"
  using assms decode_encode_announce [of "\<lparr>ca_Root = root, ca_Size = sz, ca_PeerID = []\<rparr>" "[]"]
  by (intro exI [of _ "ContentAnnounce_encode \<lparr>ca_Root = root, ca_Size = sz, ca_PeerID = []\<rparr>"])
    (simp add: Announce_def listenAnnouncements_def)

lemma read_full_append: "length xs = n \<Longrightarrow> read_full n (xs @ ys) = Some (xs, ys)"
  by (simp add: read_full_def)

lemma read_full_1 [simp]: "read_full 1 (x # xs) = Some ([x], xs)" "read_full (Suc 0) (x # xs) = Some ([x], xs)"
  by (simp_all add: read_full_def)

lemma read_full_all [simp]: "read_full (length xs) xs = Some (xs, [])"
  by (simp add: read_full_def)

definition serves :: "network option \<Rightarrow> peer_ID \<Rightarrow> Store \<Rightarrow> bool" where
  "serves host p s \<longleftrightarrow> (\<exists>net. host = Some net \<and> net p = Inr (\<lambda>request. Inr (handleStream s request)))"

text \<open>What a client reads from a peer that runs \<open>handleStream\<close>.\<close>

lemma handleStream_request:
  "length i = 32 \<Longrightarrow> handleStream s (MsgChunkRequest # copy_into 32 i) =
     (case Store_Get i s of None \<Rightarrow> [MsgNotFound] | Some data \<Rightarrow> MsgChunkResponse # i @ be_bytes 4 (length data) @ data)"
  by (simp add: handleStream_def read_full_def split: option.splits)

lemma be_nat_length4: "n \<le> maxWireChunkSize \<Longrightarrow> be_nat (be_bytes 4 n) = n"
  by (simp add: be_nat_be_bytes maxWireChunkSize_def)

lemma RequestChunk_response:
  assumes "host = Some net" and "net p = Inr stream"
    and "stream (MsgChunkRequest # copy_into 32 i) = Inr (MsgChunkResponse # header @ be_bytes 4 (length data) @ data)"
    and "length header = 32" and "length data \<le> maxWireChunkSize"
  shows "RequestChunk host p i = Inr data"
  using assms read_full_append [of "header @ be_bytes 4 (length data)" 36 data]
  by (simp add: RequestChunk_def MsgChunkResponse_def MsgNotFound_def be_nat_length4)

lemma RequestChunk_served:
  assumes "serves host p s" and "length i = 32"
  shows "case Store_Get i s of
      None \<Rightarrow> RequestChunk host p i = Inl (Errorf (''chunk '' @ ContentID_Hex i @ '' not found on peer '' @ p))
    | Some data \<Rightarrow> length data \<le> maxWireChunkSize \<longrightarrow> RequestChunk host p i = Inr data"
proof -
  obtain net where net: "host = Some net" "net p = Inr (\<lambda>request. Inr (handleStream s request))"
    using assms(1) by (auto simp: serves_def)
  show ?thesis
    using RequestChunk_response [OF net] handleStream_request [OF assms(2)] assms(2)
    by (auto simp: RequestChunk_def net MsgNotFound_def split: option.splits)
qed

lemma RequestChunk_oversized:
  assumes "serves host p s" and "length i = 32" and "Store_Get i s = Some data"
    and "maxWireChunkSize < length data" and "length data < 2 ^ 32"
  shows "RequestChunk host p i = Inl (Errorf ''chunk too large'')"
proof -
  have "be_nat (be_bytes 4 (length data)) = length data"
    using assms(5) by (simp add: be_nat_be_bytes)
  then show ?thesis
    using assms handleStream_request [OF assms(2), of s] read_full_append [of "i @ be_bytes 4 (length data)" 36 data]
    by (auto simp: RequestChunk_def serves_def MsgChunkResponse_def MsgNotFound_def)
qed

text \<open>
  The transfer of a chunk: asked over a stream, a peer that runs \<open>handleStream\<close> delivers exactly
  the chunk it holds, up to the 4 MiB the client accepts; a larger one and an absent one are
  errors at the client.
\<close>

theorem chunk_transfer:
  assumes "serves host p s" and "length i = 32"
  shows "case Store_Get i s of
      None \<Rightarrow> RequestChunk host p i = Inl (Errorf (''chunk '' @ ContentID_Hex i @ '' not found on peer '' @ p))
    | Some data \<Rightarrow>
        (length data \<le> maxWireChunkSize \<longrightarrow> RequestChunk host p i = Inr data) \<and>
        (maxWireChunkSize < length data \<and> length data < 2 ^ 32 \<longrightarrow> RequestChunk host p i = Inl (Errorf ''chunk too large''))"
  using RequestChunk_served [OF assms] RequestChunk_oversized [OF assms] by (auto split: option.splits)

section \<open>Fetching from honest providers\<close>

text \<open>A store agrees with a set of blocks when it holds nothing else under their digests.\<close>

definition agrees :: "('sk, 'pk) crypto \<Rightarrow> bytes set \<Rightarrow> Store \<Rightarrow> bool" where
  "agrees cr bs s \<longleftrightarrow> (\<forall>b\<in>bs. Store_Get (Sha256 cr b) s = None \<or> Store_Get (Sha256 cr b) s = Some b)"

text \<open>
  The situation in which a fetch must succeed: every provider runs \<open>handleStream\<close> on a store
  that agrees with the blocks of the content, and every block is at one of them.
\<close>

definition offered ::
  "('sk, 'pk) crypto \<Rightarrow> network option \<Rightarrow> (peer_ID \<Rightarrow> Store) \<Rightarrow> bytes set \<Rightarrow> ProviderRecord list \<Rightarrow> bool" where
  "offered cr host peers bs providers \<longleftrightarrow>
     (\<forall>p\<in>set providers. serves host (pr_PeerID p) (peers (pr_PeerID p)) \<and> agrees cr bs (peers (pr_PeerID p))) \<and>
     (\<forall>b\<in>bs. length b \<le> maxWireChunkSize \<and>
       (\<exists>p\<in>set providers. Store_Get (Sha256 cr b) (peers (pr_PeerID p)) = Some b))"

lemma offered_inj:
  assumes "offered cr host peers bs providers"
  shows "inj_on (Sha256 cr) bs"
proof (rule inj_onI)
  fix b c
  assume b: "b \<in> bs" and c: "c \<in> bs" and eq: "Sha256 cr b = Sha256 cr c"
  obtain p where "p \<in> set providers" "Store_Get (Sha256 cr b) (peers (pr_PeerID p)) = Some b"
    using assms b by (auto simp: offered_def)
  moreover have "agrees cr bs (peers (pr_PeerID p))"
    using assms calculation(1) by (simp add: offered_def)
  ultimately show "b = c"
    using c eq by (force simp: agrees_def)
qed

lemma try_providers_offered:
  assumes "offered cr host peers bs providers" and "b \<in> bs" and "length (Sha256 cr b) = 32"
  shows "try_providers host (Sha256 cr b) providers = Some b"
proof -
  have "(\<exists>e. RequestChunk host (pr_PeerID p) (Sha256 cr b) = Inl e) \<and> Store_Get (Sha256 cr b) (peers (pr_PeerID p)) = None \<or>
      RequestChunk host (pr_PeerID p) (Sha256 cr b) = Inr b"
    if "p \<in> set providers" for p
  proof -
    have "serves host (pr_PeerID p) (peers (pr_PeerID p))" "length b \<le> maxWireChunkSize"
      and "Store_Get (Sha256 cr b) (peers (pr_PeerID p)) = None \<or> Store_Get (Sha256 cr b) (peers (pr_PeerID p)) = Some b"
      using that assms(1,2) by (simp_all add: offered_def agrees_def)
    with RequestChunk_served [of host "pr_PeerID p" "peers (pr_PeerID p)" "Sha256 cr b"] assms(3) show ?thesis
      by auto
  qed
  moreover have "\<exists>p\<in>set providers. Store_Get (Sha256 cr b) (peers (pr_PeerID p)) = Some b"
    using assms by (auto simp: offered_def)
  ultimately show ?thesis
    by (induction providers) (fastforce split: sum.splits)+
qed

lemma agrees_PutWithID:
  "agrees cr bs s \<Longrightarrow> b \<in> bs \<Longrightarrow> inj_on (Sha256 cr) bs \<Longrightarrow> agrees cr bs (Store_PutWithID (Sha256 cr b) b s)"
  by (auto simp: agrees_def Store_PutWithID_def Store_Get_def inj_on_def)

lemma Store_Get_PutWithID [simp]: "Store_Get i (Store_PutWithID j d s) = (if i = j then Some d else Store_Get i s)"
  by (simp add: Store_Get_def Store_PutWithID_def)

text \<open>All the missing blocks arrive, and what was there stays.\<close>

lemma fetch_missing_offered:
  assumes "offered cr host peers bs providers" and "\<And>b. length (Sha256 cr b) = 32"
    and "set wanted \<subseteq> bs" and "agrees cr bs s"
  shows "\<exists>s'. fetch_missing host providers (map (Sha256 cr) wanted) s = (s', None) \<and> agrees cr bs s' \<and>
    (\<forall>b\<in>bs. Store_Get (Sha256 cr b) s' = Some b \<longleftrightarrow> b \<in> set wanted \<or> Store_Get (Sha256 cr b) s = Some b)"
  using assms(3,4)
proof (induction wanted arbitrary: s)
  case (Cons b wanted)
  have b: "b \<in> bs"
    using Cons.prems by simp
  have inj: "inj_on (Sha256 cr) bs"
    using assms(1) by (rule offered_inj)
  obtain s' where s': "fetch_missing host providers (map (Sha256 cr) wanted) (Store_PutWithID (Sha256 cr b) b s) = (s', None)"
    "agrees cr bs s'"
    "\<forall>c\<in>bs. Store_Get (Sha256 cr c) s' = Some c \<longleftrightarrow> c \<in> set wanted \<or> Store_Get (Sha256 cr c) (Store_PutWithID (Sha256 cr b) b s) = Some c"
    using Cons.IH [OF _ agrees_PutWithID [OF Cons.prems(2) b inj]] Cons.prems by auto
  then show ?case
    using try_providers_offered [OF assms(1) b assms(2)] inj b by (auto simp: inj_on_def)
qed simp

text \<open>Reading the leaves of a content of which some may be missing.\<close>

lemma get_children_partial:
  assumes "\<forall>c\<in>set cs. Store_Get (h (encodeLeaf c)) s = None \<or> Store_Get (h (encodeLeaf c)) s = Some (encodeLeaf c)"
  shows "(\<forall>c\<in>set cs. Store_Get (h (encodeLeaf c)) s = Some (encodeLeaf c)) \<or>
    (\<exists>msg e. get_children s (map (h \<circ> encodeLeaf) cs) r = Some (Inl (Wrapped msg e)))"
  using assms
proof (induction cs arbitrary: r)
  case (Cons c cs)
  show ?case
  proof (cases "Store_Get (h (encodeLeaf c)) s")
    case None
    then have "dag_node s (h (encodeLeaf c)) = Inl (Errorf (''content not found: '' @ ContentID_Hex (h (encodeLeaf c))))"
      by (simp add: dag_node_def)
    then show ?thesis
      by (auto simp: get_children.simps [of s "h (encodeLeaf c) # _"] wrap_error_def)
  next
    case (Some d)
    with Cons.prems have c: "Store_Get (h (encodeLeaf c)) s = Some (encodeLeaf c)"
      by auto
    then show ?thesis
      using Cons.IH [of "r @ c"] Cons.prems by (auto simp: get_children_leaf [OF dag_node_leaf])
  qed
qed simp

definition dag_children :: "('sk, 'pk) crypto \<Rightarrow> nat \<Rightarrow> bytes \<Rightarrow> bytes list" where
  "dag_children cr n data = butlast (dag_blocks cr n data)"

lemma dag_root_node:
  assumes "data \<noteq> []" and "\<And>b. length (Sha256 cr b) = 32" and "length data \<le> maxAlloc"
    and "Store_Get (dag_root cr n data) s = Some (last (dag_blocks cr n data))"
  shows "if length data \<le> n
    then dag_node s (dag_root cr n data) = Inr (Inl data) \<and> DAGBuilder_MissingChunks s (dag_root cr n data) = Inr [] \<and> dag_children cr n data = []
    else dag_node s (dag_root cr n data) = Inr (Inr (map (Sha256 cr) (dag_children cr n data))) \<and>
      DAGBuilder_MissingChunks s (dag_root cr n data) =
        Inr (map (Sha256 cr) (filter (\<lambda>b. \<not> Store_Has (Sha256 cr b) s) (dag_children cr n data))) \<and>
      dag_children cr n data = map encodeLeaf (chunk_loop n data)"
proof (cases "length data \<le> n")
  case True
  then show ?thesis
    using assms(1,4) by (simp add: dag_blocks_def dag_children_def dag_node_def DAGBuilder_MissingChunks_def)
next
  case False
  let ?ids = "map (Sha256 cr) (map encodeLeaf (chunk_loop n data))"
  have raw: "Store_Get (dag_root cr n data) s = Some (encodeInternal (of_nat (length data)) ?ids)"
    using False assms(1,4) by (simp add: dag_blocks_def Let_def)
  have dec: "decodeNode (encodeInternal (of_nat (length data)) ?ids) =
      Inr (\<lparr>dn_ID = zero32, dn_Children = ?ids, dn_Size = of_nat (length data), dn_IsLeaf = False\<rparr>, None)"
    by (rule decode_encodeInternal) (use assms(2) in auto)
  have "\<not> unat (of_nat (length data) :: uint64) > maxAlloc"
    using assms(3) by (simp add: unat_of_nat maxAlloc_def take_bit_eq_mod)
  moreover have "dag_children cr n data = map encodeLeaf (chunk_loop n data)"
    using False assms(1) by (simp add: dag_children_def dag_blocks_def Let_def)
  ultimately show ?thesis
    using False raw dec by (simp add: dag_node_def DAGBuilder_MissingChunks_def filter_map comp_def)
qed

lemma set_dag_blocks:
  "data \<noteq> [] \<Longrightarrow> set (dag_blocks cr n data) = insert (last (dag_blocks cr n data)) (set (dag_children cr n data))"
  by (simp add: dag_children_def dag_blocks_def Let_def)

lemma Store_Has_iff: "Store_Has i s \<longleftrightarrow> Store_Get i s \<noteq> None"
  by (simp add: Store_Has_def Store_Get_def)

lemma fetch_root_offered:
  assumes "offered cr host peers bs providers" and "b \<in> bs" and "\<And>b. length (Sha256 cr b) = 32" and "agrees cr bs s"
  shows "Store_Get (Sha256 cr b) (fetch_root host providers (Sha256 cr b) s) = Some b \<and>
    agrees cr bs (fetch_root host providers (Sha256 cr b) s)"
  using try_providers_offered [OF assms(1,2,3)] agrees_PutWithID [OF assms(4,2) offered_inj [OF assms(1)]] assms(2,4)
  by (auto simp: fetch_root_def Store_Has_iff agrees_def)

lemma Get_agrees:
  assumes "agrees cr (set (dag_blocks cr n data)) s" and "data \<noteq> []" and "n > 0" and "length data \<le> maxAlloc"
    and "\<And>b. length (Sha256 cr b) = 32"
  shows "DAGBuilder_Get s (dag_root cr n data) = Some (Inr data) \<or>
    (\<exists>e. DAGBuilder_Get s (dag_root cr n data) = Some (Inl e) \<and> (\<forall>p. e \<noteq> Panic p))"
proof (cases "Store_Get (dag_root cr n data) s")
  case None
  then show ?thesis
    by (simp add: DAGBuilder_Get_def dag_node_def)
next
  case (Some raw)
  note split = set_dag_blocks [OF assms(2), of cr n]
  with Some assms(1) have root: "Store_Get (dag_root cr n data) s = Some (last (dag_blocks cr n data))"
    by (auto simp: agrees_def dag_root_def)
  note node = dag_root_node [OF assms(2,5,4) root]
  show ?thesis
  proof (cases "length data \<le> n")
    case True
    with node show ?thesis
      by (simp add: DAGBuilder_Get_def)
  next
    case False
    with node have children: "dag_children cr n data = map encodeLeaf (chunk_loop n data)"
      and get: "DAGBuilder_Get s (dag_root cr n data) = get_children s (map (Sha256 cr \<circ> encodeLeaf) (chunk_loop n data)) []"
      by (simp_all add: DAGBuilder_Get_def)
    have "\<forall>c\<in>set (chunk_loop n data). Store_Get (Sha256 cr (encodeLeaf c)) s = None \<or> Store_Get (Sha256 cr (encodeLeaf c)) s = Some (encodeLeaf c)"
      using assms(1) split children by (simp add: agrees_def)
    from get_children_partial [OF this, of "[]"]
    consider "\<forall>c\<in>set (chunk_loop n data). Store_Get (Sha256 cr (encodeLeaf c)) s = Some (encodeLeaf c)"
      | msg e where "DAGBuilder_Get s (dag_root cr n data) = Some (Inl (Wrapped msg e))"
      using get by auto
    then show ?thesis
    proof cases
      case 1
      then show ?thesis
        using get get_children_leaves [OF 1, of "[]"] by (simp add: chunk_loop_concat [OF assms(3)])
    qed simp
  qed
qed

text \<open>
  Fetching works: when every provider of a content runs \<open>handleStream\<close> on a store that holds
  nothing else under the digests of its blocks, and every block is at one of them,
  \<open>FetchContent\<close> returns the content that was added, from whatever part of it is already there.
\<close>

theorem FetchContent_correct:
  assumes "\<And>b. length (Sha256 cr b) = 32" and "n = db_chunkSize (NewDAGBuilder chunkSize)"
    and "data \<noteq> []" and "length data \<le> maxAlloc"
    and "agrees cr (set (dag_blocks cr n data)) s"
    and "offered cr host peers (set (dag_blocks cr n data)) (ProviderRegistry_Get now (dag_root cr n data) pr)"
  shows "\<exists>s'. FetchContent host now (dag_root cr n data) pr s = Some (s', Inr data)"
proof -
  let ?B = "dag_blocks cr n data" and ?root = "dag_root cr n data"
  let ?ps = "ProviderRegistry_Get now ?root pr" and ?R = "last (dag_blocks cr n data)"
  have n: "n > 0"
    by (simp add: assms(2) NewDAGBuilder_def DefaultChunkSize_def)
  note blocks = set_dag_blocks [OF assms(3), of cr n]
  consider "DAGBuilder_Get s ?root = Some (Inr data)"
    | e where "DAGBuilder_Get s ?root = Some (Inl e)" "\<forall>p. e \<noteq> Panic p"
    using Get_agrees [OF assms(5,3) n assms(4,1)] by blast
  then show ?thesis
  proof cases
    case 1
    then show ?thesis
      by (simp add: FetchContent_def)
  next
    case (2 e)
    have R: "?R \<in> set ?B"
      by (simp add: blocks)
    then have ps: "?ps \<noteq> []"
      using assms(6) by (auto simp: offered_def)
    let ?s1 = "fetch_root host ?ps ?root s"
    have s1: "Store_Get ?root ?s1 = Some ?R" and a1: "agrees cr (set ?B) ?s1"
      using fetch_root_offered [OF assms(6) R assms(1,5)] by (simp_all add: dag_root_def)
    note node = dag_root_node [OF assms(3,1,4) s1]
    define wanted where "wanted = (if length data \<le> n then [] else filter (\<lambda>b. \<not> Store_Has (Sha256 cr b) ?s1) (dag_children cr n data))"
    have missing: "DAGBuilder_MissingChunks ?s1 ?root = Inr (map (Sha256 cr) wanted)" and "set wanted \<subseteq> set ?B"
      using node by (auto simp: wanted_def blocks split: if_splits)
    from fetch_missing_offered [OF assms(6,1) this(2) a1] obtain s2
      where s2: "fetch_missing host ?ps (map (Sha256 cr) wanted) ?s1 = (s2, None)"
        and held: "\<forall>b\<in>set ?B. Store_Get (Sha256 cr b) s2 = Some b \<longleftrightarrow> b \<in> set wanted \<or> Store_Get (Sha256 cr b) ?s1 = Some b"
      by blast
    have "b \<in> set wanted \<or> Store_Get (Sha256 cr b) ?s1 = Some b" if "b \<in> set ?B" for b
      using that node a1 s1
      by (auto simp: blocks wanted_def Store_Has_iff agrees_def dag_root_def split: if_splits)
    with held have "holds_blocks cr s2 (set ?B)"
      by (simp add: holds_blocks_def)
    then have "DAGBuilder_Get s2 ?root = Some (Inr data)"
      using Get_held [OF _ assms(3) n assms(4,1)] by simp
    then show ?thesis
      using 2 ps missing s2 by (cases e) (simp_all add: FetchContent_def Let_def)
  qed
qed

section \<open>Fetching from a provider that lies\<close>

text \<open>The bytes a provider writes to answer with a block of its choice.\<close>

definition answer :: "bytes \<Rightarrow> bytes" where
  "answer block = MsgChunkResponse # zero32 @ be_bytes 4 (length block) @ block"

definition answers_with :: "network \<Rightarrow> ProviderRecord \<Rightarrow> bytes \<Rightarrow> bool" where
  "answers_with net p block \<longleftrightarrow> net (pr_PeerID p) = Inr (\<lambda>request. Inr (answer block))"

lemma try_providers_answer:
  assumes "answers_with net p block" and "length block \<le> maxWireChunkSize"
  shows "try_providers (Some net) i (p # ps) = Some block"
proof -
  have "RequestChunk (Some net) (pr_PeerID p) i = Inr block"
    using assms by (intro RequestChunk_response [where net = net and stream = "\<lambda>request. Inr (answer block)" and header = zero32])
      (simp_all add: answers_with_def answer_def)
  then show ?thesis
    by simp
qed

lemma Get_absent: "Store_Get i s = None \<Longrightarrow> DAGBuilder_Get s i = Some (Inl (Errorf (''content not found: '' @ ContentID_Hex i)))"
  by (simp add: DAGBuilder_Get_def dag_node_def)

lemma fetch_answered:
  assumes "Store_Get root s = None" and "ProviderRegistry_Get now root pr = p # ps"
    and "answers_with net p block" and "length block \<le> maxWireChunkSize"
    and "DAGBuilder_MissingChunks (Store_PutWithID root block s) root = Inr []"
  shows "FetchContent (Some net) now root pr s =
    map_option (Pair (Store_PutWithID root block s)) (DAGBuilder_Get (Store_PutWithID root block s) root)"
proof -
  have "fetch_root (Some net) (p # ps) root s = Store_PutWithID root block s"
    using try_providers_answer [OF assms(3,4)] assms(1) by (simp add: fetch_root_def Store_Has_iff del: try_providers.simps)
  then show ?thesis
    using assms(5) by (simp add: FetchContent_def Get_absent [OF assms(1)] assms(2) Let_def)
qed

text \<open>
  C22: fetched blocks are not compared with the identifier they are stored under: the first provider of
  a content that is not yet in the store decides what \<open>FetchContent\<close> returns for it, whatever its
  identifier is, and the store keeps the forged block.
\<close>

theorem fetch_unverified:
  assumes "Store_Get root s = None" and "ProviderRegistry_Get now root pr = p # ps"
    and "answers_with net p (encodeLeaf forged)"
    and "length forged < maxWireChunkSize"
  shows "FetchContent (Some net) now root pr s = Some (Store_PutWithID root (encodeLeaf forged) s, Inr forged)"
proof -
  have "DAGBuilder_MissingChunks (Store_PutWithID root (encodeLeaf forged) s) root = Inr []"
    by (simp add: DAGBuilder_MissingChunks_def)
  moreover have "DAGBuilder_Get (Store_PutWithID root (encodeLeaf forged) s) root = Some (Inr forged)"
    by (simp add: DAGBuilder_Get_def dag_node_leaf)
  ultimately show ?thesis
    using fetch_answered [OF assms(1-3)] assms(4) by (simp add: encodeLeaf_def)
qed

text \<open>
  A provider stops the node: it answers with an internal node that lists the requested identifier
  itself, and the recursion of \<open>Get\<close> never ends; or with one whose claimed size no slice can
  have, and \<open>Get\<close> panics.
\<close>

theorem fetch_crashes:
  assumes "length root = 32" and "Store_Get root s = None" and "ProviderRegistry_Get now root pr = p # ps"
  shows "(answers_with net p (encodeInternal 0 [root]) \<longrightarrow>
      FetchContent (Some net) now root pr s = None) \<and>
    (answers_with net p (encodeInternal 0x8000000000000000 []) \<longrightarrow>
      (\<exists>s' msg. FetchContent (Some net) now root pr s = Some (s', Inl (Panic msg))))"
proof -
  let ?s = "\<lambda>n cs. Store_PutWithID root (encodeInternal n cs) s"
  have len: "length (encodeInternal n cs) \<le> maxWireChunkSize" if "cs = [root] \<or> cs = []" for n cs
    using that assms(1) by (auto simp: encodeInternal_def maxWireChunkSize_def)
  have dec: "decodeNode (encodeInternal n cs) = Inr (\<lparr>dn_ID = zero32, dn_Children = cs, dn_Size = n, dn_IsLeaf = False\<rparr>, None)"
    if "cs = [root] \<or> cs = []" for n cs
    by (rule decode_encodeInternal) (use that assms(1) in auto)
  have missing: "DAGBuilder_MissingChunks (?s n cs) root = Inr []" if "cs = [root] \<or> cs = []" for n cs
    using that by (auto simp: DAGBuilder_MissingChunks_def dec [OF that] Store_Has_iff)
  have "dag_node (?s 0 [root]) root = Inr (Inr [root])"
    by (simp add: dag_node_def dec)
  then have "DAGBuilder_Get (?s 0 [root]) root = None"
    by (rule Get_cycle)
  moreover have "DAGBuilder_Get (?s 0x8000000000000000 []) root = Some (Inl (Panic ''makeslice: cap out of range''))"
    by (simp add: DAGBuilder_Get_def dag_node_def dec maxAlloc_def)
  ultimately show ?thesis
    using fetch_answered [OF assms(2,3) _ len missing] by auto
qed

section \<open>Concrete runs\<close>

definition demo_peer :: Store where
  "demo_peer = add_all demo_sha (NewDAGBuilder 2) [demo_content] (NewStore [])"

definition demo_root :: ContentID where
  "demo_root = dag_root demo_sha 2 demo_content"

definition demo_registry :: ProviderRegistry where
  "demo_registry = ProviderRegistry_Add 5 demo_root ''a'' 3 (NewProviderRegistry 100)"

definition demo_net :: network where
  "demo_net p = (if p = ''a'' then Inr (\<lambda>request. Inr (handleStream demo_peer request)) else Inl io_error)"

lemma demo_providers:
  "ProviderRegistry_Get 10 demo_root demo_registry =
     [\<lparr>pr_PeerID = ''a'', pr_Root = demo_root, pr_Size = 3, pr_Announced = 5\<rparr>]"
  by (simp add: demo_registry_def ProviderRegistry_Get_def slot_Add NewProviderRegistry_def fresh_def time_sub_def)

lemma length_demo_root: "length demo_root = 32"
  by (simp add: demo_root_def dag_root_def demo_sha_length)

lemma demo_serves: "serves (Some demo_net) ''a'' demo_peer"
  by (simp add: serves_def demo_net_def)

lemma demo_peer_holds: "b \<in> set (dag_blocks demo_sha 2 demo_content) \<Longrightarrow> Store_Get (Sha256 demo_sha b) demo_peer = Some b"
  using add_all_holds [where contents = "[demo_content]" and b = "NewDAGBuilder 2" and cr = demo_sha and data = demo_content]
    demo_blocks_inj by (simp add: demo_builder demo_peer_def holds_blocks_def)

lemma demo_block_sizes: "b \<in> set (dag_blocks demo_sha 2 demo_content) \<Longrightarrow> length b \<le> maxWireChunkSize"
  by (auto simp: demo_blocks encodeInternal_def maxWireChunkSize_def)

theorem announcement_registers_witness:
  "\<exists>msg. listenAnnouncements (Some ''b'') 5 ''a'' msg (NewProviderRegistry 100) = demo_registry"
  using announcement_registers [of demo_root "''a''" "''b''" 3 5 "NewProviderRegistry 100"] length_demo_root
  by (auto simp: demo_registry_def)

theorem chunk_transfer_witness: "RequestChunk (Some demo_net) ''a'' (Sha256 demo_sha [0, 3]) = Inr [0, 3]"
proof -
  have "Store_Get (Sha256 demo_sha [0, 3]) demo_peer = Some [0, 3]"
    by (rule demo_peer_holds) (simp add: demo_blocks)
  with chunk_transfer [OF demo_serves demo_sha_length, of "[0, 3]"] show ?thesis
    by (simp add: maxWireChunkSize_def)
qed

theorem FetchContent_correct_witness:
  "\<exists>s'. FetchContent (Some demo_net) 10 (dag_root demo_sha 2 demo_content) demo_registry (NewStore []) = Some (s', Inr demo_content)"
proof (rule FetchContent_correct [where peers = "\<lambda>_. demo_peer" and chunkSize = 2])
  show "offered demo_sha (Some demo_net) (\<lambda>_. demo_peer) (set (dag_blocks demo_sha 2 demo_content))
      (ProviderRegistry_Get 10 (dag_root demo_sha 2 demo_content) demo_registry)"
    using demo_providers [unfolded demo_root_def] demo_serves demo_peer_holds demo_block_sizes
    by (auto simp: offered_def agrees_def)
  show "agrees demo_sha (set (dag_blocks demo_sha 2 demo_content)) (NewStore [])"
    by (simp add: agrees_def NewStore_def Store_Get_def)
qed (simp_all add: demo_sha_length demo_builder, simp_all add: demo_content_def maxAlloc_def)

theorem fetch_unverified_witness:
  "\<exists>net s'. FetchContent (Some net) 10 demo_root demo_registry (NewStore []) = Some (s', Inr [6, 6, 6])"
  using fetch_unverified [of demo_root "NewStore []" 10 demo_registry _ "[]" "\<lambda>_. Inr (\<lambda>_. Inr (answer (encodeLeaf [6, 6, 6])))" "[6, 6, 6]",
      OF _ demo_providers]
  by (auto simp: answers_with_def NewStore_def Store_Get_def maxWireChunkSize_def)

theorem fetch_crashes_witness:
  "\<exists>net. FetchContent (Some net) 10 demo_root demo_registry (NewStore []) = None"
  using fetch_crashes [of demo_root "NewStore []" 10 demo_registry _ "[]" "\<lambda>_. Inr (\<lambda>_. Inr (answer (encodeInternal 0 [demo_root])))",
      OF length_demo_root _ demo_providers]
  by (auto simp: answers_with_def NewStore_def Store_Get_def)

end
