(* ===== verification/Reward_Merkle.thy ===== *)
theory Reward_Merkle
  imports Signed_Document "HOL-Library.List_Lexorder" "HOL-Library.Char_ord"
begin

text \<open>
  The Merkle tree over the rewards of an epoch: root and proof are computed off chain
  (\<open>ComputeMerkleRoot\<close> and \<open>ComputeMerkleProof\<close> of \<open>rewards/epoch.go\<close>), the proof is
  verified by the pool contract (\<open>_verify\<close> of \<open>contracts/RevenuePool.sol\<close>).

  Both sides hash the two children of a node in ascending order. Go compares them as strings,
  the contract as 256-bit numbers; on digests of 32 bytes the two orders agree.

  \<open>sort.Slice\<close> is \<open>sort_key\<close>: its result is determined when the addresses are distinct.
\<close>

record MerkleLeaf =
  ml_Address :: address
  ml_Amount :: int

text \<open>\<open>leaf.Address.Bytes()\<close> followed by the amount padded to 32 bytes.\<close>

definition leaf_data :: "MerkleLeaf \<Rightarrow> bytes" where
  "leaf_data leaf = ml_Address leaf @ left_pad 32 (big_bytes (nat \<bar>ml_Amount leaf\<bar>))"

definition sort_leaves :: "('sk, 'pk) crypto \<Rightarrow> MerkleLeaf list \<Rightarrow> MerkleLeaf list" where
  "sort_leaves cr leaves = sort_key (\<lambda>l. AddressHex cr (ml_Address l)) leaves"

definition pair_hash :: "(bytes \<Rightarrow> bytes) \<Rightarrow> bytes \<Rightarrow> bytes \<Rightarrow> bytes" where
  "pair_hash h left right = (if left > right then h (right @ left) else h (left @ right))"

fun next_level :: "(bytes \<Rightarrow> bytes) \<Rightarrow> bytes list \<Rightarrow> bytes list" where
  "next_level h [] = []"
| "next_level h [x] = [x]"
| "next_level h (x # y # rest) = pair_hash h x y # next_level h rest"

lemma length_next_level: "length (next_level h hs) = (length hs + 1) div 2"
  by (induction h hs rule: next_level.induct) auto

function root_loop :: "(bytes \<Rightarrow> bytes) \<Rightarrow> bytes list \<Rightarrow> bytes list" where
  "root_loop h hashes = (if length hashes > 1 then root_loop h (next_level h hashes) else hashes)"
  by pat_completeness auto
termination
  by (relation "measure (\<lambda>(_, hs). length hs)") (auto simp: length_next_level)

declare root_loop.simps [simp del]

text \<open>The slice of leaves is sorted in place, so the caller sees it sorted.\<close>

definition ComputeMerkleRoot :: "('sk, 'pk) crypto \<Rightarrow> MerkleLeaf list \<Rightarrow> MerkleLeaf list \<times> bytes" where
  "ComputeMerkleRoot cr leaves =
     (if leaves = [] then (leaves, zero32)
      else
        let sorted = sort_leaves cr leaves;
            hashes = map (\<lambda>l. Keccak256 cr (leaf_data l)) sorted
        in (sorted, copy_into 32 (hd (root_loop (Keccak256 cr) hashes))))"

text \<open>
  One pass of the loop of \<open>ComputeMerkleProof\<close> from position \<open>i\<close> on; \<open>k\<close> is the length of
  the next level so far. It returns the rest of the next level, the index of the target there and
  the elements added to the proof.
\<close>

fun proof_level :: "(bytes \<Rightarrow> bytes) \<Rightarrow> nat \<Rightarrow> nat \<Rightarrow> nat \<Rightarrow> bytes list \<Rightarrow> bytes list \<times> nat \<times> bytes list" where
  "proof_level h i k idx [] = ([], idx, [])"
| "proof_level h i k idx [x] = ([x], if i = idx then k else idx, [])"
| "proof_level h i k idx (x # y # rest) =
     (let (p, idx1) = (if i = idx \<or> i + 1 = idx then ([if i = idx then y else x], k) else ([], idx));
          (next, idx2, path) = proof_level h (i + 2) (k + 1) idx1 rest
      in (pair_hash h x y # next, idx2, p @ path))"

lemma proof_level_next: "fst (proof_level h i k idx hs) = next_level h hs"
  by (induction h i k idx hs rule: proof_level.induct) (auto simp: Let_def split: prod.splits)

function proof_loop :: "(bytes \<Rightarrow> bytes) \<Rightarrow> bytes list \<Rightarrow> nat \<Rightarrow> bytes list \<Rightarrow> bytes list" where
  "proof_loop h hashes idx pf =
     (if length hashes > 1 then
        (let (next, idx', p) = proof_level h 0 0 idx hashes in proof_loop h next idx' (pf @ p))
      else pf)"
  by pat_completeness auto
termination
  by (relation "measure (\<lambda>(_, hs, _). length hs)")
    (auto simp: length_next_level dest!: arg_cong [where f = fst] simp: proof_level_next)

declare proof_loop.simps [simp del]

fun find_address :: "address \<Rightarrow> MerkleLeaf list \<Rightarrow> nat option" where
  "find_address a [] = None"
| "find_address a (l # ls) = (if ml_Address l = a then Some 0 else map_option Suc (find_address a ls))"

definition ComputeMerkleProof ::
  "('sk, 'pk) crypto \<Rightarrow> MerkleLeaf list \<Rightarrow> address \<Rightarrow> MerkleLeaf list \<times> (go_error + bytes list)" where
  "ComputeMerkleProof cr leaves address =
     (if leaves = [] then (leaves, Inl (Errorf ''no leaves''))
      else
        let sorted = sort_leaves cr leaves in
        case find_address address sorted of
          None \<Rightarrow> (sorted, Inl (Errorf ''address not in leaves''))
        | Some targetIdx \<Rightarrow>
            (sorted, Inr (proof_loop (Keccak256 cr) (map (\<lambda>l. Keccak256 cr (leaf_data l)) sorted) targetIdx [])))"

section \<open>The verifier of the contract\<close>

text \<open>\<open>bytes32\<close> values are compared as numbers; \<open>abi.encodePacked\<close> of two of them is their concatenation.\<close>

definition verify_step :: "(bytes \<Rightarrow> bytes) \<Rightarrow> bytes \<Rightarrow> bytes \<Rightarrow> bytes" where
  "verify_step h proofElement hash' =
     (if be_nat hash' < be_nat proofElement then h (hash' @ proofElement) else h (proofElement @ hash'))"

definition verify :: "(bytes \<Rightarrow> bytes) \<Rightarrow> bytes list \<Rightarrow> bytes \<Rightarrow> bytes \<Rightarrow> bool" where
  "verify h pf root leaf \<longleftrightarrow> fold (verify_step h) pf leaf = root"

text \<open>\<open>abi.encodePacked(account, amount)\<close>: 20 bytes of address and the 32 bytes of a \<open>uint256\<close>.\<close>

definition packed_leaf :: "address \<Rightarrow> nat \<Rightarrow> bytes" where
  "packed_leaf account amount = account @ be_bytes 32 amount"

section \<open>The proof leads to the root\<close>

lemma be_nat_Cons: "be_nat (x # xs) = unat x * 256 ^ length xs + be_nat xs"
proof (induction xs rule: rev_induct)
  case Nil
  show ?case
    using be_nat_append1 [of "[]" x] by simp
next
  case (snoc y xs)
  have "be_nat (x # xs @ [y]) = be_nat (x # xs) * 256 + unat y"
    using be_nat_append1 [of "x # xs" y] by simp
  with snoc show ?case
    by (simp add: algebra_simps)
qed

lemma be_nat_less_iff: "length a = length b \<Longrightarrow> be_nat a < be_nat b \<longleftrightarrow> a < b"
proof (induction a b rule: list_induct2)
  case (Cons x xs y ys)
  let ?w = "256 ^ length xs :: nat"
  have bounds: "be_nat xs < ?w" "be_nat ys < ?w"
    using be_nat_bound [of xs] be_nat_bound [of ys] Cons.hyps by simp_all
  have step: "unat u * ?w + be_nat us < unat v * ?w + be_nat vs" if "u < v" "be_nat us < ?w" for u v :: byte and us vs
  proof -
    have "Suc (unat u) * ?w \<le> unat v * ?w"
      using that(1) by (intro mult_le_mono1) (simp add: word_less_nat_alt)
    with that(2) show ?thesis
      by simp
  qed
  show ?case
    using step [of x y xs ys] step [of y x ys xs] bounds Cons.IH Cons.hyps
    by (cases x y rule: linorder_cases) (auto simp: be_nat_Cons)
qed simp

lemma verify_step_pair: "length acc = length p \<Longrightarrow> verify_step h p acc = pair_hash h acc p"
  by (auto simp: verify_step_def pair_hash_def be_nat_less_iff)

lemma pair_hash_commute: "pair_hash h x y = pair_hash h y x"
  by (auto simp: pair_hash_def)

lemma length_pair_hash: "(\<And>x. length (h x) = 32) \<Longrightarrow> length (pair_hash h x y) = 32"
  by (simp add: pair_hash_def)

lemma length_next_level_elems:
  "(\<And>x. length (h x) = 32) \<Longrightarrow> \<forall>x\<in>set hs. length x = 32 \<Longrightarrow> \<forall>x\<in>set (next_level h hs). length x = 32"
  by (induction h hs rule: next_level.induct) (auto simp: length_pair_hash)

text \<open>Once the target is behind, a pass changes neither index nor proof.\<close>

lemma proof_level_behind: "idx < i \<Longrightarrow> proof_level h i k idx hs = (next_level h hs, idx, [])"
  by (induction h i k idx hs rule: proof_level.induct) (auto simp: Let_def)

text \<open>One pass: the index of the parent, and the step from the target to it.\<close>

lemma proof_level_target:
  assumes "i \<le> idx" and "idx < i + length hs" and "k \<le> i"
    and "\<forall>x\<in>set hs. length x = 32"
  shows "\<exists>path. proof_level h i k idx hs = (next_level h hs, k + (idx - i) div 2, path) \<and>
    fold (verify_step h) path (hs ! (idx - i)) = next_level h hs ! ((idx - i) div 2)"
  using assms
proof (induction h i k idx hs rule: proof_level.induct)
  case (3 h i k idx x y rest)
  show ?case
  proof (cases "i = idx \<or> i + 1 = idx")
    case True
    then have "proof_level h (i + 2) (k + 1) k rest = (next_level h rest, k, [])"
      using 3 by (intro proof_level_behind) simp
    with True 3 show ?thesis
      by (auto simp: verify_step_pair pair_hash_commute)
  next
    case False
    with 3 have "\<exists>path. proof_level h (i + 2) (k + 1) idx rest = (next_level h rest, k + 1 + (idx - (i + 2)) div 2, path) \<and>
        fold (verify_step h) path (rest ! (idx - (i + 2))) = next_level h rest ! ((idx - (i + 2)) div 2)"
      by simp
    then obtain path where p: "proof_level h (i + 2) (k + 1) idx rest = (next_level h rest, k + 1 + (idx - (i + 2)) div 2, path)"
      "fold (verify_step h) path (rest ! (idx - (i + 2))) = next_level h rest ! ((idx - (i + 2)) div 2)"
      by blast
    obtain m where m: "idx - i = Suc (Suc m)" "idx - (i + 2) = m"
      using False 3 by (metis Suc_diff_Suc add_2_eq_Suc' le_neq_implies_less Suc_eq_plus1 Suc_leI)
    from False p m show ?thesis
      by simp
  qed
qed auto

lemma loops_single [simp]: "root_loop h [x] = [x]" "proof_loop h [x] i pf = pf"
  by (simp_all add: root_loop.simps proof_loop.simps)

lemma proof_loop_root:
  assumes "\<And>x. length (h x) = 32"
  shows "idx < length hs \<Longrightarrow> \<forall>x\<in>set hs. length x = 32 \<Longrightarrow>
    \<exists>path. proof_loop h hs idx pf = pf @ path \<and> fold (verify_step h) path (hs ! idx) = hd (root_loop h hs)"
proof (induction "length hs" arbitrary: hs idx pf rule: less_induct)
  case less
  show ?case
  proof (cases "length hs > 1")
    case False
    with less.prems obtain x where "hs = [x]" "idx = 0"
      by (cases hs) auto
    then show ?thesis
      by simp
  next
    case True
    obtain p where p: "proof_level h 0 0 idx hs = (next_level h hs, idx div 2, p)"
      and step: "fold (verify_step h) p (hs ! idx) = next_level h hs ! (idx div 2)"
      using proof_level_target [of 0 idx hs 0 h] less.prems by auto
    have "length (next_level h hs) < length hs" "idx div 2 < length (next_level h hs)"
      using True less.prems(1) by (simp_all add: length_next_level)
    then obtain path where "proof_loop h (next_level h hs) (idx div 2) (pf @ p) = (pf @ p) @ path"
      "fold (verify_step h) path (next_level h hs ! (idx div 2)) = hd (root_loop h (next_level h hs))"
      using less.hyps [of "next_level h hs" "idx div 2" "pf @ p"] length_next_level_elems [of h hs, OF assms less.prems(2)] by blast
    with True p step show ?thesis
      by (simp add: proof_loop.simps [of h hs] root_loop.simps [of h hs])
  qed
qed

lemma length_root_loop:
  "(\<And>x. length (h x) = 32) \<Longrightarrow> hs \<noteq> [] \<Longrightarrow> \<forall>x\<in>set hs. length x = 32 \<Longrightarrow> length (hd (root_loop h hs)) = 32"
proof (induction h hs rule: root_loop.induct)
  case (1 h hs)
  show ?case
  proof (cases "length hs > 1")
    case True
    moreover have "length (next_level h hs) > 0"
      using True unfolding length_next_level by simp
    then have "next_level h hs \<noteq> []"
      by simp
    ultimately show ?thesis
      using 1 length_next_level_elems [of h hs, OF 1(2)] by (simp add: root_loop.simps [of h hs])
  qed (use 1 in \<open>cases hs, simp_all\<close>)
qed

lemma find_address_some:
  "find_address a ls = Some i \<Longrightarrow> i < length ls \<and> ml_Address (ls ! i) = a"
  by (induction ls arbitrary: i) (auto split: if_splits)

lemma find_address_None: "find_address a ls = None \<longleftrightarrow> a \<notin> ml_Address ` set ls"
  by (induction ls) auto

text \<open>The leaf the contract rebuilds is the leaf of the tree.\<close>

lemma leaf_data_packed:
  "0 \<le> ml_Amount l \<Longrightarrow> ml_Amount l < 2 ^ 256 \<Longrightarrow> leaf_data l = packed_leaf (ml_Address l) (nat (ml_Amount l))"
  by (simp add: leaf_data_def packed_leaf_def left_pad_be_bytes nat_less_iff)

lemma merkle_proof_ok:
  assumes "\<And>x. length (Keccak256 cr x) = 32" and "distinct (map ml_Address leaves)"
    and "leaf \<in> set leaves" and "0 \<le> ml_Amount leaf" and "ml_Amount leaf < 2 ^ 256"
  shows "\<exists>pf. snd (ComputeMerkleProof cr leaves (ml_Address leaf)) = Inr pf \<and>
    verify (Keccak256 cr) pf (snd (ComputeMerkleRoot cr leaves))
      (Keccak256 cr (packed_leaf (ml_Address leaf) (nat (ml_Amount leaf))))"
proof -
  let ?s = "sort_leaves cr leaves" and ?h = "Keccak256 cr"
  let ?hs = "map (\<lambda>l. ?h (leaf_data l)) ?s"
  have set: "set ?s = set leaves" and ne: "leaves \<noteq> []"
    using assms(3) by (auto simp: sort_leaves_def)
  then obtain i where i: "find_address (ml_Address leaf) ?s = Some i"
    using find_address_None [of "ml_Address leaf" ?s] assms(3) by auto
  then have "i < length ?s" "ml_Address (?s ! i) = ml_Address leaf"
    using find_address_some by blast+
  moreover have "?s ! i \<in> set leaves"
    using calculation(1) set nth_mem by metis
  ultimately have leaf: "?s ! i = leaf" "i < length ?hs"
    using assms(2,3) by (auto simp: distinct_map inj_on_def)
  have len: "\<forall>x\<in>set ?hs. length x = 32"
    by (auto simp: assms(1))
  obtain path where "proof_loop ?h ?hs i [] = path" "fold (verify_step ?h) path (?hs ! i) = hd (root_loop ?h ?hs)"
    using proof_loop_root [OF assms(1) leaf(2) len, where pf = "[]"] by auto
  moreover have "length (hd (root_loop ?h ?hs)) = 32"
    by (rule length_root_loop [OF assms(1) _ len]) (use leaf(2) in auto)
  moreover have "?hs ! i = ?h (packed_leaf (ml_Address leaf) (nat (ml_Amount leaf)))"
    using leaf leaf_data_packed [OF assms(4,5)] by simp
  ultimately show ?thesis
    using ne i by (auto simp: ComputeMerkleProof_def ComputeMerkleRoot_def verify_def Let_def)
qed

text \<open>
  C14: rewards are claimable: for every list of leaves no two of which have the same address, the proof
  computed for a leaf whose amount fits 256 bits is accepted by the contract's verifier against the computed root, for the leaf the
  contract builds from the claimant's address and amount.
\<close>

theorem reward_proof_verifies:
  assumes "\<And>x. length (Keccak256 cr x) = 32" and "distinct (map ml_Address leaves)"
    and "leaf \<in> set leaves" and "0 \<le> ml_Amount leaf" and "ml_Amount leaf < 2 ^ 256"
  shows "\<exists>pf. snd (ComputeMerkleProof cr leaves (ml_Address leaf)) = Inr pf \<and>
    verify (Keccak256 cr) pf (snd (ComputeMerkleRoot cr leaves))
      (Keccak256 cr (packed_leaf (ml_Address leaf) (nat (ml_Amount leaf))))"
  using assms by (rule merkle_proof_ok)

section \<open>Nothing else is claimable\<close>

text \<open>The nodes of the tree above a level, and what was hashed to build them.\<close>

function tree_nodes :: "(bytes \<Rightarrow> bytes) \<Rightarrow> bytes list \<Rightarrow> bytes set" where
  "tree_nodes h hs = (if length hs > 1 then set hs \<union> tree_nodes h (next_level h hs) else set hs)"
  by pat_completeness auto
termination
  by (relation "measure (\<lambda>(_, hs). length hs)") (auto simp: length_next_level)

declare tree_nodes.simps [simp del]

fun pair_inputs :: "bytes list \<Rightarrow> bytes set" where
  "pair_inputs (x # y # rest) = insert (if x > y then y @ x else x @ y) (pair_inputs rest)"
| "pair_inputs hs = {}"

function tree_inputs :: "(bytes \<Rightarrow> bytes) \<Rightarrow> bytes list \<Rightarrow> bytes set" where
  "tree_inputs h hs = (if length hs > 1 then pair_inputs hs \<union> tree_inputs h (next_level h hs) else {})"
  by pat_completeness auto
termination
  by (relation "measure (\<lambda>(_, hs). length hs)") (auto simp: length_next_level)

declare tree_inputs.simps [simp del]

text \<open>What the verifier hashes on the way.\<close>

fun path_inputs :: "(bytes \<Rightarrow> bytes) \<Rightarrow> bytes list \<Rightarrow> bytes \<Rightarrow> bytes set" where
  "path_inputs h [] acc = {}"
| "path_inputs h (p # ps) acc =
     insert (if be_nat acc < be_nat p then acc @ p else p @ acc) (path_inputs h ps (verify_step h p acc))"

lemma next_level_cases:
  "x \<in> set (next_level h hs) \<Longrightarrow>
     x \<in> set hs \<or> (\<exists>a b. a @ b \<in> pair_inputs hs \<and> x = h (a @ b) \<and> a \<in> set hs \<and> b \<in> set hs)"
  by (induction h hs rule: next_level.induct) (auto simp: pair_hash_def split: if_splits)

lemma tree_nodes_refl: "x \<in> set hs \<Longrightarrow> x \<in> tree_nodes h hs"
  by (subst tree_nodes.simps) simp

lemma tree_nodes_cases:
  "x \<in> tree_nodes h hs \<Longrightarrow>
     x \<in> set hs \<or> (\<exists>a b. a @ b \<in> tree_inputs h hs \<and> x = h (a @ b) \<and> a \<in> tree_nodes h hs \<and> b \<in> tree_nodes h hs)"
proof (induction h hs rule: tree_nodes.induct)
  case (1 h hs)
  show ?case
  proof (cases "length hs > 1 \<and> x \<notin> set hs")
    case True
    with "1.prems" have "x \<in> tree_nodes h (next_level h hs)"
      by (simp add: tree_nodes.simps [of h hs])
    with "1.IH" True next_level_cases [of x h hs] show ?thesis
      by (auto simp: tree_nodes.simps [of h hs] tree_inputs.simps [of h hs])
  next
    case False
    with "1.prems" show ?thesis
      by (auto simp: tree_nodes.simps [of h hs] split: if_splits)
  qed
qed

lemma root_in_tree: "hs \<noteq> [] \<Longrightarrow> hd (root_loop h hs) \<in> tree_nodes h hs"
proof (induction h hs rule: root_loop.induct)
  case (1 h hs)
  show ?case
  proof (cases "length hs > 1")
    case True
    then have "length (next_level h hs) > 0"
      unfolding length_next_level by simp
    with 1 True show ?thesis
      by (simp add: root_loop.simps [of h hs] tree_nodes.simps [of h hs])
  qed (use 1 in \<open>cases hs, simp_all add: tree_nodes_refl\<close>)
qed

lemma length_tree_nodes:
  "(\<And>x. length (h x) = 32) \<Longrightarrow> \<forall>x\<in>set hs. length x = 32 \<Longrightarrow> x \<in> tree_nodes h hs \<Longrightarrow> length x = 32"
proof (induction h hs rule: tree_nodes.induct)
  case (1 h hs)
  then show ?case
    using length_next_level_elems [of h hs] by (auto simp: tree_nodes.simps [of h hs] split: if_splits)
qed

text \<open>Without a collision among what was hashed, a path that ends in the tree starts in it.\<close>

lemma path_starts_in_tree:
  assumes len: "\<And>x. length (h x) = 32"
    and leaves: "\<And>x. x \<in> set hs \<Longrightarrow> \<exists>d\<in>D. x = h d" and short: "\<And>d. d \<in> D \<Longrightarrow> length d \<noteq> 64"
  shows "inj_on h (D \<union> tree_inputs h hs \<union> path_inputs h pf acc) \<Longrightarrow> length acc = 32 \<Longrightarrow> \<forall>p\<in>set pf. length p = 32 \<Longrightarrow>
    fold (verify_step h) pf acc \<in> tree_nodes h hs \<Longrightarrow> acc \<in> tree_nodes h hs"
proof (induction pf arbitrary: acc)
  case (Cons p pf)
  let ?in = "if be_nat acc < be_nat p then acc @ p else p @ acc"
  have step: "verify_step h p acc = h ?in"
    by (simp add: verify_step_def)
  have "verify_step h p acc \<in> tree_nodes h hs"
    by (rule Cons.IH) (use Cons.prems len in \<open>auto simp: step intro: inj_on_subset\<close>)
  then consider "verify_step h p acc \<in> set hs"
    | a b where "a @ b \<in> tree_inputs h hs" "verify_step h p acc = h (a @ b)" "a \<in> tree_nodes h hs" "b \<in> tree_nodes h hs"
    using tree_nodes_cases by blast
  then show ?case
  proof cases
    case 1
    then obtain d where "d \<in> D" "h ?in = h d"
      using leaves step by metis
    then have "?in = d"
      using Cons.prems(1) by (auto simp: inj_on_def)
    then show ?thesis
      using short [OF \<open>d \<in> D\<close>] Cons.prems(2,3) by (auto split: if_splits)
  next
    case 2
    have "?in = a @ b"
      using Cons.prems(1) 2(1,2) step by (auto simp: inj_on_def)
    moreover have "length a = 32"
      using len leaves 2(3) by (intro length_tree_nodes [of h hs a]) auto
    ultimately show ?thesis
      using 2 Cons.prems(2,3) by (auto split: if_splits)
  qed
qed simp

lemma packed_leaf_inject:
  assumes "length a = length b" and "m < 2 ^ 256" and "n < 2 ^ 256" and "packed_leaf a m = packed_leaf b n"
  shows "a = b \<and> m = n"
proof -
  have "a = b" "be_bytes 32 m = be_bytes 32 n"
    using assms(1,4) by (simp_all add: packed_leaf_def)
  then have "m mod 256 ^ 32 = n mod 256 ^ 32"
    by (metis be_nat_be_bytes)
  moreover have "m < 256 ^ 32" "n < 256 ^ 32"
    using assms(2,3) by simp_all
  ultimately show ?thesis
    using \<open>a = b\<close> by (metis mod_less)
qed

text \<open>Well-formed leaves: Ethereum addresses and amounts that fit a \<open>uint256\<close>.\<close>

definition leaf_ok :: "MerkleLeaf \<Rightarrow> bool" where
  "leaf_ok l \<longleftrightarrow> length (ml_Address l) = 20 \<and> 0 \<le> ml_Amount l \<and> ml_Amount l < 2 ^ 256"

definition leaf_hashes :: "('sk, 'pk) crypto \<Rightarrow> MerkleLeaf list \<Rightarrow> bytes list" where
  "leaf_hashes cr leaves = map (\<lambda>l. Keccak256 cr (leaf_data l)) (sort_leaves cr leaves)"

text \<open>Everything the construction of the root and the check of one claim hash.\<close>

definition claim_inputs :: "('sk, 'pk) crypto \<Rightarrow> MerkleLeaf list \<Rightarrow> address \<Rightarrow> nat \<Rightarrow> bytes list \<Rightarrow> bytes set" where
  "claim_inputs cr leaves account amount pf =
     insert (packed_leaf account amount) (leaf_data ` set leaves) \<union>
     tree_inputs (Keccak256 cr) (leaf_hashes cr leaves) \<union>
     path_inputs (Keccak256 cr) pf (Keccak256 cr (packed_leaf account amount))"

lemma claims_are_leaves:
  assumes "\<And>x. length (Keccak256 cr x) = 32" and "leaves \<noteq> []" and "\<forall>l\<in>set leaves. leaf_ok l"
    and "length account = 20" and "amount < 2 ^ 256" and "\<forall>p\<in>set pf. length p = 32"
    and "inj_on (Keccak256 cr) (claim_inputs cr leaves account amount pf)"
    and "verify (Keccak256 cr) pf (snd (ComputeMerkleRoot cr leaves)) (Keccak256 cr (packed_leaf account amount))"
  shows "\<exists>l\<in>set leaves. ml_Address l = account \<and> ml_Amount l = int amount"
proof -
  let ?h = "Keccak256 cr" and ?hs = "leaf_hashes cr leaves"
  let ?x = "packed_leaf account amount"
  let ?D = "insert ?x (leaf_data ` set leaves)"
  have "length ?hs = length leaves"
    by (simp add: leaf_hashes_def sort_leaves_def)
  then have sorted: "set (sort_leaves cr leaves) = set leaves" "?hs \<noteq> []"
    using assms(2) by (simp add: sort_leaves_def, metis length_0_conv)
  have leaf52: "length (leaf_data l) = 52" if "l \<in> set leaves" for l
    using assms(3) that by (auto simp: leaf_ok_def leaf_data_packed packed_leaf_def)
  have len: "\<forall>x\<in>set ?hs. length x = 32"
    by (auto simp: leaf_hashes_def assms(1))
  have root: "snd (ComputeMerkleRoot cr leaves) = hd (root_loop ?h ?hs)"
    using assms(2) length_root_loop [of ?h ?hs, OF assms(1) sorted(2) len]
    by (simp add: ComputeMerkleRoot_def leaf_hashes_def Let_def)
  have inj: "inj_on ?h (?D \<union> tree_inputs ?h ?hs \<union> path_inputs ?h pf (?h ?x))"
    using assms(7) by (simp add: claim_inputs_def)
  have "?h ?x \<in> tree_nodes ?h ?hs"
  proof (rule path_starts_in_tree [where D = ?D and h = ?h and pf = pf, OF assms(1) _ _ inj _ assms(6)])
    show "fold (verify_step ?h) pf (?h ?x) \<in> tree_nodes ?h ?hs"
      using assms(8) root root_in_tree [OF sorted(2)] by (simp add: verify_def)
  qed (use assms(1,4) leaf52 sorted in \<open>auto simp: leaf_hashes_def packed_leaf_def\<close>)
  then consider l where "l \<in> set leaves" "?h ?x = ?h (leaf_data l)"
    | a b where "a @ b \<in> tree_inputs ?h ?hs" "?h ?x = ?h (a @ b)" "a \<in> tree_nodes ?h ?hs" "b \<in> tree_nodes ?h ?hs"
    using tree_nodes_cases [of "?h ?x" ?h ?hs] sorted by (auto simp: leaf_hashes_def)
  then show ?thesis
  proof cases
    case 1
    then have "?x = leaf_data l"
      using inj by (auto simp: inj_on_def)
    moreover have "leaf_ok l"
      using assms(3) 1(1) by blast
    ultimately have "account = ml_Address l \<and> amount = nat (ml_Amount l)"
      using assms(4,5) by (intro packed_leaf_inject) (auto simp: leaf_ok_def leaf_data_packed nat_less_iff)
    then show ?thesis
      using 1(1) \<open>leaf_ok l\<close> by (auto simp: leaf_ok_def)
  next
    case 2
    have "?x = a @ b"
      using inj 2(1,2) by (auto simp: inj_on_def)
    moreover have "length a = 32" "length b = 32"
      using length_tree_nodes [of ?h ?hs, OF assms(1) len] 2(3,4) by blast+
    ultimately show ?thesis
      using arg_cong [of ?x "a @ b" length] assms(4) by (simp add: packed_leaf_def)
  qed
qed

text \<open>
  C13: nothing but the rewards of the tree is claimable: an account and an amount that the contract
  accepts with some proof against the computed root are those of a leaf, as long as Keccak-256 does
  not collide on what was hashed.
\<close>

theorem only_leaves_claimable:
  assumes "\<And>x. length (Keccak256 cr x) = 32" and "leaves \<noteq> []" and "\<forall>l\<in>set leaves. leaf_ok l"
    and "length account = 20" and "amount < 2 ^ 256" and "\<forall>p\<in>set pf. length p = 32"
    and "inj_on (Keccak256 cr) (claim_inputs cr leaves account amount pf)"
    and "verify (Keccak256 cr) pf (snd (ComputeMerkleRoot cr leaves)) (Keccak256 cr (packed_leaf account amount))"
  shows "\<exists>l\<in>set leaves. ml_Address l = account \<and> ml_Amount l = int amount"
  using assms by (rule claims_are_leaves)

section \<open>Concrete trees\<close>

definition demo_hash32 :: "(bytes, bytes) crypto" where
  "demo_hash32 = demo_crypto\<lparr>Keccak256 := copy_into 32\<rparr>"

definition demo_leaves :: "MerkleLeaf list" where
  "demo_leaves = [\<lparr>ml_Address = replicate 20 7, ml_Amount = 5\<rparr>, \<lparr>ml_Address = replicate 20 3, ml_Amount = 6\<rparr>,
     \<lparr>ml_Address = replicate 20 4, ml_Amount = 8\<rparr>]"

lemma demo_hash32_length: "length (Keccak256 demo_hash32 x) = 32"
  by (simp add: demo_hash32_def)

theorem reward_proof_verifies_witness:
  "\<exists>pf. snd (ComputeMerkleProof demo_hash32 demo_leaves (replicate 20 4)) = Inr pf \<and>
    verify (Keccak256 demo_hash32) pf (snd (ComputeMerkleRoot demo_hash32 demo_leaves))
      (Keccak256 demo_hash32 (packed_leaf (replicate 20 4) 8))"
  using reward_proof_verifies [OF demo_hash32_length, of demo_leaves "\<lparr>ml_Address = replicate 20 4, ml_Amount = 8\<rparr>"]
  by (simp add: demo_leaves_def)

theorem only_leaves_claimable_witness:
  "\<exists>l\<in>{\<lparr>ml_Address = replicate 20 7, ml_Amount = 5\<rparr>}. ml_Address l = replicate 20 7 \<and> ml_Amount l = int 5"
proof -
  let ?l = "\<lparr>ml_Address = replicate 20 7, ml_Amount = 5\<rparr>"
  have d: "leaf_data ?l = packed_leaf (replicate 20 7) 5"
    by (simp add: leaf_data_packed)
  have one: "leaf_hashes demo_hash32 [?l] = [Keccak256 demo_hash32 (leaf_data ?l)]"
    by (simp add: leaf_hashes_def sort_leaves_def)
  have "verify (Keccak256 demo_hash32) [] (snd (ComputeMerkleRoot demo_hash32 [?l])) (Keccak256 demo_hash32 (packed_leaf (replicate 20 7) 5))"
    by (simp add: verify_def ComputeMerkleRoot_def sort_leaves_def d [symmetric] demo_hash32_length)
  moreover have "inj_on (Keccak256 demo_hash32) (claim_inputs demo_hash32 [?l] (replicate 20 7) 5 [])"
    by (simp add: claim_inputs_def d one tree_inputs.simps)
  moreover have "leaf_ok ?l"
    by (simp add: leaf_ok_def)
  ultimately have "\<exists>l\<in>set [?l]. ml_Address l = replicate 20 7 \<and> ml_Amount l = int 5"
    by (intro only_leaves_claimable [OF demo_hash32_length]) simp_all
  then show ?thesis
    by simp
qed

end
