(* ===== verification/Revenue_Pool.thy ===== *)
theory Revenue_Pool
  imports Reward_Merkle
begin

text \<open>
  The revenue pool: the contract that holds and pays out rewards (\<open>contracts/RevenuePool.sol\<close>)
  and the client that calls it (\<open>rewards/pool.go\<close>).

  A contract function takes the message sender and returns the new state or the reason of the
  revert. Solidity's checked arithmetic reverts on overflow. A \<open>uint256\<close> is a natural number
  below $2^{256}$. The transfer at the end of \<open>claim\<close> runs the recipient's code, which may call
  the contract again; since all state is written before the transfer and none after it, such a
  nested call is a step that follows this one, unless the transfer fails and everything is
  reverted. Whether the recipient accepts the transfer is an argument.

  The JSON-RPC client of go-ethereum is a parameter of the calls.
\<close>

section \<open>The contract\<close>

record RevenuePool =
  rp_operator :: address
  rp_epochRoots :: "nat \<Rightarrow> bytes"
  rp_epochTotals :: "nat \<Rightarrow> nat"
  rp_claimed :: "nat \<Rightarrow> address \<Rightarrow> bool"
  rp_pendingRevenue :: nat
  rp_currentEpoch :: nat
  rp_balance :: nat

definition pool_constructor :: "address \<Rightarrow> RevenuePool" where
  "pool_constructor sender = \<lparr>rp_operator = sender, rp_epochRoots = (\<lambda>_. zero32), rp_epochTotals = (\<lambda>_. 0),
     rp_claimed = (\<lambda>_ _. False), rp_pendingRevenue = 0, rp_currentEpoch = 0, rp_balance = 0\<rparr>"

definition pool_receive :: "nat \<Rightarrow> RevenuePool \<Rightarrow> string + RevenuePool" where
  "pool_receive msg_value p =
     (if rp_pendingRevenue p + msg_value \<ge> 2 ^ 256 then Inl ''arithmetic overflow''
      else Inr (p\<lparr>rp_pendingRevenue := rp_pendingRevenue p + msg_value, rp_balance := rp_balance p + msg_value\<rparr>))"

definition pool_finalizeEpoch :: "address \<Rightarrow> bytes \<Rightarrow> nat \<Rightarrow> RevenuePool \<Rightarrow> string + RevenuePool" where
  "pool_finalizeEpoch sender root totalDistributed p =
     (if sender \<noteq> rp_operator p then Inl ''not operator''
      else if root = zero32 then Inl ''empty root''
      else if \<not> totalDistributed \<le> rp_pendingRevenue p then Inl ''insufficient funds''
      else if rp_epochRoots p (rp_currentEpoch p) \<noteq> zero32 then Inl ''epoch already finalized''
      else if rp_currentEpoch p + 1 \<ge> 2 ^ 256 then Inl ''arithmetic overflow''
      else Inr (p\<lparr>rp_epochRoots := (rp_epochRoots p)(rp_currentEpoch p := root),
                  rp_epochTotals := (rp_epochTotals p)(rp_currentEpoch p := totalDistributed),
                  rp_pendingRevenue := rp_pendingRevenue p - totalDistributed,
                  rp_currentEpoch := rp_currentEpoch p + 1\<rparr>))"

definition pool_claim ::
  "(bytes \<Rightarrow> bytes) \<Rightarrow> bool \<Rightarrow> address \<Rightarrow> nat \<Rightarrow> nat \<Rightarrow> bytes list \<Rightarrow> RevenuePool \<Rightarrow> string + RevenuePool" where
  "pool_claim keccak256 accepted sender epoch amount pf p =
     (if rp_claimed p epoch sender then Inl ''already claimed''
      else if rp_epochRoots p epoch = zero32 then Inl ''epoch not finalized''
      else if \<not> amount > 0 then Inl ''zero amount''
      else
        let leaf = keccak256 (packed_leaf sender amount) in
        if \<not> verify keccak256 pf (rp_epochRoots p epoch) leaf then Inl ''invalid proof''
        else if \<not> accepted \<or> rp_balance p < amount then Inl ''transfer failed''
        else Inr (p\<lparr>rp_claimed := (rp_claimed p)(epoch := (rp_claimed p epoch)(sender := True)),
                    rp_balance := rp_balance p - amount\<rparr>))"

definition pool_canClaim :: "(bytes \<Rightarrow> bytes) \<Rightarrow> nat \<Rightarrow> address \<Rightarrow> nat \<Rightarrow> bytes list \<Rightarrow> RevenuePool \<Rightarrow> bool" where
  "pool_canClaim keccak256 epoch account amount pf p =
     (if rp_claimed p epoch account then False
      else if rp_epochRoots p epoch = zero32 then False
      else verify keccak256 pf (rp_epochRoots p epoch) (keccak256 (packed_leaf account amount)))"

definition pool_setOperator :: "address \<Rightarrow> address \<Rightarrow> RevenuePool \<Rightarrow> string + RevenuePool" where
  "pool_setOperator sender newOperator p =
     (if sender \<noteq> rp_operator p then Inl ''not operator''
      else if newOperator = zero_address then Inl ''zero address''
      else Inr (p\<lparr>rp_operator := newOperator\<rparr>))"

definition pool_getStats :: "RevenuePool \<Rightarrow> nat \<times> nat \<times> nat" where
  "pool_getStats p = (rp_currentEpoch p, rp_pendingRevenue p, rp_balance p)"

section \<open>The client\<close>

record eth_rpc =
  PendingNonceAt :: "address \<Rightarrow> go_error + nat"
  SuggestGasPrice :: "go_error + nat"
  CallContract :: "address \<Rightarrow> bytes \<Rightarrow> go_error + bytes"

record eth_tx =
  tx_Nonce :: nat
  tx_To :: address
  tx_Value :: nat
  tx_Gas :: nat
  tx_GasPrice :: nat
  tx_Data :: bytes

record 'sk PoolClient =
  pc_poolAddress :: address
  pc_operatorKey :: "'sk option"
  pc_chainID :: int

text \<open>An ABI word: \<open>common.LeftPadBytes\<close> of a number copied into 32 bytes.\<close>

definition abi_word :: "nat \<Rightarrow> bytes" where
  "abi_word n = copy_into 32 (left_pad 32 (big_bytes n))"

definition finalize_data :: "('sk, 'pk) crypto \<Rightarrow> bytes \<Rightarrow> int \<Rightarrow> bytes" where
  "finalize_data cr root totalDistributed =
     selector cr ''finalizeEpoch(bytes32,uint256)'' @ copy_into 32 root @ abi_word (nat \<bar>totalDistributed\<bar>)"

text \<open>
  \<open>sendTx\<close> stands for signing the transaction with the operator's key for the chain and sending
  it; the transaction is returned when both succeed.
\<close>

definition PoolClient_FinalizeEpoch ::
  "('sk, 'pk) crypto \<Rightarrow> eth_rpc \<Rightarrow> (int \<Rightarrow> 'sk \<Rightarrow> eth_tx \<Rightarrow> go_error option) \<Rightarrow> 'sk PoolClient \<Rightarrow> bytes \<Rightarrow> int \<Rightarrow> go_error + eth_tx" where
  "PoolClient_FinalizeEpoch cr rpc sendTx pc root totalDistributed =
     (case pc_operatorKey pc of
        None \<Rightarrow> Inl (Errorf ''no operator key configured'')
      | Some key \<Rightarrow>
          (case PendingNonceAt rpc (key_address cr key) of
             Inl e \<Rightarrow> Inl (Wrapped ''failed to get nonce'' e)
           | Inr nonce \<Rightarrow>
               (case SuggestGasPrice rpc of
                  Inl e \<Rightarrow> Inl (Wrapped ''failed to get gas price'' e)
                | Inr gasPrice \<Rightarrow>
                    let tx = \<lparr>tx_Nonce = nonce, tx_To = pc_poolAddress pc, tx_Value = 0, tx_Gas = 200000,
                              tx_GasPrice = gasPrice, tx_Data = finalize_data cr root totalDistributed\<rparr>
                    in (case sendTx (pc_chainID pc) key tx of
                          Some e \<Rightarrow> Inl (Wrapped ''failed to send transaction'' e)
                        | None \<Rightarrow> Inr tx))))"

definition GetPendingRevenue :: "('sk, 'pk) crypto \<Rightarrow> eth_rpc \<Rightarrow> 'sk PoolClient \<Rightarrow> go_error + nat" where
  "GetPendingRevenue cr rpc pc =
     (case CallContract rpc (pc_poolAddress pc) (selector cr ''pendingRevenue()'') of
        Inl e \<Rightarrow> Inl (Wrapped ''failed to call pendingRevenue'' e)
      | Inr result \<Rightarrow> if length result < 32 then Inr 0 else Inr (be_nat result))"

definition GetCurrentEpoch :: "('sk, 'pk) crypto \<Rightarrow> eth_rpc \<Rightarrow> 'sk PoolClient \<Rightarrow> go_error + uint64" where
  "GetCurrentEpoch cr rpc pc =
     (case CallContract rpc (pc_poolAddress pc) (selector cr ''currentEpoch()'') of
        Inl e \<Rightarrow> Inl (Wrapped ''failed to call currentEpoch'' e)
      | Inr result \<Rightarrow> if length result < 32 then Inr 0 else Inr (of_nat (be_nat result)))"

text \<open>\<open>big.NewInt(int64(epoch)).Bytes()\<close> is the absolute value of the signed reading.\<close>

definition epoch_bytes :: "uint64 \<Rightarrow> nat" where
  "epoch_bytes epoch = nat \<bar>sint epoch\<bar>"

definition GetEpochRoot :: "('sk, 'pk) crypto \<Rightarrow> eth_rpc \<Rightarrow> uint64 \<Rightarrow> 'sk PoolClient \<Rightarrow> go_error + bytes" where
  "GetEpochRoot cr rpc epoch pc =
     (case CallContract rpc (pc_poolAddress pc) (selector cr ''epochRoots(uint256)'' @ abi_word (epoch_bytes epoch)) of
        Inl e \<Rightarrow> Inl (Wrapped ''failed to call epochRoots'' e)
      | Inr result \<Rightarrow> Inr (if length result \<ge> 32 then copy_into 32 (take 32 result) else zero32))"

definition BuildClaimData :: "('sk, 'pk) crypto \<Rightarrow> uint64 \<Rightarrow> int \<Rightarrow> bytes list \<Rightarrow> bytes" where
  "BuildClaimData cr epoch amount pf =
     selector cr ''claim(uint256,uint256,bytes32[])'' @ abi_word (epoch_bytes epoch) @ abi_word (nat \<bar>amount\<bar>) @
     abi_word 96 @ abi_word (length pf) @ concat (map (\<lambda>p. copy_into 32 (left_pad 32 p)) pf)"

section \<open>The calldata\<close>

text \<open>
  How the contract decodes the arguments of its two state-changing calls from the calldata
  after the selector: words of 32 bytes, a dynamic array at the offset its head word gives.
\<close>

definition word_at :: "nat \<Rightarrow> bytes \<Rightarrow> bytes" where
  "word_at pos args = take 32 (drop pos args)"

fun words_at :: "nat \<Rightarrow> nat \<Rightarrow> bytes \<Rightarrow> bytes list" where
  "words_at pos 0 args = []"
| "words_at pos (Suc n) args = word_at pos args # words_at (pos + 32) n args"

definition abi_claim :: "bytes \<Rightarrow> (nat \<times> nat \<times> bytes list) option" where
  "abi_claim args =
     (let offset = be_nat (word_at 64 args); n = be_nat (word_at offset args)
      in if length args < 96 \<or> length args < offset + 32 \<or> length args < offset + 32 + 32 * n then None
         else Some (be_nat (word_at 0 args), be_nat (word_at 32 args), words_at (offset + 32) n args))"

definition abi_finalize :: "bytes \<Rightarrow> (bytes \<times> nat) option" where
  "abi_finalize args = (if length args < 64 then None else Some (word_at 0 args, be_nat (word_at 32 args)))"

lemma length_abi_word [simp]: "length (abi_word n) = 32"
  by (simp add: abi_word_def)

lemma abi_word_be: "n < 2 ^ 256 \<Longrightarrow> abi_word n = be_bytes 32 n"
  using left_pad_be_bytes [of n] by (simp add: abi_word_def)

lemma be_nat_abi_word: "n < 2 ^ 256 \<Longrightarrow> be_nat (abi_word n) = n"
proof -
  assume n: "n < 2 ^ 256"
  have "be_nat (abi_word n) = n mod 256 ^ 32"
    by (simp only: abi_word_be [OF n] be_nat_be_bytes)
  also have "\<dots> = n"
    by (rule mod_less) (use n in simp)
  finally show ?thesis .
qed

lemma words_at_shift: "length xs = k \<Longrightarrow> words_at (k + pos) n (xs @ ys) = words_at pos n ys"
proof (induction n arbitrary: pos)
  case (Suc n)
  show ?case
    using Suc.IH [of "pos + 32"] Suc.prems by (simp add: word_at_def add.assoc)
qed simp

lemma words_at_concat: "\<forall>w\<in>set ws. length w = 32 \<Longrightarrow> words_at 0 (length ws) (concat ws) = ws"
proof (induction ws)
  case (Cons w ws)
  then show ?case
    using words_at_shift [of w 32 0 "length ws" "concat ws"] by (simp add: word_at_def)
qed simp

lemma epoch_bytes_small: "unat epoch < 2 ^ 63 \<Longrightarrow> epoch_bytes epoch = unat epoch"
proof -
  assume "unat epoch < 2 ^ 63"
  then have "int (unat epoch) < int (2 ^ 63)"
    by (rule of_nat_less_iff [THEN iffD2])
  then have "uint epoch < 2 ^ 63"
    by simp
  then have "sint epoch = uint epoch"
    using signed_take_bit_int_eq_self [of 63 "uint epoch"] order_trans [of "- (2 ^ 63)" 0 "uint epoch"]
    by (simp add: sint_uint)
  then show ?thesis
    by (simp add: epoch_bytes_def)
qed

text \<open>
  The client's calldata decodes, on the side of the contract, to the arguments it was built from,
  for every epoch below $2^{63}$, every amount that fits a \<open>uint256\<close> and every proof.
\<close>

theorem claim_calldata_roundtrip:
  assumes "\<And>x. length (Keccak256 cr x) = 32" and "unat epoch < 2 ^ 63" and "0 \<le> amount" and "amount < 2 ^ 256"
    and "\<forall>p\<in>set pf. length p = 32" and "length pf < 2 ^ 256" and "length root = 32"
  shows "take 4 (BuildClaimData cr epoch amount pf) = selector cr ''claim(uint256,uint256,bytes32[])'' \<and>
    abi_claim (drop 4 (BuildClaimData cr epoch amount pf)) = Some (unat epoch, nat amount, pf) \<and>
    abi_finalize (drop 4 (finalize_data cr root amount)) = Some (root, nat amount)"
proof -
  let ?n = "abi_word (length pf)" and ?ps = "concat (map (\<lambda>p. copy_into 32 (left_pad 32 p)) pf)"
  let ?head = "abi_word (epoch_bytes epoch) @ abi_word (nat amount) @ abi_word 96"
  have sel: "length (selector cr s) = 4" for s
    by (simp add: selector_def assms(1))
  have am: "nat amount < 2 ^ 256"
    using assms(3,4) by (simp add: nat_less_iff)
  have pad: "map (\<lambda>p. copy_into 32 (left_pad 32 p)) pf = pf"
    using assms(5) by (simp add: map_idI left_pad_def)
  have args: "drop 4 (BuildClaimData cr epoch amount pf) = ?head @ ?n @ concat pf"
    using sel assms(3) by (simp add: BuildClaimData_def pad)
  have "words_at 128 (length pf) ((?head @ ?n) @ concat pf) = pf"
    using words_at_shift [of "?head @ ?n" 128 0 "length pf" "concat pf"] words_at_concat [OF assms(5)] by simp
  moreover have "be_nat (word_at 0 (?head @ ?n @ concat pf)) = unat epoch"
    using epoch_bytes_small [OF assms(2)] assms(2) by (simp add: word_at_def be_nat_abi_word)
  moreover have "be_nat (word_at 32 (?head @ ?n @ concat pf)) = nat amount"
    using am by (simp add: word_at_def be_nat_abi_word)
  moreover have "be_nat (word_at 64 (?head @ ?n @ concat pf)) = 96"
    by (simp add: word_at_def be_nat_abi_word)
  moreover have "be_nat (word_at 96 (?head @ ?n @ concat pf)) = length pf"
    using assms(6) by (simp add: word_at_def be_nat_abi_word)
  moreover have "length (concat pf) = 32 * length pf"
    using assms(5) by (induction pf) auto
  ultimately have "abi_claim (drop 4 (BuildClaimData cr epoch amount pf)) = Some (unat epoch, nat amount, pf)"
    unfolding args abi_claim_def by (simp add: Let_def)
  moreover have "abi_finalize (drop 4 (finalize_data cr root amount)) = Some (root, nat amount)"
    using sel assms(3,7) am by (simp add: abi_finalize_def finalize_data_def word_at_def be_nat_abi_word)
  ultimately show ?thesis
    using sel by (simp add: BuildClaimData_def)
qed

section \<open>Runs of the contract\<close>

text \<open>
  The calls anyone makes, with whatever arguments; a call that reverts changes nothing. The payments
  of a run are the transfers of its successful claims.
\<close>

datatype pool_call =
    Call_receive nat
  | Call_finalizeEpoch address bytes nat
  | Call_claim bool address nat nat "bytes list"
  | Call_setOperator address address

fun pool_exec :: "(bytes \<Rightarrow> bytes) \<Rightarrow> pool_call \<Rightarrow> RevenuePool \<Rightarrow> string + RevenuePool" where
  "pool_exec h (Call_receive v) p = pool_receive v p"
| "pool_exec h (Call_finalizeEpoch sender root total_due) p = pool_finalizeEpoch sender root total_due p"
| "pool_exec h (Call_claim accepted sender epoch amount pf) p = pool_claim h accepted sender epoch amount pf p"
| "pool_exec h (Call_setOperator sender new) p = pool_setOperator sender new p"

definition pool_after :: "(bytes \<Rightarrow> bytes) \<Rightarrow> pool_call \<Rightarrow> RevenuePool \<Rightarrow> RevenuePool" where
  "pool_after h c p = (case pool_exec h c p of Inl _ \<Rightarrow> p | Inr p' \<Rightarrow> p')"

definition pool_run :: "(bytes \<Rightarrow> bytes) \<Rightarrow> pool_call list \<Rightarrow> RevenuePool \<Rightarrow> RevenuePool" where
  "pool_run h cs p = fold (pool_after h) cs p"

definition transfer :: "(bytes \<Rightarrow> bytes) \<Rightarrow> pool_call \<Rightarrow> RevenuePool \<Rightarrow> (address \<times> nat) list" where
  "transfer h c p =
     (case c of
        Call_claim accepted sender epoch amount pf \<Rightarrow> (case pool_exec h c p of Inl _ \<Rightarrow> [] | Inr _ \<Rightarrow> [(sender, amount)])
      | _ \<Rightarrow> [])"

fun payments :: "(bytes \<Rightarrow> bytes) \<Rightarrow> pool_call list \<Rightarrow> RevenuePool \<Rightarrow> (address \<times> nat) list" where
  "payments h [] p = []"
| "payments h (c # cs) p = transfer h c p @ payments h cs (pool_after h c p)"

lemma pool_run_simps [simp]:
  "pool_run h [] p = p" "pool_run h (c # cs) p = pool_run h cs (pool_after h c p)"
  "pool_run h (cs @ cs') p = pool_run h cs' (pool_run h cs p)"
  by (simp_all add: pool_run_def)

lemma payments_snoc: "payments h (cs @ [c]) p = payments h cs p @ transfer h c (pool_run h cs p)"
  by (induction cs arbitrary: p) (simp_all add: pool_run_def)

lemma pool_after_cases:
  obtains (reverted) "pool_after h c p = p" and "transfer h c p = []"
  | (ran) p' where "pool_exec h c p = Inr p'" and "pool_after h c p = p'"
proof (cases "pool_exec h c p")
  case (Inl e)
  then have "transfer h c p = []"
    by (cases c) (simp_all add: transfer_def)
  with Inl show ?thesis
    using reverted by (simp add: pool_after_def)
qed (use ran in \<open>simp add: pool_after_def\<close>)

lemma finalize_ok:
  assumes "pool_finalizeEpoch sender root sum_due p = Inr p'"
  shows "root \<noteq> zero32 \<and> sum_due \<le> rp_pendingRevenue p \<and>
    p' = p\<lparr>rp_epochRoots := (rp_epochRoots p)(rp_currentEpoch p := root),
           rp_epochTotals := (rp_epochTotals p)(rp_currentEpoch p := sum_due),
           rp_pendingRevenue := rp_pendingRevenue p - sum_due, rp_currentEpoch := rp_currentEpoch p + 1\<rparr>"
  using assms by (auto simp: pool_finalizeEpoch_def split: if_splits)

lemma claim_ok:
  assumes "pool_claim h accepted sender e amount pf p = Inr p'"
  shows "\<not> rp_claimed p e sender \<and> rp_epochRoots p e \<noteq> zero32 \<and> 0 < amount \<and> amount \<le> rp_balance p \<and>
    verify h pf (rp_epochRoots p e) (h (packed_leaf sender amount)) \<and>
    p' = p\<lparr>rp_claimed := (rp_claimed p)(e := (rp_claimed p e)(sender := True)), rp_balance := rp_balance p - amount\<rparr>"
  using assms by (auto simp: pool_claim_def Let_def split: if_splits)

lemma receive_ok: "pool_receive v p = Inr p' \<Longrightarrow>
    p' = p\<lparr>rp_pendingRevenue := rp_pendingRevenue p + v, rp_balance := rp_balance p + v\<rparr>"
  by (auto simp: pool_receive_def split: if_splits)

lemma operator_ok: "pool_setOperator sender new p = Inr p' \<Longrightarrow> p' = p\<lparr>rp_operator := new\<rparr>"
  by (auto simp: pool_setOperator_def split: if_splits)

text \<open>
  Of every run: exactly the epochs before the current one have a root, and no one has claimed from
  a later one.
\<close>

definition pool_inv :: "RevenuePool \<Rightarrow> bool" where
  "pool_inv p \<longleftrightarrow> (\<forall>e. (e < rp_currentEpoch p \<longrightarrow> rp_epochRoots p e \<noteq> zero32) \<and>
     (rp_currentEpoch p \<le> e \<longrightarrow> rp_epochRoots p e = zero32 \<and> (\<forall>a. \<not> rp_claimed p e a)))"

lemma claim_epoch: "pool_inv p \<Longrightarrow> pool_claim h accepted sender e amount pf p = Inr p' \<Longrightarrow> e < rp_currentEpoch p"
  using claim_ok [of h accepted sender e amount pf p p'] by (meson leI pool_inv_def)

lemma pool_inv_exec: "pool_inv p \<Longrightarrow> pool_exec h c p = Inr p' \<Longrightarrow> pool_inv p'"
proof (cases c)
  case (Call_claim accepted sender e amount pf)
  assume inv: "pool_inv p" and "pool_exec h c p = Inr p'"
  then have claim: "pool_claim h accepted sender e amount pf p = Inr p'"
    using Call_claim by simp
  show ?thesis
    using inv claim_epoch [OF inv claim] claim_ok [OF claim] by (auto simp: pool_inv_def)
qed (auto simp: pool_inv_def less_Suc_eq dest!: receive_ok finalize_ok operator_ok)

lemma pool_inv_run: "pool_inv (pool_run h cs (pool_constructor operator))"
proof (induction cs rule: rev_induct)
  case Nil
  show ?case
    by (simp add: pool_inv_def pool_constructor_def)
next
  case (snoc c cs)
  then show ?case
    by (cases rule: pool_after_cases [of h c "pool_run h cs (pool_constructor operator)"]) (auto intro: pool_inv_exec)
qed

section \<open>What the pool owes\<close>

text \<open>
  A distribution assigns to every epoch its leaves. An operator is honest about it when every epoch
  that was finalized has the root of its leaves and a total that covers them; the contract checks
  neither. What is assumed of the hash is that it does not collide on what was hashed for the leaves
  and for the claims of the run.
\<close>

type_synonym distribution = "nat \<Rightarrow> MerkleLeaf list"

definition distribution_ok :: "distribution \<Rightarrow> bool" where
  "distribution_ok ledger \<longleftrightarrow> (\<forall>e. distinct (map ml_Address (ledger e)) \<and>
     (\<forall>l\<in>set (ledger e). leaf_ok l \<and> 0 < ml_Amount l))"

definition epoch_sum :: "MerkleLeaf list \<Rightarrow> nat" where
  "epoch_sum leaves = (\<Sum>l\<leftarrow>leaves. nat (ml_Amount l))"

definition honest :: "('sk, 'pk) crypto \<Rightarrow> distribution \<Rightarrow> RevenuePool \<Rightarrow> bool" where
  "honest cr ledger p \<longleftrightarrow> (\<forall>e<rp_currentEpoch p.
     rp_epochRoots p e = snd (ComputeMerkleRoot cr (ledger e)) \<and> epoch_sum (ledger e) \<le> rp_epochTotals p e)"

text \<open>The argument types of \<open>claim\<close>: an address, a \<open>uint256\<close> and an array of \<open>bytes32\<close>.\<close>

definition call_ok :: "address \<Rightarrow> nat \<Rightarrow> bytes list \<Rightarrow> bool" where
  "call_ok sender amount pf \<longleftrightarrow> length sender = 20 \<and> amount < 2 ^ 256 \<and> (\<forall>p\<in>set pf. length p = 32)"

definition no_collision :: "('sk, 'pk) crypto \<Rightarrow> distribution \<Rightarrow> pool_call list \<Rightarrow> bool" where
  "no_collision cr ledger cs \<longleftrightarrow> (\<forall>accepted sender e amount pf. Call_claim accepted sender e amount pf \<in> set cs \<longrightarrow>
     call_ok sender amount pf \<and> inj_on (Keccak256 cr) (claim_inputs cr (ledger e) sender amount pf))"

lemma honest_back: "pool_inv p \<Longrightarrow> pool_exec h c p = Inr p' \<Longrightarrow> honest cr ledger p' \<Longrightarrow> honest cr ledger p"
  by (cases c) (auto simp: honest_def less_Suc_eq dest!: receive_ok finalize_ok claim_ok operator_ok split: if_splits)

lemma claim_is_leaf:
  assumes "\<And>x. length (Keccak256 cr x) = 32" and "distribution_ok ledger" and "pool_inv p" and "honest cr ledger p"
    and "call_ok sender amount pf" and "inj_on (Keccak256 cr) (claim_inputs cr (ledger e) sender amount pf)"
    and claim: "pool_claim (Keccak256 cr) accepted sender e amount pf p = Inr p'"
  obtains l where "l \<in> set (ledger e)" "ml_Address l = sender" "ml_Amount l = int amount"
proof -
  have e: "e < rp_currentEpoch p"
    by (rule claim_epoch [OF assms(3) claim])
  then have root: "rp_epochRoots p e = snd (ComputeMerkleRoot cr (ledger e))" "rp_epochRoots p e \<noteq> zero32"
    using assms(3,4) by (simp_all add: honest_def pool_inv_def)
  then have "ledger e \<noteq> []"
    by (auto simp: ComputeMerkleRoot_def)
  then have "\<exists>l\<in>set (ledger e). ml_Address l = sender \<and> ml_Amount l = int amount"
    using claims_are_leaves [OF assms(1), of "ledger e" sender amount pf] assms(2,5,6) claim_ok [OF claim] root(1)
    by (simp add: distribution_ok_def call_ok_def)
  then show ?thesis
    using that by blast
qed

section \<open>The specification\<close>

text \<open>
  An escrow: the money it holds, the pot of undistributed revenue, the number of allotted epochs and
  what is due to each account. Its steps list the payments they make: what is due is paid, all at
  once, and is not due any more.
\<close>

record escrow =
  es_held :: nat
  es_pot :: nat
  es_epochs :: nat
  es_due :: "nat \<Rightarrow> address \<Rightarrow> nat"

definition leaf_amount :: "MerkleLeaf list \<Rightarrow> address \<Rightarrow> nat" where
  "leaf_amount leaves a = (\<Sum>l\<leftarrow>leaves. if ml_Address l = a then nat (ml_Amount l) else 0)"

inductive escrow_step :: "distribution \<Rightarrow> escrow \<Rightarrow> (address \<times> nat) list \<Rightarrow> escrow \<Rightarrow> bool" for ledger where
  deposit: "escrow_step ledger s [] (s\<lparr>es_held := es_held s + v, es_pot := es_pot s + v\<rparr>)"
| allot: "epoch_sum (ledger (es_epochs s)) \<le> sum_due \<Longrightarrow> sum_due \<le> es_pot s \<Longrightarrow>
    escrow_step ledger s [] (s\<lparr>es_pot := es_pot s - sum_due, es_epochs := Suc (es_epochs s),
      es_due := (es_due s)(es_epochs s := leaf_amount (ledger (es_epochs s)))\<rparr>)"
| pay: "es_due s e a = v \<Longrightarrow> 0 < v \<Longrightarrow> v \<le> es_held s \<Longrightarrow>
    escrow_step ledger s [(a, v)] (s\<lparr>es_held := es_held s - v, es_due := (es_due s)(e := (es_due s e)(a := 0))\<rparr>)"
| refuse: "escrow_step ledger s [] s"

definition empty_escrow :: escrow where
  "empty_escrow = \<lparr>es_held = 0, es_pot = 0, es_epochs = 0, es_due = (\<lambda>_ _. 0)\<rparr>"

definition pool_abs :: "distribution \<Rightarrow> RevenuePool \<Rightarrow> escrow" where
  "pool_abs ledger p = \<lparr>es_held = rp_balance p, es_pot = rp_pendingRevenue p, es_epochs = rp_currentEpoch p,
     es_due = (\<lambda>e a. if e < rp_currentEpoch p \<and> \<not> rp_claimed p e a then leaf_amount (ledger e) a else 0)\<rparr>"

lemma leaf_amount_none: "a \<notin> ml_Address ` set leaves \<Longrightarrow> leaf_amount leaves a = 0"
  by (induction leaves) (auto simp: leaf_amount_def)

lemma leaf_amount_leaf:
  "distinct (map ml_Address leaves) \<Longrightarrow> l \<in> set leaves \<Longrightarrow> leaf_amount leaves (ml_Address l) = nat (ml_Amount l)"
proof (induction leaves)
  case (Cons k leaves)
  have unfold: "leaf_amount (k # leaves) a = (if ml_Address k = a then nat (ml_Amount k) else 0) + leaf_amount leaves a" for a
    by (simp add: leaf_amount_def)
  from Cons show ?case
    by (auto simp: unfold leaf_amount_none rev_image_eqI)
qed simp

lemma pool_exec_escrow:
  assumes "\<And>x. length (Keccak256 cr x) = 32" and "distribution_ok ledger" and "no_collision cr ledger [c]"
    and inv: "pool_inv p" and exec: "pool_exec (Keccak256 cr) c p = Inr p'" and honest: "honest cr ledger p'"
  shows "escrow_step ledger (pool_abs ledger p) (transfer (Keccak256 cr) c p) (pool_abs ledger p')"
proof (cases c)
  case (Call_receive v)
  then have "pool_abs ledger p' = (pool_abs ledger p)\<lparr>es_held := es_held (pool_abs ledger p) + v, es_pot := es_pot (pool_abs ledger p) + v\<rparr>"
    using exec by (auto simp: pool_abs_def dest!: receive_ok)
  then show ?thesis
    using escrow_step.deposit [of ledger "pool_abs ledger p" v] by (simp add: transfer_def Call_receive)
next
  case (Call_finalizeEpoch sender root v)
  let ?s = "pool_abs ledger p" and ?e = "rp_currentEpoch p"
  note ok = finalize_ok [OF exec [unfolded Call_finalizeEpoch pool_exec.simps]]
  have "pool_abs ledger p' = ?s\<lparr>es_pot := es_pot ?s - v, es_epochs := Suc (es_epochs ?s), es_due := (es_due ?s)(es_epochs ?s := leaf_amount (ledger (es_epochs ?s)))\<rparr>"
    using ok inv by (auto simp: pool_abs_def pool_inv_def fun_eq_iff less_Suc_eq)
  moreover have "epoch_sum (ledger ?e) \<le> v"
    using honest ok by (auto simp: honest_def)
  ultimately show ?thesis
    using escrow_step.allot [of ledger ?s v] ok by (simp add: transfer_def Call_finalizeEpoch pool_abs_def)
next
  case (Call_claim accepted sender e amount pf)
  let ?s = "pool_abs ledger p"
  note claim = exec [unfolded Call_claim pool_exec.simps]
  note ok = claim_ok [OF claim]
  have e: "e < rp_currentEpoch p"
    by (rule claim_epoch [OF inv claim])
  obtain l where l: "l \<in> set (ledger e)" "ml_Address l = sender" "ml_Amount l = int amount"
    by (rule claim_is_leaf [OF assms(1,2) inv honest_back [OF inv exec honest] _ _ claim])
      (use assms(3) Call_claim in \<open>auto simp: no_collision_def\<close>)
  have "leaf_amount (ledger e) sender = amount"
    using leaf_amount_leaf [of "ledger e" l] l assms(2) by (simp add: distribution_ok_def)
  then have due: "es_due ?s e sender = amount" "0 < amount" "amount \<le> es_held ?s"
    using ok e by (simp_all add: pool_abs_def)
  have "pool_abs ledger p' = ?s\<lparr>es_held := es_held ?s - amount, es_due := (es_due ?s)(e := (es_due ?s e)(sender := 0))\<rparr>"
    using ok by (auto simp: pool_abs_def fun_eq_iff)
  then show ?thesis
    using escrow_step.pay [OF due, of ledger] exec by (simp add: transfer_def Call_claim)
next
  case (Call_setOperator sender new)
  then have "pool_abs ledger p' = pool_abs ledger p"
    using exec by (auto simp: pool_abs_def dest!: operator_ok)
  then show ?thesis
    by (simp add: transfer_def Call_setOperator escrow_step.refuse)
qed

text \<open>
  C8: refinement: while the operator is honest about a distribution and the hash does not collide on
  what the run hashed, every run of the contract is a run of the escrow, seen through \<open>pool_abs\<close>, and
  makes the same payments in the same order: a claim pays exactly what is due to its sender, what was
  paid is not due again, and the balance of the contract is the money the escrow holds.
\<close>

theorem pool_refines_escrow:
  assumes "\<And>x. length (Keccak256 cr x) = 32" and "distribution_ok ledger" and "no_collision cr ledger cs"
    and "p = pool_run (Keccak256 cr) cs (pool_constructor operator)" and "honest cr ledger p"
  shows "issuing_run (escrow_step ledger) empty_escrow (payments (Keccak256 cr) cs (pool_constructor operator)) (pool_abs ledger p)"
  using assms(3-5)
proof (induction cs arbitrary: p rule: rev_induct)
  case Nil
  have "pool_abs ledger (pool_constructor operator) = empty_escrow"
    by (simp add: pool_abs_def pool_constructor_def empty_escrow_def)
  then show ?case
    by (simp add: Nil issuing_run.none)
next
  case (snoc c cs)
  let ?h = "Keccak256 cr" and ?q = "pool_run (Keccak256 cr) cs (pool_constructor operator)"
  have inv: "pool_inv ?q"
    by (rule pool_inv_run)
  have free: "no_collision cr ledger cs" "no_collision cr ledger [c]"
    using snoc.prems(1) by (auto simp: no_collision_def)
  show ?case
  proof (cases rule: pool_after_cases [of ?h c ?q])
    case reverted
    then show ?thesis
      using snoc.IH [OF free(1) refl] snoc.prems by (simp add: payments_snoc)
  next
    case (ran p')
    then have p': "p = p'"
      using snoc.prems by simp
    have "issuing_run (escrow_step ledger) empty_escrow (payments ?h cs (pool_constructor operator)) (pool_abs ledger ?q)"
      using snoc.IH [OF free(1) refl] honest_back [OF inv ran(1)] snoc.prems(3) p' by blast
    then show ?thesis
      using issuing_run.more pool_exec_escrow [OF assms(1,2) free(2) inv ran(1)] snoc.prems(3) p' by (fastforce simp: payments_snoc)
  qed
qed

section \<open>Every reward is paid, once\<close>

definition unpaid :: "(address \<Rightarrow> bool) \<Rightarrow> MerkleLeaf list \<Rightarrow> nat" where
  "unpaid claimed leaves = (\<Sum>l\<leftarrow>leaves. if claimed (ml_Address l) then 0 else nat (ml_Amount l))"

definition owed :: "distribution \<Rightarrow> RevenuePool \<Rightarrow> nat" where
  "owed ledger p = (\<Sum>e<rp_currentEpoch p. unpaid (rp_claimed p e) (ledger e))"

definition solvent :: "distribution \<Rightarrow> RevenuePool \<Rightarrow> bool" where
  "solvent ledger p \<longleftrightarrow> rp_pendingRevenue p + owed ledger p \<le> rp_balance p"

lemma unpaid_none: "(\<And>a. \<not> claimed a) \<Longrightarrow> unpaid claimed leaves = epoch_sum leaves"
  by (simp add: unpaid_def epoch_sum_def)

lemma unpaid_other: "a \<notin> ml_Address ` set leaves \<Longrightarrow> unpaid (claimed(a := True)) leaves = unpaid claimed leaves"
  by (induction leaves) (auto simp: unpaid_def)

lemma unpaid_claim:
  "distinct (map ml_Address leaves) \<Longrightarrow> l \<in> set leaves \<Longrightarrow> \<not> claimed (ml_Address l) \<Longrightarrow>
     unpaid (claimed(ml_Address l := True)) leaves + nat (ml_Amount l) = unpaid claimed leaves"
proof (induction leaves)
  case (Cons k leaves)
  have unfold: "unpaid c (k # leaves) = (if c (ml_Address k) then 0 else nat (ml_Amount k)) + unpaid c leaves" for c
    by (simp add: unpaid_def)
  define c where "c = claimed(ml_Address l := True)"
  have c: "c (ml_Address k) \<longleftrightarrow> ml_Address k = ml_Address l \<or> claimed (ml_Address k)"
    by (simp add: c_def)
  from Cons unpaid_other [of "ml_Address l" leaves claimed] show ?case
    unfolding c_def [symmetric] by (auto simp: unfold c rev_image_eqI)
qed simp

lemma solvent_exec:
  assumes "\<And>x. length (Keccak256 cr x) = 32" and "distribution_ok ledger" and "no_collision cr ledger [c]"
    and inv: "pool_inv p" and exec: "pool_exec (Keccak256 cr) c p = Inr p'" and honest: "honest cr ledger p'" and "solvent ledger p"
  shows "solvent ledger p'"
proof (cases c)
  case (Call_finalizeEpoch sender root v)
  note ok = finalize_ok [OF exec [unfolded Call_finalizeEpoch pool_exec.simps]]
  have "owed ledger p' = owed ledger p + epoch_sum (ledger (rp_currentEpoch p))"
    using ok inv by (simp add: owed_def unpaid_none pool_inv_def)
  moreover have "epoch_sum (ledger (rp_currentEpoch p)) \<le> v"
    using honest ok by (auto simp: honest_def)
  ultimately show ?thesis
    using ok assms(7) by (simp add: solvent_def)
next
  case (Call_claim accepted sender e amount pf)
  note claim = exec [unfolded Call_claim pool_exec.simps]
  note ok = claim_ok [OF claim]
  have e: "e < rp_currentEpoch p"
    by (rule claim_epoch [OF inv claim])
  obtain l where l: "l \<in> set (ledger e)" "ml_Address l = sender" "ml_Amount l = int amount"
    by (rule claim_is_leaf [OF assms(1,2) inv honest_back [OF inv exec honest] _ _ claim])
      (use assms(3) Call_claim in \<open>auto simp: no_collision_def\<close>)
  have "unpaid ((rp_claimed p e)(sender := True)) (ledger e) + amount = unpaid (rp_claimed p e) (ledger e)"
    using unpaid_claim [of "ledger e" l "rp_claimed p e"] l ok assms(2) by (simp add: distribution_ok_def)
  then have "owed ledger p' + amount = owed ledger p"
    using ok e by (simp add: owed_def sum.remove [of _ e])
  then show ?thesis
    using assms(7) ok by (simp add: solvent_def)
qed (use exec assms(7) in \<open>auto simp: solvent_def owed_def dest!: receive_ok operator_ok\<close>)

lemma solvent_run:
  assumes "\<And>x. length (Keccak256 cr x) = 32" and "distribution_ok ledger" and "no_collision cr ledger cs"
    and "honest cr ledger (pool_run (Keccak256 cr) cs (pool_constructor operator))"
  shows "solvent ledger (pool_run (Keccak256 cr) cs (pool_constructor operator))"
  using assms(3,4)
proof (induction cs rule: rev_induct)
  case Nil
  show ?case
    by (simp add: solvent_def owed_def pool_constructor_def)
next
  case (snoc c cs)
  let ?q = "pool_run (Keccak256 cr) cs (pool_constructor operator)"
  have free: "no_collision cr ledger cs" "no_collision cr ledger [c]"
    using snoc.prems(1) by (auto simp: no_collision_def)
  show ?case
  proof (cases rule: pool_after_cases [of "Keccak256 cr" c ?q])
    case reverted
    then show ?thesis
      using snoc.IH [OF free(1)] snoc.prems(2) by simp
  next
    case (ran p')
    then have honest: "honest cr ledger p'"
      using snoc.prems(2) by simp
    have "solvent ledger ?q"
      by (rule snoc.IH [OF free(1) honest_back [OF pool_inv_run ran(1) honest]])
    then show ?thesis
      using solvent_exec [OF assms(1,2) free(2) pool_inv_run ran(1) honest] ran(2) by simp
  qed
qed

lemma unpaid_member: "l \<in> set leaves \<Longrightarrow> \<not> claimed (ml_Address l) \<Longrightarrow> nat (ml_Amount l) \<le> unpaid claimed leaves"
  by (induction leaves) (auto simp: unpaid_def)

lemma owed_member:
  assumes "e < rp_currentEpoch p" and "l \<in> set (ledger e)" and "\<not> rp_claimed p e (ml_Address l)"
  shows "nat (ml_Amount l) \<le> owed ledger p"
proof -
  have "unpaid (rp_claimed p e) (ledger e) \<le> owed ledger p"
    unfolding owed_def by (rule member_le_sum) (use assms(1) in auto)
  with unpaid_member [of l "ledger e" "rp_claimed p e"] assms show ?thesis
    by simp
qed

lemma claimed_after: "rp_claimed p e a \<Longrightarrow> rp_claimed (pool_after h c p) e a"
  by (cases rule: pool_after_cases [of h c p]; cases c) (auto dest!: receive_ok finalize_ok claim_ok operator_ok)

lemma claimed_stays: "rp_claimed p e a \<Longrightarrow> rp_claimed (pool_run h cs p) e a"
  by (induction cs arbitrary: p) (simp_all add: pool_run_def claimed_after)

text \<open>
  C7: every reward is paid, and paid once. Whatever calls the contract has seen, provided every epoch
  was finalized with the root of its leaves and a total that covers them, the addresses of an epoch
  are distinct and the hash does not collide on what the leaves and the claims hashed: an account with
  an unclaimed reward in a finalized epoch gets it with the proof computed for it; and after that,
  whatever calls follow, every claim of the account in that epoch reverts.
\<close>

theorem reward_paid_once:
  assumes "\<And>x. length (Keccak256 cr x) = 32" and "distribution_ok ledger" and "no_collision cr ledger cs"
    and "p = pool_run (Keccak256 cr) cs (pool_constructor operator)" and "honest cr ledger p"
    and "e < rp_currentEpoch p" and "l \<in> set (ledger e)" and "\<not> rp_claimed p e (ml_Address l)"
  shows "\<exists>pf p'. snd (ComputeMerkleProof cr (ledger e) (ml_Address l)) = Inr pf \<and>
    pool_claim (Keccak256 cr) True (ml_Address l) e (nat (ml_Amount l)) pf p = Inr p' \<and>
    rp_balance p = rp_balance p' + nat (ml_Amount l) \<and>
    (\<forall>cs' accepted amount pf'.
       pool_claim (Keccak256 cr) accepted (ml_Address l) e amount pf' (pool_run (Keccak256 cr) cs' p') = Inl ''already claimed'')"
proof -
  have l: "0 < ml_Amount l" "leaf_ok l" "distinct (map ml_Address (ledger e))"
    using assms(2,7) by (auto simp: distribution_ok_def)
  have root: "rp_epochRoots p e = snd (ComputeMerkleRoot cr (ledger e))" "rp_epochRoots p e \<noteq> zero32"
    using assms(5,6) pool_inv_run [of "Keccak256 cr" cs operator] by (auto simp: honest_def pool_inv_def assms(4))
  have "nat (ml_Amount l) \<le> rp_balance p"
    using solvent_run [OF assms(1-3), of operator] owed_member [of e p l ledger, OF assms(6-8)] assms(4,5) by (simp add: solvent_def)
  moreover obtain pf where pf: "snd (ComputeMerkleProof cr (ledger e) (ml_Address l)) = Inr pf"
    "verify (Keccak256 cr) pf (rp_epochRoots p e) (Keccak256 cr (packed_leaf (ml_Address l) (nat (ml_Amount l))))"
    using merkle_proof_ok [OF assms(1) l(3) assms(7)] l root by (auto simp: leaf_ok_def)
  ultimately obtain p' where claim: "pool_claim (Keccak256 cr) True (ml_Address l) e (nat (ml_Amount l)) pf p = Inr p'"
    using assms(8) l root by (simp add: pool_claim_def Let_def)
  note ok = claim_ok [OF claim]
  have "rp_claimed (pool_run (Keccak256 cr) cs' p') e (ml_Address l)" for cs'
    by (rule claimed_stays) (use ok in simp)
  then have "pool_claim (Keccak256 cr) accepted (ml_Address l) e amount pf' (pool_run (Keccak256 cr) cs' p') = Inl ''already claimed''"
    for cs' accepted amount pf'
    by (simp add: pool_claim_def)
  then show ?thesis
    using pf(1) claim ok by auto
qed

section \<open>Concrete runs\<close>

definition demo_account :: address where
  "demo_account = replicate 20 3"

definition demo_leaf :: MerkleLeaf where
  "demo_leaf = \<lparr>ml_Address = demo_account, ml_Amount = 5\<rparr>"

text \<open>A hash that tells the one leaf from everything else.\<close>

definition demo_keccak :: "(bytes, bytes) crypto" where
  "demo_keccak = demo_crypto\<lparr>Keccak256 := (\<lambda>x. if x = packed_leaf demo_account 5 then replicate 32 1 else replicate 32 2)\<rparr>"

lemma demo_keccak_simps:
  "length (Keccak256 demo_keccak x) = 32"
  "Keccak256 demo_keccak (packed_leaf demo_account 5) = replicate 32 1"
  "Keccak256 demo_keccak x = replicate 32 1 \<longleftrightarrow> x = packed_leaf demo_account 5"
  by (simp_all add: demo_keccak_def)

lemma demo_leaf_ok: "leaf_ok demo_leaf" "leaf_data demo_leaf = packed_leaf demo_account 5"
  using leaf_data_packed [of demo_leaf] by (simp_all add: leaf_ok_def demo_leaf_def demo_account_def)

lemma demo_root: "snd (ComputeMerkleRoot demo_keccak [demo_leaf]) = replicate 32 1"
  by (simp add: ComputeMerkleRoot_def sort_leaves_def demo_leaf_ok demo_keccak_simps)

lemma demo_distribution: "distribution_ok (\<lambda>_. [demo_leaf])"
  by (simp add: distribution_ok_def demo_leaf_ok) (simp add: demo_leaf_def)

definition demo_pool :: RevenuePool where
  "demo_pool = (pool_constructor [9])\<lparr>rp_epochRoots := (\<lambda>e. if e = 0 then replicate 32 1 else zero32),
     rp_epochTotals := (\<lambda>e. if e = 0 then 5 else 0), rp_pendingRevenue := 2, rp_currentEpoch := 1, rp_balance := 7\<rparr>"

definition demo_calls :: "pool_call list" where
  "demo_calls = [Call_receive 7, Call_finalizeEpoch [8] (replicate 32 2) 7, Call_finalizeEpoch [9] (replicate 32 1) 5]"

text \<open>The second call is refused, because only the operator may finalize.\<close>

lemma demo_pool_run: "pool_run (Keccak256 demo_keccak) demo_calls (pool_constructor [9]) = demo_pool"
  by (simp add: pool_run_def demo_calls_def pool_after_def pool_receive_def pool_finalizeEpoch_def pool_constructor_def demo_pool_def
      zero32_def fun_eq_iff)

lemma demo_honest: "honest demo_keccak (\<lambda>_. [demo_leaf]) demo_pool"
  by (simp add: honest_def demo_root) (simp add: demo_pool_def epoch_sum_def demo_leaf_def)

lemma demo_no_collision:
  "no_collision demo_keccak (\<lambda>_. [demo_leaf]) (demo_calls @ [Call_claim True demo_account 0 5 []])"
proof -
  have "leaf_hashes demo_keccak [demo_leaf] = [replicate 32 1]"
    by (simp add: leaf_hashes_def sort_leaves_def demo_leaf_ok demo_keccak_simps)
  then have "claim_inputs demo_keccak [demo_leaf] demo_account 5 [] = {packed_leaf demo_account 5}"
    by (simp add: claim_inputs_def demo_leaf_ok tree_inputs.simps)
  then show ?thesis
    by (simp add: no_collision_def demo_calls_def call_ok_def demo_account_def)
qed

theorem claim_calldata_roundtrip_witness:
  "abi_claim (drop 4 (BuildClaimData demo_keccak 3 5 [replicate 32 4])) = Some (3, 5, [replicate 32 4])"
  using claim_calldata_roundtrip [of demo_keccak 3 5 "[replicate 32 4]" zero32] by (simp add: demo_keccak_simps(1))

lemma demo_paid:
  "pool_exec (Keccak256 demo_keccak) (Call_claim True demo_account 0 5 []) demo_pool =
     Inr (demo_pool\<lparr>rp_claimed := (\<lambda>e a. e = 0 \<and> a = demo_account), rp_balance := 2\<rparr>)"
  by (simp add: pool_claim_def verify_def demo_keccak_simps) (simp add: demo_pool_def pool_constructor_def zero32_def fun_eq_iff)

theorem pool_refines_escrow_witness:
  "\<exists>s. issuing_run (escrow_step (\<lambda>_. [demo_leaf])) empty_escrow [(demo_account, 5)] s \<and> es_held s = 2"
proof -
  let ?cs = "demo_calls @ [Call_claim True demo_account 0 5 []]"
  let ?p = "demo_pool\<lparr>rp_claimed := (\<lambda>e a. e = 0 \<and> a = demo_account), rp_balance := 2\<rparr>"
  have run: "?p = pool_run (Keccak256 demo_keccak) ?cs (pool_constructor [9])"
    using demo_paid by (simp add: demo_pool_run pool_after_def)
  have "payments (Keccak256 demo_keccak) ?cs (pool_constructor [9]) = [(demo_account, 5)]"
    unfolding payments_snoc demo_pool_run using demo_paid by (simp add: demo_calls_def transfer_def)
  moreover have "honest demo_keccak (\<lambda>_. [demo_leaf]) ?p"
    using demo_honest by (simp add: honest_def)
  ultimately show ?thesis
    using pool_refines_escrow [OF demo_keccak_simps(1) demo_distribution demo_no_collision run] by (auto simp: pool_abs_def)
qed

theorem reward_paid_once_witness:
  "\<exists>pf p'. pool_claim (Keccak256 demo_keccak) True demo_account 0 5 pf demo_pool = Inr p' \<and> rp_balance p' = 2"
proof -
  have "no_collision demo_keccak (\<lambda>_. [demo_leaf]) demo_calls"
    using demo_no_collision by (simp add: no_collision_def)
  moreover have "ml_Address demo_leaf = demo_account" "nat (ml_Amount demo_leaf) = 5" "rp_balance demo_pool = 7" "0 < rp_currentEpoch demo_pool"
    "\<not> rp_claimed demo_pool 0 demo_account"
    by (simp_all add: demo_leaf_def demo_pool_def pool_constructor_def)
  ultimately show ?thesis
    using reward_paid_once [OF demo_keccak_simps(1) demo_distribution _ demo_pool_run [symmetric] demo_honest, of 0 demo_leaf] by fastforce
qed

end
