(* ===== verification/Reward_Epoch.thy ===== *)
theory Reward_Epoch
  imports Reward_Merkle Providers "HOL-Library.Multiset"
begin

text \<open>
  The reward accounting of an epoch (\<open>rewards/types.go\<close>, \<open>rewards/curves.go\<close>,
  \<open>rewards/epoch.go\<close>) and the tracker that feeds it (\<open>rewards/tracker.go\<close>).

  The scores are computed in \<open>float64\<close>. Its arithmetic is the parameter \<open>float64\<close>, a record of
  the operations the code uses on an arbitrary type; nothing is assumed of them, so that every
  theorem holds for the rounding of the hardware. Amounts of wei are big integers and are exact.
  The one computation in \<open>big.Float\<close>, the cap, is modelled exactly: the precision of the product
  is the larger of the operands' and it is rounded to the nearest, ties to even.

  Clock readings are arguments, in nanoseconds; the order in which the map of contributors is
  ranged over is a list of its keys, \<open>order\<close>.
\<close>

section \<open>Floating point\<close>

record 'f float64 =
  f_add :: "'f \<Rightarrow> 'f \<Rightarrow> 'f"
  f_sub :: "'f \<Rightarrow> 'f \<Rightarrow> 'f"
  f_mul :: "'f \<Rightarrow> 'f \<Rightarrow> 'f"
  f_div :: "'f \<Rightarrow> 'f \<Rightarrow> 'f"
  f_less :: "'f \<Rightarrow> 'f \<Rightarrow> bool"
  f_of_int :: "int \<Rightarrow> 'f"
  f_of_big :: "int \<Rightarrow> 'f"
  f_to_int64 :: "'f \<Rightarrow> int64"
  f_to_big :: "'f \<Rightarrow> int"
  f_log :: "'f \<Rightarrow> 'f"
  f_pow :: "'f \<Rightarrow> 'f \<Rightarrow> 'f"
  f_hours :: "int64 \<Rightarrow> 'f"

section \<open>Types\<close>

record 'f StorageContributor =
  sc_PeerID :: peer_ID
  sc_Address :: address
  sc_BytesStored :: uint64
  sc_ByteHours :: int
  sc_ChunksStored :: int64
  sc_ChallengesPassed :: int64
  sc_ChallengesFailed :: int64
  sc_RedundancyScore :: 'f
  sc_JoinedAt :: int
  sc_LastSeen :: int

record 'f ContributorScore =
  cs_PeerID :: peer_ID
  cs_Address :: address
  cs_ByteHours :: int
  cs_ChallengeRate :: 'f
  cs_RedundancyBonus :: 'f
  cs_RawScore :: 'f
  cs_CurvedScore :: 'f
  cs_RewardWei :: int

record 'f EpochSnapshot =
  ep_EpochNumber :: uint64
  ep_StartTime :: int
  ep_EndTime :: int
  ep_TotalRevenue :: int
  ep_TotalByteHours :: int
  ep_Contributors :: "'f ContributorScore list"
  ep_MerkleRoot :: bytes
  ep_MerkleLeaves :: "MerkleLeaf list"

text \<open>
  The fields of \<open>Config\<close> the computation reads. \<open>MaxNetworkShare\<close> is a \<open>float64\<close>, the number
  \<open>m / 2 ^ k\<close> for its mantissa \<open>m\<close> and exponent \<open>k\<close>.
\<close>

record 'f Config =
  cf_OptimalBytesMin :: uint64
  cf_OptimalBytesMax :: uint64
  cf_SmallPenaltyRate :: 'f
  cf_WhalePenaltyRate :: 'f
  cf_MaxNetworkShare :: "int \<times> nat"
  cf_RedundancyMinimum :: int64
  cf_FailedChallengeSlash :: 'f
  cf_ChallengeWeight :: 'f
  cf_RedundancyWeight :: 'f

definition NewContributor :: "'f float64 \<Rightarrow> int \<Rightarrow> int \<Rightarrow> peer_ID \<Rightarrow> address \<Rightarrow> 'f StorageContributor" where
  "NewContributor fl t1 t2 peerID address =
     \<lparr>sc_PeerID = peerID, sc_Address = address, sc_BytesStored = 0, sc_ByteHours = 0, sc_ChunksStored = 0,
      sc_ChallengesPassed = 0, sc_ChallengesFailed = 0, sc_RedundancyScore = f_of_int fl 0, sc_JoinedAt = t1, sc_LastSeen = t2\<rparr>"

definition ChallengePassRate :: "'f float64 \<Rightarrow> 'f StorageContributor \<Rightarrow> 'f" where
  "ChallengePassRate fl c =
     (let count = wrap64 (sc_ChallengesPassed c + sc_ChallengesFailed c)
      in if count = 0 then f_of_int fl 0
         else f_div fl (f_of_int fl (sc_ChallengesPassed c)) (f_of_int fl count))"

section \<open>The curve\<close>

record 'f MiddleOutCurve =
  mc_OptimalMin :: uint64
  mc_OptimalMax :: uint64
  mc_SmallPenalty :: 'f
  mc_WhalePenalty :: 'f

definition NewMiddleOutCurve :: "'f Config \<Rightarrow> 'f MiddleOutCurve" where
  "NewMiddleOutCurve cfg = \<lparr>mc_OptimalMin = cf_OptimalBytesMin cfg, mc_OptimalMax = cf_OptimalBytesMax cfg,
     mc_SmallPenalty = cf_SmallPenaltyRate cfg, mc_WhalePenalty = cf_WhalePenaltyRate cfg\<rparr>"

definition Efficiency :: "'f float64 \<Rightarrow> 'f MiddleOutCurve \<Rightarrow> uint64 \<Rightarrow> 'f" where
  "Efficiency fl c bytes =
     (if bytes = 0 then f_of_int fl 0
      else if bytes \<ge> mc_OptimalMin c \<and> bytes \<le> mc_OptimalMax c then f_of_int fl 1
      else if bytes < mc_OptimalMin c then
        let ratio = f_div fl (f_of_int fl (uint bytes)) (f_of_int fl (uint (mc_OptimalMin c)))
        in f_add fl (mc_SmallPenalty c) (f_mul fl (f_sub fl (f_of_int fl 1) (mc_SmallPenalty c)) ratio)
      else
        let excessRatio = f_div fl (f_of_int fl (uint bytes)) (f_of_int fl (uint (mc_OptimalMax c)));
            decay = f_div fl (f_of_int fl 1) (f_add fl (f_of_int fl 1) (f_log fl excessRatio))
        in f_add fl (mc_WhalePenalty c) (f_mul fl (f_sub fl (f_of_int fl 1) (mc_WhalePenalty c)) decay))"

text \<open>The body of the first loop of \<open>ComputeRewards\<close>; the reward is filled in by the second.\<close>

definition score_of :: "'f float64 \<Rightarrow> 'f MiddleOutCurve \<Rightarrow> 'f Config \<Rightarrow> 'f StorageContributor \<Rightarrow> 'f ContributorScore" where
  "score_of fl c cfg contrib =
     (let rate = ChallengePassRate fl contrib;
          bonus = sc_RedundancyScore contrib;
          byteHoursFloat = f_of_big fl (sc_ByteHours contrib);
          baseWeight = f_sub fl (f_sub fl (f_of_int fl 1) (cf_ChallengeWeight cfg)) (cf_RedundancyWeight cfg);
          weightedScore = f_add fl (f_add fl baseWeight (f_mul fl (cf_ChallengeWeight cfg) rate))
            (f_mul fl (cf_RedundancyWeight cfg) bonus);
          raw0 = f_mul fl byteHoursFloat weightedScore;
          raw = (if sc_ChallengesFailed contrib > 0
                 then f_mul fl raw0 (f_pow fl (f_sub fl (f_of_int fl 1) (cf_FailedChallengeSlash cfg))
                   (f_of_int fl (sc_ChallengesFailed contrib)))
                 else raw0);
          efficiency = Efficiency fl c (sc_BytesStored contrib)
      in \<lparr>cs_PeerID = sc_PeerID contrib, cs_Address = sc_Address contrib, cs_ByteHours = sc_ByteHours contrib,
          cs_ChallengeRate = rate, cs_RedundancyBonus = bonus, cs_RawScore = raw,
          cs_CurvedScore = f_mul fl raw efficiency, cs_RewardWei = 0\<rparr>)"

text \<open>
  \<open>f_to_big\<close> stands for the way of a score through \<open>big.Float\<close>. \<open>SetFloat64\<close> panics on a NaN, which
  a configuration of numbers out of their range may produce; that panic is not modelled.
\<close>

definition ComputeRewards ::
  "'f float64 \<Rightarrow> 'f MiddleOutCurve \<Rightarrow> 'f StorageContributor list \<Rightarrow> int \<Rightarrow> 'f Config \<Rightarrow> 'f ContributorScore list" where
  "ComputeRewards fl c contributors totalRevenue cfg =
     (let scores = map (score_of fl c cfg) contributors;
          totalCurvedScore = fold (\<lambda>s acc. f_add fl acc (cs_CurvedScore s)) scores (f_of_int fl 0)
      in if f_less fl (f_of_int fl 0) totalCurvedScore \<and> totalRevenue > 0 then
           let revFloat = f_of_big fl totalRevenue
           in map (\<lambda>s. s\<lparr>cs_RewardWei := f_to_big fl (f_mul fl revFloat (f_div fl (cs_CurvedScore s) totalCurvedScore))\<rparr>) scores
         else map (\<lambda>s. s\<lparr>cs_RewardWei := 0\<rparr>) scores)"

section \<open>The concentration cap\<close>

fun bitlen :: "nat \<Rightarrow> nat" where
  "bitlen n = (if n = 0 then 0 else Suc (bitlen (n div 2)))"

declare bitlen.simps [simp del]

definition round_even :: "nat \<Rightarrow> nat \<Rightarrow> nat" where
  \<comment> \<open>rounding a mantissa to \<open>prec\<close> bits\<close>
  "round_even prec n =
     (if bitlen n \<le> prec then n
      else
        let s = bitlen n - prec; q = n div 2 ^ s; r = n mod 2 ^ s; half = 2 ^ (s - 1)
        in (if r > half \<or> r = half \<and> odd q then q + 1 else q) * 2 ^ s)"

text \<open>
  \<open>maxReward\<close>: the product of the total, with the larger of 64 bits and its own length as
  precision, and of the share, truncated to an integer.
\<close>

definition max_reward :: "int \<times> nat \<Rightarrow> int \<Rightarrow> int" where
  "max_reward share totalRewards =
     (let t = nat \<bar>totalRewards\<bar>
      in sgn totalRewards * int (round_even (max 64 (bitlen t)) (t * nat (fst share)) div 2 ^ snd share))"

definition big_div :: "int \<Rightarrow> int \<Rightarrow> int" where
  \<comment> \<open>\<open>big.Int.Div\<close> is Euclidean\<close>
  "big_div a b = sgn b * (a div \<bar>b\<bar>)"

text \<open>The loops over the rewards alone; an index is capped when its reward exceeds the maximum.\<close>

definition cap_rewards :: "int \<times> nat \<Rightarrow> int list \<Rightarrow> int list" where
  "cap_rewards maxShare rewards =
     (if rewards = [] \<or> fst maxShare \<le> 0 \<or> fst maxShare \<ge> 2 ^ snd maxShare then rewards
      else
        let totalRewards = sum_list rewards in
        if totalRewards = 0 then rewards
        else
          let maxReward = max_reward maxShare totalRewards;
              excess = (\<Sum>r\<leftarrow>rewards. if r > maxReward then r - maxReward else 0);
              capped = map (\<lambda>r. if r > maxReward then maxReward else r) rewards
          in if excess = 0 then capped
             else
               let nonCappedTotal = (\<Sum>r\<leftarrow>rewards. if r > maxReward then 0 else r)
               in if nonCappedTotal = 0 then capped
                  else map (\<lambda>r. if r > maxReward then maxReward else r + big_div (r * excess) nonCappedTotal) rewards)"

definition ApplyConcentrationCaps :: "int \<times> nat \<Rightarrow> 'f ContributorScore list \<Rightarrow> 'f ContributorScore list" where
  "ApplyConcentrationCaps maxShare scores =
     map2 (\<lambda>s r. s\<lparr>cs_RewardWei := r\<rparr>) scores (cap_rewards maxShare (map cs_RewardWei scores))"

subsection \<open>What the cap does to the total\<close>

lemma sum_shares_upper: "n > 0 \<Longrightarrow> \<forall>r\<in>set rs. 0 \<le> (r::int) \<Longrightarrow> n * (\<Sum>r\<leftarrow>rs. r * e div n) \<le> e * sum_list rs"
proof (induction rs)
  case (Cons r rs)
  have "n * (r * e div n) \<le> r * e"
    using Cons.prems(1) by (metis mult_div_mod_eq pos_mod_sign le_add_same_cancel1)
  with Cons show ?case
    by (simp add: algebra_simps)
qed simp

lemma sum_shares_lower: "n > 0 \<Longrightarrow> e * sum_list rs \<le> n * ((\<Sum>r\<leftarrow>rs. (r::int) * e div n) + int (length rs)) - int (length rs)"
proof (induction rs)
  case (Cons r rs)
  have "r * e + 1 \<le> n * (r * e div n) + n"
    using Cons.prems pos_mod_bound [of n "r * e"] mult_div_mod_eq [of n "r * e"] by linarith
  with Cons show ?case
    by (simp add: algebra_simps)
qed simp

lemma sum_capped:
  fixes m :: int and g h :: "int \<Rightarrow> int"
  shows "(\<Sum>r\<leftarrow>rewards. if r > m then g r else h r) =
    (\<Sum>r\<leftarrow>filter (\<lambda>r. r > m) rewards. g r) + (\<Sum>r\<leftarrow>filter (\<lambda>r. \<not> r > m) rewards. h r)"
  by (induction rewards) auto

lemma sum_list_const_diff: "(\<Sum>r\<leftarrow>rs. r - m) = sum_list rs - int (length rs) * (m::int)"
  by (induction rs) (auto simp: algebra_simps)

lemma sum_list_add: "(\<Sum>r\<leftarrow>rs. r + (f r :: int)) = sum_list rs + (\<Sum>r\<leftarrow>rs. f r)"
  by (induction rs) auto

text \<open>
  The loop of the cap for a maximum \<open>m\<close>, an excess \<open>e\<close> and the rest \<open>n\<close>: cutting takes
  the excess off the total, sharing it out gives back all but less than one wei per uncapped entry.
\<close>

lemma cut_total:
  fixes m :: int
  assumes "e = (\<Sum>r\<leftarrow>rewards. if r > m then r - m else 0)"
  shows "(\<Sum>r\<leftarrow>rewards. if r > m then m else r) = sum_list rewards - e"
  unfolding assms by (induction rewards) auto

lemma shared_total:
  fixes m :: int
  assumes "\<forall>r\<in>set rewards. 0 \<le> r" and e: "e = (\<Sum>r\<leftarrow>rewards. if r > m then r - m else 0)" "e > 0"
    and n: "n = (\<Sum>r\<leftarrow>rewards. if r > m then 0 else r)" "n > 0"
  shows "sum_list rewards - int (length (filter (\<lambda>r. \<not> r > m) rewards)) < (\<Sum>r\<leftarrow>rewards. if r > m then m else r + r * e div n)"
    and "(\<Sum>r\<leftarrow>rewards. if r > m then m else r + r * e div n) \<le> sum_list rewards"
proof -
  let ?u = "filter (\<lambda>r. \<not> r > m) rewards"
  let ?d = "\<Sum>r\<leftarrow>?u. r * e div n"
  have nu: "n = sum_list ?u"
    unfolding n(1) sum_capped by simp
  have "n * ?d \<le> n * e"
    using sum_shares_upper [of n ?u e] assms(1) n(2) nu by (simp add: mult.commute)
  then have upper: "?d \<le> e"
    using n(2) by simp
  have "?u \<noteq> []"
    using nu n(2) by (metis sum_list.Nil less_irrefl)
  then have "int (length ?u) > 0"
    by (metis length_greater_0_conv of_nat_0_less_iff)
  moreover have "e * n \<le> n * (?d + int (length ?u)) - int (length ?u)"
    using sum_shares_lower [of n e ?u] n(2) nu by simp
  ultimately have "n * e < n * (?d + int (length ?u))"
    by (simp only: mult.commute [of n e])
  then have lower: "e < ?d + int (length ?u)"
    using n(2) by simp
  have "(\<Sum>r\<leftarrow>rewards. if r > m then m else r + r * e div n) = (\<Sum>r\<leftarrow>rewards. if r > m then m else r) + ?d"
    unfolding sum_capped sum_list_add by simp
  then have total: "(\<Sum>r\<leftarrow>rewards. if r > m then m else r + r * e div n) = sum_list rewards - e + ?d"
    by (simp only: cut_total [OF e(1)])
  show "sum_list rewards - int (length ?u) < (\<Sum>r\<leftarrow>rewards. if r > m then m else r + r * e div n)"
    "(\<Sum>r\<leftarrow>rewards. if r > m then m else r + r * e div n) \<le> sum_list rewards"
    unfolding total using upper lower by linarith+
qed

lemma shared_loss:
  fixes m :: int
  defines "e \<equiv> \<lambda>rs. \<Sum>r\<leftarrow>rs. if r > m then r - m else 0" and "n \<equiv> \<lambda>rs. \<Sum>r\<leftarrow>rs. if r > m then 0 else r"
  assumes "\<forall>r\<in>set rewards. 0 \<le> r" and "e rewards > 0" and "n rewards > 0"
  shows "sum_list rewards - (\<Sum>r\<leftarrow>rewards. if r > m then m else r + r * e rewards div n rewards) <
    int (length (filter (\<lambda>r. \<not> r > m) rewards))"
  using shared_total(1) [OF assms(3) refl _ refl, of m] assms(4,5) unfolding e_def n_def by linarith

lemma sum_list_pos: "\<forall>r\<in>set rs. 0 \<le> (r::int) \<Longrightarrow> r \<in> set rs \<Longrightarrow> 0 < r \<Longrightarrow> 0 < sum_list rs"
  by (induction rs) (auto simp: add_pos_nonneg add_nonneg_pos sum_list_nonneg)

lemma cap_rewards_bounds:
  assumes "\<forall>r\<in>set rewards. 0 \<le> r" and "m = max_reward share (sum_list rewards)"
  shows "sum_list (cap_rewards share rewards) \<le> sum_list rewards"
    and "r \<in> set rewards \<Longrightarrow> 0 < r \<Longrightarrow> r \<le> m \<Longrightarrow> sum_list rewards - sum_list (cap_rewards share rewards) < int (length rewards)"
proof -
  let ?e = "\<Sum>r\<leftarrow>rewards. if r > m then r - m else 0" and ?n = "\<Sum>r\<leftarrow>rewards. if r > m then 0 else r"
  have e: "?e \<ge> 0" and n: "?n \<ge> 0"
    using assms(1) by (auto intro!: sum_list_nonneg)
  have cap: "cap_rewards share rewards = rewards \<or>
      cap_rewards share rewards = map (\<lambda>r. if r > m then m else r) rewards \<and> (?e = 0 \<or> ?n = 0) \<or>
      cap_rewards share rewards = map (\<lambda>r. if r > m then m else r + r * ?e div ?n) rewards \<and> ?e > 0 \<and> ?n > 0"
    using e n by (auto simp: cap_rewards_def Let_def big_div_def assms(2) [symmetric])
  have len: "int (length (filter (\<lambda>r. \<not> r > m) rewards)) \<le> int (length rewards)"
    by simp
  show "sum_list (cap_rewards share rewards) \<le> sum_list rewards"
    using cap cut_total [OF refl, of m rewards] shared_total(2) [OF assms(1) refl _ refl, of m] e by auto
  assume r: "r \<in> set rewards" "0 < r" "r \<le> m"
  then have "?n > 0"
    using assms(1) by (intro sum_list_pos [of "map (\<lambda>r. if r > m then 0 else r) rewards" r]) (auto simp: image_iff)
  moreover have "length rewards > 0"
    using r(1) by (cases rewards) auto
  ultimately show "sum_list rewards - sum_list (cap_rewards share rewards) < int (length rewards)"
    using cap cut_total [OF refl, of m rewards] order_less_le_trans [OF shared_loss [OF assms(1), of m] len] by auto
qed

section \<open>The epoch manager\<close>

record 'f EpochManager =
  em_currentEpoch :: uint64
  em_epochStart :: int
  em_accumulatedRevenue :: int
  em_contributors :: "peer_ID \<Rightarrow> 'f StorageContributor option"
  em_history :: "'f EpochSnapshot list"

definition NewEpochManager :: "int \<Rightarrow> 'f EpochManager" where
  "NewEpochManager now = \<lparr>em_currentEpoch = 0, em_epochStart = now, em_accumulatedRevenue = 0,
     em_contributors = Map.empty, em_history = []\<rparr>"

definition AddRevenue :: "int option \<Rightarrow> 'f EpochManager \<Rightarrow> 'f EpochManager" where
  "AddRevenue amount em =
     (case amount of
        None \<Rightarrow> em
      | Some a \<Rightarrow> if a \<le> 0 then em else em\<lparr>em_accumulatedRevenue := em_accumulatedRevenue em + a\<rparr>)"

definition UpdateContributor ::
  "'f float64 \<Rightarrow> int \<Rightarrow> int \<Rightarrow> int \<Rightarrow> peer_ID \<Rightarrow> address \<Rightarrow> uint64 \<Rightarrow> int64 \<Rightarrow> 'f EpochManager \<Rightarrow> 'f EpochManager" where
  "UpdateContributor fl t1 t2 t3 peerID address bytesStored chunksStored em =
     (let contrib = (case em_contributors em peerID of None \<Rightarrow> NewContributor fl t1 t2 peerID address | Some c \<Rightarrow> c)
      in em\<lparr>em_contributors := (em_contributors em)(peerID \<mapsto>
           contrib\<lparr>sc_BytesStored := bytesStored, sc_ChunksStored := chunksStored, sc_LastSeen := t3, sc_Address := address\<rparr>)\<rparr>)"

definition RecordChallengeResult :: "peer_ID \<Rightarrow> bool \<Rightarrow> 'f EpochManager \<Rightarrow> 'f EpochManager" where
  "RecordChallengeResult peerID passed em =
     (case em_contributors em peerID of
        None \<Rightarrow> em
      | Some contrib \<Rightarrow>
          em\<lparr>em_contributors := (em_contributors em)(peerID \<mapsto>
            (if passed then contrib\<lparr>sc_ChallengesPassed := wrap64 (sc_ChallengesPassed contrib + 1)\<rparr>
             else contrib\<lparr>sc_ChallengesFailed := wrap64 (sc_ChallengesFailed contrib + 1)\<rparr>))\<rparr>)"

text \<open>
  The redundancy of one contributor: \<open>all_providers\<close> is what \<open>providers.All()\<close> returned and
  \<open>roots\<close> the order of the inner loop over it.
\<close>

definition redundancy_loop ::
  "'f float64 \<Rightarrow> 'f Config \<Rightarrow> (ContentID \<Rightarrow> ProviderRecord list option) \<Rightarrow> peer_ID \<Rightarrow> ContentID list \<Rightarrow> 'f \<times> nat" where
  "redundancy_loop fl cfg all_providers peer roots =
     fold (\<lambda>root (totalScore, chunksChecked).
       case all_providers root of
         None \<Rightarrow> (totalScore, chunksChecked)
       | Some records \<Rightarrow>
           if list_ex (\<lambda>r. pr_PeerID r = peer) records then
             let count = int (length records)
             in (if count < cf_RedundancyMinimum cfg then f_add fl totalScore (f_div fl (f_of_int fl 1) (f_of_int fl count))
                 else totalScore, Suc chunksChecked)
           else (totalScore, chunksChecked)) roots (f_of_int fl 0, 0)"

definition calculateRedundancyScores ::
  "'f float64 \<Rightarrow> 'f Config \<Rightarrow> (ContentID \<Rightarrow> ProviderRecord list option) option \<Rightarrow> (peer_ID \<Rightarrow> ContentID list)
    \<Rightarrow> 'f EpochManager \<Rightarrow> 'f EpochManager" where
  "calculateRedundancyScores fl cfg all_providers roots em =
     (case all_providers of
        None \<Rightarrow> em
      | Some ap \<Rightarrow>
          em\<lparr>em_contributors := (\<lambda>peer. map_option (\<lambda>contrib.
            let (totalScore, chunksChecked) = redundancy_loop fl cfg ap (sc_PeerID contrib) (roots peer)
            in if chunksChecked > 0
               then contrib\<lparr>sc_RedundancyScore := f_div fl totalScore (f_of_int fl (int chunksChecked))\<rparr>
               else contrib) (em_contributors em peer))\<rparr>)"

definition accrue_byte_hours :: "'f float64 \<Rightarrow> int64 \<Rightarrow> 'f StorageContributor \<Rightarrow> 'f StorageContributor" where
  "accrue_byte_hours fl epochDuration contrib =
     (let hours = f_hours fl epochDuration
      in contrib\<lparr>sc_ByteHours := sc_ByteHours contrib +
           big_div (sint (sc_BytesStored contrib) * f_to_int64 fl (f_mul fl hours (f_of_int fl 1000))) 1000\<rparr>)"

definition reward_leaves :: "'f ContributorScore list \<Rightarrow> MerkleLeaf list" where
  "reward_leaves scores =
     map (\<lambda>s. \<lparr>ml_Address = cs_Address s, ml_Amount = cs_RewardWei s\<rparr>) (filter (\<lambda>s. cs_RewardWei s > 0) scores)"

definition epoch_scores ::
  "'f float64 \<Rightarrow> 'f Config \<Rightarrow> (ContentID \<Rightarrow> ProviderRecord list option) option \<Rightarrow> (peer_ID \<Rightarrow> ContentID list)
    \<Rightarrow> int \<Rightarrow> peer_ID list \<Rightarrow> 'f EpochManager \<Rightarrow> 'f EpochManager \<times> 'f ContributorScore list" where
  \<comment> \<open>\<open>FinalizeEpoch\<close> up to the leaves\<close>
  "epoch_scores fl cfg all_providers roots t1 order em =
     (let em1 = em\<lparr>em_contributors := (\<lambda>peer. map_option (accrue_byte_hours fl (time_sub t1 (em_epochStart em))) (em_contributors em peer))\<rparr>;
          em2 = calculateRedundancyScores fl cfg all_providers roots em1;
          contribList = List.map_filter (em_contributors em2) order
      in (em2, ApplyConcentrationCaps (cf_MaxNetworkShare cfg)
            (ComputeRewards fl (NewMiddleOutCurve cfg) contribList (em_accumulatedRevenue em2) cfg)))"

definition FinalizeEpoch ::
  "('sk, 'pk) crypto \<Rightarrow> 'f float64 \<Rightarrow> 'f Config \<Rightarrow> (ContentID \<Rightarrow> ProviderRecord list option) option
    \<Rightarrow> (peer_ID \<Rightarrow> ContentID list) \<Rightarrow> int \<Rightarrow> int \<Rightarrow> int \<Rightarrow> peer_ID list \<Rightarrow> 'f EpochManager \<Rightarrow> 'f EpochManager \<times> 'f EpochSnapshot" where
  "FinalizeEpoch cr fl cfg all_providers roots t1 t2 t3 order em =
     (let (em2, scores) = epoch_scores fl cfg all_providers roots t1 order em;
          (leaves, merkleRoot) = ComputeMerkleRoot cr (reward_leaves scores);
          totalByteHours = (\<Sum>c\<leftarrow>List.map_filter (em_contributors em2) order. sc_ByteHours c);
          snapshot = \<lparr>ep_EpochNumber = em_currentEpoch em, ep_StartTime = em_epochStart em, ep_EndTime = t2,
            ep_TotalRevenue = em_accumulatedRevenue em, ep_TotalByteHours = totalByteHours, ep_Contributors = scores,
            ep_MerkleRoot = merkleRoot, ep_MerkleLeaves = leaves\<rparr>
      in (em2\<lparr>em_history := em_history em @ [snapshot], em_currentEpoch := em_currentEpoch em + 1, em_epochStart := t3,
              em_accumulatedRevenue := 0,
              em_contributors := (\<lambda>peer. map_option (\<lambda>c. c\<lparr>sc_ByteHours := 0\<rparr>) (em_contributors em2 peer))\<rparr>, snapshot))"

definition ContributorCount :: "peer_ID list \<Rightarrow> 'f EpochManager \<Rightarrow> nat" where
  "ContributorCount order em = length (filter (\<lambda>p. em_contributors em p \<noteq> None) order)"

section \<open>The tracker\<close>

type_synonym peer_stats = "peer_ID \<Rightarrow> (uint64 \<times> int64) option"

definition count_record :: "ProviderRecord \<Rightarrow> peer_stats \<Rightarrow> peer_stats" where
  "count_record r stats =
     (let (bytes, chunks) = (case stats (pr_PeerID r) of None \<Rightarrow> (0, 0) | Some s \<Rightarrow> s)
      in stats(pr_PeerID r \<mapsto> (bytes + pr_Size r, wrap64 (chunks + 1))))"

definition collect_stats :: "(ContentID \<Rightarrow> ProviderRecord list option) \<Rightarrow> ContentID list \<Rightarrow> peer_stats" where
  "collect_stats all_providers roots =
     fold (\<lambda>root stats. case all_providers root of None \<Rightarrow> stats | Some records \<Rightarrow> fold count_record records stats) roots Map.empty"

definition updateStats ::
  "'f float64 \<Rightarrow> (peer_ID \<Rightarrow> int) \<Rightarrow> (peer_ID \<Rightarrow> address option) \<Rightarrow> (ContentID \<Rightarrow> ProviderRecord list option) option
    \<Rightarrow> ContentID list \<Rightarrow> peer_ID list \<Rightarrow> 'f EpochManager \<Rightarrow> 'f EpochManager" where
  "updateStats fl clock addresses all_providers roots peers em =
     (case all_providers of
        None \<Rightarrow> em
      | Some ap \<Rightarrow>
          let stats = collect_stats ap roots
          in fold (\<lambda>peerID em.
               case stats peerID of
                 None \<Rightarrow> em
               | Some (bytes, chunks) \<Rightarrow>
                   (case addresses peerID of
                      None \<Rightarrow> em
                    | Some address \<Rightarrow>
                        UpdateContributor fl (clock peerID) (clock peerID) (clock peerID) peerID address bytes chunks em)) peers em)"

section \<open>Totals\<close>

lemma length_cap_rewards [simp]: "length (cap_rewards share rewards) = length rewards"
  by (simp add: cap_rewards_def Let_def)

lemma map_fields_caps:
  "map cs_RewardWei (ApplyConcentrationCaps share scores) = cap_rewards share (map cs_RewardWei scores)"
  "map cs_Address (ApplyConcentrationCaps share scores) = map cs_Address scores"
  by (auto simp: ApplyConcentrationCaps_def intro: nth_equalityI)

text \<open>
  C16: the cap never pays out more than was computed; and as long as some contributor is below it, it
  loses less than one wei per contributor.
\<close>

theorem caps_conserve:
  assumes "\<forall>s\<in>set scores. 0 \<le> cs_RewardWei s"
  shows "(\<Sum>s\<leftarrow>ApplyConcentrationCaps share scores. cs_RewardWei s) \<le> (\<Sum>s\<leftarrow>scores. cs_RewardWei s) \<and>
    (\<forall>s\<in>set scores. 0 < cs_RewardWei s \<and> cs_RewardWei s \<le> max_reward share (\<Sum>s\<leftarrow>scores. cs_RewardWei s) \<longrightarrow>
      (\<Sum>s\<leftarrow>scores. cs_RewardWei s) - (\<Sum>s\<leftarrow>ApplyConcentrationCaps share scores. cs_RewardWei s) < int (length scores))"
proof -
  let ?r = "map cs_RewardWei scores"
  have "\<forall>r\<in>set ?r. 0 \<le> r"
    using assms by auto
  from cap_rewards_bounds [OF this refl, where share = share] show ?thesis
    by (auto simp: map_fields_caps(1) simp del: length_map) (metis image_eqI length_map)
qed

text \<open>The default share, the \<open>float64\<close> nearest to 0.10.\<close>

definition default_share :: "int \<times> nat" where
  "default_share = (3602879701896397, 55)"

text \<open>
  The cap does not bound shares: with the default of ten percent and two contributors, the part cut
  from the larger goes to the smaller, who ends with ninety percent; and a single contributor gets
  ten percent while the rest goes to no one.
\<close>

theorem cap_moves_excess:
  "cap_rewards default_share [90, 10] = [10, 90] \<and> cap_rewards default_share [1000] = [100]"
proof -
  have b: "bitlen 1000 = 10" "bitlen 100 = 7" "bitlen 3602879701896397000 = 62" "bitlen 360287970189639700 = 59"
    by (simp_all add: bitlen.simps)
  have m: "max_reward default_share 100 = 10" "max_reward default_share 1000 = 100"
    by (simp_all add: max_reward_def default_share_def round_even_def b Let_def)
  have s: "fst default_share = 3602879701896397" "snd default_share = 55"
    by (simp_all add: default_share_def)
  show ?thesis
    by (simp add: cap_rewards_def s m Let_def big_div_def)
qed

section \<open>Epochs\<close>

text \<open>
  The runs of an epoch manager, with the revenue that was added on the way.
\<close>

inductive epoch_run :: "('sk, 'pk) crypto \<Rightarrow> 'f float64 \<Rightarrow> 'f Config \<Rightarrow> int \<Rightarrow> 'f EpochManager \<Rightarrow> bool" for cr fl cfg where
  start: "epoch_run cr fl cfg 0 (NewEpochManager now)"
| revenue: "epoch_run cr fl cfg n em \<Longrightarrow> epoch_run cr fl cfg (n + max 0 a) (AddRevenue (Some a) em)"
| no_revenue: "epoch_run cr fl cfg n em \<Longrightarrow> epoch_run cr fl cfg n (AddRevenue None em)"
| contributor: "epoch_run cr fl cfg n em \<Longrightarrow> epoch_run cr fl cfg n (UpdateContributor fl t1 t2 t3 peerID address bytes chunks em)"
| challenge: "epoch_run cr fl cfg n em \<Longrightarrow> epoch_run cr fl cfg n (RecordChallengeResult peerID passed em)"
| finalize: "epoch_run cr fl cfg n em \<Longrightarrow> epoch_run cr fl cfg n (fst (FinalizeEpoch cr fl cfg ap roots t1 t2 t3 order em))"

lemma epoch_scores_frame:
  "em_accumulatedRevenue (fst (epoch_scores fl cfg ap roots t1 order em)) = em_accumulatedRevenue em"
  "em_history (fst (epoch_scores fl cfg ap roots t1 order em)) = em_history em"
  by (simp_all add: epoch_scores_def calculateRedundancyScores_def Let_def split: option.splits)

lemma FinalizeEpoch_fields:
  assumes "FinalizeEpoch cr fl cfg ap roots t1 t2 t3 order em = (em', snapshot)"
  shows "em_history em' = em_history em @ [snapshot]" "em_currentEpoch em' = em_currentEpoch em + 1"
    "em_accumulatedRevenue em' = 0" "ep_TotalRevenue snapshot = em_accumulatedRevenue em"
    "ep_EpochNumber snapshot = em_currentEpoch em"
    "ep_Contributors snapshot = snd (epoch_scores fl cfg ap roots t1 order em)"
    "ep_MerkleLeaves snapshot = fst (ComputeMerkleRoot cr (reward_leaves (ep_Contributors snapshot)))"
    "ep_MerkleRoot snapshot = snd (ComputeMerkleRoot cr (reward_leaves (ep_Contributors snapshot)))"
    "em_contributors em' p = Some c \<Longrightarrow> sc_ByteHours c = 0"
  using assms by (auto simp: FinalizeEpoch_def Let_def split: prod.splits)

lemma frame_updates:
  "em_history (UpdateContributor fl t1 t2 t3 p a b k em) = em_history em"
  "em_accumulatedRevenue (UpdateContributor fl t1 t2 t3 p a b k em) = em_accumulatedRevenue em"
  "em_currentEpoch (UpdateContributor fl t1 t2 t3 p a b k em) = em_currentEpoch em"
  "em_history (RecordChallengeResult p passed em) = em_history em"
  "em_accumulatedRevenue (RecordChallengeResult p passed em) = em_accumulatedRevenue em"
  "em_currentEpoch (RecordChallengeResult p passed em) = em_currentEpoch em"
  by (simp_all add: UpdateContributor_def RecordChallengeResult_def Let_def split: option.splits)

text \<open>
  C15: no revenue is lost between epochs: after any run, the revenue of the snapshots and the revenue
  not yet distributed add up to what was added; and the snapshots are numbered in order from zero.
\<close>

theorem revenue_conserved:
  assumes "epoch_run cr fl cfg n em"
  shows "(\<Sum>s\<leftarrow>em_history em. ep_TotalRevenue s) + em_accumulatedRevenue em = n \<and>
    em_currentEpoch em = of_nat (length (em_history em)) \<and>
    (\<forall>i<length (em_history em). ep_EpochNumber (em_history em ! i) = of_nat i)"
  using assms
proof (induction rule: epoch_run.induct)
  case (finalize n em ap roots t1 t2 t3 order)
  obtain em' s where f: "FinalizeEpoch cr fl cfg ap roots t1 t2 t3 order em = (em', s)"
    by fastforce
  show ?case
    unfolding f using finalize.IH FinalizeEpoch_fields(1-5) [OF f] by (auto simp: less_Suc_eq nth_append)
qed (auto simp: NewEpochManager_def AddRevenue_def frame_updates)

lemma sort_leaves_idem: "sort_leaves cr (sort_leaves cr leaves) = sort_leaves cr leaves"
  by (simp add: sort_leaves_def sort_key_id_if_sorted)

lemma sorted_root:
  "snd (ComputeMerkleRoot cr (fst (ComputeMerkleRoot cr leaves))) = snd (ComputeMerkleRoot cr leaves)"
proof (cases "leaves = []")
  case False
  then have "sort_leaves cr leaves \<noteq> []"
    by (metis length_0_conv length_sort sort_leaves_def)
  then show ?thesis
    using False by (simp add: ComputeMerkleRoot_def Let_def sort_leaves_idem)
qed (simp add: ComputeMerkleRoot_def)

text \<open>
  C9: from contributions to claims: every contributor to whom a finalized epoch gives a reward finds a
  proof in the leaves of its snapshot that the contract accepts for that amount against the root of
  the snapshot, provided no two rewarded contributors registered the same address and the reward
  fits 256 bits.
\<close>

theorem epoch_rewards_claimable:
  assumes "\<And>x. length (Keccak256 cr x) = 32"
    and "FinalizeEpoch cr fl cfg ap roots t1 t2 t3 order em = (em', snapshot)"
    and "distinct (map ml_Address (reward_leaves (ep_Contributors snapshot)))"
    and "s \<in> set (ep_Contributors snapshot)" and "0 < cs_RewardWei s" and "cs_RewardWei s < 2 ^ 256"
  shows "\<exists>pf. snd (ComputeMerkleProof cr (ep_MerkleLeaves snapshot) (cs_Address s)) = Inr pf \<and>
    verify (Keccak256 cr) pf (ep_MerkleRoot snapshot) (Keccak256 cr (packed_leaf (cs_Address s) (nat (cs_RewardWei s))))"
proof -
  let ?leaves = "reward_leaves (ep_Contributors snapshot)"
  let ?l = "\<lparr>ml_Address = cs_Address s, ml_Amount = cs_RewardWei s\<rparr>"
  have sorted: "ep_MerkleLeaves snapshot = (if ?leaves = [] then [] else sort_leaves cr ?leaves)"
    using FinalizeEpoch_fields(7) [OF assms(2)] by (simp add: ComputeMerkleRoot_def Let_def)
  have l: "?l \<in> set ?leaves"
    using assms(4,5) by (auto simp: reward_leaves_def)
  then have "?l \<in> set (ep_MerkleLeaves snapshot)"
    by (auto simp: sorted sort_leaves_def)
  moreover have "mset (map ml_Address (ep_MerkleLeaves snapshot)) = mset (map ml_Address ?leaves)"
    using l by (auto simp: sorted sort_leaves_def)
  then have "distinct (map ml_Address (ep_MerkleLeaves snapshot))"
    using assms(3) by (metis mset_eq_imp_distinct_iff)
  moreover have "snd (ComputeMerkleRoot cr (ep_MerkleLeaves snapshot)) = ep_MerkleRoot snapshot"
    using FinalizeEpoch_fields(7,8) [OF assms(2)] sorted_root by metis
  ultimately show ?thesis
    using merkle_proof_ok [OF assms(1), of "ep_MerkleLeaves snapshot" ?l] assms(5,6) by auto
qed

section \<open>A concrete epoch\<close>

text \<open>Integer arithmetic in the place of floating point, one contributor and no cap.\<close>

definition demo_float :: "int float64" where
  "demo_float = \<lparr>f_add = (+), f_sub = (-), f_mul = (*), f_div = (div), f_less = (<), f_of_int = (\<lambda>x. x), f_of_big = (\<lambda>x. x),
     f_to_int64 = (\<lambda>x. x), f_to_big = (\<lambda>x. x), f_log = (\<lambda>x. 0), f_pow = (\<lambda>x y. x), f_hours = (\<lambda>d. d div 3600000000000)\<rparr>"

definition demo_config :: "int Config" where
  "demo_config = \<lparr>cf_OptimalBytesMin = 1, cf_OptimalBytesMax = 1000, cf_SmallPenaltyRate = 0, cf_WhalePenaltyRate = 0,
     cf_MaxNetworkShare = (0, 0), cf_RedundancyMinimum = 3, cf_FailedChallengeSlash = 0, cf_ChallengeWeight = 0, cf_RedundancyWeight = 0\<rparr>"

definition demo_em :: "int EpochManager" where
  "demo_em = UpdateContributor demo_float 0 0 0 ''a'' (replicate 20 7) 100 1 (AddRevenue (Some 1000) (NewEpochManager 0))"

definition demo_score :: "int ContributorScore" where
  "demo_score = \<lparr>cs_PeerID = ''a'', cs_Address = replicate 20 7, cs_ByteHours = 100, cs_ChallengeRate = 0, cs_RedundancyBonus = 0,
     cs_RawScore = 100, cs_CurvedScore = 100, cs_RewardWei = 1000\<rparr>"

lemma demo_epoch_scores:
  "snd (epoch_scores demo_float demo_config None (\<lambda>_. []) 3600000000000 [''a''] demo_em) = [demo_score]"
  by (simp add: epoch_scores_def demo_float_def demo_config_def demo_em_def UpdateContributor_def AddRevenue_def NewEpochManager_def
      NewContributor_def calculateRedundancyScores_def accrue_byte_hours_def time_sub_def big_div_def List.map_filter_simps
      ComputeRewards_def score_of_def ChallengePassRate_def Efficiency_def NewMiddleOutCurve_def ApplyConcentrationCaps_def
      cap_rewards_def demo_score_def Let_def)

theorem caps_conserve_witness:
  "(\<Sum>s\<leftarrow>ApplyConcentrationCaps default_share [demo_score]. cs_RewardWei s) \<le> 1000"
  using caps_conserve [of "[demo_score]" default_share] by (simp add: demo_score_def)

theorem revenue_conserved_witness:
  "\<exists>em. epoch_run demo_crypto demo_float demo_config 1000 em \<and> (\<Sum>s\<leftarrow>em_history em. ep_TotalRevenue s) + em_accumulatedRevenue em = 1000"
proof -
  have "epoch_run demo_crypto demo_float demo_config (0 + max 0 1000) (AddRevenue (Some 1000) (NewEpochManager 0))"
    by (intro epoch_run.intros)
  then have run: "epoch_run demo_crypto demo_float demo_config 1000 (AddRevenue (Some 1000) (NewEpochManager 0))"
    by simp
  then show ?thesis
    using revenue_conserved [OF run] by blast
qed

theorem epoch_rewards_claimable_witness:
  "\<exists>pf. snd (ComputeMerkleProof demo_hash32 (ep_MerkleLeaves (snd (FinalizeEpoch demo_hash32 demo_float demo_config None (\<lambda>_. [])
      3600000000000 1 2 [''a''] demo_em))) (replicate 20 7)) = Inr pf"
proof -
  obtain em' snapshot where f: "FinalizeEpoch demo_hash32 demo_float demo_config None (\<lambda>_. []) 3600000000000 1 2 [''a''] demo_em = (em', snapshot)"
    by fastforce
  then have "ep_Contributors snapshot = [demo_score]"
    using FinalizeEpoch_fields(6) demo_epoch_scores by metis
  then show ?thesis
    using epoch_rewards_claimable [OF demo_hash32_length f, of demo_score] f
    by (auto simp: reward_leaves_def demo_score_def)
qed

end
