(* ===== verification/Storage_Challenge.thy ===== *)
theory Storage_Challenge
  imports Content_Protocol Reward_Epoch
begin

text \<open>
  Storage challenges (\<open>rewards/challenge.go\<close>): a node asks a provider for the hash of a chunk it
  also holds and a fresh nonce, and reports the outcome to the epoch manager. The network is the
  parameter of \<open>Content_Protocol\<close>; the nonce is what \<open>rand.Read\<close> gave, \<open>None\<close> for its error.

  \<open>IssueChallenge\<close> returns the manager, the record handed to \<open>OnChallengeComplete\<close>, if any, and
  the error. The callback of \<open>markFailed\<close> runs in a goroutine of its own; it is listed with the
  call that starts it.
\<close>

definition MsgChallenge :: byte where "MsgChallenge = 0x10"
definition MsgChallengeResponse :: byte where "MsgChallengeResponse = 0x11"

record ChallengeRecord =
  cr_ID :: hash32
  cr_ChunkID :: ContentID
  cr_Challenger :: peer_ID
  cr_Challenged :: peer_ID
  cr_Nonce :: hash32
  cr_ExpectedHash :: hash32
  cr_IssuedAt :: int
  cr_Deadline :: int
  cr_Response :: slice
  cr_Passed :: bool
  cr_Verified :: bool

record ChallengeManager =
  chm_pendingOut :: "hash32 \<Rightarrow> ChallengeRecord option"
  chm_completed :: "ChallengeRecord list"

definition NewChallengeManager :: ChallengeManager where
  "NewChallengeManager = \<lparr>chm_pendingOut = Map.empty, chm_completed = []\<rparr>"

definition challenge_complete :: "ChallengeRecord \<Rightarrow> ChallengeManager \<Rightarrow> ChallengeManager" where
  "challenge_complete r cm = cm\<lparr>chm_pendingOut := (chm_pendingOut cm)(cr_ID r := None), chm_completed := chm_completed cm @ [r]\<rparr>"

definition markFailed :: "ChallengeRecord \<Rightarrow> ChallengeManager \<Rightarrow> ChallengeManager \<times> ChallengeRecord" where
  "markFailed r cm = (let r' = r\<lparr>cr_Passed := False, cr_Verified := True\<rparr> in (challenge_complete r' cm, r'))"

definition challenge_record ::
  "('sk, 'pk) crypto \<Rightarrow> int64 \<Rightarrow> int \<Rightarrow> int \<Rightarrow> peer_ID \<Rightarrow> peer_ID \<Rightarrow> ContentID \<Rightarrow> bytes \<Rightarrow> hash32 \<Rightarrow> ChallengeRecord" where
  "challenge_record cr timeout t1 t2 self target chunkID data nonce =
     \<lparr>cr_ID = copy_into 32 (Keccak256 cr (chunkID @ nonce)), cr_ChunkID = chunkID, cr_Challenger = self,
      cr_Challenged = target, cr_Nonce = nonce, cr_ExpectedHash = Keccak256 cr (data @ nonce), cr_IssuedAt = t1,
      cr_Deadline = t2 + timeout, cr_Response = None, cr_Passed = False, cr_Verified = False\<rparr>"

definition challenge_message :: "ChallengeRecord \<Rightarrow> bytes" where
  "challenge_message r = MsgChallenge # cr_ID r @ copy_into 32 (cr_ChunkID r) @ copy_into 32 (cr_Nonce r)"

text \<open>From the answer on: the three failures, or the comparison of the hashes.\<close>

definition judge_response ::
  "ChallengeRecord \<Rightarrow> bytes \<Rightarrow> ChallengeManager \<Rightarrow> (ChallengeManager \<times> ChallengeRecord) \<times> go_error option" where
  "judge_response r reply cm =
     (case read_full 65 reply of
        None \<Rightarrow> (markFailed r cm, Some (Wrapped ''failed to read response'' io_error))
      | Some (resp, _) \<Rightarrow>
          if hd resp \<noteq> MsgChallengeResponse
          then (markFailed r cm, Some (Errorf (''unexpected response type: 0x'' @ hex_encode [hd resp])))
          else if take 32 (drop 1 resp) \<noteq> cr_ID r then (markFailed r cm, Some (Errorf ''challenge ID mismatch''))
          else
            let responseHash = drop 33 resp;
                r' = r\<lparr>cr_Response := Some responseHash, cr_Passed := (responseHash = cr_ExpectedHash r), cr_Verified := True\<rparr>
            in ((challenge_complete r' cm, r'), None))"

definition IssueChallenge ::
  "('sk, 'pk) crypto \<Rightarrow> (peer_ID \<times> network) option \<Rightarrow> Store \<Rightarrow> int64 \<Rightarrow> hash32 option \<Rightarrow> int \<Rightarrow> int \<Rightarrow> peer_ID \<Rightarrow> ContentID
    \<Rightarrow> ChallengeManager \<Rightarrow> (ChallengeManager \<times> ChallengeRecord option) \<times> go_error option" where
  "IssueChallenge cr host s timeout random t1 t2 target chunkID cm =
     (case host of
        None \<Rightarrow> ((cm, None), Some (Errorf ''no libp2p host''))
      | Some (self, net) \<Rightarrow>
          (case Store_Get chunkID s of
             None \<Rightarrow> ((cm, None), Some (Errorf (''cannot challenge for chunk we don't have: '' @ ContentID_Hex chunkID)))
           | Some data \<Rightarrow>
               (case random of
                  None \<Rightarrow> ((cm, None), Some (Wrapped ''failed to generate nonce'' io_error))
                | Some nonce \<Rightarrow>
                    let r = challenge_record cr timeout t1 t2 self target chunkID data nonce in
                    (case net target of
                       Inl e \<Rightarrow> ((cm, None), Some (Wrapped ''failed to open challenge stream'' e))
                     | Inr stream \<Rightarrow>
                         (case stream (challenge_message r) of
                            Inl e \<Rightarrow> ((cm, None), Some (Wrapped ''failed to send challenge'' e))
                          | Inr reply \<Rightarrow>
                              (case judge_response r reply (cm\<lparr>chm_pendingOut := (chm_pendingOut cm)(cr_ID r \<mapsto> r)\<rparr>) of
                                 ((cm', r'), e) \<Rightarrow> ((cm', Some r'), e)))))))"

definition challenge_handleStream :: "('sk, 'pk) crypto \<Rightarrow> Store \<Rightarrow> bytes \<Rightarrow> bytes" where
  "challenge_handleStream cr s input =
     (case read_full 1 input of
        None \<Rightarrow> []
      | Some (msgType, input1) \<Rightarrow>
          if hd msgType \<noteq> MsgChallenge then []
          else (case read_full 96 input1 of
            None \<Rightarrow> []
          | Some (header, _) \<Rightarrow>
              let challengeID = take 32 header; chunkID = take 32 (drop 32 header); nonce = drop 64 header;
                  responseHash = (case Store_Get chunkID s of
                    None \<Rightarrow> zero32
                  | Some data \<Rightarrow> copy_into 32 (Keccak256 cr (data @ nonce)))
              in MsgChallengeResponse # challengeID @ responseHash))"

definition GetCompletedChallenges :: "ChallengeManager \<Rightarrow> ChallengeManager \<times> ChallengeRecord list" where
  "GetCompletedChallenges cm = (cm\<lparr>chm_completed := []\<rparr>, chm_completed cm)"

definition PendingCount :: "hash32 list \<Rightarrow> ChallengeManager \<Rightarrow> nat" where
  "PendingCount order cm = length (filter (\<lambda>i. chm_pendingOut cm i \<noteq> None) order)"

text \<open>The callback the tracker installs.\<close>

definition OnChallengeComplete :: "ChallengeRecord \<Rightarrow> 'f EpochManager \<Rightarrow> 'f EpochManager" where
  "OnChallengeComplete r em = RecordChallengeResult (cr_Challenged r) (cr_Passed r) em"

section \<open>Challenges decide\<close>

lemma challenge_answer:
  assumes "length (cr_ID r) = 32" and "length (cr_ChunkID r) = 32" and "length (cr_Nonce r) = 32"
  shows "challenge_handleStream cr s (challenge_message r) =
    MsgChallengeResponse # cr_ID r @ (case Store_Get (cr_ChunkID r) s of None \<Rightarrow> zero32 | Some data \<Rightarrow> copy_into 32 (Keccak256 cr (data @ cr_Nonce r)))"
  using assms by (simp add: challenge_handleStream_def challenge_message_def read_full_def Let_def split: option.split)

lemma judge_answer:
  assumes "length (cr_ID r) = 32" and "length response = 32"
  shows "judge_response r (MsgChallengeResponse # cr_ID r @ response) cm =
    (let r' = r\<lparr>cr_Response := Some response, cr_Passed := (response = cr_ExpectedHash r), cr_Verified := True\<rparr>
     in ((challenge_complete r' cm, r'), None))"
  using assms by (simp add: judge_response_def read_full_def Let_def)

text \<open>
  C17: a challenge tells whether the challenged peer holds the chunk: a peer that runs the program's
  handler passes when its store has the chunk, and fails when it does not (unless the expected hash
  is all zeros); either way the challenge is completed once, nothing stays pending for it, and the
  outcome is the one reported to the epoch manager.
\<close>

theorem challenge_decides:
  assumes "\<And>x. length (Keccak256 cr x) = 32" and "length chunkID = 32" and "length nonce = 32"
    and "Store_Get chunkID s = Some data" and "net target = Inr (\<lambda>request. Inr (challenge_handleStream cr peer request))"
    and "Store_Get chunkID peer = None \<or> Store_Get chunkID peer = Some data" and "Keccak256 cr (data @ nonce) \<noteq> zero32"
  shows "\<exists>cm' r. IssueChallenge cr (Some (self, net)) s timeout (Some nonce) t1 t2 target chunkID cm = ((cm', Some r), None) \<and>
    chm_completed cm' = chm_completed cm @ [r] \<and> chm_pendingOut cm' (cr_ID r) = None \<and>
    cr_Verified r \<and> cr_Passed r = (Store_Get chunkID peer \<noteq> None) \<and>
    OnChallengeComplete r em = RecordChallengeResult target (Store_Get chunkID peer \<noteq> None) em"
proof -
  let ?r = "challenge_record cr timeout t1 t2 self target chunkID data nonce"
  let ?response = "case Store_Get chunkID peer of None \<Rightarrow> zero32 | Some d \<Rightarrow> copy_into 32 (Keccak256 cr (d @ nonce))"
  have r: "length (cr_ID ?r) = 32" "cr_ChunkID ?r = chunkID" "cr_Nonce ?r = nonce" "cr_Challenged ?r = target"
    "cr_ExpectedHash ?r = Keccak256 cr (data @ nonce)"
    by (simp_all add: challenge_record_def)
  have ans: "challenge_handleStream cr peer (challenge_message ?r) = MsgChallengeResponse # cr_ID ?r @ ?response"
    using challenge_answer [of ?r cr peer] r assms(2,3) by (simp split: option.split)
  have len: "length ?response = 32"
    by (simp add: assms(1) split: option.splits)
  have pass: "?response = Keccak256 cr (data @ nonce) \<longleftrightarrow> Store_Get chunkID peer \<noteq> None"
    using assms(1,6,7) by auto
  show ?thesis
    using judge_answer [OF r(1) len] pass r
    by (simp add: IssueChallenge_def assms(4,5) ans Let_def challenge_complete_def OnChallengeComplete_def split: prod.splits)
qed

text \<open>
  C18: nothing stays pending: whatever the peer answers, after \<open>IssueChallenge\<close> only challenges that
  were pending before are, and a challenge that is reported as passed carries the hash that was
  expected.
\<close>

theorem challenge_sound:
  assumes "IssueChallenge cr host s timeout random t1 t2 target chunkID cm = ((cm', reported), e)"
  shows "(\<forall>i. chm_pendingOut cm' i \<noteq> None \<longrightarrow> chm_pendingOut cm i \<noteq> None) \<and>
    (\<forall>r. reported = Some r \<longrightarrow> cr_Verified r \<and> chm_completed cm' = chm_completed cm @ [r] \<and> cr_Challenged r = target \<and>
      (cr_Passed r \<longrightarrow> (\<exists>data. Store_Get chunkID s = Some data \<and> cr_Response r = Some (Keccak256 cr (data @ cr_Nonce r))))) \<and>
    (reported = None \<longrightarrow> cm' = cm \<and> e \<noteq> None)"
  using assms
  by (auto simp: IssueChallenge_def judge_response_def markFailed_def challenge_complete_def challenge_record_def Let_def
      split: option.splits prod.splits sum.splits if_splits)

section \<open>A concrete challenge\<close>

text \<open>A hash of 32 bytes that is never zero.\<close>

definition demo_nonzero :: "(bytes, bytes) crypto" where
  "demo_nonzero = demo_crypto\<lparr>Keccak256 := (\<lambda>x. copy_into 32 (1 # x))\<rparr>"

definition demo_challenge_net :: network where
  "demo_challenge_net p = (if p = ''a'' then Inr (\<lambda>request. Inr (challenge_handleStream demo_nonzero demo_store request)) else Inl io_error)"

theorem challenge_decides_witness:
  "\<exists>cm' r. IssueChallenge demo_nonzero (Some (''me'', demo_challenge_net)) demo_store 30 (Some zero32) 1 2 ''a'' zero32 NewChallengeManager =
     ((cm', Some r), None) \<and> cr_Passed r"
proof -
  have "Store_Get zero32 demo_store = Some [7]"
    by (simp add: demo_store_def Store_Get_def)
  moreover have "Keccak256 demo_nonzero ([7] @ zero32) \<noteq> zero32"
    by (auto simp: demo_nonzero_def copy_into_def zero32_def dest: arg_cong [where f = hd])
  ultimately show ?thesis
    using challenge_decides [of demo_nonzero zero32 zero32 demo_store "[7]" demo_challenge_net "''a''" demo_store]
    by (fastforce simp: demo_nonzero_def demo_challenge_net_def)
qed

theorem challenge_sound_witness:
  "snd (IssueChallenge demo_nonzero None demo_store 30 (Some zero32) 1 2 ''a'' zero32 NewChallengeManager) \<noteq> None"
proof -
  have "IssueChallenge demo_nonzero None demo_store 30 (Some zero32) 1 2 ''a'' zero32 NewChallengeManager =
      ((NewChallengeManager, None), Some (Errorf ''no libp2p host''))"
    by (simp add: IssueChallenge_def)
  from challenge_sound [OF this] this show ?thesis
    by simp
qed

end
