(* ===== verification/Website.thy ===== *)
theory Website
  imports Content_Store "HOL-Library.AList" "HOL-Library.Char_ord" "HOL-Library.List_Lexorder"
begin

text \<open>
  Publishing a website (\<open>content/website.go\<close>): the files of a compressed archive are added to the
  content store, a manifest that names them by path is added too, and files are served by path from
  the manifest's identifier.

  The readers of gzip and tar, the reader of JSON and the table of MIME types of the system are
  parameters: \<open>unpack\<close> gives the entries of an archive, \<open>unmarshal\<close> reads a manifest. The paths are those
  of Unix. A file system path is a string.
\<close>

section \<open>Paths\<close>

definition trim_prefix :: "string \<Rightarrow> string \<Rightarrow> string" where
  "trim_prefix prefix s = (if take (length prefix) s = prefix then drop (length prefix) s else s)"

fun split_slash :: "string \<Rightarrow> string list" where
  "split_slash [] = [[]]"
| "split_slash (c # cs) =
     (if c = CHR ''/'' then [] # split_slash cs
      else case split_slash cs of [] \<Rightarrow> [[c]] | w # ws \<Rightarrow> (c # w) # ws)"

fun join_slash :: "string list \<Rightarrow> string" where
  "join_slash [] = []"
| "join_slash [w] = w"
| "join_slash (w # ws) = w @ CHR ''/'' # join_slash ws"

text \<open>The elements \<open>filepath.Clean\<close> keeps, the last one first.\<close>

fun clean_elements :: "bool \<Rightarrow> string list \<Rightarrow> string list \<Rightarrow> string list" where
  "clean_elements rooted [] kept = kept"
| "clean_elements rooted (w # ws) kept =
     (if w = [] \<or> w = ''.'' then clean_elements rooted ws kept
      else if w = ''..'' then
        (case kept of
           [] \<Rightarrow> clean_elements rooted ws (if rooted then [] else [''..''])
         | prev # rest \<Rightarrow> clean_elements rooted ws (if prev = ''..'' then ''..'' # kept else rest))
      else clean_elements rooted ws (w # kept))"

definition Clean :: "string \<Rightarrow> string" where
  "Clean path =
     (let rooted = (path \<noteq> [] \<and> hd path = CHR ''/''); kept = rev (clean_elements rooted (split_slash path) [])
      in if rooted then CHR ''/'' # join_slash kept else if kept = [] then ''.'' else join_slash kept)"

definition normalizePath :: "string \<Rightarrow> string" where
  "normalizePath path =
     map (\<lambda>c. if c = CHR 0x5C then CHR ''/'' else c) (Clean (trim_prefix ''/'' (trim_prefix ''./'' path)))"

text \<open>\<open>filepath.Ext\<close>: from the last dot of the last element.\<close>

fun ext_rev :: "string \<Rightarrow> string \<Rightarrow> string" where
  "ext_rev acc [] = []"
| "ext_rev acc (c # cs) = (if c = CHR ''/'' then [] else if c = CHR ''.'' then c # acc else ext_rev (c # acc) cs)"

definition Ext :: "string \<Rightarrow> string" where
  "Ext path = ext_rev [] (rev path)"

text \<open>
  \<open>strings.ToLower\<close> as far as its result is ASCII: besides the capital letters, the Kelvin sign
  (bytes e2 84 aa) and the dotted capital I (c4 b0) become ASCII letters.
\<close>

fun to_lower :: "string \<Rightarrow> string" where
  "to_lower [] = []"
| "to_lower (c # cs) =
     (if c = CHR 0xE2 \<and> take 2 cs = [CHR 0x84, CHR 0xAA] then CHR ''k'' # to_lower (drop 2 cs)
      else if c = CHR 0xC4 \<and> take 1 cs = [CHR 0xB0] then CHR ''i'' # to_lower (drop 1 cs)
      else (if (of_char c :: nat) \<in> {65..90} then char_of (of_char c + 32 :: nat) else c) # to_lower cs)"

definition content_types :: "(string \<times> string) list" where
  "content_types = [
     (''.html'', ''text/html; charset=utf-8''), (''.htm'', ''text/html; charset=utf-8''),
     (''.css'', ''text/css; charset=utf-8''),
     (''.js'', ''application/javascript; charset=utf-8''), (''.mjs'', ''application/javascript; charset=utf-8''),
     (''.json'', ''application/json; charset=utf-8''),
     (''.png'', ''image/png''), (''.jpg'', ''image/jpeg''), (''.jpeg'', ''image/jpeg''), (''.gif'', ''image/gif''),
     (''.svg'', ''image/svg+xml''), (''.ico'', ''image/x-icon''), (''.webp'', ''image/webp''),
     (''.woff'', ''font/woff''), (''.woff2'', ''font/woff2''), (''.ttf'', ''font/ttf''),
     (''.eot'', ''application/vnd.ms-fontobject''), (''.otf'', ''font/otf''),
     (''.mp4'', ''video/mp4''), (''.webm'', ''video/webm''), (''.mp3'', ''audio/mpeg''), (''.wav'', ''audio/wav''),
     (''.pdf'', ''application/pdf''), (''.xml'', ''application/xml''), (''.txt'', ''text/plain; charset=utf-8''),
     (''.md'', ''text/markdown; charset=utf-8''), (''.wasm'', ''application/wasm'')]"

definition detectContentType :: "(string \<Rightarrow> string) \<Rightarrow> string \<Rightarrow> string" where
  "detectContentType mime path =
     (case map_of content_types (to_lower (Ext path)) of
        Some t \<Rightarrow> t
      | None \<Rightarrow> if mime (Ext path) \<noteq> [] then mime (Ext path) else ''application/octet-stream'')"

section \<open>The manifest\<close>

record SiteFile =
  sf_ContentID :: string
  sf_Size :: uint64
  sf_ContentType :: string

text \<open>The map of the files is a list of pairs with distinct keys; JSON writes the keys in order.\<close>

record SiteManifest =
  sm_Version :: int64
  sm_RootPath :: string
  sm_Files :: "(string \<times> SiteFile) list"
  sm_TotalSize :: uint64

definition SiteFile_json :: "SiteFile \<Rightarrow> json" where
  "SiteFile_json f = JObj [(''content_id'', JStr (sf_ContentID f)), (''size'', JInt (uint (sf_Size f))), (''content_type'', JStr (sf_ContentType f))]"

definition SiteManifest_json :: "SiteManifest \<Rightarrow> json" where
  "SiteManifest_json m = JObj [(''version'', JInt (sm_Version m)), (''root_path'', JStr (sm_RootPath m)),
     (''files'', JObj (map (\<lambda>(p, f). (p, SiteFile_json f)) (sort_key fst (sm_Files m)))), (''total_size'', JInt (uint (sm_TotalSize m)))]"

section \<open>Publishing\<close>

text \<open>
  An entry of an archive: its name and type, and the bytes that can be read from it before it ends,
  or before reading it fails. An archive is its entries and the error that ends them, if any.
\<close>

record tar_entry =
  te_Name :: string
  te_Typeflag :: byte
  te_Data :: bytes
  te_Error :: "go_error option"

type_synonym archive = "go_error + tar_entry list \<times> go_error option"

definition TypeReg :: byte where
  "TypeReg = 48"

definition file_limit :: nat where
  "file_limit = 50 * 1024 * 1024"

definition read_limited :: "tar_entry \<Rightarrow> go_error + bytes" where
  \<comment> \<open>\<open>io.ReadAll(io.LimitReader(r, file_limit))\<close>\<close>
  "read_limited te =
     (if length (te_Data te) < file_limit then (case te_Error te of None \<Rightarrow> Inr (te_Data te) | Some e \<Rightarrow> Inl e)
      else Inr (take file_limit (te_Data te)))"

fun publish_entries :: "('sk, 'pk) crypto \<Rightarrow> (string \<Rightarrow> string) \<Rightarrow> DAGBuilder \<Rightarrow> tar_entry list \<Rightarrow> SiteManifest \<Rightarrow> Store \<Rightarrow>
    Store \<times> (go_error + SiteManifest)" where
  "publish_entries cr mime dag [] m s = (s, Inr m)"
| "publish_entries cr mime dag (te # tes) m s =
     (if te_Typeflag te \<noteq> TypeReg then publish_entries cr mime dag tes m s
      else case read_limited te of
        Inl e \<Rightarrow> (s, Inl (Wrapped (''read file '' @ te_Name te) e))
      | Inr fileData \<Rightarrow>
      (case DAGBuilder_Add cr dag fileData s of
        (s', Inl e) \<Rightarrow> (s', Inl (Wrapped (''store file '' @ te_Name te) e))
      | (s', Inr contentID) \<Rightarrow>
          let path = normalizePath (te_Name te)
          in publish_entries cr mime dag tes
               (m\<lparr>sm_Files := AList.update path \<lparr>sf_ContentID = ContentID_Hex contentID, sf_Size = of_nat (length fileData),
                    sf_ContentType = detectContentType mime path\<rparr> (sm_Files m),
                  sm_TotalSize := sm_TotalSize m + of_nat (length fileData)\<rparr>) s'))"

definition new_manifest :: SiteManifest where
  "new_manifest = \<lparr>sm_Version = 1, sm_RootPath = ''/'', sm_Files = [], sm_TotalSize = 0\<rparr>"

definition PublishTarGz :: "('sk, 'pk) crypto \<Rightarrow> (string \<Rightarrow> string) \<Rightarrow> (bytes \<Rightarrow> archive) \<Rightarrow> DAGBuilder \<Rightarrow> bytes \<Rightarrow> Store \<Rightarrow>
    Store \<times> (go_error + ContentID \<times> SiteManifest)" where
  "PublishTarGz cr mime unpack dag data s =
     (case unpack data of
        Inl e \<Rightarrow> (s, Inl (Wrapped ''invalid gzip'' e))
      | Inr (entries, ending) \<Rightarrow>
      (case publish_entries cr mime dag entries new_manifest s of
        (s1, Inl e) \<Rightarrow> (s1, Inl e)
      | (s1, Inr m) \<Rightarrow>
      (case ending of
        Some e \<Rightarrow> (s1, Inl (Wrapped ''tar read error'' e))
      | None \<Rightarrow>
          if sm_Files m = [] then (s1, Inl (Errorf ''archive contains no files''))
          else case json_bytes (SiteManifest_json m) of
            None \<Rightarrow> (s1, Inl (Wrapped ''marshal manifest'' marshal_error))
          | Some manifestJSON \<Rightarrow>
          (case DAGBuilder_Add cr dag manifestJSON s1 of
            (s2, Inl e) \<Rightarrow> (s2, Inl (Wrapped ''store manifest'' e))
          | (s2, Inr manifestID) \<Rightarrow> (s2, Inr (manifestID, m))))))"

section \<open>Serving\<close>

text \<open>The value \<open>None\<close> means that reading the content never returns.\<close>

definition GetManifest :: "(bytes \<Rightarrow> SiteManifest option) \<Rightarrow> Store \<Rightarrow> ContentID \<Rightarrow> (go_error + SiteManifest) option" where
  "GetManifest unmarshal s manifestID =
     map_option (\<lambda>r. case r of
         Inl e \<Rightarrow> Inl e
       | Inr data \<Rightarrow> (case unmarshal data of None \<Rightarrow> Inl (Errorf ''json: cannot unmarshal'') | Some m \<Rightarrow> Inr m)) (DAGBuilder_Get s manifestID)"

definition request_path :: "string \<Rightarrow> string" where
  "request_path path = (let p = normalizePath path in if p = [] \<or> p = ''/'' then ''index.html'' else p)"

definition find_file :: "string \<Rightarrow> SiteManifest \<Rightarrow> SiteFile option" where
  "find_file path m =
     (case map_of (sm_Files m) path of
        Some f \<Rightarrow> Some f
      | None \<Rightarrow>
      (case (if path = [] \<or> last path \<noteq> CHR ''/'' then map_of (sm_Files m) (path @ ''/index.html'') else None) of
        Some f \<Rightarrow> Some f
      | None \<Rightarrow> map_of (sm_Files m) (path @ ''index.html'')))"

definition GetFile :: "(bytes \<Rightarrow> SiteManifest option) \<Rightarrow> Store \<Rightarrow> ContentID \<Rightarrow> string \<Rightarrow> (go_error + bytes \<times> string) option" where
  "GetFile unmarshal s manifestID path =
     (case DAGBuilder_Get s manifestID of
        None \<Rightarrow> None
      | Some (Inl e) \<Rightarrow> Some (Inl (wrap_error ''get manifest'' e))
      | Some (Inr manifestData) \<Rightarrow>
      (case unmarshal manifestData of
        None \<Rightarrow> Some (Inl (Wrapped ''parse manifest'' (Errorf ''json: cannot unmarshal'')))
      | Some m \<Rightarrow>
      (case find_file (request_path path) m of
        None \<Rightarrow> Some (Inl (Errorf (''file not found: '' @ request_path path)))
      | Some file \<Rightarrow>
      (case ParseContentID (sf_ContentID file) of
        Inl e \<Rightarrow> Some (Inl (Wrapped ''invalid content ID'' e))
      | Inr contentID \<Rightarrow>
          map_option (\<lambda>r. case r of
              Inl e \<Rightarrow> Inl (wrap_error ''get content'' e)
            | Inr data \<Rightarrow> Inr (data, sf_ContentType file)) (DAGBuilder_Get s contentID)))))"

section \<open>Normalised paths\<close>

definition element_ok :: "string \<Rightarrow> bool" where
  "element_ok w \<longleftrightarrow> w \<noteq> [] \<and> w \<noteq> ''.'' \<and> CHR ''/'' \<notin> set w"

text \<open>The elements of a clean path: parents only in front, and none below the root.\<close>

definition clean_path :: "bool \<Rightarrow> string list \<Rightarrow> bool" where
  "clean_path rooted ws \<longleftrightarrow> (\<forall>w\<in>set ws. element_ok w) \<and>
     (\<exists>n us. ws = replicate n ''..'' @ us \<and> ''..'' \<notin> set us \<and> (rooted \<longrightarrow> n = 0))"

lemma clean_pathI: "(\<And>w. w \<in> set (replicate n ''..'' @ us) \<Longrightarrow> element_ok w) \<Longrightarrow> ''..'' \<notin> set us \<Longrightarrow> (rooted \<Longrightarrow> n = 0) \<Longrightarrow>
    clean_path rooted (replicate n ''..'' @ us)"
  unfolding clean_path_def by blast

lemma clean_path_Nil [simp]: "clean_path rooted []"
  using clean_pathI [of 0 "[]" rooted] by simp

lemma clean_path_snoc: "clean_path rooted ws \<Longrightarrow> element_ok w \<Longrightarrow> w \<noteq> ''..'' \<Longrightarrow> clean_path rooted (ws @ [w])"
  unfolding clean_path_def by (elim conjE exE) (rename_tac n us, auto intro!: exI [of _ n for n] exI [of _ "us @ [w]" for us])

lemma clean_path_parents: "clean_path False ws \<Longrightarrow> ws = [] \<or> last ws = ''..'' \<Longrightarrow> clean_path False (ws @ [''..''])"
proof -
  assume "clean_path False ws" and end': "ws = [] \<or> last ws = ''..''"
  then obtain n us where ws: "ws = replicate n ''..'' @ us" "''..'' \<notin> set us" "\<forall>w\<in>set ws. element_ok w"
    by (auto simp: clean_path_def)
  then have "us = []"
    using end' by (cases us rule: rev_cases) auto
  then have eq: "ws @ [''..''] = replicate (Suc n) ''..'' @ []"
    using ws(1) by (simp add: replicate_append_same)
  show ?thesis
    unfolding eq by (rule clean_pathI) (auto simp: element_ok_def)
qed

lemma clean_path_butlast: "clean_path rooted ws \<Longrightarrow> last ws \<noteq> ''..'' \<Longrightarrow> clean_path rooted (butlast ws)"
proof -
  assume "clean_path rooted ws" and last: "last ws \<noteq> ''..''"
  then obtain n us where ws: "ws = replicate n ''..'' @ us" "''..'' \<notin> set us" "rooted \<longrightarrow> n = 0" "\<forall>w\<in>set ws. element_ok w"
    by (auto simp: clean_path_def)
  show ?thesis
  proof (cases "us = []")
    case True
    then show ?thesis
      using ws last by (cases n) (auto simp: last_replicate simp flip: replicate_Suc)
  next
    case False
    then have eq: "butlast ws = replicate n ''..'' @ butlast us"
      using ws(1) by (simp add: butlast_append)
    show ?thesis
      unfolding eq by (rule clean_pathI) (use ws in \<open>auto dest: in_set_butlastD\<close>)
  qed
qed

lemma clean_path_rooted: "clean_path True ws \<Longrightarrow> ''..'' \<notin> set ws"
  by (auto simp: clean_path_def)

lemma clean_elements_ok:
  "clean_path rooted (rev kept) \<Longrightarrow> \<forall>w\<in>set ws. CHR ''/'' \<notin> set w \<Longrightarrow> clean_path rooted (rev (clean_elements rooted ws kept))"
proof (induction rooted ws kept rule: clean_elements.induct)
  case (2 rooted w ws kept)
  show ?case
  proof (cases "w = [] \<or> w = ''.''")
    case True
    then show ?thesis
      using 2 by auto
  next
    case ordinary: False
    show ?thesis
    proof (cases "w = ''..''")
      case True
      show ?thesis
      proof (cases kept)
        case Nil
        then show ?thesis
          using 2 ordinary True clean_path_parents [of "[]"] by (cases rooted) auto
      next
        case (Cons prev rest)
        have "clean_path rooted (rev (if prev = ''..'' then ''..'' # kept else rest))"
        proof (cases "prev = ''..''")
          case True
          then have "rooted = False"
            using 2(5) Cons clean_path_rooted [of "rev kept"] by (cases rooted) auto
          then show ?thesis
            using 2(5) Cons True clean_path_parents [of "rev kept"] by simp
        next
          case False
          then show ?thesis
            using 2(5) Cons clean_path_butlast [of rooted "rev kept"] by simp
        qed
        then show ?thesis
          using 2(3) [OF ordinary True Cons] 2(6) ordinary True Cons by (cases "prev = ''..''") simp_all
      qed
    next
      case False
      then show ?thesis
        using 2 ordinary clean_path_snoc [of rooted "rev kept" w] by (auto simp: element_ok_def)
    qed
  qed
qed simp

lemma split_slash_free: "w \<in> set (split_slash s) \<Longrightarrow> CHR ''/'' \<notin> set w"
  by (induction s arbitrary: w rule: split_slash.induct) (auto split: if_splits list.splits)

lemma split_slash_word: "CHR ''/'' \<notin> set w \<Longrightarrow> split_slash w = [w]"
  by (induction w) auto

lemma split_slash_append: "CHR ''/'' \<notin> set w \<Longrightarrow> split_slash (w @ CHR ''/'' # s) = w # split_slash s"
  by (induction w) auto

lemma split_join: "ws \<noteq> [] \<Longrightarrow> \<forall>w\<in>set ws. CHR ''/'' \<notin> set w \<Longrightarrow> split_slash (join_slash ws) = ws"
  by (induction ws rule: join_slash.induct) (auto simp: split_slash_word split_slash_append)

lemma clean_elements_plain: "\<forall>w\<in>set us. element_ok w \<and> w \<noteq> ''..'' \<Longrightarrow> clean_elements rooted us kept = rev us @ kept"
  by (induction us arbitrary: kept) (auto simp: element_ok_def)

lemma clean_elements_parents:
  "clean_elements False (replicate n ''..'' @ us) (replicate m ''..'') = clean_elements False us (replicate (n + m) ''..'')"
proof (induction n arbitrary: m)
  case (Suc n)
  then show ?case
    using Suc.IH [of "Suc m"] by (cases m) simp_all
qed simp

lemma clean_elements_fixed:
  assumes "clean_path False ws"
  shows "clean_elements False ws [] = rev ws"
proof -
  obtain n us where ws: "ws = replicate n ''..'' @ us" "''..'' \<notin> set us" "\<forall>w\<in>set ws. element_ok w"
    using assms by (auto simp: clean_path_def)
  then have "clean_elements False ws [] = clean_elements False us (replicate n ''..'')"
    using clean_elements_parents [of n us 0] by simp
  then show ?thesis
    using ws clean_elements_plain [of us False] by auto
qed

lemma join_slash_head: "ws \<noteq> [] \<Longrightarrow> element_ok (hd ws) \<Longrightarrow> join_slash ws \<noteq> [] \<and> hd (join_slash ws) = hd (hd ws) \<and> hd (hd ws) \<noteq> CHR ''/''"
  by (induction ws rule: join_slash.induct) (auto simp: element_ok_def neq_Nil_conv)

lemma Clean_cases:
  obtains (dot) "Clean path = ''.''"
  | (rooted) ws where "Clean path = CHR ''/'' # join_slash ws" and "clean_path True ws"
  | (relative) ws where "Clean path = join_slash ws" and "ws \<noteq> []" and "clean_path False ws"
proof -
  define r where "r = (path \<noteq> [] \<and> hd path = CHR ''/'')"
  define ws where "ws = rev (clean_elements r (split_slash path) [])"
  have clean: "clean_path r ws"
    unfolding ws_def by (rule clean_elements_ok) (auto dest: split_slash_free)
  have "Clean path = (if r then CHR ''/'' # join_slash ws else if ws = [] then ''.'' else join_slash ws)"
    by (simp add: Clean_def Let_def r_def ws_def)
  then show ?thesis
    using clean that(1) that(2) [of ws] that(3) [of ws] by (cases r; cases "ws = []") simp_all
qed

lemma Clean_relative:
  assumes "ws \<noteq> []" and "clean_path False ws"
  shows "Clean (join_slash ws) = join_slash ws" and "hd (join_slash ws) \<noteq> CHR ''/''"
proof -
  have ok: "\<forall>w\<in>set ws. element_ok w"
    using assms(2) by (simp add: clean_path_def)
  then show head: "hd (join_slash ws) \<noteq> CHR ''/''"
    using join_slash_head [of ws] assms(1) by auto
  have "split_slash (join_slash ws) = ws"
    using ok assms(1) by (intro split_join) (auto simp: element_ok_def)
  then show "Clean (join_slash ws) = join_slash ws"
    using head assms clean_elements_fixed [of ws] by (simp add: Clean_def Let_def)
qed

lemma trim_none:
  assumes "split_slash path = w # ws" and "element_ok w"
  shows "trim_prefix ''./'' path = path" and "trim_prefix ''/'' path = path"
proof -
  have "take 2 path \<noteq> ''./''"
  proof
    assume "take 2 path = ''./''"
    then have "path = ''.'' @ CHR ''/'' # drop 2 path"
      by (metis append_Cons append_Nil append_take_drop_id)
    then have "split_slash path = ''.'' # split_slash (drop 2 path)"
      using split_slash_append [of "''.''" "drop 2 path"] by simp
    then show False
      using assms by (simp add: element_ok_def)
  qed
  then show "trim_prefix ''./'' path = path"
    by (simp add: trim_prefix_def numeral_2_eq_2)
  show "trim_prefix ''/'' path = path"
    using assms by (cases path) (auto simp: trim_prefix_def element_ok_def)
qed

lemma clean_path_elements: "clean_path rooted ws \<Longrightarrow> w \<in> set ws \<Longrightarrow> element_ok w"
  by (simp add: clean_path_def)

lemma split_clean: "ws \<noteq> [] \<Longrightarrow> clean_path rooted ws \<Longrightarrow> split_slash (join_slash ws) = ws"
  by (rule split_join) (auto dest!: clean_path_elements simp: element_ok_def)

lemma trim_relative:
  assumes "ws \<noteq> []" and "clean_path False ws"
  shows "trim_prefix ''/'' (trim_prefix ''./'' (join_slash ws)) = join_slash ws"
  using trim_none [of "join_slash ws" "hd ws" "tl ws"] split_clean [OF assms] assms clean_path_elements [OF assms(2), of "hd ws"] by simp

lemma set_split_slash: "w \<in> set (split_slash s) \<Longrightarrow> set w \<subseteq> set s"
proof (induction s arbitrary: w rule: split_slash.induct)
  case (2 c cs)
  show ?case
  proof (cases "c = CHR ''/'' \<or> split_slash cs = []")
    case True
    then show ?thesis
      using 2 by (auto split: list.splits if_splits)
  next
    case False
    then obtain v vs where "split_slash cs = v # vs" and "c \<noteq> CHR ''/''"
      by (meson neq_Nil_conv)
    moreover have "set v \<subseteq> set cs" and "w \<in> set vs \<Longrightarrow> set w \<subseteq> set cs"
      using 2 calculation by auto
    ultimately show ?thesis
      using 2(3) by auto
  qed
qed auto

lemma set_clean_elements: "set (clean_elements rooted ws kept) \<subseteq> set ws \<union> set kept \<union> {''..''}"
  by (induction rooted ws kept rule: clean_elements.induct) (auto split: list.splits if_splits)

lemma set_join_slash: "set (join_slash ws) \<subseteq> (\<Union>w\<in>set ws. set w) \<union> {CHR ''/''}"
  by (induction ws rule: join_slash.induct) auto

lemma set_Clean: "set (Clean path) \<subseteq> set path \<union> {CHR ''.'', CHR ''/''}"
proof -
  define r where "r = (path \<noteq> [] \<and> hd path = CHR ''/'')"
  define ws where "ws = rev (clean_elements r (split_slash path) [])"
  have "set ws \<subseteq> set (split_slash path) \<union> {''..''}"
    using set_clean_elements [of r "split_slash path" "[]"] by (auto simp: ws_def)
  then have "(\<Union>w\<in>set ws. set w) \<subseteq> set path \<union> {CHR ''.''}"
    using set_split_slash [where s = path] by fastforce
  then have "set (join_slash ws) \<subseteq> set path \<union> {CHR ''.'', CHR ''/''}"
    using set_join_slash [of ws] by blast
  moreover have "Clean path = (if r then CHR ''/'' # join_slash ws else if ws = [] then ''.'' else join_slash ws)"
    by (simp add: Clean_def Let_def r_def ws_def)
  ultimately show ?thesis
    by auto
qed

lemma normalizePath_no_backslash: "CHR 0x5C \<notin> set (normalizePath path)"
  by (auto simp: normalizePath_def)

lemma normalizePath_Clean:
  assumes "CHR 0x5C \<notin> set path"
  shows "normalizePath path = Clean (trim_prefix ''/'' (trim_prefix ''./'' path))"
proof -
  have trim: "set (trim_prefix p x) \<subseteq> set x" for p x
    by (auto simp: trim_prefix_def dest: in_set_dropD)
  have "set (trim_prefix ''/'' (trim_prefix ''./'' path)) \<subseteq> set path"
    using trim [of "''/''" "trim_prefix ''./'' path"] trim [of "''./''" path] by blast
  then have "CHR 0x5C \<notin> set (Clean (trim_prefix ''/'' (trim_prefix ''./'' path)))"
    using set_Clean [of "trim_prefix ''/'' (trim_prefix ''./'' path)"] assms by auto
  then show ?thesis
    unfolding normalizePath_def by (intro map_idI) auto
qed

text \<open>Normalising a normalised path again changes nothing.\<close>

lemma normalizePath_idempotent:
  assumes "CHR 0x5C \<notin> set path" and "hd (normalizePath path) \<noteq> CHR ''/''"
  shows "normalizePath (normalizePath path) = normalizePath path \<and>
    (normalizePath path = ''.'' \<or> (\<exists>ws. ws \<noteq> [] \<and> normalizePath path = join_slash ws \<and> clean_path False ws))"
proof -
  let ?p = "trim_prefix ''/'' (trim_prefix ''./'' path)"
  have norm: "normalizePath path = Clean ?p"
    by (rule normalizePath_Clean [OF assms(1)])
  have free: "CHR 0x5C \<notin> set (Clean ?p)"
    using normalizePath_no_backslash [of path] unfolding norm .
  show ?thesis
  proof (cases rule: Clean_cases [of ?p])
    case dot
    then show ?thesis
      unfolding norm by (simp add: normalizePath_def trim_prefix_def Clean_def)
  next
    case (rooted ws)
    then show ?thesis
      using assms(2) norm by simp
  next
    case (relative ws)
    then show ?thesis
      using normalizePath_Clean [OF free] trim_relative [of ws] Clean_relative(1) [of ws] unfolding norm by auto
  qed
qed

lemma split_join_trailing: "ws \<noteq> [] \<Longrightarrow> \<forall>w\<in>set ws. CHR ''/'' \<notin> set w \<Longrightarrow> split_slash (join_slash ws @ ''/'') = ws @ [[]]"
  by (induction ws rule: join_slash.induct) (auto simp: split_slash_append)

lemma clean_elements_trailing: "clean_elements rooted (ws @ [[]]) kept = clean_elements rooted ws kept"
  by (induction rooted ws kept rule: clean_elements.induct) (auto split: list.splits)

text \<open>A path written with a slash at its end, or without, is trimmed of nothing and cleaned to its elements.\<close>

lemma Clean_trailing:
  assumes "ws \<noteq> []" and "clean_path False ws" and "tail \<in> {[], ''/''}"
  shows "Clean (join_slash ws @ tail) = join_slash ws" and "trim_prefix ''./'' (join_slash ws @ tail) = join_slash ws @ tail"
    and "trim_prefix ''/'' (join_slash ws @ tail) = join_slash ws @ tail"
proof -
  let ?path = "join_slash ws @ tail"
  have free: "\<forall>w\<in>set ws. CHR ''/'' \<notin> set w" and first: "element_ok (hd ws)"
    using clean_path_elements [OF assms(2)] assms(1) by (auto simp: element_ok_def)
  have split: "split_slash ?path = ws \<or> split_slash ?path = ws @ [[]]"
    using assms(3) split_clean [OF assms(1,2)] split_join_trailing [OF assms(1) free] by auto
  then have "split_slash ?path = hd ws # tl (split_slash ?path)"
    using assms(1) by (cases ws) auto
  then show "trim_prefix ''./'' ?path = ?path" "trim_prefix ''/'' ?path = ?path"
    using trim_none first by blast+
  have "clean_elements False (split_slash ?path) [] = rev ws"
    using split clean_elements_fixed [OF assms(2)] clean_elements_trailing [of False ws "[]"] by auto
  moreover have "?path \<noteq> []" "hd ?path \<noteq> CHR ''/''"
    using join_slash_head [OF assms(1) first] by auto
  ultimately show "Clean ?path = join_slash ws"
    using assms(1) by (simp add: Clean_def Let_def)
qed

text \<open>
  C12: the ways to write a path of a site come to the same name: a relative path in clean form, with or
  without a slash, a dot and a slash, or both in front of it, and with or without a slash behind it,
  is normalised to itself with slashes for its backslashes; and no normalised path has a backslash.
\<close>

theorem normalizePath_spellings:
  assumes "ws \<noteq> []" and "clean_path False ws" and "pre \<in> {[], ''/'', ''./'', ''.//''}" and "tail \<in> {[], ''/''}"
  shows "normalizePath (pre @ join_slash ws @ tail) = map (\<lambda>c. if c = CHR 0x5C then CHR ''/'' else c) (join_slash ws) \<and>
    CHR 0x5C \<notin> set (normalizePath path)"
proof -
  let ?path = "join_slash ws @ tail"
  note trim = Clean_trailing [OF assms(1,2,4)]
  have drop: "trim_prefix p (p @ x) = x" for p x
    by (simp add: trim_prefix_def)
  have slash: "trim_prefix ''./'' (CHR ''/'' # x) = CHR ''/'' # x" for x
    by (simp add: trim_prefix_def)
  have "trim_prefix ''/'' (trim_prefix ''./'' (pre @ ?path)) = ?path"
    using assms(3) trim(2,3) slash drop [of "''./''" "?path"] drop [of "''./''" "CHR ''/'' # ?path"] drop [of "''/''" "?path"]
    by auto
  then show ?thesis
    using trim(1) normalizePath_no_backslash [of path] by (simp add: normalizePath_def)
qed

lemma map_of_map_key: "map_of (map (\<lambda>(p, d). (p, f p d)) xs) p = map_option (f p) (map_of xs p)"
  by (induction xs) auto

section \<open>The published site\<close>

text \<open>The regular files of an archive, in its order: normalised path and bytes, cut off at the limit.\<close>

definition site_files :: "tar_entry list \<Rightarrow> (string \<times> bytes) list" where
  "site_files tes = map (\<lambda>te. (normalizePath (te_Name te), take file_limit (te_Data te))) (filter (\<lambda>te. te_Typeflag te = TypeReg) tes)"

definition site_file :: "('sk, 'pk) crypto \<Rightarrow> (string \<Rightarrow> string) \<Rightarrow> DAGBuilder \<Rightarrow> string \<Rightarrow> bytes \<Rightarrow> SiteFile" where
  "site_file cr mime b path data = \<lparr>sf_ContentID = ContentID_Hex (dag_root cr (db_chunkSize b) data),
     sf_Size = of_nat (length data), sf_ContentType = detectContentType mime path\<rparr>"

lemma read_limited_take: "read_limited te = Inr data \<Longrightarrow> data = take file_limit (te_Data te)"
  by (auto simp: read_limited_def split: if_splits option.splits)

lemma site_files_Cons:
  "site_files (te # tes) =
     (if te_Typeflag te = TypeReg then [(normalizePath (te_Name te), take file_limit (te_Data te))] else []) @ site_files tes"
  by (simp add: site_files_def)

lemma publish_entries_files:
  assumes "publish_entries cr mime b tes m s = (s', Inr m')"
  shows "s' = add_all cr b (map snd (site_files tes)) s \<and> [] \<notin> snd ` set (site_files tes) \<and>
    map_of (sm_Files m') = map_of (sm_Files m) ++ map_of (rev (map (\<lambda>(p, d). (p, site_file cr mime b p d)) (site_files tes)))"
  using assms
proof (induction cr mime b tes m s rule: publish_entries.induct)
  case (1 cr mime b m s)
  then show ?case
    by (simp add: site_files_def add_all_def)
next
  case (2 cr mime b te tes m s)
  show ?case
  proof (cases "te_Typeflag te = TypeReg")
    case False
    then show ?thesis
      using 2 by (simp add: site_files_Cons)
  next
    case True
    with 2(3) obtain data where read: "read_limited te = Inr data" "data \<noteq> []"
      by (auto simp: Add_fold split: sum.splits if_splits)
    define path where "path = normalizePath (te_Name te)"
    define m1 where "m1 = m\<lparr>sm_Files := AList.update path (site_file cr mime b path data) (sm_Files m),
        sm_TotalSize := sm_TotalSize m + of_nat (length data)\<rparr>"
    define s1 where "s1 = fst (DAGBuilder_Add cr b data s)"
    have add: "DAGBuilder_Add cr b data s = (s1, Inr (dag_root cr (db_chunkSize b) data))"
      using read(2) by (simp add: s1_def Add_fold)
    have "publish_entries cr mime b tes m1 s1 = (s', Inr m')"
      using 2(3) True read add by (simp add: m1_def path_def site_file_def Let_def)
    then have "s' = add_all cr b (map snd (site_files tes)) s1 \<and> [] \<notin> snd ` set (site_files tes) \<and>
      map_of (sm_Files m') = map_of (sm_Files m1) ++ map_of (rev (map (\<lambda>(p, d). (p, site_file cr mime b p d)) (site_files tes)))"
      using 2(2) [OF _ read(1) add [symmetric] refl refl] True by (simp add: m1_def path_def site_file_def)
    then show ?thesis
      using True read(2) read_limited_take [OF read(1)]
      by (simp add: site_files_Cons path_def m1_def s1_def add_all_def update_conv')
  qed
qed

text \<open>
  C11: a site that was published is served: whatever the archive holds, once publishing has returned the
  identifier of the manifest, a request for a path gets the bytes of the last regular file of the
  archive with that path, cut off at 50 MiB, and the content type of its extension, provided SHA-256 does not
  collide on the blocks of the site and the JSON reader reads back the files of the manifest.
\<close>

theorem published_site_served:
  assumes "PublishTarGz cr mime unpack b data s = (s', Inr (root, m))" and "unpack data = Inr (entries, None)"
    and "b = NewDAGBuilder chunkSize" and "\<And>x. length (Sha256 cr x) = 32"
    and "json_bytes (SiteManifest_json m) = Some manifest" and "length manifest \<le> maxAlloc"
    and "inj_on (Sha256 cr) (\<Union>c\<in>set (map snd (site_files entries) @ [manifest]). set (dag_blocks cr (db_chunkSize b) c))"
    and "unmarshal manifest = Some m'" and "map_of (sm_Files m') = map_of (sm_Files m)"
    and "map_of (rev (site_files entries)) (request_path path) = Some content"
  shows "GetFile unmarshal s' root path = Some (Inr (content, detectContentType mime (request_path path)))"
proof -
  let ?n = "db_chunkSize b" and ?all = "map snd (site_files entries) @ [manifest]"
  obtain s1 where pub: "publish_entries cr mime b entries new_manifest s = (s1, Inr m)"
    and fin: "manifest \<noteq> []" "s' = fst (DAGBuilder_Add cr b manifest s1)" "root = dag_root cr ?n manifest"
    using assms(1,2,5) by (auto simp: PublishTarGz_def Add_fold split: prod.splits sum.splits if_splits option.splits)
  note files = publish_entries_files [OF pub]
  have s': "s' = add_all cr b ?all s"
    using files fin(2) by (simp add: add_all_def)
  have n: "?n > 0"
    by (simp add: assms(3) NewDAGBuilder_def DefaultChunkSize_def)
  have get: "DAGBuilder_Get s' (dag_root cr ?n c) = Some (Inr c)" if "c \<in> set ?all" "c \<noteq> []" "length c \<le> maxAlloc" for c
    unfolding s' by (rule Get_held [OF add_all_holds [OF assms(7) that(1)] that(2) n that(3) assms(4)])
  have member: "(request_path path, content) \<in> set (site_files entries)"
    using map_of_SomeD [OF assms(10)] by simp
  then have content: "content \<in> set ?all" "content \<noteq> []" "length content \<le> file_limit"
    using files by (force, force, auto simp: site_files_def)
  have "map_of (rev (map (\<lambda>(p, d). (p, site_file cr mime b p d)) (site_files entries))) (request_path path) =
      Some (site_file cr mime b (request_path path) content)"
    using assms(10) by (simp add: rev_map map_of_map_key)
  then have "find_file (request_path path) m' = Some (site_file cr mime b (request_path path) content)"
    using files assms(9) by (simp add: find_file_def new_manifest_def)
  moreover have "length content \<le> maxAlloc"
    using content(3) by (simp add: file_limit_def maxAlloc_def)
  ultimately show ?thesis
    using get [of manifest] get [OF content(1,2)] fin(1,3) assms(4,6,8) by (simp add: GetFile_def site_file_def dag_root_def)
qed

text \<open>
  The index page is not served at the root of a site: the empty path and a slash are normalised
  to a dot, not to the empty path, so that the request is looked up as a file named by the dot, or
  as \<open>./index.html\<close> or \<open>.index.html\<close>, and a site of an index page alone answers that it is not found.
\<close>

theorem root_request_fails:
  "normalizePath [] = ''.'' \<and> normalizePath ''/'' = ''.'' \<and>
   (path \<in> {[], ''/'', ''./''} \<and> DAGBuilder_Get s root = Some (Inr manifest) \<and> unmarshal manifest = Some m \<and> fst ` set (sm_Files m) = {''index.html''}
    \<longrightarrow> GetFile unmarshal s root path = Some (Inl (Errorf ''file not found: .'')))"
proof -
  have dot: "request_path path = ''.''" if "path \<in> {[], ''/'', ''./''}"
    using that by (auto simp: request_path_def normalizePath_def trim_prefix_def Clean_def)
  have "find_file ''.'' m = None" if "fst ` set (sm_Files m) = {''index.html''}"
    using that by (simp add: find_file_def map_of_eq_None_iff split: option.splits)
  then show ?thesis
    using dot by (auto simp: GetFile_def) (simp_all add: normalizePath_def trim_prefix_def Clean_def)
qed

text \<open>
  An archive with an empty regular file cannot be published: the store refuses empty content, and
  the files before it are left in the store.
\<close>

theorem empty_file_unpublishable:
  assumes "unpack data = Inr (entries, ending)" and "te \<in> set entries" and "te_Typeflag te = TypeReg" and "te_Data te = []"
  shows "\<exists>s' e. PublishTarGz cr mime unpack b data s = (s', Inl e)"
proof -
  have "([] :: bytes) \<in> snd ` set (site_files entries)"
    using assms(2-4) by (force simp: site_files_def)
  then have "publish_entries cr mime b entries new_manifest s \<noteq> (s1, Inr m)" for s1 m
    using publish_entries_files [of cr mime b entries new_manifest s s1 m] by blast
  then show ?thesis
    using assms(1) by (cases "publish_entries cr mime b entries new_manifest s"; cases "snd (publish_entries cr mime b entries new_manifest s)")
      (auto simp: PublishTarGz_def)
qed

section \<open>Concrete sites\<close>

definition demo_file :: "string \<Rightarrow> bytes \<Rightarrow> tar_entry" where
  "demo_file name data = \<lparr>te_Name = name, te_Typeflag = TypeReg, te_Data = data, te_Error = None\<rparr>"

definition demo_entries :: "tar_entry list" where
  "demo_entries = [demo_file ''./a.css'' [1], demo_file ''b/../a.css'' [2]]"

definition demo_manifest :: SiteManifest where
  "demo_manifest = \<lparr>sm_Version = 1, sm_RootPath = ''/'',
     sm_Files = [(''a.css'', site_file demo_sha (\<lambda>_. []) (NewDAGBuilder 0) ''a.css'' [2])], sm_TotalSize = 2\<rparr>"

theorem normalizePath_spellings_witness: "normalizePath ''.//css/main.css/'' = ''css/main.css''"
proof -
  have "clean_path False (replicate 0 ''..'' @ [''css'', ''main.css''])"
    by (rule clean_pathI) (auto simp: element_ok_def)
  then show ?thesis
    using normalizePath_spellings [of "[''css'', ''main.css'']" "''.//''" "''/''"] by simp
qed

theorem root_request_fails_witness:
  "GetFile (\<lambda>_. Some (demo_manifest\<lparr>sm_Files := [(''index.html'', site_file demo_sha (\<lambda>_. []) (NewDAGBuilder 2) ''index.html'' [2])]\<rparr>))
     (fst (DAGBuilder_Add demo_sha (NewDAGBuilder 2) [5] demo_store)) (copy_into 32 [0, 5]) ''/'' = Some (Inl (Errorf ''file not found: .''))"
proof -
  have "DAGBuilder_Get (fst (DAGBuilder_Add demo_sha (NewDAGBuilder 2) [5] demo_store)) (copy_into 32 [0, 5]) = Some (Inr [5])"
    by (simp add: DAGBuilder_Add_def demo_builder Store_Put_case demo_sha_def encodeLeaf_def nodeTypeLeaf_def DAGBuilder_Get_def dag_node_def
        Store_Put_def Store_Get_def HashData_def decodeNode_def Let_def)
  then show ?thesis
    using root_request_fails [of "''/''" _ _ "[5]" "\<lambda>_. Some m" m for m] by simp
qed

theorem empty_file_unpublishable_witness:
  "\<exists>s' e. PublishTarGz demo_sha (\<lambda>_. []) (\<lambda>_. Inr ([demo_file ''x'' []], None)) (NewDAGBuilder 2) [] demo_store = (s', Inl e)"
  by (rule empty_file_unpublishable [where te = "demo_file ''x'' []"]) (auto simp: demo_file_def)

lemma length_json_escape: "length (json_escape s) \<le> 6 * length s"
proof (induction s rule: length_induct)
  case (1 s)
  show ?case
  proof (cases s)
    case (Cons c cs)
    define w where "w = utf8_width (map of_char (c # cs))"
    have ascii: "length (esc_ascii c) \<le> 6"
      by (simp add: esc_ascii_def Let_def)
    have rest: "length (json_escape (drop k cs)) \<le> 6 * (length cs - k)" for k
      using 1 [rule_format, of "drop k cs"] Cons by simp
    have "length (json_escape s) \<le> max 6 (min (Suc (length cs)) w) + length (json_escape (drop (w - 1) cs)) \<or>
        length (json_escape s) \<le> 6 + length (json_escape (drop 0 cs))"
      unfolding Cons json_escape.simps(2) Let_def w_def [symmetric] using ascii by (simp add: uesc_def del: json_escape.simps)
    moreover have "length s = Suc (length cs)"
      by (simp add: Cons)
    ultimately show ?thesis
      using rest [of "w - 1"] rest [of 0] by (auto simp: max_def min_def split: if_splits)
  qed simp
qed

lemma length_json_quote: "length (json_quote s) \<le> 6 * length s + 2"
  using length_json_escape [of s] by (simp add: json_quote_def)

lemma demo_type: "detectContentType (\<lambda>_. []) ''a.css'' = ''text/css; charset=utf-8''"
  by (simp add: detectContentType_def Ext_def content_types_def)

lemma demo_css_entry: "site_file demo_sha (\<lambda>_. []) (NewDAGBuilder 0) ''a.css'' [2] =
    \<lparr>sf_ContentID = ContentID_Hex (copy_into 32 [0, 2]), sf_Size = 1, sf_ContentType = ''text/css; charset=utf-8''\<rparr>"
  by (simp add: site_file_def demo_type dag_root_def dag_blocks_def NewDAGBuilder_def DefaultChunkSize_def demo_sha_def encodeLeaf_def nodeTypeLeaf_def)

lemma demo_json:
  obtains j where "json_bytes (SiteManifest_json demo_manifest) = Some (123 # j)" and "length j \<le> 2000"
proof -
  let ?q = json_quote and ?id = "ContentID_Hex (copy_into 32 [0, 2])"
  have "\<exists>j. json_marshal (SiteManifest_json demo_manifest) = Some (CHR ''{'' # j) \<and> length j \<le> 2000"
    using length_json_quote [of "''version''"] length_json_quote [of "''root_path''"] length_json_quote [of "''files''"]
      length_json_quote [of "''total_size''"] length_json_quote [of "''content_id''"] length_json_quote [of "''size''"]
      length_json_quote [of "''content_type''"] length_json_quote [of "''/''"] length_json_quote [of "''a.css''"]
      length_json_quote [of "''text/css; charset=utf-8''"] length_json_quote [of ?id]
    by (simp add: SiteManifest_json_def demo_manifest_def SiteFile_json_def demo_css_entry dec_int_def dec_nat.simps ContentID_Hex_def del: json_escape.simps)
  then show ?thesis
    using that by (auto simp: json_bytes_def bytes_of_string_def)
qed

theorem published_site_served_witness:
  "\<exists>s' root. GetFile (\<lambda>_. Some demo_manifest) s' root ''/a.css'' = Some (Inr ([2], ''text/css; charset=utf-8'')) \<and>
    PublishTarGz demo_sha (\<lambda>_. []) (\<lambda>_. Inr (demo_entries, None)) (NewDAGBuilder 0) [] demo_store = (s', Inr (root, demo_manifest))"
proof -
  let ?b = "NewDAGBuilder 0" and ?unpack = "\<lambda>_ :: bytes. (Inr (demo_entries, None) :: archive)" and ?mime = "\<lambda>_ :: string. [] :: string"
  obtain j where j: "json_bytes (SiteManifest_json demo_manifest) = Some (123 # j)" "length j \<le> 2000"
    by (rule demo_json)
  have norm: "normalizePath ''./a.css'' = ''a.css''" "normalizePath ''b/../a.css'' = ''a.css''" "normalizePath ''/a.css'' = ''a.css''"
    by (simp_all add: normalizePath_def trim_prefix_def Clean_def)
  then have path: "request_path ''/a.css'' = ''a.css''"
    by (simp add: request_path_def)
  have chunk: "db_chunkSize ?b = 262144"
    by (simp add: NewDAGBuilder_def DefaultChunkSize_def)
  have files: "site_files demo_entries = [(''a.css'', [1]), (''a.css'', [2])]"
    by (simp add: site_files_def demo_entries_def demo_file_def norm file_limit_def)
  define s1 where "s1 = fst (publish_entries demo_sha ?mime ?b demo_entries new_manifest demo_store)"
  have pub: "publish_entries demo_sha ?mime ?b demo_entries new_manifest demo_store = (s1, Inr demo_manifest)"
    by (simp add: s1_def demo_entries_def demo_file_def read_limited_def file_limit_def Add_fold norm new_manifest_def demo_manifest_def
        site_file_def Let_def)
  obtain s' root where publish: "PublishTarGz demo_sha ?mime ?unpack ?b [] demo_store = (s', Inr (root, demo_manifest))"
    by (simp add: PublishTarGz_def pub j(1) Add_fold demo_manifest_def [THEN arg_cong, of sm_Files])
  have "GetFile (\<lambda>_. Some demo_manifest) s' root ''/a.css'' = Some (Inr ([2], detectContentType ?mime (request_path ''/a.css'')))"
  proof (rule published_site_served [where unpack = ?unpack and entries = demo_entries and manifest = "123 # j" and chunkSize = 0, OF publish])
    show "length (123 # j :: bytes) \<le> maxAlloc"
      using j(2) by (simp add: maxAlloc_def)
    show "inj_on (Sha256 demo_sha)
        (\<Union>c\<in>set (map snd (site_files demo_entries) @ [123 # j]). set (dag_blocks demo_sha (db_chunkSize ?b) c))"
      using j(2) unfolding files by (simp add: dag_blocks_def chunk demo_sha_def copy_into_def encodeLeaf_def nodeTypeLeaf_def)
  qed (simp_all add: files path j(1) demo_sha_length)
  then show ?thesis
    using publish path demo_type by auto
qed

end
