(* ===== verification/Go_Heap.thy ===== *)
theory Go_Heap
  imports Zeam_Prelude "HOL-Library.Multiset"
begin

text \<open>
  The package \<open>container/heap\<close> of the Go library, as its clients use it: the functions work on
  any state through the methods \<open>Less\<close> and \<open>Swap\<close> of \<open>heap.Interface\<close>, here their first two
  arguments; the length is passed where the code calls \<open>Len\<close>.

  The locale \<open>heap_interface\<close> states what the methods must be for the heap to work: reading
  positions of a list, comparing its entries by a strict weak order and swapping two of them. Its
  lemmas show that the heap property is restored and that no entry is lost.
\<close>

definition parent :: "nat \<Rightarrow> nat" where
  "parent j = (j - 1) div 2"

lemma parent_less: "0 < k \<Longrightarrow> parent k < k"
  by (simp add: parent_def)

lemma parent_lt [simp]: "k < n \<Longrightarrow> parent k < n"
  by (simp add: parent_def)

lemma parent_0 [simp]: "parent 0 = 0"
  by (simp add: parent_def)

lemma parent_self [simp]: "parent k = k \<longleftrightarrow> k = 0" "k = parent k \<longleftrightarrow> k = 0"
  using parent_less [of k] by (cases "k = 0"; simp)+

lemma parent_child [simp]: "parent (Suc (2 * i)) = i" "parent (Suc (Suc (2 * i))) = i"
  by (simp_all add: parent_def)

lemma children: "0 < k \<Longrightarrow> parent k = i \<longleftrightarrow> k = 2 * i + 1 \<or> k = 2 * i + 2"
  by (auto simp: parent_def)

function heap_up :: "('s \<Rightarrow> nat \<Rightarrow> nat \<Rightarrow> bool) \<Rightarrow> ('s \<Rightarrow> nat \<Rightarrow> nat \<Rightarrow> 's) \<Rightarrow> nat \<Rightarrow> 's \<Rightarrow> 's" where
  "heap_up Less Swap j st =
     (let i = parent j
      in if i = j \<or> \<not> Less st j i then st else heap_up Less Swap i (Swap st i j))"
  by pat_completeness auto
termination
  by (relation "measure (\<lambda>(_, _, j, _). j)") (auto intro: parent_less)

function heap_down :: "('s \<Rightarrow> nat \<Rightarrow> nat \<Rightarrow> bool) \<Rightarrow> ('s \<Rightarrow> nat \<Rightarrow> nat \<Rightarrow> 's) \<Rightarrow> nat \<Rightarrow> nat \<Rightarrow> 's \<Rightarrow> 's \<times> nat" where
  "heap_down Less Swap n i st =
     (let j1 = 2 * i + 1
      in if j1 \<ge> n then (st, i)
         else
           let j = (if j1 + 1 < n \<and> Less st (j1 + 1) j1 then j1 + 1 else j1)
           in if \<not> Less st j i then (st, i) else heap_down Less Swap n j (Swap st i j))"
  by pat_completeness auto
termination
  by (relation "measure (\<lambda>(_, _, n, i, _). n - i)") auto

declare heap_up.simps [simp del] heap_down.simps [simp del]

definition heap_sift :: "('s \<Rightarrow> nat \<Rightarrow> nat \<Rightarrow> bool) \<Rightarrow> ('s \<Rightarrow> nat \<Rightarrow> nat \<Rightarrow> 's) \<Rightarrow> nat \<Rightarrow> nat \<Rightarrow> 's \<Rightarrow> 's" where
  \<comment> \<open>\<open>if !down(h, i, n) { up(h, i) }\<close>\<close>
  "heap_sift Less Swap n i st =
     (let (st', i') = heap_down Less Swap n i st in if i' > i then st' else heap_up Less Swap i st')"

text \<open>
  The four operations of the package. An index out of range makes \<open>Less\<close> or \<open>Swap\<close> panic, which
  is \<open>None\<close>; \<open>Fix\<close> at \<open>-1\<close> compares nothing and returns.
\<close>

definition heap_Push :: "('s \<Rightarrow> nat \<Rightarrow> nat \<Rightarrow> bool) \<Rightarrow> ('s \<Rightarrow> nat \<Rightarrow> nat \<Rightarrow> 's) \<Rightarrow> ('s \<Rightarrow> nat) \<Rightarrow> ('x \<Rightarrow> 's \<Rightarrow> 's) \<Rightarrow> 'x \<Rightarrow> 's \<Rightarrow> 's" where
  "heap_Push Less Swap Len Push x st = (let st' = Push x st in heap_up Less Swap (Len st' - 1) st')"

definition heap_Pop :: "('s \<Rightarrow> nat \<Rightarrow> nat \<Rightarrow> bool) \<Rightarrow> ('s \<Rightarrow> nat \<Rightarrow> nat \<Rightarrow> 's) \<Rightarrow> ('s \<Rightarrow> nat) \<Rightarrow> ('s \<Rightarrow> 'x \<times> 's) \<Rightarrow> 's \<Rightarrow> ('x \<times> 's) option" where
  "heap_Pop Less Swap Len Pop st =
     (if Len st = 0 then None
      else let n = Len st - 1 in Some (Pop (fst (heap_down Less Swap n 0 (Swap st 0 n)))))"

definition heap_Remove :: "('s \<Rightarrow> nat \<Rightarrow> nat \<Rightarrow> bool) \<Rightarrow> ('s \<Rightarrow> nat \<Rightarrow> nat \<Rightarrow> 's) \<Rightarrow> ('s \<Rightarrow> nat) \<Rightarrow> ('s \<Rightarrow> 'x \<times> 's) \<Rightarrow> int \<Rightarrow> 's \<Rightarrow> ('x \<times> 's) option" where
  "heap_Remove Less Swap Len Pop i st =
     (if i < 0 \<or> int (Len st) \<le> i then None
      else let n = Len st - 1 in
        Some (Pop (if n = nat i then st else heap_sift Less Swap n (nat i) (Swap st (nat i) n))))"

definition heap_Fix :: "('s \<Rightarrow> nat \<Rightarrow> nat \<Rightarrow> bool) \<Rightarrow> ('s \<Rightarrow> nat \<Rightarrow> nat \<Rightarrow> 's) \<Rightarrow> ('s \<Rightarrow> nat) \<Rightarrow> int \<Rightarrow> 's \<Rightarrow> 's option" where
  "heap_Fix Less Swap Len i st =
     (if i = -1 then Some st else if i < 0 \<or> int (Len st) \<le> i then None
      else Some (heap_sift Less Swap (Len st) (nat i) st))"

text \<open>What no method changes, no operation changes.\<close>

lemma heap_up_keeps: "(\<And>st i j. f (Swap st i j) = f st) \<Longrightarrow> f (heap_up Less Swap j st) = f st"
  by (induction Less Swap j st rule: heap_up.induct) (subst heap_up.simps, simp add: Let_def)

lemma heap_down_keeps: "(\<And>st i j. f (Swap st i j) = f st) \<Longrightarrow> f (fst (heap_down Less Swap n i st)) = f st"
proof (induction Less Swap n i st rule: heap_down.induct)
  case (1 Less Swap n i st)
  show ?case
    by (subst heap_down.simps) (use 1 in \<open>simp add: Let_def\<close>)
qed

lemma heap_sift_keeps: "(\<And>st i j. f (Swap st i j) = f st) \<Longrightarrow> f (heap_sift Less Swap n i st) = f st"
  using heap_down_keeps [of f Swap Less n i st] heap_up_keeps [of f Swap Less i]
  by (auto simp: heap_sift_def split: prod.splits)

lemma heap_Remove_keeps:
  "heap_Remove Less Swap Len Pop i st = Some (x, st') \<Longrightarrow> (\<And>st i j. f (Swap st i j) = f st) \<Longrightarrow>
     (\<And>st. f (snd (Pop st)) = f st) \<Longrightarrow> f st' = f st"
  by (auto simp: heap_Remove_def Let_def heap_sift_keeps [of f] split: if_splits) (metis snd_conv, metis heap_sift_keeps snd_conv)

lemma heap_Pop_keeps:
  "heap_Pop Less Swap Len Pop st = Some (x, st') \<Longrightarrow> (\<And>st i j. f (Swap st i j) = f st) \<Longrightarrow>
     (\<And>st. f (snd (Pop st)) = f st) \<Longrightarrow> f st' = f st"
  by (auto simp: heap_Pop_def Let_def split: if_splits) (metis heap_down_keeps snd_conv)

section \<open>Heaps on lists\<close>

definition swap_at :: "'a list \<Rightarrow> nat \<Rightarrow> nat \<Rightarrow> 'a list" where
  "swap_at xs i j = xs[i := xs ! j, j := xs ! i]"

lemma length_swap_at [simp]: "length (swap_at xs i j) = length xs"
  by (simp add: swap_at_def)

lemma nth_swap_at: "i < length xs \<Longrightarrow> j < length xs \<Longrightarrow> swap_at xs i j ! k = (if k = i then xs ! j else if k = j then xs ! i else xs ! k)"
  by (auto simp: swap_at_def nth_list_update)

lemma mset_swap_at [simp]: "i < length xs \<Longrightarrow> j < length xs \<Longrightarrow> mset (swap_at xs i j) = mset xs"
  by (simp add: swap_at_def mset_swap)

locale heap_interface =
  fixes Less :: "'s \<Rightarrow> nat \<Rightarrow> nat \<Rightarrow> bool"
    and Swap :: "'s \<Rightarrow> nat \<Rightarrow> nat \<Rightarrow> 's"
    and view :: "'s \<Rightarrow> 'a list"
    and inv :: "'s \<Rightarrow> bool"
    and better :: "'a \<Rightarrow> 'a \<Rightarrow> bool"
  assumes Less_view: "inv st \<Longrightarrow> i < length (view st) \<Longrightarrow> j < length (view st) \<Longrightarrow> Less st i j = better (view st ! i) (view st ! j)"
    and view_Swap: "inv st \<Longrightarrow> i < length (view st) \<Longrightarrow> j < length (view st) \<Longrightarrow> view (Swap st i j) = swap_at (view st) i j"
    and inv_Swap: "inv st \<Longrightarrow> i < length (view st) \<Longrightarrow> j < length (view st) \<Longrightarrow> inv (Swap st i j)"
    and better_irrefl: "\<not> better x x"
    and better_trans: "better x y \<Longrightarrow> better y z \<Longrightarrow> better x z"
    and not_better_trans: "\<not> better x y \<Longrightarrow> \<not> better y z \<Longrightarrow> \<not> better x z"
begin

lemma better_asym: "better x y \<Longrightarrow> \<not> better y x"
  using better_irrefl better_trans by blast

definition edge_ok :: "'a list \<Rightarrow> nat \<Rightarrow> bool" where
  "edge_ok xs k \<longleftrightarrow> \<not> better (xs ! k) (xs ! (parent k))"

definition heap_upto :: "nat \<Rightarrow> 'a list \<Rightarrow> bool" where
  "heap_upto n xs \<longleftrightarrow> (\<forall>k. 0 < k \<and> k < n \<longrightarrow> edge_ok xs k)"

text \<open>A heap but for position \<open>i\<close>, whose children still fit below its parent.\<close>

definition hole_at :: "nat \<Rightarrow> nat \<Rightarrow> 'a list \<Rightarrow> bool" where
  "hole_at n i xs \<longleftrightarrow> (\<forall>k. 0 < k \<and> k < n \<and> k \<noteq> i \<and> parent k \<noteq> i \<longrightarrow> edge_ok xs k) \<and>
     (\<forall>k. 0 < k \<and> k < n \<and> parent k = i \<and> 0 < i \<longrightarrow> \<not> better (xs ! k) (xs ! (parent i)))"

definition kept :: "nat \<Rightarrow> 's \<Rightarrow> 's \<Rightarrow> bool" where
  \<comment> \<open>the entries are permuted among the first \<open>n\<close> positions\<close>
  "kept n st st' \<longleftrightarrow> inv st' \<and> mset (view st') = mset (view st) \<and> (\<forall>k\<ge>n. view st' ! k = view st ! k)"

lemma kept_refl: "inv st \<Longrightarrow> kept n st st"
  by (simp add: kept_def)

lemma kept_trans: "kept n st st' \<Longrightarrow> kept n st' st'' \<Longrightarrow> kept n st st''"
  by (simp add: kept_def)

lemma kept_length: "kept n st st' \<Longrightarrow> length (view st') = length (view st)"
  unfolding kept_def by (metis size_mset)

lemma kept_Swap: "inv st \<Longrightarrow> i < n \<Longrightarrow> j < n \<Longrightarrow> n \<le> length (view st) \<Longrightarrow> kept n st (Swap st i j)"
  by (auto simp: kept_def view_Swap inv_Swap nth_swap_at)

lemma heap_up_correct:
  assumes "inv st" and "length (view st) \<ge> n" and "j < n" and "hole_at n j (view st)"
    and "\<forall>k. 0 < k \<and> k < n \<and> parent k = j \<longrightarrow> edge_ok (view st) k"
  shows "heap_upto n (view (heap_up Less Swap j st)) \<and> kept n st (heap_up Less Swap j st)"
  using assms
proof (induction j arbitrary: st rule: less_induct)
  case (less j)
  note One_nat_def [simp del]
  let ?i = "parent j" and ?xs = "view st"
  have len: "?i < length ?xs" "j < length ?xs"
    using less.prems(2,3) by auto
  show ?case
  proof (cases "?i = j \<or> \<not> Less st j ?i")
    case True
    then have stop: "heap_up Less Swap j st = st"
      by (subst heap_up.simps) (simp add: Let_def)
    have "heap_upto n ?xs"
      unfolding heap_upto_def
    proof (intro allI impI)
      fix k assume k: "0 < k \<and> k < n"
      show "edge_ok ?xs k"
      proof (cases "k = j")
        case True
        then have "?i \<noteq> j"
          using k by simp
        with \<open>?i = j \<or> \<not> Less st j ?i\<close> show ?thesis
          using Less_view [OF less.prems(1) len(2,1)] True by (simp add: edge_ok_def)
      next
        case False
        then show ?thesis
          using less.prems(4,5) k unfolding hole_at_def by blast
      qed
    qed
    with stop less.prems(1) show ?thesis
      by (simp add: kept_refl)
  next
    case False
    then have "j \<noteq> 0"
      by (cases j) auto
    then have j: "0 < j" "?i < j"
      using parent_less by simp_all
    let ?st = "Swap st ?i j" and ?ys = "swap_at ?xs ?i j"
    have go: "heap_up Less Swap j st = heap_up Less Swap ?i ?st"
      using False by (subst heap_up.simps) (simp add: Let_def)
    have better: "better (?xs ! j) (?xs ! ?i)"
      using False Less_view [OF less.prems(1) len(2,1)] by simp
    have view: "view ?st = ?ys" "inv ?st"
      using view_Swap inv_Swap less.prems(1) len by blast+
    have nth: "?ys ! k = (if k = ?i then ?xs ! j else if k = j then ?xs ! ?i else ?xs ! k)" for k
      using nth_swap_at [OF len] .
    have old: "edge_ok ?xs k" if "0 < k" "k < n" "k \<noteq> j" for k
      using that less.prems(4,5) unfolding hole_at_def by blast
    have child: "\<not> better (?xs ! k) (?xs ! ?i)" if "0 < k" "k < n" "parent k = j" for k
      using that less.prems(4) j unfolding hole_at_def by blast
    have new_child: "edge_ok ?ys k" if "0 < k" "k < n" "parent k = ?i" for k
    proof (cases "k = j")
      case True
      then show ?thesis
        using better_asym [OF better] j by (simp add: edge_ok_def nth)
    next
      case False
      then have "\<not> better (?xs ! k) (?xs ! ?i)" "k \<noteq> ?i"
        using old [OF that(1,2)] that(1,3) parent_less [of k] by (auto simp: edge_ok_def)
      then have "\<not> better (?xs ! k) (?xs ! j)"
        using better better_trans by blast
      then show ?thesis
        using False \<open>k \<noteq> ?i\<close> that(3) by (simp add: edge_ok_def nth)
    qed
    have "hole_at n ?i ?ys"
      unfolding hole_at_def
    proof (intro conjI allI impI)
      fix k assume k: "0 < k \<and> k < n \<and> k \<noteq> ?i \<and> parent k \<noteq> ?i"
      then have "k \<noteq> j"
        by blast
      show "edge_ok ?ys k"
      proof (cases "parent k = j")
        case True
        then show ?thesis
          using child [of k] k \<open>k \<noteq> j\<close> j by (simp add: edge_ok_def nth)
      next
        case False
        then show ?thesis
          using old [of k] k \<open>k \<noteq> j\<close> by (simp add: edge_ok_def nth)
      qed
    next
      fix k assume k: "0 < k \<and> k < n \<and> parent k = ?i \<and> 0 < ?i"
      have up: "\<not> better (?xs ! ?i) (?xs ! (parent ?i))"
        using old [of ?i] k j less.prems(3) by (simp add: edge_ok_def)
      have "k \<noteq> ?i" "parent ?i \<noteq> ?i" "parent ?i \<noteq> j"
        using k parent_less [of k] parent_less [of ?i] j by auto
      moreover have "\<not> better (?xs ! k) (?xs ! ?i)" if "k \<noteq> j"
        using old [of k] k that by (auto simp: edge_ok_def)
      ultimately show "\<not> better (?ys ! k) (?ys ! (parent ?i))"
        using up not_better_trans [OF _ up] by (auto simp: nth)
    qed
    with less.IH [OF j(2), of ?st] new_child
    have "heap_upto n (view (heap_up Less Swap ?i ?st)) \<and> kept n ?st (heap_up Less Swap ?i ?st)"
      using less.prems(2,3) view j by simp
    moreover have "kept n st ?st"
      using kept_Swap less.prems(1,2,3) j by simp
    ultimately show ?thesis
      unfolding go using kept_trans by blast
  qed
qed

lemma hole_moves_down:
  assumes "hole_at n i xs" and "i < length xs" and "j < length xs" and "0 < j" and "parent j = i"
    and "\<And>k. 0 < k \<Longrightarrow> k < n \<Longrightarrow> parent k = i \<Longrightarrow> \<not> better (xs ! k) (xs ! j)" and "j < n"
  shows "hole_at n j (swap_at xs i j)"
  unfolding hole_at_def edge_ok_def
proof (intro conjI allI impI)
  note nth = nth_swap_at [OF assms(2,3)]
  have ij: "i < j"
    using assms(4,5) parent_less by blast
  fix k assume k: "0 < k \<and> k < n \<and> k \<noteq> j \<and> parent k \<noteq> j"
  show "\<not> better (swap_at xs i j ! k) (swap_at xs i j ! (parent k))"
  proof (cases "k = i")
    case True
    then show ?thesis
      using assms(1,4,5,7) k nth ij parent_less [of i] unfolding hole_at_def by auto
  next
    case False
    then show ?thesis
      using assms(1,6) k nth ij unfolding hole_at_def edge_ok_def by (cases "parent k = i") auto
  qed
next
  note nth = nth_swap_at [OF assms(2,3)]
  have ij: "i < j"
    using assms(4,5) parent_less by blast
  fix k assume k: "0 < k \<and> k < n \<and> parent k = j \<and> 0 < j"
  then have "j < k"
    using parent_less by blast
  then have "k \<noteq> i" "k \<noteq> j"
    using ij by auto
  then show "\<not> better (swap_at xs i j ! k) (swap_at xs i j ! (parent j))"
    using assms(1,5) k nth ij unfolding hole_at_def edge_ok_def by auto
qed

lemma heap_down_correct:
  assumes "inv st" and "n \<le> length (view st)" and "i < n" and "hole_at n i (view st)"
    and "heap_down Less Swap n i st = (st', i')"
  shows "kept n st st' \<and>
    (i' = i \<and> st' = st \<and> (\<forall>k. 0 < k \<and> k < n \<and> parent k = i \<longrightarrow> edge_ok (view st) k) \<or>
     i < i' \<and> heap_upto n (view st'))"
  using assms
proof (induction "n - i" arbitrary: i st rule: less_induct)
  case less
  let ?j1 = "2 * i + 1" and ?xs = "view st"
  define j where "j = (if ?j1 + 1 < n \<and> Less st (?j1 + 1) ?j1 then ?j1 + 1 else ?j1)"
  have unfold: "heap_down Less Swap n i st =
      (if ?j1 \<ge> n then (st, i) else if \<not> Less st j i then (st, i) else heap_down Less Swap n j (Swap st i j))"
    unfolding j_def by (subst heap_down.simps) (simp only: Let_def)
  have kids: "k = ?j1 \<or> k = ?j1 + 1" if "0 < k" "parent k = i" for k
    using that children [of k i] by auto
  note edge = edge_ok_def and Less = Less_view [OF less.prems(1)]
  have stuck: ?case if "st' = st" "i' = i" "\<And>k. 0 < k \<Longrightarrow> k < n \<Longrightarrow> parent k = i \<Longrightarrow> edge_ok ?xs k"
    using that less.prems(1) by (auto simp: kept_refl)
  show ?case
  proof (cases "?j1 \<ge> n")
    case True
    with less.prems(5) have "st' = st" "i' = i"
      by (auto simp: unfold)
    moreover have "\<not> (0 < k \<and> k < n \<and> parent k = i)" for k
      using True kids [of k] by auto
    ultimately show ?thesis
      using stuck by blast
  next
    case False
    then have j: "j < n" "0 < j" "parent j = i" "i < j"
      by (auto simp: j_def)
    have best: "\<not> better (?xs ! k) (?xs ! j)" if "0 < k" "k < n" "parent k = i" for k
      using kids [OF that(1,3)] that(2) False less.prems(2) Less [of "?j1 + 1" ?j1]
        better_irrefl better_asym by (auto simp: j_def)
    have Less_j: "Less st j i = better (?xs ! j) (?xs ! i)"
      using Less [of j i] j less.prems(2,3) by simp
    show ?thesis
    proof (cases "Less st j i")
      case stop: False
      with less.prems(5) False have "st' = st" "i' = i"
        by (auto simp: unfold)
      then show ?thesis
      proof (rule stuck)
        fix k assume "0 < k" "k < n" "parent k = i"
        then show "edge_ok ?xs k"
          using best [of k] not_better_trans stop Less_j by (auto simp: edge)
      qed
    next
      case move: True
      let ?st = "Swap st i j" and ?ys = "swap_at ?xs i j"
      have len: "i < length ?xs" "j < length ?xs"
        using j less.prems(2,3) by simp_all
      have view: "view ?st = ?ys" "inv ?st"
        using view_Swap [OF less.prems(1) len] inv_Swap [OF less.prems(1) len] by blast+
      have nth: "?ys ! k = (if k = i then ?xs ! j else if k = j then ?xs ! i else ?xs ! k)" for k
        using nth_swap_at [OF len] .
      have go: "heap_down Less Swap n j ?st = (st', i')"
        using less.prems(5) False move by (simp add: unfold)
      have sw: "kept n st ?st"
        using kept_Swap less.prems(1-3) j(1) by blast
      have hole: "hole_at n j ?ys"
        using hole_moves_down [OF less.prems(4) len j(2-3) best j(1)] .
      have fixed: "edge_ok ?ys j"
        using better_asym move Less_j j by (simp add: edge nth)
      have down: "kept n ?st st' \<and> (i' = j \<and> st' = ?st \<and> (\<forall>k. 0 < k \<and> k < n \<and> parent k = j \<longrightarrow> edge_ok ?ys k) \<or>
          j < i' \<and> heap_upto n (view st'))"
        using less.hyps [of j ?st] less.prems(2) view hole go j(1,4) less.prems(3) by simp
      moreover have "heap_upto n ?ys" if "\<forall>k. 0 < k \<and> k < n \<and> parent k = j \<longrightarrow> edge_ok ?ys k"
        using that fixed hole unfolding heap_upto_def hole_at_def by blast
      ultimately have "i < i' \<and> heap_upto n (view st')"
        using j(4) view(1) by auto
      moreover have "kept n st st'"
        using sw down kept_trans by blast
      ultimately show ?thesis
        by blast
    qed
  qed
qed

lemma heap_sift_correct:
  assumes "inv st" and "n \<le> length (view st)" and "i < n" and "hole_at n i (view st)"
  shows "heap_upto n (view (heap_sift Less Swap n i st)) \<and> kept n st (heap_sift Less Swap n i st)"
proof -
  obtain st' i' where down: "heap_down Less Swap n i st = (st', i')"
    by fastforce
  from heap_down_correct [OF assms down] show ?thesis
    using heap_up_correct [OF assms] down by (auto simp: heap_sift_def)
qed

lemma heap_down_top:
  assumes "inv st" and "n \<le> length (view st)" and "hole_at n 0 (view st)"
  shows "heap_upto n (view (fst (heap_down Less Swap n 0 st))) \<and> kept n st (fst (heap_down Less Swap n 0 st))"
proof (cases "n = 0")
  case True
  then show ?thesis
    using assms by (simp add: heap_upto_def kept_refl heap_down.simps [of _ _ 0])
next
  case False
  obtain st' i' where down: "heap_down Less Swap n 0 st = (st', i')"
    by fastforce
  from heap_down_correct [OF assms(1,2) _ assms(3) down] False assms(3) show ?thesis
    unfolding heap_upto_def hole_at_def down by auto
qed

lemma heap_hole: "heap_upto n xs \<Longrightarrow> hole_at n i xs"
proof -
  assume heap: "heap_upto n xs"
  have "\<not> better (xs ! k) (xs ! (parent i))" if "0 < k" "k < n" "parent k = i" "0 < i" for k
  proof -
    have "i < n"
      using that parent_less [of k] by simp
    then have "edge_ok xs k" "edge_ok xs i"
      using heap that unfolding heap_upto_def by blast+
    then show ?thesis
      using not_better_trans that(3) unfolding edge_ok_def by blast
  qed
  with heap show "hole_at n i xs"
    unfolding heap_upto_def hole_at_def by blast
qed

lemma heap_append_hole:
  assumes "heap_upto (length xs) xs"
  shows "hole_at (Suc (length xs)) (length xs) (xs @ [x])"
proof -
  have "parent k \<noteq> length xs" if "0 < k" "k < Suc (length xs)" for k
    using parent_less [OF that(1)] that(2) by simp
  moreover have "edge_ok (xs @ [x]) k" if "0 < k" "k < length xs" for k
    using assms that parent_lt [OF that(2)] by (simp add: heap_upto_def edge_ok_def nth_append)
  ultimately show ?thesis
    unfolding hole_at_def by (metis less_Suc_eq)
qed

lemma heap_cong: "(\<And>k. k < n \<Longrightarrow> ys ! k = xs ! k) \<Longrightarrow> heap_upto n ys = heap_upto n xs"
  unfolding heap_upto_def edge_ok_def by simp

text \<open>Changing the entry at \<open>i\<close> of a heap leaves a hole there only.\<close>

lemma heap_update_hole:
  assumes "heap_upto n xs" and "\<And>k. k < n \<Longrightarrow> k \<noteq> i \<Longrightarrow> ys ! k = xs ! k"
  shows "hole_at n i ys"
  unfolding hole_at_def edge_ok_def
proof (intro conjI allI impI)
  fix k assume k: "0 < k \<and> k < n \<and> k \<noteq> i \<and> parent k \<noteq> i"
  then have "parent k < n"
    by auto
  with k assms(2) have "ys ! k = xs ! k" "ys ! (parent k) = xs ! (parent k)"
    by blast+
  then show "\<not> better (ys ! k) (ys ! (parent k))"
    using assms(1) k unfolding heap_upto_def edge_ok_def by auto
next
  fix k assume k: "0 < k \<and> k < n \<and> parent k = i \<and> 0 < i"
  then have "k \<noteq> i" "parent i \<noteq> i" "parent i < n" "i < n"
    using parent_lt [of k n] by auto
  then have "ys ! k = xs ! k" "ys ! (parent i) = xs ! (parent i)"
    using assms(2) k by blast+
  then show "\<not> better (ys ! k) (ys ! (parent i))"
    using heap_hole [OF assms(1), of i] k unfolding hole_at_def by metis
qed

lemma heap_top: "heap_upto n xs \<Longrightarrow> k < n \<Longrightarrow> \<not> better (xs ! k) (xs ! 0)"
proof (induction k rule: less_induct)
  case (less k)
  show ?case
  proof (cases "k = 0")
    case True
    then show ?thesis
      by (simp add: better_irrefl)
  next
    case False
    then have "parent k < k" "edge_ok xs k"
      using less.prems parent_less [of k] unfolding heap_upto_def by simp_all
    then show ?thesis
      using less not_better_trans unfolding edge_ok_def by (meson less_trans)
  qed
qed

end

section \<open>Containers\<close>

text \<open>
  The methods \<open>Len\<close>, \<open>Push\<close> and \<open>Pop\<close> added: \<open>Push\<close> appends the entry of an item that fits
  and \<open>Pop\<close> takes the last one off. The lemmas are the contract of the package's operations.
\<close>

locale heap_container = heap_interface Less Swap view inv better
  for Less :: "'s \<Rightarrow> nat \<Rightarrow> nat \<Rightarrow> bool"
    and Swap :: "'s \<Rightarrow> nat \<Rightarrow> nat \<Rightarrow> 's"
    and view :: "'s \<Rightarrow> 'a list"
    and inv :: "'s \<Rightarrow> bool"
    and better :: "'a \<Rightarrow> 'a \<Rightarrow> bool" +
  fixes Len :: "'s \<Rightarrow> nat"
    and Push :: "'x \<Rightarrow> 's \<Rightarrow> 's"
    and Pop :: "'s \<Rightarrow> 'x \<times> 's"
    and item :: "'a \<Rightarrow> 'x"
    and fits :: "'x \<Rightarrow> 's \<Rightarrow> bool"
    and entry :: "'x \<Rightarrow> 's \<Rightarrow> 'a"
  assumes Len_view: "Len st = length (view st)"
    and view_Push: "inv st \<Longrightarrow> fits x st \<Longrightarrow> view (Push x st) = view st @ [entry x st]"
    and inv_Push: "inv st \<Longrightarrow> fits x st \<Longrightarrow> inv (Push x st)"
    and Pop_item: "inv st \<Longrightarrow> view st \<noteq> [] \<Longrightarrow> fst (Pop st) = item (last (view st))"
    and view_Pop: "inv st \<Longrightarrow> view st \<noteq> [] \<Longrightarrow> view (snd (Pop st)) = butlast (view st)"
    and inv_Pop: "inv st \<Longrightarrow> view st \<noteq> [] \<Longrightarrow> inv (snd (Pop st))"
begin

definition heap_ok :: "'s \<Rightarrow> bool" where
  "heap_ok st \<longleftrightarrow> inv st \<and> heap_upto (length (view st)) (view st)"

lemma Push_ok:
  assumes "heap_ok st" and "fits x st"
  shows "heap_ok (heap_Push Less Swap Len Push x st) \<and>
    mset (view (heap_Push Less Swap Len Push x st)) = add_mset (entry x st) (mset (view st))"
proof -
  let ?st = "Push x st" and ?n = "length (view st)"
  have view: "view ?st = view st @ [entry x st]" and "inv ?st"
    using assms view_Push inv_Push by (auto simp: heap_ok_def)
  moreover have "hole_at (Suc ?n) ?n (view ?st)"
    using assms heap_append_hole by (simp add: heap_ok_def view)
  moreover have "\<not> parent k = ?n" if "0 < k" "k < Suc ?n" for k
    using parent_less [OF that(1)] that(2) by simp
  ultimately have up: "heap_upto (Suc ?n) (view (heap_up Less Swap ?n ?st))" "kept (Suc ?n) ?st (heap_up Less Swap ?n ?st)"
    using heap_up_correct [of ?st "Suc ?n" ?n] by auto
  have "length (view (heap_up Less Swap ?n ?st)) = Suc ?n"
    using kept_length [OF up(2)] view by simp
  moreover have "inv (heap_up Less Swap ?n ?st)" "mset (view (heap_up Less Swap ?n ?st)) = mset (view ?st)"
    using up(2) unfolding kept_def by blast+
  moreover have "heap_Push Less Swap Len Push x st = heap_up Less Swap ?n ?st"
    by (simp add: heap_Push_def Len_view view)
  ultimately show ?thesis
    using view up(1) by (simp add: heap_ok_def)
qed

text \<open>The last step of \<open>Pop\<close> and \<open>Remove\<close>: the entry put at the end is taken off.\<close>

lemma take_off:
  assumes "kept n (Swap st i n) st'" and "heap_upto n (view st')" and "inv st" and "i \<le> n" and "length (view st) = Suc n"
  shows "fst (Pop st') = item (view st ! i) \<and> heap_ok (snd (Pop st')) \<and>
    mset (view st) = add_mset (view st ! i) (mset (view (snd (Pop st'))))"
proof -
  have sw: "view (Swap st i n) = swap_at (view st) i n"
    using assms(3-5) view_Swap by simp
  have st': "inv st'" "length (view st') = Suc n" "view st' ! n = view st ! i" "mset (view st') = mset (view st)"
    using assms(1,4,5) kept_length [OF assms(1)] sw by (auto simp: kept_def nth_swap_at)
  then have ne: "view st' \<noteq> []"
    by auto
  then have last: "last (view st') = view st ! i"
    using st'(2,3) by (simp add: last_conv_nth)
  have pop: "view (snd (Pop st')) = butlast (view st')" "inv (snd (Pop st'))"
    using view_Pop [OF st'(1) ne] inv_Pop [OF st'(1) ne] .
  have "mset (view st') = add_mset (last (view st')) (mset (butlast (view st')))"
    using ne by (metis append_butlast_last_id mset.simps(2) mset_append union_mset_add_mset_right add.right_neutral mset.simps(1))
  moreover have "heap_upto n (butlast (view st'))"
    using assms(2) st'(2) heap_cong [of n "butlast (view st')" "view st'"] by (simp add: nth_butlast)
  ultimately show ?thesis
    using pop last st' Pop_item [OF st'(1) ne] by (simp add: heap_ok_def)
qed

lemma Swap_last_hole:
  assumes "heap_ok st" and "i < n" and "length (view st) = Suc n"
  shows "hole_at n i (view (Swap st i n))" "inv (Swap st i n)" "length (view (Swap st i n)) = Suc n"
proof -
  have sw: "view (Swap st i n) = swap_at (view st) i n" "inv (Swap st i n)"
    using assms view_Swap inv_Swap by (auto simp: heap_ok_def)
  have "heap_upto n (view st)"
    using assms by (simp add: heap_ok_def heap_upto_def)
  then show "hole_at n i (view (Swap st i n))"
    by (rule heap_update_hole) (use assms sw in \<open>simp add: nth_swap_at\<close>)
  show "inv (Swap st i n)" "length (view (Swap st i n)) = Suc n"
    using sw assms by simp_all
qed

lemma Remove_ok:
  assumes "heap_ok st" and "i < length (view st)"
  obtains st' where "heap_Remove Less Swap Len Pop (int i) st = Some (item (view st ! i), st')" and "heap_ok st'"
    and "mset (view st) = add_mset (view st ! i) (mset (view st'))"
proof -
  obtain n where n: "length (view st) = Suc n"
    using assms(2) by (cases "view st") auto
  define st1 where "st1 = (if n = i then st else heap_sift Less Swap n i (Swap st i n))"
  have inv: "inv st"
    using assms(1) by (simp add: heap_ok_def)
  have run: "heap_Remove Less Swap Len Pop (int i) st = Some (Pop st1)"
    using assms(2) n by (simp add: heap_Remove_def Len_view st1_def)
  have "kept n (Swap st i n) st1 \<and> heap_upto n (view st1)"
  proof (cases "n = i")
    case True
    have "swap_at (view st) i i = view st"
      by (simp add: swap_at_def)
    then show ?thesis
      using True inv n assms(1) view_Swap [OF inv, of i i] by (simp add: st1_def kept_def heap_ok_def heap_upto_def)
  next
    case False
    then have "i < n"
      using assms(2) n by simp
    with heap_sift_correct [OF Swap_last_hole(2) _ _ Swap_last_hole(1)] Swap_last_hole [OF assms(1) _ n]
    show ?thesis
      using False assms(1) n by (simp add: st1_def)
  qed
  with take_off [of n st i st1] run inv n assms(2) that [of "snd (Pop st1)"] show ?thesis
    by (metis less_Suc_eq_le prod.collapse)
qed

lemma Pop_ok:
  assumes "heap_ok st" and "view st \<noteq> []"
  obtains st' where "heap_Pop Less Swap Len Pop st = Some (item (view st ! 0), st')" and "heap_ok st'"
    and "mset (view st) = add_mset (view st ! 0) (mset (view st'))"
proof -
  obtain n where n: "length (view st) = Suc n"
    using assms(2) by (cases "view st") auto
  define st1 where "st1 = fst (heap_down Less Swap n 0 (Swap st 0 n))"
  have inv: "inv st"
    using assms(1) by (simp add: heap_ok_def)
  have run: "heap_Pop Less Swap Len Pop st = Some (Pop st1)"
    using n by (simp add: heap_Pop_def Len_view st1_def)
  have sw: "inv (Swap st 0 n)" "length (view (Swap st 0 n)) = Suc n"
    using inv n inv_Swap view_Swap by simp_all
  have "hole_at n 0 (view (Swap st 0 n))"
    using Swap_last_hole(1) [OF assms(1) _ n] by (cases n) (auto simp: hole_at_def)
  with heap_down_top [OF sw(1), of n] sw(2) have "kept n (Swap st 0 n) st1 \<and> heap_upto n (view st1)"
    by (simp add: st1_def)
  with take_off [of n st 0 st1] run inv n that [of "snd (Pop st1)"] show ?thesis
    by (metis le0 prod.collapse)
qed

lemma Fix_ok:
  assumes "inv st" and "heap_upto (length xs) xs" and "length (view st) = length xs" and "i < length xs"
    and "\<And>k. k < length xs \<Longrightarrow> k \<noteq> i \<Longrightarrow> view st ! k = xs ! k"
  obtains st' where "heap_Fix Less Swap Len (int i) st = Some st'" and "heap_ok st'" and "mset (view st') = mset (view st)"
proof -
  have "hole_at (length xs) i (view st)"
    using heap_update_hole [OF assms(2)] assms(5) by blast
  then have "heap_upto (length xs) (view (heap_sift Less Swap (length xs) i st)) \<and> kept (length xs) st (heap_sift Less Swap (length xs) i st)"
    using heap_sift_correct assms(1,3,4) by simp
  then show ?thesis
    using that [of "heap_sift Less Swap (length xs) i st"] assms(3,4) kept_length [of "length xs" st]
    by (auto simp: heap_Fix_def Len_view heap_ok_def kept_def)
qed

lemma top_best: "heap_ok st \<Longrightarrow> x \<in> set (view st) \<Longrightarrow> \<not> better x (view st ! 0)"
  using heap_top by (metis heap_ok_def in_set_conv_nth)

end

end
