(* ===== verification/Opportunity_Queue.thy ===== *)
theory Opportunity_Queue
  imports Go_Heap Providers "HOL-Library.AList"
begin

text \<open>
  The queue of scored arbitrage opportunities (\<open>arb/opportunity_queue.go\<close>): a binary heap of
  pointers ordered by priority and age, an index by identifier, and the identifiers being executed
  and completed with their times.

  The queue mutates its items through pointers (every swap writes the position into the item,
  \<open>UpdatePriority\<close> the priority), so the heap is a list of addresses and a store. Of a scored
  opportunity the fields the queue reads are kept. The Go maps \<open>executing\<close> and \<open>completed\<close>, whose
  sizes matter, are association lists with distinct keys. A run-time panic is \<open>None\<close>.
\<close>

type_synonym opp_id = bytes

record ScoredOpportunity =
  so_ID :: opp_id
  so_DetectedAt :: int
  so_ExpiresAt :: int
  so_Priority :: int

record QueuedOpportunity =
  qo_opp :: ScoredOpportunity
  qo_index :: int
  qo_queuedAt :: int

record opportunityHeap =
  oh_items :: "nat list"
  oh_store :: "nat \<Rightarrow> QueuedOpportunity"

definition opp_Len :: "opportunityHeap \<Rightarrow> nat" where
  "opp_Len h = length (oh_items h)"

definition opp_at :: "opportunityHeap \<Rightarrow> nat \<Rightarrow> ScoredOpportunity" where
  "opp_at h i = qo_opp (oh_store h (oh_items h ! i))"

definition opp_Less :: "opportunityHeap \<Rightarrow> nat \<Rightarrow> nat \<Rightarrow> bool" where
  "opp_Less h i j =
     (if so_Priority (opp_at h i) \<noteq> so_Priority (opp_at h j) then so_Priority (opp_at h i) > so_Priority (opp_at h j)
      else so_DetectedAt (opp_at h i) < so_DetectedAt (opp_at h j))"

definition set_index :: "nat \<Rightarrow> int \<Rightarrow> (nat \<Rightarrow> QueuedOpportunity) \<Rightarrow> nat \<Rightarrow> QueuedOpportunity" where
  "set_index p i store = store(p := (store p)\<lparr>qo_index := i\<rparr>)"

definition opp_Swap :: "opportunityHeap \<Rightarrow> nat \<Rightarrow> nat \<Rightarrow> opportunityHeap" where
  "opp_Swap h i j =
     (let items = swap_at (oh_items h) i j
      in \<lparr>oh_items = items, oh_store = set_index (items ! j) (int j) (set_index (items ! i) (int i) (oh_store h))\<rparr>)"

definition opp_Push :: "nat \<Rightarrow> opportunityHeap \<Rightarrow> opportunityHeap" where
  "opp_Push item h =
     (let n = length (oh_items h)
      in \<lparr>oh_items = oh_items h @ [item], oh_store = set_index item (int n) (oh_store h)\<rparr>)"

definition opp_Pop :: "opportunityHeap \<Rightarrow> nat \<times> opportunityHeap" where
  "opp_Pop h =
     (let item = last (oh_items h)
      in (item, \<lparr>oh_items = butlast (oh_items h), oh_store = set_index item (-1) (oh_store h)\<rparr>))"

text \<open>The operations of \<open>container/heap\<close> on this heap.\<close>

definition Heap_Push :: "nat \<Rightarrow> opportunityHeap \<Rightarrow> opportunityHeap" where
  "Heap_Push = heap_Push opp_Less opp_Swap opp_Len opp_Push"

definition Heap_Pop :: "opportunityHeap \<Rightarrow> (nat \<times> opportunityHeap) option" where
  "Heap_Pop = heap_Pop opp_Less opp_Swap opp_Len opp_Pop"

definition Heap_Remove :: "int \<Rightarrow> opportunityHeap \<Rightarrow> (nat \<times> opportunityHeap) option" where
  "Heap_Remove = heap_Remove opp_Less opp_Swap opp_Len opp_Pop"

definition Heap_Fix :: "int \<Rightarrow> opportunityHeap \<Rightarrow> opportunityHeap option" where
  "Heap_Fix = heap_Fix opp_Less opp_Swap opp_Len"

section \<open>The queue\<close>

record OpportunityQueue =
  oq_items :: opportunityHeap
  oq_next :: nat
  oq_byID :: "opp_id \<Rightarrow> nat option"
  oq_executing :: "(opp_id \<times> int) list"
  oq_completed :: "(opp_id \<times> int) list"
  oq_maxSize :: int64
  oq_maxConcurrent :: int64
  oq_executionTimeout :: int64
  oq_cooldownPeriod :: int64
  oq_enqueued :: uint64
  oq_dequeued :: uint64
  oq_expired :: uint64
  oq_duplicates :: uint64

record OpportunityQueueConfig =
  qc_MaxSize :: int64
  qc_MaxConcurrent :: int64
  qc_ExecutionTimeout :: int64
  qc_CooldownPeriod :: int64

definition second :: int64 where
  "second = 1000000000"

definition DefaultOpportunityQueueConfig :: OpportunityQueueConfig where
  "DefaultOpportunityQueueConfig =
     \<lparr>qc_MaxSize = 100, qc_MaxConcurrent = 3, qc_ExecutionTimeout = 30 * second, qc_CooldownPeriod = 5 * second\<rparr>"

definition nil_queued :: QueuedOpportunity where
  \<comment> \<open>what the unused addresses of the store hold\<close>
  "nil_queued = \<lparr>qo_opp = \<lparr>so_ID = [], so_DetectedAt = 0, so_ExpiresAt = 0, so_Priority = 0\<rparr>, qo_index = 0, qo_queuedAt = 0\<rparr>"

definition NewOpportunityQueue :: "OpportunityQueueConfig option \<Rightarrow> OpportunityQueue" where
  "NewOpportunityQueue config =
     (let config = (case config of None \<Rightarrow> DefaultOpportunityQueueConfig | Some c \<Rightarrow> c)
      in \<lparr>oq_items = \<lparr>oh_items = [], oh_store = (\<lambda>_. nil_queued)\<rparr>, oq_next = 0, oq_byID = Map.empty,
          oq_executing = [], oq_completed = [], oq_maxSize = qc_MaxSize config,
          oq_maxConcurrent = qc_MaxConcurrent config, oq_executionTimeout = qc_ExecutionTimeout config,
          oq_cooldownPeriod = qc_CooldownPeriod config, oq_enqueued = 0, oq_dequeued = 0, oq_expired = 0,
          oq_duplicates = 0\<rparr>)"

abbreviation queue_size :: "OpportunityQueue \<Rightarrow> nat" where
  "queue_size q \<equiv> length (oh_items (oq_items q))"

text \<open>
  The common part of the removals: \<open>heap.Remove\<close> at an index, and the identifier of the given item
  taken out of the index.
\<close>

definition drop_item :: "int \<Rightarrow> nat \<Rightarrow> OpportunityQueue \<Rightarrow> OpportunityQueue option" where
  "drop_item i p q =
     (case Heap_Remove i (oq_items q) of
        None \<Rightarrow> None
      | Some (_, h) \<Rightarrow> Some (q\<lparr>oq_items := h, oq_byID := (oq_byID q)(so_ID (qo_opp (oh_store h p)) := None)\<rparr>))"

text \<open>\<open>Enqueue\<close>: its two readings of the clock are \<open>now\<close> and \<open>now'\<close>.\<close>

definition make_room :: "ScoredOpportunity \<Rightarrow> OpportunityQueue \<Rightarrow> (OpportunityQueue \<times> bool) option" where
  \<comment> \<open>the branch of a full queue; False when the newcomer is refused\<close>
  "make_room opp q =
     (if int (queue_size q) \<ge> oq_maxSize q \<and> queue_size q > 0 then
        let lowest = last (oh_items (oq_items q)); low = oh_store (oq_items q) lowest
        in if so_Priority opp \<le> so_Priority (qo_opp low) then Some (q, False)
           else map_option (\<lambda>q'. (q'\<lparr>oq_expired := oq_expired q' + 1\<rparr>, True)) (drop_item (qo_index low) lowest q)
      else Some (q, True))"

definition push_new :: "int \<Rightarrow> ScoredOpportunity \<Rightarrow> OpportunityQueue \<Rightarrow> OpportunityQueue" where
  "push_new now opp q =
     (let p = oq_next q; h = oq_items q;
          h' = h\<lparr>oh_store := (oh_store h)(p := \<lparr>qo_opp = opp, qo_index = 0, qo_queuedAt = now\<rparr>)\<rparr>
      in q\<lparr>oq_items := Heap_Push p h', oq_next := p + 1, oq_byID := (oq_byID q)(so_ID opp \<mapsto> p),
           oq_enqueued := oq_enqueued q + 1\<rparr>)"

definition Enqueue :: "int \<Rightarrow> int \<Rightarrow> ScoredOpportunity \<Rightarrow> OpportunityQueue \<Rightarrow> (OpportunityQueue \<times> bool) option" where
  "Enqueue now now' opp q =
     (if oq_byID q (so_ID opp) \<noteq> None then Some (q\<lparr>oq_duplicates := oq_duplicates q + 1\<rparr>, False)
      else
        let cooling = (case map_of (oq_completed q) (so_ID opp) of
              None \<Rightarrow> False
            | Some completedAt \<Rightarrow> time_sub now completedAt < oq_cooldownPeriod q)
        in if cooling then Some (q, False)
           else case make_room opp (q\<lparr>oq_completed := AList.delete (so_ID opp) (oq_completed q)\<rparr>) of
             None \<Rightarrow> None
           | Some (q', False) \<Rightarrow> Some (q', False)
           | Some (q', True) \<Rightarrow> Some (push_new now' opp q', True))"

text \<open>\<open>removeExpired\<close>: the running executions that took too long, then the expired items.\<close>

definition timed_out :: "int \<Rightarrow> OpportunityQueue \<Rightarrow> opp_id \<times> int \<Rightarrow> bool" where
  "timed_out now q e \<longleftrightarrow> time_sub now (snd e) > oq_executionTimeout q"

definition expire_executing :: "int \<Rightarrow> OpportunityQueue \<Rightarrow> OpportunityQueue" where
  "expire_executing now q =
     q\<lparr>oq_executing := filter (\<lambda>e. \<not> timed_out now q e) (oq_executing q),
       oq_completed := fold (\<lambda>e. AList.update (fst e) now) (filter (timed_out now q) (oq_executing q)) (oq_completed q)\<rparr>"

definition expired_indices :: "int \<Rightarrow> OpportunityQueue \<Rightarrow> nat list" where
  "expired_indices now q = filter (\<lambda>i. now > so_ExpiresAt (opp_at (oq_items q) i)) [0..<queue_size q]"

fun remove_indices :: "nat list \<Rightarrow> OpportunityQueue \<Rightarrow> OpportunityQueue option" where
  "remove_indices [] q = Some q"
| "remove_indices (idx # toRemove) q =
     (if idx \<ge> queue_size q then None
      else case drop_item (int idx) (oh_items (oq_items q) ! idx) q of
        None \<Rightarrow> None
      | Some q' \<Rightarrow> remove_indices toRemove (q'\<lparr>oq_expired := oq_expired q' + 1\<rparr>))"

definition removeExpired :: "int \<Rightarrow> OpportunityQueue \<Rightarrow> OpportunityQueue option" where
  "removeExpired now q =
     (let q1 = expire_executing now q in remove_indices (rev (expired_indices now q1)) q1)"

definition Dequeue :: "int \<Rightarrow> int \<Rightarrow> OpportunityQueue \<Rightarrow> (OpportunityQueue \<times> ScoredOpportunity option) option" where
  "Dequeue now now' q =
     (if int (length (oq_executing q)) \<ge> oq_maxConcurrent q then Some (q, None)
      else case removeExpired now q of
        None \<Rightarrow> None
      | Some q1 \<Rightarrow>
          if queue_size q1 = 0 then Some (q1, None)
          else (case Heap_Pop (oq_items q1) of
            None \<Rightarrow> None
          | Some (p, h) \<Rightarrow>
              let opp = qo_opp (oh_store h p)
              in Some (q1\<lparr>oq_items := h, oq_byID := (oq_byID q1)(so_ID opp := None),
                          oq_dequeued := oq_dequeued q1 + 1,
                          oq_executing := AList.update (so_ID opp) now' (oq_executing q1)\<rparr>, Some opp)))"

definition Peek :: "OpportunityQueue \<Rightarrow> ScoredOpportunity option" where
  "Peek q = (if queue_size q = 0 then None else Some (opp_at (oq_items q) 0))"

definition MarkComplete :: "int \<Rightarrow> opp_id \<Rightarrow> OpportunityQueue \<Rightarrow> OpportunityQueue" where
  "MarkComplete now oid q =
     q\<lparr>oq_executing := AList.delete oid (oq_executing q), oq_completed := AList.update oid now (oq_completed q)\<rparr>"

definition CleanCompleted :: "int \<Rightarrow> int64 \<Rightarrow> OpportunityQueue \<Rightarrow> OpportunityQueue" where
  "CleanCompleted now maxAge q =
     q\<lparr>oq_completed := filter (\<lambda>(_, completedAt). \<not> completedAt < now + wrap64 (- maxAge)) (oq_completed q)\<rparr>"

definition Queue_Size :: "OpportunityQueue \<Rightarrow> nat" where
  "Queue_Size q = queue_size q"

definition ExecutingCount :: "OpportunityQueue \<Rightarrow> nat" where
  "ExecutingCount q = length (oq_executing q)"

definition OpportunityQueue_CanExecute :: "OpportunityQueue \<Rightarrow> bool" where
  "OpportunityQueue_CanExecute q \<longleftrightarrow> int (length (oq_executing q)) < oq_maxConcurrent q \<and> queue_size q > 0"

definition topPriorities :: "OpportunityQueue \<Rightarrow> int list" where
  \<comment> \<open>of \<open>Stats\<close>; its other entries are the sizes and counters themselves\<close>
  "topPriorities q = map (\<lambda>i. so_Priority (opp_at (oq_items q) i)) [0..<min (queue_size q) 5]"

definition GetAll :: "OpportunityQueue \<Rightarrow> ScoredOpportunity list" where
  "GetAll q = map (opp_at (oq_items q)) [0..<queue_size q]"

definition UpdatePriority :: "opp_id \<Rightarrow> int \<Rightarrow> OpportunityQueue \<Rightarrow> (OpportunityQueue \<times> bool) option" where
  "UpdatePriority oid newPriority q =
     (case oq_byID q oid of
        None \<Rightarrow> Some (q, False)
      | Some p \<Rightarrow>
          let h = oq_items q; item = oh_store h p;
              item' = item\<lparr>qo_opp := (qo_opp item)\<lparr>so_Priority := newPriority\<rparr>\<rparr>
          in map_option (\<lambda>h'. (q\<lparr>oq_items := h'\<rparr>, True))
               (Heap_Fix (qo_index item') (h\<lparr>oh_store := (oh_store h)(p := item')\<rparr>)))"

definition Queue_Remove :: "opp_id \<Rightarrow> OpportunityQueue \<Rightarrow> (OpportunityQueue \<times> bool) option" where
  "Queue_Remove oid q =
     (case oq_byID q oid of
        None \<Rightarrow> Some (q, False)
      | Some p \<Rightarrow>
          (case Heap_Remove (qo_index (oh_store (oq_items q) p)) (oq_items q) of
             None \<Rightarrow> None
           | Some (_, h) \<Rightarrow> Some (q\<lparr>oq_items := h, oq_byID := (oq_byID q)(oid := None)\<rparr>, True)))"

section \<open>The heap is a heap\<close>

definition heap_view :: "opportunityHeap \<Rightarrow> (nat \<times> ScoredOpportunity) list" where
  "heap_view h = map (\<lambda>p. (p, qo_opp (oh_store h p))) (oh_items h)"

definition positions_ok :: "opportunityHeap \<Rightarrow> bool" where
  "positions_ok h \<longleftrightarrow> distinct (oh_items h) \<and> (\<forall>i<length (oh_items h). qo_index (oh_store h (oh_items h ! i)) = int i)"

definition outranks :: "nat \<times> ScoredOpportunity \<Rightarrow> nat \<times> ScoredOpportunity \<Rightarrow> bool" where
  "outranks x y \<longleftrightarrow> so_Priority (snd x) > so_Priority (snd y) \<or>
     so_Priority (snd x) = so_Priority (snd y) \<and> so_DetectedAt (snd x) < so_DetectedAt (snd y)"

lemma length_heap_view [simp]: "length (heap_view h) = length (oh_items h)"
  by (simp add: heap_view_def)

lemma heap_view_Nil [simp]: "heap_view h = [] \<longleftrightarrow> oh_items h = []"
  by (simp add: heap_view_def)

lemma nth_heap_view: "i < length (oh_items h) \<Longrightarrow> heap_view h ! i = (oh_items h ! i, opp_at h i)"
  by (simp add: heap_view_def opp_at_def)

lemma qo_opp_set_index [simp]: "qo_opp (set_index p i store r) = qo_opp (store r)"
  by (simp add: set_index_def)

lemma qo_index_set_index: "qo_index (set_index p i store r) = (if r = p then i else qo_index (store r))"
  by (simp add: set_index_def)

lemma map_swap_at: "i < length xs \<Longrightarrow> j < length xs \<Longrightarrow> map f (swap_at xs i j) = swap_at (map f xs) i j"
  by (simp add: swap_at_def map_update)

lemma distinct_swap_at [simp]: "i < length xs \<Longrightarrow> j < length xs \<Longrightarrow> distinct (swap_at xs i j) = distinct xs"
  by (simp add: swap_at_def distinct_swap)

lemma opp_Swap_positions:
  assumes "positions_ok h" and "i < length (oh_items h)" and "j < length (oh_items h)"
  shows "positions_ok (opp_Swap h i j)"
proof -
  let ?ys = "swap_at (oh_items h) i j" and ?h = "opp_Swap h i j"
  have items: "oh_items ?h = ?ys"
    by (simp add: opp_Swap_def Let_def)
  have dist: "distinct ?ys"
    using assms by (simp add: positions_ok_def)
  have "qo_index (oh_store ?h (?ys ! k)) = int k" if k: "k < length (oh_items h)" for k
  proof -
    have same: "?ys ! k = ?ys ! l \<longleftrightarrow> k = l" if "l < length (oh_items h)" for l
      using nth_eq_iff_index_eq [OF dist, of k l] k that by simp
    have old: "?ys ! k = oh_items h ! k" if "k \<noteq> i" "k \<noteq> j"
      using nth_swap_at [OF assms(2,3), of k] that by simp
    have "qo_index (oh_store h (oh_items h ! k)) = int k"
      using assms(1) k by (simp add: positions_ok_def)
    then show ?thesis
      using same [OF assms(2)] same [OF assms(3)] old by (auto simp: opp_Swap_def Let_def qo_index_set_index)
  qed
  then show ?thesis
    using dist by (simp add: positions_ok_def items)
qed

interpretation oheap: heap_container opp_Less opp_Swap heap_view positions_ok outranks opp_Len opp_Push opp_Pop fst
    "\<lambda>p h. p \<notin> set (oh_items h)" "\<lambda>p h. (p, qo_opp (oh_store h p))"
proof (unfold_locales, goal_cases)
  case (1 h i j)
  then show ?case
    by (auto simp: opp_Less_def outranks_def nth_heap_view)
next
  case (2 h i j)
  then show ?case
    by (simp add: heap_view_def opp_Swap_def Let_def map_swap_at)
next
  case (3 h i j)
  then show ?case
    by (simp add: opp_Swap_positions)
next
  case (11 h)
  then show ?case
    by (simp add: heap_view_def opp_Pop_def Let_def map_butlast)
next
  case (12 h)
  then show ?case
    by (auto simp: positions_ok_def opp_Pop_def Let_def qo_index_set_index nth_butlast distinct_butlast
      last_conv_nth nth_eq_iff_index_eq)
next
  case (9 h p)
  then show ?case
    by (auto simp: positions_ok_def opp_Push_def Let_def qo_index_set_index nth_append in_set_conv_nth)
qed (auto simp: outranks_def opp_Len_def heap_view_def opp_Push_def opp_Pop_def Let_def last_map)

lemma Heap_Remove_opps: "Heap_Remove i h = Some (p, h') \<Longrightarrow> qo_opp (oh_store h' r) = qo_opp (oh_store h r)"
  unfolding Heap_Remove_def
  by (erule heap_Remove_keeps [where f = "\<lambda>h. qo_opp (oh_store h r)"]) (simp_all add: opp_Swap_def opp_Pop_def Let_def)

lemma Heap_Pop_opps: "Heap_Pop h = Some (p, h') \<Longrightarrow> qo_opp (oh_store h' r) = qo_opp (oh_store h r)"
  unfolding Heap_Pop_def
  by (erule heap_Pop_keeps [where f = "\<lambda>h. qo_opp (oh_store h r)"]) (simp_all add: opp_Swap_def opp_Pop_def Let_def)

section \<open>The invariant\<close>

abbreviation queue_view :: "OpportunityQueue \<Rightarrow> (nat \<times> ScoredOpportunity) list" where
  "queue_view q \<equiv> heap_view (oq_items q)"

definition id_indexed :: "(opp_id \<Rightarrow> nat option) \<Rightarrow> (nat \<times> ScoredOpportunity) set \<Rightarrow> bool" where
  \<comment> \<open>the index by identifier and the heap hold the same items\<close>
  "id_indexed m V \<longleftrightarrow> (\<forall>oid p. m oid = Some p \<longleftrightarrow> (\<exists>opp. (p, opp) \<in> V \<and> so_ID opp = oid))"

definition queue_ok :: "OpportunityQueue \<Rightarrow> bool" where
  "queue_ok q \<longleftrightarrow> oheap.heap_ok (oq_items q) \<and> id_indexed (oq_byID q) (set (queue_view q)) \<and>
     (\<forall>p\<in>set (oh_items (oq_items q)). p < oq_next q) \<and>
     distinct (map fst (oq_executing q)) \<and> distinct (map fst (oq_completed q))"

lemma items_view: "oh_items h = map fst (heap_view h)"
  by (simp add: heap_view_def comp_def)

lemma view_distinct: "oheap.heap_ok h \<Longrightarrow> distinct (map fst (heap_view h))"
  by (simp add: items_view [symmetric] oheap.heap_ok_def positions_ok_def)

lemma id_indexed_remove:
  assumes "id_indexed m V" and "V = insert (p, opp) V'" and "p \<notin> fst ` V'"
  shows "id_indexed (m(so_ID opp := None)) V'"
  unfolding id_indexed_def
proof (intro allI)
  fix oid r
  have "m (so_ID opp) = Some p"
    using assms(1,2) unfolding id_indexed_def by blast
  then have "so_ID o' \<noteq> so_ID opp" if "(r', o') \<in> V'" for r' o'
    using assms that unfolding id_indexed_def by (metis fst_conv image_eqI insertI2 option.inject)
  then show "(m(so_ID opp := None)) oid = Some r \<longleftrightarrow> (\<exists>o'. (r, o') \<in> V' \<and> so_ID o' = oid)"
    using assms(1,2) unfolding id_indexed_def by auto
qed

lemma view_remove:
  assumes "oheap.heap_ok h" and "mset (heap_view h) = add_mset (p, opp) (mset (heap_view h'))"
  shows "set (heap_view h) = insert (p, opp) (set (heap_view h')) \<and> p \<notin> fst ` set (heap_view h')"
proof -
  have "mset (map fst (heap_view h)) = add_mset p (mset (map fst (heap_view h')))"
    using assms(2) by simp
  then have "distinct (p # map fst (heap_view h'))"
    using view_distinct [OF assms(1)] by (metis mset.simps(2) mset_eq_imp_distinct_iff)
  moreover have "set (heap_view h) = insert (p, opp) (set (heap_view h'))"
    using assms(2) by (metis set_mset_add_mset_insert set_mset_mset)
  ultimately show ?thesis
    by simp
qed

text \<open>Taking an item off the heap and out of the index keeps the invariant.\<close>

lemma queue_ok_removed:
  assumes "queue_ok q" and "mset (queue_view q) = add_mset (p, opp) (mset (heap_view h))" and "oheap.heap_ok h"
    and "distinct (map fst ex)"
  shows "queue_ok (q\<lparr>oq_items := h, oq_byID := (oq_byID q)(so_ID opp := None), oq_executing := ex, oq_expired := n, oq_dequeued := n'\<rparr>)"
proof -
  have "oheap.heap_ok (oq_items q)"
    using assms(1) by (simp add: queue_ok_def)
  from view_remove [OF this assms(2)]
  have V: "set (queue_view q) = insert (p, opp) (set (heap_view h))" "p \<notin> fst ` set (heap_view h)"
    by blast+
  then have "set (oh_items h) \<subseteq> set (oh_items (oq_items q))"
    by (auto simp: items_view)
  then show ?thesis
    using id_indexed_remove [OF _ V] assms by (auto simp: queue_ok_def)
qed

lemma drop_item_ok:
  assumes "queue_ok q" and "i < queue_size q" and "p = oh_items (oq_items q) ! i"
  obtains q' where "drop_item (int i) p q = Some q'" and "\<And>n. queue_ok (q'\<lparr>oq_expired := n\<rparr>)"
    and "mset (queue_view q) = add_mset (p, opp_at (oq_items q) i) (mset (queue_view q'))"
    and "oq_executing q' = oq_executing q" "oq_completed q' = oq_completed q" "oq_maxSize q' = oq_maxSize q"
    "oq_maxConcurrent q' = oq_maxConcurrent q" "oq_byID q' = (oq_byID q)(so_ID (opp_at (oq_items q) i) := None)" "oq_next q' = oq_next q"
proof -
  let ?h = "oq_items q" and ?opp = "opp_at (oq_items q) i"
  obtain h where h: "Heap_Remove (int i) ?h = Some (p, h)" "oheap.heap_ok h"
      "mset (heap_view ?h) = add_mset (p, ?opp) (mset (heap_view h))"
    using oheap.Remove_ok [of ?h i] assms by (auto simp: queue_ok_def Heap_Remove_def nth_heap_view)
  have opp: "qo_opp (oh_store h p) = ?opp"
    using Heap_Remove_opps [OF h(1)] assms(3) by (simp add: opp_at_def)
  let ?q = "q\<lparr>oq_items := h, oq_byID := (oq_byID q)(so_ID ?opp := None)\<rparr>"
  have "queue_ok (?q\<lparr>oq_expired := n\<rparr>)" for n
    using queue_ok_removed [OF assms(1) h(3,2), of "oq_executing q" n "oq_dequeued q"] assms(1)
    by (simp add: queue_ok_def)
  then show ?thesis
    using that [of ?q] h opp by (simp add: drop_item_def)
qed

definition within_limits :: "OpportunityQueue \<Rightarrow> bool" where
  \<comment> \<open>an empty queue takes one item whatever \<open>maxSize\<close> is\<close>
  "within_limits q \<longleftrightarrow> int (queue_size q) \<le> max 1 (oq_maxSize q) \<and> int (length (oq_executing q)) \<le> max 0 (oq_maxConcurrent q)"

lemma size_of_mset: "mset (heap_view h) = add_mset x (mset (heap_view h')) \<Longrightarrow> length (oh_items h) = Suc (length (oh_items h'))"
  by (metis length_heap_view size_add_mset size_mset)

lemma index_in_heap: "queue_ok q \<Longrightarrow> i < queue_size q \<Longrightarrow> qo_index (oh_store (oq_items q) (oh_items (oq_items q) ! i)) = int i"
  by (simp add: queue_ok_def oheap.heap_ok_def positions_ok_def)

lemma make_room_ok:
  assumes "queue_ok q" and "within_limits q"
  obtains q' b where "make_room opp q = Some (q', b)" and "queue_ok q'" and "within_limits q'"
    and "b \<Longrightarrow> int (queue_size q') < max 1 (oq_maxSize q')" and "\<And>oid. oq_byID q oid = None \<Longrightarrow> oq_byID q' oid = None"
    and "\<not> b \<Longrightarrow> q' = q"
proof (cases "int (queue_size q) \<ge> oq_maxSize q \<and> queue_size q > 0")
  case True
  let ?i = "queue_size q - 1" and ?p = "last (oh_items (oq_items q))"
  have p: "?p = oh_items (oq_items q) ! ?i" "?i < queue_size q"
    using True by (auto simp: last_conv_nth)
  obtain q' where q': "drop_item (int ?i) ?p q = Some q'" "\<And>n. queue_ok (q'\<lparr>oq_expired := n\<rparr>)"
      "mset (queue_view q) = add_mset (?p, opp_at (oq_items q) ?i) (mset (queue_view q'))"
      "oq_executing q' = oq_executing q" "oq_maxSize q' = oq_maxSize q" "oq_maxConcurrent q' = oq_maxConcurrent q"
      "oq_byID q' = (oq_byID q)(so_ID (opp_at (oq_items q) ?i) := None)"
    by (rule drop_item_ok [OF assms(1) p(2,1)]) blast
  have index: "qo_index (oh_store (oq_items q) ?p) = int ?i"
    using index_in_heap [OF assms(1) p(2)] p(1) by simp
  show ?thesis
  proof (cases "so_Priority opp \<le> so_Priority (qo_opp (oh_store (oq_items q) ?p))")
    case keep: True
    then show ?thesis
      using that [of q False] True assms by (simp add: make_room_def Let_def)
  next
    case False
    then show ?thesis
      using that [of "q'\<lparr>oq_expired := oq_expired q' + 1\<rparr>" True] q' True index assms(2) size_of_mset [OF q'(3)]
      by (auto simp: make_room_def Let_def within_limits_def)
  qed
next
  case False
  then show ?thesis
    using that [of q True] assms by (auto simp: make_room_def)
qed

lemma push_new_ok:
  assumes "queue_ok q" and "oq_byID q (so_ID opp) = None"
  shows "queue_ok (push_new now opp q) \<and> mset (queue_view (push_new now opp q)) = add_mset (oq_next q, opp) (mset (queue_view q))"
proof -
  let ?p = "oq_next q" and ?h = "oq_items q"
  let ?h' = "?h\<lparr>oh_store := (oh_store ?h)(?p := \<lparr>qo_opp = opp, qo_index = 0, qo_queuedAt = now\<rparr>)\<rparr>"
  have new: "?p \<notin> set (oh_items ?h)"
    using assms(1) by (auto simp: queue_ok_def)
  then have view: "heap_view ?h' = heap_view ?h"
    by (auto simp: heap_view_def)
  have "positions_ok ?h'"
    using assms(1) new by (auto simp: queue_ok_def oheap.heap_ok_def positions_ok_def in_set_conv_nth)
  then have "oheap.heap_ok ?h'"
    using assms(1) view by (simp add: queue_ok_def oheap.heap_ok_def)
  with oheap.Push_ok [of ?h' ?p] new view
  have push: "oheap.heap_ok (Heap_Push ?p ?h')" "mset (heap_view (Heap_Push ?p ?h')) = add_mset (?p, opp) (mset (heap_view ?h))"
    by (simp_all add: Heap_Push_def)
  then have V: "set (heap_view (Heap_Push ?p ?h')) = insert (?p, opp) (set (heap_view ?h))"
    by (metis set_mset_add_mset_insert set_mset_mset)
  have "id_indexed ((oq_byID q)(so_ID opp \<mapsto> ?p)) (set (heap_view (Heap_Push ?p ?h')))"
    using assms unfolding V queue_ok_def id_indexed_def by (auto; metis option.distinct(1))
  moreover have "\<forall>r\<in>set (oh_items (Heap_Push ?p ?h')). r < ?p + 1"
    using assms(1) V by (auto simp: items_view queue_ok_def)
  ultimately show ?thesis
    using push assms(1) by (simp add: push_new_def Let_def queue_ok_def)
qed

lemma Enqueue_ok:
  assumes "queue_ok q" and "within_limits q"
  obtains q' b where "Enqueue now now' opp q = Some (q', b)" and "queue_ok q'" and "within_limits q'"
proof -
  let ?q = "q\<lparr>oq_completed := AList.delete (so_ID opp) (oq_completed q)\<rparr>"
  have q: "queue_ok ?q" "within_limits ?q"
    using assms by (simp_all add: queue_ok_def within_limits_def AList.distinct_delete)
  obtain q1 b where room: "make_room opp ?q = Some (q1, b)" "queue_ok q1" "within_limits q1"
      "b \<Longrightarrow> int (queue_size q1) < max 1 (oq_maxSize q1)" "oq_byID ?q (so_ID opp) = None \<Longrightarrow> oq_byID q1 (so_ID opp) = None"
    using make_room_ok [OF q] by metis
  show ?thesis
  proof (cases "oq_byID q (so_ID opp)")
    case None
    have push: "queue_ok (push_new now' opp q1) \<and> within_limits (push_new now' opp q1)" if b
      using push_new_ok [OF room(2), of opp now'] room(3,5) room(4) [OF that] None
      by (auto simp: within_limits_def push_new_def Let_def dest!: size_of_mset [of "Heap_Push _ _"])
    show ?thesis
    proof (cases "case map_of (oq_completed q) (so_ID opp) of None \<Rightarrow> False
        | Some completedAt \<Rightarrow> time_sub now completedAt < oq_cooldownPeriod q")
      case True
      then have "Enqueue now now' opp q = Some (q, False)"
        using None by (simp add: Enqueue_def)
      then show ?thesis
        using that assms by blast
    next
      case False
      then have "Enqueue now now' opp q = Some (if b then push_new now' opp q1 else q1, b)"
        using None room(1) by (cases b) (simp_all add: Enqueue_def Let_def)
      then show ?thesis
        by (rule that) (use room(2,3) push in \<open>cases b; simp\<close>)+
    qed
  next
    case (Some p)
    then show ?thesis
      using that [of "q\<lparr>oq_duplicates := oq_duplicates q + 1\<rparr>" False] assms
      by (simp add: Enqueue_def queue_ok_def within_limits_def)
  qed
qed

lemma length_AList_update: "length (AList.update k v al) \<le> Suc (length al)"
  by (induction al) auto

lemma distinct_fold_update: "distinct (map fst al) \<Longrightarrow> distinct (map fst (fold (\<lambda>e. AList.update (fst e) now) es al))"
  by (induction es arbitrary: al) (simp_all add: AList.distinct_update)

lemma expire_executing_ok:
  "queue_ok q \<Longrightarrow> queue_ok (expire_executing now q)"
  "within_limits q \<Longrightarrow> within_limits (expire_executing now q)"
proof -
  show "queue_ok q \<Longrightarrow> queue_ok (expire_executing now q)"
    by (simp add: queue_ok_def expire_executing_def distinct_fold_update distinct_map_filter)
  have "length (filter (\<lambda>e. \<not> timed_out now q e) (oq_executing q)) \<le> length (oq_executing q)"
    by (rule length_filter_le)
  then show "within_limits q \<Longrightarrow> within_limits (expire_executing now q)"
    by (auto simp: within_limits_def expire_executing_def le_max_iff_disj simp del: length_filter_le)
qed

lemma remove_indices_ok:
  assumes "queue_ok q" and "within_limits q" and "sorted_wrt (>) idxs" and "\<And>i. i \<in> set idxs \<Longrightarrow> i < queue_size q"
  obtains q' where "remove_indices idxs q = Some q'" and "queue_ok q'" and "within_limits q'"
    and "queue_size q' + length idxs = queue_size q" and "mset (queue_view q') \<subseteq># mset (queue_view q)"
    and "oq_executing q' = oq_executing q" and "oq_maxConcurrent q' = oq_maxConcurrent q"
  using assms
proof (induction idxs arbitrary: q thesis)
  case Nil
  then show ?case
    by simp
next
  case (Cons i idxs)
  let ?p = "oh_items (oq_items q) ! i"
  have i: "i < queue_size q" "\<And>k. k \<in> set idxs \<Longrightarrow> k < i"
    using Cons.prems(4,5) by auto
  obtain q1 where q1: "drop_item (int i) ?p q = Some q1" "\<And>n. queue_ok (q1\<lparr>oq_expired := n\<rparr>)"
      "mset (queue_view q) = add_mset (?p, opp_at (oq_items q) i) (mset (queue_view q1))"
      "oq_executing q1 = oq_executing q" "oq_maxSize q1 = oq_maxSize q" "oq_maxConcurrent q1 = oq_maxConcurrent q"
    by (rule drop_item_ok [OF Cons.prems(2) i(1) refl]) blast
  let ?q = "q1\<lparr>oq_expired := oq_expired q1 + 1\<rparr>"
  have size: "queue_size q = Suc (queue_size q1)"
    using size_of_mset [OF q1(3)] .
  have lim: "within_limits ?q"
    using Cons.prems(3) q1(4-6) size by (simp add: within_limits_def)
  have small: "k < queue_size ?q" if "k \<in> set idxs" for k
    using i that size by fastforce
  obtain q' where "remove_indices idxs ?q = Some q'" "queue_ok q'" "within_limits q'"
      "queue_size q' + length idxs = queue_size ?q" "mset (queue_view q') \<subseteq># mset (queue_view ?q)"
      "oq_executing q' = oq_executing ?q" "oq_maxConcurrent q' = oq_maxConcurrent ?q"
    using Cons.IH [OF _ q1(2) lim _ small] Cons.prems(4) by auto
  moreover from this(5) have "mset (queue_view q') \<subseteq># mset (queue_view q)"
    unfolding q1(3) using subset_mset.order_trans [OF _ mset_subset_eq_add_right, of _ _ "{#_#}"] by fastforce
  ultimately show ?case
    using Cons.prems(1) [of q'] q1(1,4,6) i(1) size by simp
qed

lemma removeExpired_ok:
  assumes "queue_ok q" and "within_limits q"
  obtains q' where "removeExpired now q = Some q'" and "queue_ok q'" and "within_limits q'"
    and "queue_size q' + length (expired_indices now q) = queue_size q" and "mset (queue_view q') \<subseteq># mset (queue_view q)"
    and "length (oq_executing q') \<le> length (oq_executing q)" and "oq_maxConcurrent q' = oq_maxConcurrent q"
proof -
  let ?q = "expire_executing now q"
  have same: "oq_items ?q = oq_items q" "oq_maxConcurrent ?q = oq_maxConcurrent q"
      "length (oq_executing ?q) \<le> length (oq_executing q)"
    by (simp_all add: expire_executing_def)
  have idx: "expired_indices now ?q = expired_indices now q"
    by (simp add: expired_indices_def same)
  have "sorted_wrt (>) (rev (expired_indices now q))"
    unfolding sorted_wrt_rev expired_indices_def
    by (rule sorted_wrt_filter) (simp add: sorted_wrt_upt)
  moreover have "i < queue_size ?q" if "i \<in> set (rev (expired_indices now q))" for i
    using that by (auto simp: expired_indices_def same)
  ultimately obtain q' where "remove_indices (rev (expired_indices now q)) ?q = Some q'" "queue_ok q'" "within_limits q'"
      "queue_size q' + length (rev (expired_indices now q)) = queue_size ?q" "mset (queue_view q') \<subseteq># mset (queue_view ?q)"
      "oq_executing q' = oq_executing ?q" "oq_maxConcurrent q' = oq_maxConcurrent ?q"
    using remove_indices_ok [OF expire_executing_ok(1) [OF assms(1)] expire_executing_ok(2) [OF assms(2)]] by blast
  then show ?thesis
    using that [of q'] same idx by (simp add: removeExpired_def Let_def)
qed

lemma Dequeue_ok:
  assumes "queue_ok q" and "within_limits q"
  obtains q' r where "Dequeue now now' q = Some (q', r)" and "queue_ok q'" and "within_limits q'"
    and "\<And>opp. r = Some opp \<Longrightarrow> \<exists>q1 p. removeExpired now q = Some q1 \<and>
      mset (queue_view q1) = add_mset (p, opp) (mset (queue_view q')) \<and>
      (\<forall>x\<in>set (queue_view q1). \<not> outranks x (p, opp))"
proof (cases "int (length (oq_executing q)) \<ge> oq_maxConcurrent q")
  case True
  then show ?thesis
    using that [of q None] assms by (simp add: Dequeue_def)
next
  case False
  obtain q1 where q1: "removeExpired now q = Some q1" "queue_ok q1" "within_limits q1"
      "length (oq_executing q1) \<le> length (oq_executing q)" "oq_maxConcurrent q1 = oq_maxConcurrent q"
    using removeExpired_ok [OF assms] by metis
  show ?thesis
  proof (cases "queue_size q1 = 0")
    case True
    then show ?thesis
      using that [of q1 None] False q1 by (simp add: Dequeue_def)
  next
    case ne: False
    let ?p = "oh_items (oq_items q1) ! 0" and ?opp = "opp_at (oq_items q1) 0"
    have top: "heap_view (oq_items q1) ! 0 = (?p, ?opp)"
      using ne by (simp add: nth_heap_view)
    have ok: "oheap.heap_ok (oq_items q1)"
      using q1(2) by (simp add: queue_ok_def)
    obtain h where h: "Heap_Pop (oq_items q1) = Some (?p, h)" "oheap.heap_ok h"
        "mset (queue_view q1) = add_mset (?p, ?opp) (mset (heap_view h))"
      using oheap.Pop_ok [OF ok] ne top by (auto simp: Heap_Pop_def)
    have opp: "qo_opp (oh_store h ?p) = ?opp"
      using Heap_Pop_opps [OF h(1)] by (simp add: opp_at_def)
    let ?ex = "AList.update (so_ID ?opp) now' (oq_executing q1)"
    let ?q = "q1\<lparr>oq_items := h, oq_byID := (oq_byID q1)(so_ID ?opp := None), oq_executing := ?ex,
      oq_expired := oq_expired q1, oq_dequeued := oq_dequeued q1 + 1\<rparr>"
    have ex: "distinct (map fst ?ex)"
      using q1(2) by (simp add: queue_ok_def AList.distinct_update)
    have "length ?ex \<le> Suc (length (oq_executing q1))"
      by (rule length_AList_update)
    then have "within_limits ?q"
      using q1(3-5) False size_of_mset [OF h(3)] by (simp add: within_limits_def)
    moreover have "queue_ok ?q"
      using queue_ok_removed [OF q1(2) h(3,2) ex] .
    moreover have "Dequeue now now' q = Some (?q, Some ?opp)"
      using False q1(1) ne h(1) opp by (simp add: Dequeue_def Let_def)
    moreover have "\<forall>x\<in>set (queue_view q1). \<not> outranks x (?p, ?opp)"
      using oheap.top_best [OF ok] top by metis
    ultimately show ?thesis
      using that [of ?q "Some ?opp"] q1(1) h(3) by auto
  qed
qed

lemma byID_position:
  assumes "queue_ok q" and "oq_byID q oid = Some p"
  obtains i where "i < queue_size q" and "p = oh_items (oq_items q) ! i" and "so_ID (opp_at (oq_items q) i) = oid"
proof -
  obtain opp where "(p, opp) \<in> set (queue_view q)" "so_ID opp = oid"
    using assms by (auto simp: queue_ok_def id_indexed_def)
  then obtain i where "i < queue_size q" "queue_view q ! i = (p, opp)" "so_ID opp = oid"
    by (metis in_set_conv_nth length_heap_view)
  then show ?thesis
    using that [of i] by (simp add: nth_heap_view)
qed

lemma Queue_Remove_ok:
  assumes "queue_ok q" and "within_limits q"
  obtains q' b where "Queue_Remove oid q = Some (q', b)" and "queue_ok q'" and "within_limits q'"
    and "oq_byID q' oid = None" and "b = (oq_byID q oid \<noteq> None)"
proof (cases "oq_byID q oid")
  case None
  then show ?thesis
    using that [of q False] assms by (simp add: Queue_Remove_def)
next
  case (Some p)
  obtain i where i: "i < queue_size q" "p = oh_items (oq_items q) ! i" "so_ID (opp_at (oq_items q) i) = oid"
    using byID_position [OF assms(1) Some] .
  obtain q1 where q1: "drop_item (int i) p q = Some q1" "\<And>n. queue_ok (q1\<lparr>oq_expired := n\<rparr>)"
      "mset (queue_view q) = add_mset (p, opp_at (oq_items q) i) (mset (queue_view q1))"
    by (rule drop_item_ok [OF assms(1) i(1,2)]) blast
  then obtain r h where h: "Heap_Remove (int i) (oq_items q) = Some (r, h)"
      "q1 = q\<lparr>oq_items := h, oq_byID := (oq_byID q)(so_ID (qo_opp (oh_store h p)) := None)\<rparr>"
    by (auto simp: drop_item_def split: option.splits)
  have oid: "so_ID (qo_opp (oh_store h p)) = oid"
    using Heap_Remove_opps [OF h(1)] i by (simp add: opp_at_def)
  then have "Queue_Remove oid q = Some (q1, True)"
    using Some h index_in_heap [OF assms(1) i(1)] i(2) by (simp add: Queue_Remove_def)
  moreover have "queue_ok q1"
    using q1(2) [of "oq_expired q1"] by simp
  moreover have "within_limits q1"
    using size_of_mset [OF q1(3)] assms(2) by (simp add: within_limits_def h(2))
  ultimately show ?thesis
    using that [of q1 True] Some h(2) oid by simp
qed

lemma UpdatePriority_ok:
  assumes "queue_ok q" and "within_limits q"
  obtains q' b where "UpdatePriority oid pr q = Some (q', b)" and "queue_ok q'" and "within_limits q'"
proof (cases "oq_byID q oid")
  case None
  then show ?thesis
    using that [of q False] assms by (simp add: UpdatePriority_def)
next
  case (Some p)
  let ?h = "oq_items q" and ?item = "oh_store (oq_items q) p"
  let ?item' = "?item\<lparr>qo_opp := (qo_opp ?item)\<lparr>so_Priority := pr\<rparr>\<rparr>"
  let ?h' = "?h\<lparr>oh_store := (oh_store ?h)(p := ?item')\<rparr>"
  let ?up = "\<lambda>x. (fst x, if fst x = p then (snd x)\<lparr>so_Priority := pr\<rparr> else snd x)"
  obtain i where i: "i < queue_size q" "p = oh_items ?h ! i" "so_ID (opp_at ?h i) = oid"
    using byID_position [OF assms(1) Some] .
  have heap: "oheap.heap_ok ?h" and dist: "distinct (oh_items ?h)"
    using assms(1) by (auto simp: queue_ok_def oheap.heap_ok_def positions_ok_def)
  have pos: "positions_ok ?h'"
    using heap by (auto simp: oheap.heap_ok_def positions_ok_def)
  have view: "heap_view ?h' = map ?up (heap_view ?h)"
    by (simp add: heap_view_def)
  have others: "heap_view ?h' ! k = heap_view ?h ! k" if "k < length (heap_view ?h)" "k \<noteq> i" for k
    using that i dist by (auto simp: heap_view_def nth_eq_iff_index_eq)
  obtain h where h: "Heap_Fix (int i) ?h' = Some h" "oheap.heap_ok h" "mset (heap_view h) = mset (heap_view ?h')"
  proof (rule oheap.Fix_ok [OF pos _ _ _ others])
    show "oheap.heap_upto (length (heap_view ?h)) (heap_view ?h)"
      using heap by (simp add: oheap.heap_ok_def)
  qed (use i(1) that in \<open>simp_all add: Heap_Fix_def\<close>)
  have V: "set (heap_view h) = ?up ` set (heap_view ?h)"
    using mset_eq_setD [OF h(3)] unfolding view set_map .
  have "id_indexed (oq_byID q) (set (heap_view h))"
    using assms(1) unfolding V queue_ok_def id_indexed_def by (force split: if_splits)
  moreover have "mset (oh_items h) = mset (oh_items ?h)"
    using arg_cong [OF h(3), of "image_mset fst"] unfolding view mset_map image_mset.compositionality items_view
    by (simp add: comp_def)
  then have "set (oh_items h) = set (oh_items ?h)" "length (oh_items h) = length (oh_items ?h)"
    by (metis set_mset_mset, metis size_mset)
  ultimately have "queue_ok (q\<lparr>oq_items := h\<rparr>)" "within_limits (q\<lparr>oq_items := h\<rparr>)"
    using assms h(2) by (simp_all add: queue_ok_def within_limits_def)
  moreover have "UpdatePriority oid pr q = Some (q\<lparr>oq_items := h\<rparr>, True)"
    using Some h(1) index_in_heap [OF assms(1) i(1)] i(2) by (simp add: UpdatePriority_def Let_def)
  ultimately show ?thesis
    using that by blast
qed

section \<open>Runs of the queue\<close>

datatype queue_call =
    Call_Enqueue int int ScoredOpportunity
  | Call_Dequeue int int
  | Call_MarkComplete int opp_id
  | Call_CleanCompleted int int64
  | Call_UpdatePriority opp_id int
  | Call_Remove opp_id

fun queue_step :: "queue_call \<Rightarrow> OpportunityQueue \<Rightarrow> OpportunityQueue option" where
  "queue_step (Call_Enqueue now now' opp) q = map_option fst (Enqueue now now' opp q)"
| "queue_step (Call_Dequeue now now') q = map_option fst (Dequeue now now' q)"
| "queue_step (Call_MarkComplete now oid) q = Some (MarkComplete now oid q)"
| "queue_step (Call_CleanCompleted now maxAge) q = Some (CleanCompleted now maxAge q)"
| "queue_step (Call_UpdatePriority oid pr) q = map_option fst (UpdatePriority oid pr q)"
| "queue_step (Call_Remove oid) q = map_option fst (Queue_Remove oid q)"

fun queue_run :: "queue_call list \<Rightarrow> OpportunityQueue \<Rightarrow> OpportunityQueue option" where
  "queue_run [] q = Some q"
| "queue_run (c # cs) q = (case queue_step c q of None \<Rightarrow> None | Some q' \<Rightarrow> queue_run cs q')"

lemma MarkComplete_ok:
  assumes "queue_ok q" and "within_limits q"
  shows "queue_ok (MarkComplete now oid q)" and "within_limits (MarkComplete now oid q)"
  using assms AList.length_delete_le [of oid "oq_executing q"]
  by (simp_all add: MarkComplete_def queue_ok_def within_limits_def AList.distinct_delete AList.distinct_update)

lemma CleanCompleted_ok:
  assumes "queue_ok q" and "within_limits q"
  shows "queue_ok (CleanCompleted now maxAge q)" and "within_limits (CleanCompleted now maxAge q)"
  using assms by (simp_all add: CleanCompleted_def queue_ok_def within_limits_def distinct_map_filter)

lemma queue_step_ok:
  assumes "queue_ok q" and "within_limits q"
  shows "\<exists>q'. queue_step c q = Some q' \<and> queue_ok q' \<and> within_limits q'"
proof (cases c)
  case (Call_Enqueue now now' opp)
  then show ?thesis
    by (auto intro: Enqueue_ok [OF assms, of now now' opp])
next
  case (Call_Dequeue now now')
  then show ?thesis
    by (auto intro: Dequeue_ok [OF assms, of now now'])
next
  case (Call_UpdatePriority oid pr)
  then show ?thesis
    by (auto intro: UpdatePriority_ok [OF assms, of oid pr])
next
  case (Call_Remove oid)
  then show ?thesis
    by (auto intro: Queue_Remove_ok [OF assms, of oid])
qed (use assms MarkComplete_ok CleanCompleted_ok in simp_all)

lemma queue_run_ok:
  assumes "queue_ok q" and "within_limits q"
  shows "\<exists>q'. queue_run cs q = Some q' \<and> queue_ok q' \<and> within_limits q'"
  using assms
proof (induction cs arbitrary: q)
  case (Cons c cs)
  then show ?case
    using queue_step_ok [OF Cons.prems, of c] by auto
qed simp

lemma New_ok: "queue_ok (NewOpportunityQueue config)" "within_limits (NewOpportunityQueue config)"
  by (simp_all add: NewOpportunityQueue_def Let_def queue_ok_def within_limits_def oheap.heap_ok_def positions_ok_def
    heap_view_def oheap.heap_upto_def id_indexed_def)

text \<open>
  C30: No sequence of calls makes the queue panic: every call finds its indices in range. The heap
  order, the positions written into the items and the index by identifier stay consistent, the
  queue keeps its size limit (one item if it is not positive) and its limit of executions.
\<close>

theorem queue_never_panics:
  "\<exists>q. queue_run calls (NewOpportunityQueue config) = Some q \<and> queue_ok q \<and> within_limits q"
  using queue_run_ok [OF New_ok] .

definition queue_contents :: "OpportunityQueue \<Rightarrow> ScoredOpportunity multiset" where
  "queue_contents q = mset (GetAll q)"

lemma queue_contents_view: "queue_contents q = image_mset snd (mset (queue_view q))"
proof -
  have "GetAll q = map snd (queue_view q)"
    by (rule nth_equalityI) (simp_all add: GetAll_def nth_heap_view)
  then show ?thesis
    by (simp add: queue_contents_def)
qed

definition precedes :: "ScoredOpportunity \<Rightarrow> ScoredOpportunity \<Rightarrow> bool" where
  \<comment> \<open>higher priority, or the same and detected earlier\<close>
  "precedes a b \<longleftrightarrow> so_Priority a > so_Priority b \<or> so_Priority a = so_Priority b \<and> so_DetectedAt a < so_DetectedAt b"

definition expired_at :: "int \<Rightarrow> ScoredOpportunity \<Rightarrow> bool" where
  "expired_at now opp \<longleftrightarrow> so_ExpiresAt opp < now"

lemma expired_contents: "filter_mset (expired_at now) (queue_contents q) = mset (map (opp_at (oq_items q)) (expired_indices now q))"
proof -
  have "filter (expired_at now) (GetAll q) = map (opp_at (oq_items q)) (expired_indices now q)"
    by (simp add: GetAll_def expired_indices_def filter_map expired_at_def comp_def)
  then show ?thesis
    by (simp add: queue_contents_def flip: mset_filter)
qed

lemma size_queue_contents: "size (queue_contents q) = queue_size q"
  by (simp add: queue_contents_def GetAll_def)

text \<open>
  What \<open>removeExpired\<close> takes out of the queue: as many items as have expired, and exactly the expired one
  when it is the only one.
\<close>

lemma removeExpired_contents:
  assumes ok: "queue_ok q" "within_limits q" and "removeExpired now q = Some q1"
  shows "\<exists>dropped. queue_contents q = queue_contents q1 + dropped \<and>
    size dropped = size (filter_mset (expired_at now) (queue_contents q)) \<and>
    (size dropped \<le> 1 \<longrightarrow> dropped = filter_mset (expired_at now) (queue_contents q))"
proof -
  let ?E = "filter_mset (expired_at now) (queue_contents q)"
  obtain q2 where "removeExpired now q = Some q2" "queue_size q2 + length (expired_indices now q) = queue_size q"
    "mset (queue_view q2) \<subseteq># mset (queue_view q)"
    using removeExpired_ok [OF ok] by metis
  then have q1: "queue_size q1 + length (expired_indices now q) = queue_size q" "queue_contents q1 \<subseteq># queue_contents q"
    using assms(3) by (auto simp: queue_contents_view intro: image_mset_subseteq_mono)
  define dropped where "dropped = queue_contents q - queue_contents q1"
  have split: "queue_contents q = queue_contents q1 + dropped"
    using q1(2) by (simp add: dropped_def)
  have E: "size ?E = length (expired_indices now q)"
    by (simp add: expired_contents)
  have "size (queue_contents q) = size (queue_contents q1) + size dropped"
    using arg_cong [OF split, of size] by (simp only: size_union)
  then have size: "size dropped = size ?E"
    using q1(1) E by (simp add: size_queue_contents)
  moreover have "dropped = ?E" if "size dropped \<le> 1"
  proof (cases "expired_indices now q")
    case Nil
    then show ?thesis
      using size by (simp add: expired_contents)
  next
    case (Cons i ks)
    then have single: "expired_indices now q = [i]"
      using that size E by simp
    let ?q = "expire_executing now q"
    have same: "oq_items ?q = oq_items q" "expired_indices now ?q = [i]"
      using single by (simp_all add: expire_executing_def expired_indices_def)
    have "i \<in> set (expired_indices now q)"
      by (simp add: single)
    then have i: "i < queue_size ?q"
      by (simp add: same expired_indices_def)
    obtain q3 where q3: "drop_item (int i) (oh_items (oq_items ?q) ! i) ?q = Some q3"
      "mset (queue_view ?q) = add_mset (oh_items (oq_items ?q) ! i, opp_at (oq_items ?q) i) (mset (queue_view q3))"
      by (rule drop_item_ok [OF expire_executing_ok(1) [OF ok(1)] i refl]) blast
    then have "oq_items q1 = oq_items q3"
      using assms(3) i by (auto simp: removeExpired_def Let_def same)
    then have "queue_contents q = add_mset (opp_at (oq_items q) i) (queue_contents q1)"
      using q3(2) by (simp add: queue_contents_view same)
    then have "dropped = {#opp_at (oq_items q) i#}"
      using split by simp
    then show ?thesis
      unfolding expired_contents single by simp
  qed
  ultimately show ?thesis
    using split by blast
qed

text \<open>
  C31: After any calls, what \<open>Dequeue\<close> hands out is preceded by nothing it leaves in the queue. Besides
  it exactly as many items leave the queue as have expired, which are the expired ones when at most
  one has, and its identifier is recorded as executing at that time.
\<close>

theorem Dequeue_best:
  assumes "queue_run calls (NewOpportunityQueue config) = Some q"
    and "Dequeue now now' q = Some (q', Some opp)"
  shows "\<exists>dropped. queue_contents q = add_mset opp (queue_contents q' + dropped) \<and>
    size dropped = size (filter_mset (expired_at now) (queue_contents q)) \<and>
    (size dropped \<le> 1 \<longrightarrow> dropped = filter_mset (expired_at now) (queue_contents q)) \<and>
    (\<forall>other\<in>#queue_contents q'. \<not> precedes other opp) \<and> map_of (oq_executing q') (so_ID opp) = Some now'"
proof -
  have ok: "queue_ok q" "within_limits q"
    using queue_run_ok [OF New_ok, of calls config] assms(1) by auto
  then obtain q1 p where q1: "removeExpired now q = Some q1" "mset (queue_view q1) = add_mset (p, opp) (mset (queue_view q'))"
      "\<forall>x\<in>set (queue_view q1). \<not> outranks x (p, opp)"
  proof (rule Dequeue_ok [of q now now'])
    fix r' r
    assume "Dequeue now now' q = Some (r', r)" and best: "\<And>opp. r = Some opp \<Longrightarrow> \<exists>q1 p. removeExpired now q = Some q1 \<and>
      mset (queue_view q1) = add_mset (p, opp) (mset (queue_view r')) \<and> (\<forall>x\<in>set (queue_view q1). \<not> outranks x (p, opp))"
    then have "r' = q'" "r = Some opp"
      using assms(2) by auto
    with best [of opp] show ?thesis
      using that by blast
  qed
  have contents: "queue_contents q1 = add_mset opp (queue_contents q')"
    by (simp add: queue_contents_view q1(2))
  have "set_mset (queue_contents q') \<subseteq> snd ` set (queue_view q1)"
    using arg_cong [OF q1(2), of set_mset] by (auto simp: queue_contents_view)
  then have "\<forall>other\<in>#queue_contents q'. \<not> precedes other opp"
    using q1(3) by (fastforce simp: outranks_def precedes_def)
  moreover have "map_of (oq_executing q') (so_ID opp) = Some now'"
    using assms(2) by (auto simp: Dequeue_def Let_def AList.update_conv split: if_splits option.splits prod.splits)
  ultimately show ?thesis
    using removeExpired_contents [OF ok q1(1)] contents by auto
qed

definition sample_opp :: "nat \<Rightarrow> int \<Rightarrow> int \<Rightarrow> ScoredOpportunity" where
  "sample_opp k pr expires = \<lparr>so_ID = [of_nat k], so_DetectedAt = 0, so_ExpiresAt = expires, so_Priority = pr\<rparr>"

definition sample_calls :: "queue_call list" where
  "sample_calls = map (Call_Enqueue 0 0) [sample_opp 0 100 9, sample_opp 1 50 1, sample_opp 2 90 9, sample_opp 3 40 1,
     sample_opp 4 30 9, sample_opp 5 80 9, sample_opp 6 70 9]"

definition one_expired_calls :: "queue_call list" where
  "one_expired_calls = map (Call_Enqueue 0 0) [sample_opp 0 100 9, sample_opp 1 50 1, sample_opp 2 90 9]"

lemma dequeue_sample:
  "case queue_run one_expired_calls (NewOpportunityQueue None) of None \<Rightarrow> False
   | Some q \<Rightarrow> GetAll q = [sample_opp 0 100 9, sample_opp 1 50 1, sample_opp 2 90 9] \<and>
       (case Dequeue 5 5 q of Some (_, Some opp) \<Rightarrow> opp = sample_opp 0 100 9 | _ \<Rightarrow> False)"
  by code_simp

theorem Dequeue_best_witness:
  "\<exists>q q'. queue_run one_expired_calls (NewOpportunityQueue None) = Some q \<and>
     Dequeue 5 5 q = Some (q', Some (sample_opp 0 100 9)) \<and> queue_contents q' = {#sample_opp 2 90 9#}"
proof -
  obtain q q' where q: "queue_run one_expired_calls (NewOpportunityQueue None) = Some q"
      "Dequeue 5 5 q = Some (q', Some (sample_opp 0 100 9))"
      "GetAll q = [sample_opp 0 100 9, sample_opp 1 50 1, sample_opp 2 90 9]"
    using dequeue_sample by (auto split: option.splits prod.splits)
  obtain dropped where dropped: "queue_contents q = add_mset (sample_opp 0 100 9) (queue_contents q' + dropped)"
    "size dropped = size (filter_mset (expired_at 5) (queue_contents q))"
    "size dropped \<le> 1 \<longrightarrow> dropped = filter_mset (expired_at 5) (queue_contents q)"
    using Dequeue_best [OF q(1,2)] by blast
  have "filter_mset (expired_at 5) (queue_contents q) = {#sample_opp 1 50 1#}"
    by (simp add: queue_contents_def q(3) expired_at_def sample_opp_def)
  then have "dropped = {#sample_opp 1 50 1#}"
    using dropped(2,3) by simp
  then have "queue_contents q' = {#sample_opp 2 90 9#}"
    using dropped(1) by (simp add: queue_contents_def q(3))
  then show ?thesis
    using q(1,2) by blast
qed

text \<open>
  \<open>removeExpired\<close> collects the positions of the expired items before it removes any, and a
  removal may move an item up: in a queue of seven it drops an item that has not expired and
  keeps one that has.
\<close>

theorem removeExpired_drops_live_item:
  "case queue_run sample_calls (NewOpportunityQueue None) of
     None \<Rightarrow> False
   | Some q \<Rightarrow> (case removeExpired 5 q of
         None \<Rightarrow> False
       | Some q' \<Rightarrow> sample_opp 6 70 9 \<in> set (GetAll q) \<and> sample_opp 6 70 9 \<notin> set (GetAll q') \<and>
           5 \<le> so_ExpiresAt (sample_opp 6 70 9) \<and>
           sample_opp 1 50 1 \<in> set (GetAll q') \<and> so_ExpiresAt (sample_opp 1 50 1) < 5)"
  by code_simp

definition full_queue :: "OpportunityQueue option" where
  "full_queue = queue_run (map (Call_Enqueue 0 0) [sample_opp 0 10 9, sample_opp 1 1 9, sample_opp 2 5 9])
     (NewOpportunityQueue (Some (DefaultOpportunityQueueConfig\<lparr>qc_MaxSize := 3\<rparr>)))"

text \<open>
  A full queue compares a newcomer with the item at the end of the heap's array, which need
  not be the lowest: an opportunity is refused although it would replace a lower one, and a
  higher one is evicted instead of the lowest.
\<close>

theorem Enqueue_keeps_lowest:
  "(case full_queue of
      None \<Rightarrow> False
    | Some q \<Rightarrow> map_option snd (Enqueue 0 0 (sample_opp 3 3 9) q) = Some False \<and>
        map_option (\<lambda>r. map so_Priority (GetAll (fst r))) (Enqueue 0 0 (sample_opp 3 6 9) q) = Some [10, 1, 6])"
  by code_simp

end
