(* ===== verification/Go_Slice.thy ===== *)
theory Go_Slice
  imports Signed_Document "HOL-Library.Monad_Syntax"
begin

text \<open>
  Go slices with their capacity, and the words of the contract ABI, shared by the two parsers of
  transaction data.

  Slicing an expression \<open>data[lo:hi]\<close> panics unless \<open>0 \<le> lo \<le> hi \<le> cap(data)\<close>: the bound is the
  capacity and not the length, so a slice carries the memory up to its capacity. A panic is
  \<open>None\<close>. The functions of go-ethereum's package \<open>common\<close> on addresses are a parameter.
\<close>

section \<open>Slices\<close>

record go_slice =
  gs_len :: nat
  gs_mem :: bytes

definition slice_ok :: "go_slice \<Rightarrow> bool" where
  "slice_ok s \<longleftrightarrow> gs_len s \<le> length (gs_mem s)"

definition contents :: "go_slice \<Rightarrow> bytes" where
  "contents s = take (gs_len s) (gs_mem s)"

definition exact :: "bytes \<Rightarrow> go_slice" where
  \<comment> \<open>no spare capacity\<close>
  "exact bs = \<lparr>gs_len = length bs, gs_mem = bs\<rparr>"

definition reslice :: "int \<Rightarrow> int \<Rightarrow> go_slice \<Rightarrow> go_slice option" where
  "reslice lo hi s =
     (if 0 \<le> lo \<and> lo \<le> hi \<and> hi \<le> int (length (gs_mem s))
      then Some \<lparr>gs_len = nat (hi - lo), gs_mem = drop (nat lo) (gs_mem s)\<rparr> else None)"

definition read :: "int \<Rightarrow> int \<Rightarrow> go_slice \<Rightarrow> bytes option" where
  "read lo hi s = map_option contents (reslice lo hi s)"

lemma contents_exact [simp]: "contents (exact bs) = bs"
  by (simp add: contents_def exact_def)

lemma exact_simps [simp]: "gs_len (exact bs) = length bs" "gs_mem (exact bs) = bs" "slice_ok (exact bs)"
  by (simp_all add: exact_def slice_ok_def)

lemma read_eq:
  "read lo hi s = (if 0 \<le> lo \<and> lo \<le> hi \<and> hi \<le> int (length (gs_mem s))
     then Some (take (nat (hi - lo)) (drop (nat lo) (gs_mem s))) else None)"
  by (simp add: read_def reslice_def contents_def)

lemma read_length: "read lo hi s = Some bs \<Longrightarrow> int (length bs) = hi - lo"
  by (auto simp: read_eq split: if_splits)

lemma reslice_ok: "reslice lo hi s = Some s' \<Longrightarrow> slice_ok s' \<and> int (gs_len s') = hi - lo"
  by (auto simp: reslice_def slice_ok_def split: if_splits)

lemma read_nat:
  "read (int a) (int b) s = (if a \<le> b \<and> b \<le> length (gs_mem s) then Some (take (b - a) (drop a (gs_mem s))) else None)"
  by (auto simp: read_eq nat_diff_distrib)

lemma read_suffix:
  assumes "read lo hi s = Some bs" and "0 \<le> k" and "k \<le> hi - lo"
  shows "read (lo + k) hi s = Some (drop (nat k) bs)"
proof -
  have "0 \<le> lo" "lo \<le> hi"
    using assms(1) by (auto simp: read_eq split: if_splits)
  then obtain a b c where abc: "lo = int a" "hi = int b" "k = int c"
    using assms(2) by (metis nat_0_le order_trans)
  then have lo: "lo + k = int (a + c)" and ab: "a + c \<le> b"
    using assms(3) by simp_all
  show ?thesis
    using assms(1) ab unfolding lo unfolding abc read_nat
    by (auto simp: drop_take add.commute split: if_splits)
qed

lemma read_prefix:
  assumes "read lo hi s = Some bs" and "0 \<le> k" and "k \<le> hi - lo"
  shows "read lo (lo + k) s = Some (take (nat k) bs)"
  using assms by (auto simp: read_eq min_def split: if_splits)

section \<open>Words\<close>

text \<open>The calldata a contract's function is called with: a selector and words of 32 bytes.\<close>

definition abi_uint :: "nat \<Rightarrow> bytes" where
  "abi_uint n = be_bytes 32 n"

definition abi_address :: "address \<Rightarrow> bytes" where
  "abi_address a = replicate 12 0 @ a"

definition calldata :: "bytes \<Rightarrow> bytes list \<Rightarrow> bytes" where
  "calldata sel ws = sel @ concat ws"

definition words_ok :: "bytes list \<Rightarrow> bool" where
  "words_ok ws \<longleftrightarrow> (\<forall>w\<in>set ws. length w = 32)"

lemma words_ok_simps [simp]:
  "words_ok []" "words_ok (w # ws) \<longleftrightarrow> length w = 32 \<and> words_ok ws" "words_ok (ws @ vs) \<longleftrightarrow> words_ok ws \<and> words_ok vs"
  by (auto simp: words_ok_def)

lemma length_abi_uint [simp]: "length (abi_uint n) = 32"
  by (simp add: abi_uint_def)

lemma length_abi_address [simp]: "length (abi_address a) = 12 + length a"
  by (simp add: abi_address_def)

lemma drop_abi_address [simp]: "drop 12 (abi_address a) = a"
  by (simp add: abi_address_def)

lemma be_nat_abi_uint: "n < 2 ^ 256 \<Longrightarrow> be_nat (abi_uint n) = n"
proof -
  assume n: "n < 2 ^ 256"
  have "be_nat (abi_uint n) = n mod 256 ^ 32"
    by (simp only: abi_uint_def be_nat_be_bytes)
  also have "\<dots> = n"
    by (rule mod_less) (use n in simp)
  finally show ?thesis .
qed

lemma length_concat_words: "words_ok ws \<Longrightarrow> length (concat ws) = 32 * length ws"
  by (induction ws) auto

lemma length_calldata: "words_ok ws \<Longrightarrow> length (calldata sel ws) = length sel + 32 * length ws"
  by (simp add: calldata_def length_concat_words)

lemma concat_word: "words_ok ws \<Longrightarrow> i < length ws \<Longrightarrow> take 32 (drop (32 * i) (concat ws @ tail)) = ws ! i"
proof (induction ws arbitrary: i)
  case (Cons w ws)
  then show ?case
    by (cases i) auto
qed simp

lemma read_word:
  assumes "words_ok ws" and "length sel = 4" and "i < length ws" and "gs_mem s = calldata sel ws @ tail"
    and "lo = 4 + 32 * int i"
  shows "read lo (lo + 32) s = Some (ws ! i)"
proof -
  have "read (int (4 + 32 * i)) (int (36 + 32 * i)) s = Some (ws ! i)"
    using assms concat_word [of ws i tail]
    by (simp only: read_nat) (simp add: calldata_def length_concat_words)
  then show ?thesis
    using assms(5) by (simp add: algebra_simps)
qed

section \<open>Addresses\<close>

record eth_common =
  HexToAddress :: "string \<Rightarrow> address"
  BytesToAddress :: "bytes \<Rightarrow> address"

text \<open>The documented conversion: an address is its 20 bytes, longer input is cropped from the left.\<close>

definition common_ok :: "eth_common \<Rightarrow> bool" where
  "common_ok ec \<longleftrightarrow> (\<forall>bs. length bs \<ge> 20 \<longrightarrow> BytesToAddress ec bs = drop (length bs - 20) bs)"

lemma BytesToAddress_word: "common_ok ec \<Longrightarrow> length bs = 32 \<Longrightarrow> BytesToAddress ec bs = drop 12 bs"
  by (simp add: common_ok_def)

lemma BytesToAddress_id: "common_ok ec \<Longrightarrow> length bs = 20 \<Longrightarrow> BytesToAddress ec bs = bs"
  by (simp add: common_ok_def)

definition demo_common :: eth_common where
  "demo_common = \<lparr>HexToAddress = (\<lambda>s. case hex_decode (drop 2 s) of None \<Rightarrow> zero_address | Some bs \<Rightarrow> drop (length bs - 20) bs),
     BytesToAddress = (\<lambda>bs. drop (length bs - 20) bs)\<rparr>"

lemma demo_common_ok [simp]: "common_ok demo_common"
  by (simp add: common_ok_def demo_common_def)

text \<open>\<open>(*big.Int).SetBytes(b).Uint64()\<close>: the low 64 bits.\<close>

definition Uint64 :: "bytes \<Rightarrow> uint64" where
  "Uint64 bs = of_nat (be_nat bs)"

lemma uint_Uint64_abi: "n < 2 ^ 64 \<Longrightarrow> Uint64 (abi_uint n) = of_nat n"
proof -
  assume "n < 2 ^ 64"
  also have "(2::nat) ^ 64 < 2 ^ 256"
    by (rule power_strict_increasing) simp_all
  finally have "be_nat (abi_uint n) = n"
    by (rule be_nat_abi_uint)
  then show ?thesis
    by (simp add: Uint64_def)
qed

end
