(* ===== verification/Mempool_Parser.thy ===== *)
theory Mempool_Parser
  imports Go_Slice Providers
begin

text \<open>
  The parser of pending transactions (\<open>arb/mempool_parser.go\<close>): it recognises swaps in the data of
  transactions to known routers and keeps them by hash. The data comes from the network.

  A parse function returns \<open>None\<close> when it panics and otherwise the swap or nil. Offsets read from
  the data are \<open>uint64\<close>, whose sums wrap around.
\<close>

section \<open>Chains and tokens\<close>

definition ChainIDEthereum :: uint64 where
  "ChainIDEthereum = 1"

definition ChainIDOptimism :: uint64 where
  "ChainIDOptimism = 10"

definition ChainIDBase :: uint64 where
  "ChainIDBase = 8453"

definition ChainIDArbitrum :: uint64 where
  "ChainIDArbitrum = 42161"

record ArbTokenInfo =
  ti_Address :: address
  ti_Symbol :: string
  ti_Decimals :: "8 word"
  ti_ChainID :: uint64

definition token_entry :: "eth_common \<Rightarrow> uint64 \<Rightarrow> string \<Rightarrow> string \<Rightarrow> 8 word \<Rightarrow> string \<times> ArbTokenInfo" where
  "token_entry ec chainID symbol hex decimals =
     (symbol, \<lparr>ti_Address = HexToAddress ec hex, ti_Symbol = symbol, ti_Decimals = decimals, ti_ChainID = chainID\<rparr>)"

definition CommonTokens :: "eth_common \<Rightarrow> uint64 \<Rightarrow> (string \<Rightarrow> ArbTokenInfo option) option" where
  "CommonTokens ec = map_of [
     (ChainIDEthereum, map_of [
       token_entry ec ChainIDEthereum ''WETH'' ''0xC02aaA39b223FE8D0A0e5C4F27eAD9083C756Cc2'' 18,
       token_entry ec ChainIDEthereum ''USDC'' ''0xA0b86991c6218b36c1d19D4a2e9Eb0cE3606eB48'' 6,
       token_entry ec ChainIDEthereum ''USDT'' ''0xdAC17F958D2ee523a2206206994597C13D831ec7'' 6,
       token_entry ec ChainIDEthereum ''WBTC'' ''0x2260FAC5E5542a773Aa44fBCfeDf7C193bc2C599'' 8,
       token_entry ec ChainIDEthereum ''DAI'' ''0x6B175474E89094C44Da98b954EescdeCB5BE3830'' 18]),
     (ChainIDBase, map_of [
       token_entry ec ChainIDBase ''WETH'' ''0x4200000000000000000000000000000000000006'' 18,
       token_entry ec ChainIDBase ''USDC'' ''0x833589fCD6eDb6E08f4c7C32D4f71b54bdA02913'' 6,
       token_entry ec ChainIDBase ''USDbC'' ''0xd9aAEc86B65D86f6A7B5B1b0c42FFA531710b6CA'' 6,
       token_entry ec ChainIDBase ''DAI'' ''0x50c5725949A6F0c72E6C4a641F24049A917DB0Cb'' 18]),
     (ChainIDOptimism, map_of [
       token_entry ec ChainIDOptimism ''WETH'' ''0x4200000000000000000000000000000000000006'' 18,
       token_entry ec ChainIDOptimism ''USDC'' ''0x0b2C639c533813f4Aa9D7837CAf62653d097Ff85'' 6,
       token_entry ec ChainIDOptimism ''USDT'' ''0x94b008aA00579c1307B0EF2c499aD98a8ce58e58'' 6,
       token_entry ec ChainIDOptimism ''DAI'' ''0xDA10009cBd5D07dd0CeCc66161FC93D7c9000da1'' 18]),
     (ChainIDArbitrum, map_of [
       token_entry ec ChainIDArbitrum ''WETH'' ''0x82aF49447D8a07e3bd95BD0d56f35241523fBab1'' 18,
       token_entry ec ChainIDArbitrum ''USDC'' ''0xaf88d065e77c8cC2239327C5EDb3A432268e5831'' 6,
       token_entry ec ChainIDArbitrum ''USDT'' ''0xFd086bC7CD5C481DCC9C85ebE478A1C0b69FCbb9'' 6,
       token_entry ec ChainIDArbitrum ''WBTC'' ''0x2f2a2543B76A4166549F7aaB2e75Bef0aefC5B0f'' 8,
       token_entry ec ChainIDArbitrum ''DAI'' ''0xDA10009cBd5D07dd0CeCc66161FC93D7c9000da1'' 18])]"

definition addresses_of :: "eth_common \<Rightarrow> string \<Rightarrow> uint64 \<Rightarrow> address option" where
  "addresses_of ec symbol chainID = Option.bind (CommonTokens ec chainID) (\<lambda>tokens. map_option ti_Address (tokens symbol))"

definition WETHAddresses :: "eth_common \<Rightarrow> uint64 \<Rightarrow> address option" where
  "WETHAddresses ec = addresses_of ec ''WETH''"

definition USDCAddresses :: "eth_common \<Rightarrow> uint64 \<Rightarrow> address option" where
  "USDCAddresses ec = addresses_of ec ''USDC''"

definition weth :: "eth_common \<Rightarrow> uint64 \<Rightarrow> address" where
  \<comment> \<open>\<open>wethAddrs[chainID]\<close>: the zero address for an unknown chain\<close>
  "weth ec chainID = (case WETHAddresses ec chainID of None \<Rightarrow> zero_address | Some a \<Rightarrow> a)"

section \<open>Selectors\<close>

definition mustDecodeSelector :: "string \<Rightarrow> bytes" where
  "mustDecodeSelector s = (case hex_decode (drop 2 s) of None \<Rightarrow> [] | Some b \<Rightarrow> b)"

definition swapExactTokensForTokens :: bytes where
  "swapExactTokensForTokens = mustDecodeSelector ''0x38ed1739''"

definition swapExactETHForTokens :: bytes where
  "swapExactETHForTokens = mustDecodeSelector ''0x7ff36ab5''"

definition swapExactTokensForETH :: bytes where
  "swapExactTokensForETH = mustDecodeSelector ''0x18cbafe5''"

definition swapExactTokensForTokensFee :: bytes where
  "swapExactTokensForTokensFee = mustDecodeSelector ''0x5c11d795''"

definition swapExactTokensForETHFee :: bytes where
  "swapExactTokensForETHFee = mustDecodeSelector ''0x791ac947''"

definition swapExactETHForTokensFee :: bytes where
  "swapExactETHForTokensFee = mustDecodeSelector ''0xb6f9de95''"

definition exactInputSingle :: bytes where
  "exactInputSingle = mustDecodeSelector ''0x414bf389''"

definition exactInput :: bytes where
  "exactInput = mustDecodeSelector ''0xc04b8d59''"

definition multicall :: bytes where
  "multicall = mustDecodeSelector ''0xac9650d8''"

definition multicallV3 :: bytes where
  "multicallV3 = mustDecodeSelector ''0x5ae401dc''"

definition execute :: bytes where
  "execute = mustDecodeSelector ''0x3593564c''"

section \<open>Parsing\<close>

record PendingSwap =
  ps_TxHash :: hash32
  ps_ChainID :: uint64
  ps_From :: address
  ps_To :: address
  ps_Router :: string
  ps_TokenIn :: address
  ps_TokenOut :: address
  ps_AmountIn :: "nat option"
  ps_AmountOut :: "nat option"
  ps_IsExactIn :: bool
  ps_DetectedAt :: int
  ps_GasPrice :: nat
  ps_GasLimit :: uint64
  ps_Nonce :: uint64

definition empty_swap :: PendingSwap where
  "empty_swap = \<lparr>ps_TxHash = zero32, ps_ChainID = 0, ps_From = zero_address, ps_To = zero_address, ps_Router = [],
     ps_TokenIn = zero_address, ps_TokenOut = zero_address, ps_AmountIn = None, ps_AmountOut = None, ps_IsExactIn = False,
     ps_DetectedAt = 0, ps_GasPrice = 0, ps_GasLimit = 0, ps_Nonce = 0\<rparr>"

definition exact_in :: "address \<Rightarrow> address \<Rightarrow> nat option \<Rightarrow> nat \<Rightarrow> PendingSwap" where
  "exact_in tokenIn tokenOut amountIn amountOut =
     empty_swap\<lparr>ps_TokenIn := tokenIn, ps_TokenOut := tokenOut, ps_AmountIn := amountIn, ps_AmountOut := Some amountOut,
       ps_IsExactIn := True\<rparr>"

abbreviation data_len :: "go_slice \<Rightarrow> uint64" where
  "data_len data \<equiv> of_nat (gs_len data)"

abbreviation read_u :: "uint64 \<Rightarrow> uint64 \<Rightarrow> go_slice \<Rightarrow> bytes option" where
  "read_u lo hi data \<equiv> read (uint lo) (uint hi) data"

definition parseV2SwapExactTokensForTokens :: "eth_common \<Rightarrow> go_slice \<Rightarrow> PendingSwap option option" where
  "parseV2SwapExactTokensForTokens ec data =
     (if gs_len data < 164 then Some None
      else do {
        amountIn \<leftarrow> read 4 36 data;
        amountOutMin \<leftarrow> read 36 68 data;
        w \<leftarrow> read 68 100 data;
        let pathOffset = Uint64 w;
        if pathOffset + 32 > data_len data then Some None
        else do {
          n \<leftarrow> read_u (4 + pathOffset) (4 + pathOffset + 32) data;
          let pathLen = Uint64 n;
          if pathLen < 2 \<or> 4 + pathOffset + 32 + pathLen * 32 > data_len data then Some None
          else do {
            tokenIn \<leftarrow> read_u (4 + pathOffset + 32) (4 + pathOffset + 64) data;
            tokenOut \<leftarrow> read_u (4 + pathOffset + 32 + (pathLen - 1) * 32) (4 + pathOffset + 64 + (pathLen - 1) * 32) data;
            Some (Some (exact_in (BytesToAddress ec tokenIn) (BytesToAddress ec tokenOut) (Some (be_nat amountIn)) (be_nat amountOutMin)))
          }
        }
      })"

definition parseV2SwapExactETHForTokens :: "eth_common \<Rightarrow> uint64 \<Rightarrow> go_slice \<Rightarrow> PendingSwap option option" where
  "parseV2SwapExactETHForTokens ec chainID data =
     (if gs_len data < 132 then Some None
      else do {
        amountOutMin \<leftarrow> read 4 36 data;
        w \<leftarrow> read 36 68 data;
        let pathOffset = Uint64 w;
        if pathOffset + 32 > data_len data then Some None
        else do {
          n \<leftarrow> read_u (4 + pathOffset) (4 + pathOffset + 32) data;
          let pathLen = Uint64 n;
          if pathLen < 2 then Some None
          else do {
            tokenOut \<leftarrow> read_u (4 + pathOffset + 32 + (pathLen - 1) * 32) (4 + pathOffset + 64 + (pathLen - 1) * 32) data;
            Some (Some (exact_in (weth ec chainID) (BytesToAddress ec tokenOut) None (be_nat amountOutMin)))
          }
        }
      })"

definition parseV2SwapExactTokensForETH :: "eth_common \<Rightarrow> uint64 \<Rightarrow> go_slice \<Rightarrow> PendingSwap option option" where
  "parseV2SwapExactTokensForETH ec chainID data =
     (if gs_len data < 164 then Some None
      else do {
        amountIn \<leftarrow> read 4 36 data;
        amountOutMin \<leftarrow> read 36 68 data;
        w \<leftarrow> read 68 100 data;
        let pathOffset = Uint64 w;
        if pathOffset + 32 > data_len data then Some None
        else do {
          n \<leftarrow> read_u (4 + pathOffset) (4 + pathOffset + 32) data;
          let pathLen = Uint64 n;
          if pathLen < 2 then Some None
          else do {
            tokenIn \<leftarrow> read_u (4 + pathOffset + 32) (4 + pathOffset + 64) data;
            Some (Some (exact_in (BytesToAddress ec tokenIn) (weth ec chainID) (Some (be_nat amountIn)) (be_nat amountOutMin)))
          }
        }
      })"

definition mempool_parseV3ExactInputSingle :: "eth_common \<Rightarrow> go_slice \<Rightarrow> PendingSwap option option" where
  "mempool_parseV3ExactInputSingle ec data =
     (if gs_len data < 196 then Some None
      else do {
        tokenIn \<leftarrow> read 16 36 data;
        tokenOut \<leftarrow> read 48 68 data;
        amountIn \<leftarrow> read 164 196 data;
        amountOutMin \<leftarrow> read 196 228 data;
        Some (Some (exact_in (BytesToAddress ec tokenIn) (BytesToAddress ec tokenOut) (Some (be_nat amountIn)) (be_nat amountOutMin)))
      })"

definition parseV3ExactInput :: "eth_common \<Rightarrow> go_slice \<Rightarrow> PendingSwap option option" where
  "parseV3ExactInput ec data =
     (if gs_len data < 164 then Some None
      else do {
        w \<leftarrow> read 4 36 data;
        let pathOffset = Uint64 w;
        amountIn \<leftarrow> read 100 132 data;
        amountOutMin \<leftarrow> read 132 164 data;
        if pathOffset + 32 > data_len data then Some None
        else do {
          n \<leftarrow> read_u (4 + pathOffset) (4 + pathOffset + 32) data;
          let pathLen = Uint64 n;
          if pathLen < 43 then Some None
          else do {
            tokenIn \<leftarrow> read_u (4 + pathOffset + 32) (4 + pathOffset + 52) data;
            tokenOut \<leftarrow> read_u (4 + pathOffset + 32 + pathLen - 20) (4 + pathOffset + 32 + pathLen) data;
            Some (Some (exact_in (BytesToAddress ec tokenIn) (BytesToAddress ec tokenOut) (Some (be_nat amountIn)) (be_nat amountOutMin)))
          }
        }
      })"

definition parseMulticall :: "string \<Rightarrow> go_slice \<Rightarrow> PendingSwap option" where
  "parseMulticall router data =
     (if list_ex (\<lambda>i. take 4 (drop i (contents data)) \<in> {exactInputSingle, exactInput, swapExactTokensForTokens}) [4..<gs_len data - 4]
      then Some (empty_swap\<lparr>ps_Router := router, ps_IsExactIn := True\<rparr>) else None)"

definition parseUniversalRouter :: "uint64 \<Rightarrow> go_slice \<Rightarrow> PendingSwap option" where
  "parseUniversalRouter chainID data =
     (if gs_len data > 100
      then Some (empty_swap\<lparr>ps_Router := ''universal_router'', ps_ChainID := chainID, ps_IsExactIn := True\<rparr>) else None)"

definition parseCalldata :: "eth_common \<Rightarrow> uint64 \<Rightarrow> string \<Rightarrow> go_slice \<Rightarrow> PendingSwap option option" where
  "parseCalldata ec chainID router data =
     (if gs_len data < 4 then Some None
      else do {
        sel \<leftarrow> read 0 4 data;
        if sel = swapExactTokensForTokens \<or> sel = swapExactTokensForTokensFee then parseV2SwapExactTokensForTokens ec data
        else if sel = swapExactETHForTokens \<or> sel = swapExactETHForTokensFee then parseV2SwapExactETHForTokens ec chainID data
        else if sel = swapExactTokensForETH \<or> sel = swapExactTokensForETHFee then parseV2SwapExactTokensForETH ec chainID data
        else if sel = exactInputSingle then mempool_parseV3ExactInputSingle ec data
        else if sel = exactInput then parseV3ExactInput ec data
        else if sel = multicall \<or> sel = multicallV3 then Some (parseMulticall router data)
        else if sel = execute then Some (parseUniversalRouter chainID data)
        else Some None
      })"

section \<open>The parser\<close>

text \<open>The accessors of a go-ethereum transaction; \<open>sender\<close> is \<open>types.Sender\<close>, which may fail.\<close>

record transaction =
  tr_Hash :: hash32
  tr_To :: "address option"
  tr_Data :: go_slice
  tr_GasPrice :: nat
  tr_Gas :: uint64
  tr_Nonce :: uint64

record MempoolParser =
  mp_routers :: "uint64 \<Rightarrow> (address \<Rightarrow> string option) option"
  mp_pendingSwaps :: "hash32 \<Rightarrow> PendingSwap option"
  mp_txParsed :: uint64
  mp_swapsDetected :: uint64
  mp_parseErrors :: uint64

definition initRouters :: "eth_common \<Rightarrow> uint64 \<Rightarrow> (address \<Rightarrow> string option) option" where
  "initRouters ec = map_of [
     (ChainIDEthereum, map_of [
       (HexToAddress ec ''0x7a250d5630B4cF539739dF2C5dAcb4c659F2488D'', ''uniswap_v2''),
       (HexToAddress ec ''0xd9e1cE17f2641f24aE83637ab66a2cca9C378B9F'', ''sushiswap''),
       (HexToAddress ec ''0xE592427A0AEce92De3Edee1F18E0157C05861564'', ''uniswap_v3''),
       (HexToAddress ec ''0x68b3465833fb72A70ecDF485E0e4C7bD8665Fc45'', ''uniswap_v3_router02''),
       (HexToAddress ec ''0x3fC91A3afd70395Cd496C647d5a6CC9D4B2b7FAD'', ''universal_router'')]),
     (ChainIDBase, map_of [
       (HexToAddress ec ''0x4752ba5DBc23f44D87826276BF6Fd6b1C372aD24'', ''uniswap_v2''),
       (HexToAddress ec ''0x2626664c2603336E57B271c5C0b26F421741e481'', ''uniswap_v3''),
       (HexToAddress ec ''0x3fC91A3afd70395Cd496C647d5a6CC9D4B2b7FAD'', ''universal_router''),
       (HexToAddress ec ''0xcF77a3Ba9A5CA399B7c97c74d54e5b1Beb874E43'', ''aerodrome''),
       (HexToAddress ec ''0x327Df1E6de05895d2ab08513aaDD9313Fe505d86'', ''baseswap'')]),
     (ChainIDOptimism, map_of [
       (HexToAddress ec ''0x4A7b5Da61326A6379179b40d00F57E5bbDC962c2'', ''uniswap_v2''),
       (HexToAddress ec ''0x68b3465833fb72A70ecDF485E0e4C7bD8665Fc45'', ''uniswap_v3''),
       (HexToAddress ec ''0xCb1355ff08Ab38bBCE60111F1bb2B784bE25D7e8'', ''universal_router''),
       (HexToAddress ec ''0xa062aE8A9c5e11aaA026fc2670B0D65cCc8B2858'', ''velodrome'')])]"

definition NewMempoolParser :: "eth_common \<Rightarrow> MempoolParser" where
  "NewMempoolParser ec = \<lparr>mp_routers = initRouters ec, mp_pendingSwaps = Map.empty, mp_txParsed = 0, mp_swapsDetected = 0, mp_parseErrors = 0\<rparr>"

definition getSender :: "(int \<Rightarrow> transaction \<Rightarrow> address option) \<Rightarrow> transaction \<Rightarrow> uint64 \<Rightarrow> address" where
  "getSender sender tx chainID = (case sender (sint chainID) tx of None \<Rightarrow> zero_address | Some a \<Rightarrow> a)"

definition complete_swap :: "(int \<Rightarrow> transaction \<Rightarrow> address option) \<Rightarrow> int \<Rightarrow> uint64 \<Rightarrow> address \<Rightarrow> string \<Rightarrow> transaction \<Rightarrow> PendingSwap \<Rightarrow> PendingSwap" where
  "complete_swap sender now chainID to' routerName tx swap =
     swap\<lparr>ps_TxHash := tr_Hash tx, ps_ChainID := chainID, ps_From := getSender sender tx chainID, ps_To := to',
       ps_Router := routerName, ps_DetectedAt := now, ps_GasPrice := tr_GasPrice tx, ps_GasLimit := tr_Gas tx,
       ps_Nonce := tr_Nonce tx\<rparr>"

definition ParseTransaction :: "eth_common \<Rightarrow> (int \<Rightarrow> transaction \<Rightarrow> address option) \<Rightarrow> int \<Rightarrow> uint64 \<Rightarrow> transaction \<Rightarrow> MempoolParser \<Rightarrow> (MempoolParser \<times> PendingSwap option) option" where
  "ParseTransaction ec sender now chainID tx mp0 =
     (let mp = mp0\<lparr>mp_txParsed := mp_txParsed mp0 + 1\<rparr> in
      case tr_To tx of
        None \<Rightarrow> Some (mp, None)
      | Some to' \<Rightarrow>
          (case Option.bind (mp_routers mp chainID) (\<lambda>chainRouters. chainRouters to') of
             None \<Rightarrow> Some (mp, None)
           | Some routerName \<Rightarrow>
               if gs_len (tr_Data tx) < 4 then Some (mp, None)
               else (case parseCalldata ec chainID routerName (tr_Data tx) of
                   None \<Rightarrow> None
                 | Some None \<Rightarrow> Some (mp, None)
                 | Some (Some parsed) \<Rightarrow>
                     let swap = complete_swap sender now chainID to' routerName tx parsed
                     in Some (mp\<lparr>mp_pendingSwaps := (mp_pendingSwaps mp)(ps_TxHash swap \<mapsto> swap),
                                mp_swapsDetected := mp_swapsDetected mp + 1\<rparr>, Some swap))))"

definition GetPendingSwap :: "hash32 \<Rightarrow> MempoolParser \<Rightarrow> PendingSwap option" where
  "GetPendingSwap h mp = mp_pendingSwaps mp h"

definition GetRecentSwaps :: "int \<Rightarrow> int64 \<Rightarrow> hash32 list \<Rightarrow> MempoolParser \<Rightarrow> PendingSwap list" where
  \<comment> \<open>\<open>order\<close> is the order in which the map is ranged over\<close>
  "GetRecentSwaps now maxAge order mp =
     filter (\<lambda>swap. ps_DetectedAt swap > now + wrap64 (- maxAge)) (List.map_filter (mp_pendingSwaps mp) order)"

definition CleanOldSwaps :: "int \<Rightarrow> int64 \<Rightarrow> hash32 list \<Rightarrow> MempoolParser \<Rightarrow> MempoolParser \<times> nat" where
  "CleanOldSwaps now maxAge order mp =
     (let old = (\<lambda>h. case mp_pendingSwaps mp h of None \<Rightarrow> False | Some swap \<Rightarrow> ps_DetectedAt swap < now + wrap64 (- maxAge))
      in (mp\<lparr>mp_pendingSwaps := (\<lambda>h. if old h then None else mp_pendingSwaps mp h)\<rparr>, length (filter old order)))"

definition ComputeOpportunityHash :: "('sk, 'pk) crypto \<Rightarrow> PendingSwap \<Rightarrow> hash32" where
  "ComputeOpportunityHash cr swap =
     Keccak256 cr (ps_TxHash swap @ ps_TokenIn swap @ ps_TokenOut swap @
       (case ps_AmountIn swap of None \<Rightarrow> [] | Some n \<Rightarrow> big_bytes n))"

section \<open>Calls by the contract ABI\<close>

text \<open>
  The calls the routers publish, as the contract ABI encodes them: static arguments in place, the
  path of a Uniswap V2 call behind its offset. The second swap of each kind is the variant for
  tokens that take a fee, with the same arguments.
\<close>

datatype router_call =
    TokensForTokens bool nat nat "address list" address nat
  | ETHForTokens bool nat "address list" address nat
  | TokensForETH bool nat nat "address list" address nat
  | InputSingle address address nat address nat nat nat nat

fun call_bytes :: "router_call \<Rightarrow> bytes" where
  "call_bytes (TokensForTokens fee amountIn amountOutMin path to' deadline) =
     calldata (if fee then swapExactTokensForTokensFee else swapExactTokensForTokens)
       ([abi_uint amountIn, abi_uint amountOutMin, abi_uint 160, abi_address to', abi_uint deadline, abi_uint (length path)] @
        map abi_address path)"
| "call_bytes (ETHForTokens fee amountOutMin path to' deadline) =
     calldata (if fee then swapExactETHForTokensFee else swapExactETHForTokens)
       ([abi_uint amountOutMin, abi_uint 128, abi_address to', abi_uint deadline, abi_uint (length path)] @ map abi_address path)"
| "call_bytes (TokensForETH fee amountIn amountOutMin path to' deadline) =
     calldata (if fee then swapExactTokensForETHFee else swapExactTokensForETH)
       ([abi_uint amountIn, abi_uint amountOutMin, abi_uint 160, abi_address to', abi_uint deadline, abi_uint (length path)] @
        map abi_address path)"
| "call_bytes (InputSingle tokenIn tokenOut fee recipient deadline amountIn amountOutMin limit) =
     calldata exactInputSingle [abi_address tokenIn, abi_address tokenOut, abi_uint fee, abi_address recipient, abi_uint deadline,
       abi_uint amountIn, abi_uint amountOutMin, abi_uint limit]"

fun call_swap :: "eth_common \<Rightarrow> uint64 \<Rightarrow> router_call \<Rightarrow> PendingSwap" where
  "call_swap ec chainID (TokensForTokens fee amountIn amountOutMin path to' deadline) =
     exact_in (hd path) (last path) (Some amountIn) amountOutMin"
| "call_swap ec chainID (ETHForTokens fee amountOutMin path to' deadline) =
     exact_in (weth ec chainID) (last path) None amountOutMin"
| "call_swap ec chainID (TokensForETH fee amountIn amountOutMin path to' deadline) =
     exact_in (hd path) (weth ec chainID) (Some amountIn) amountOutMin"
| "call_swap ec chainID (InputSingle tokenIn tokenOut fee recipient deadline amountIn amountOutMin limit) =
     exact_in tokenIn tokenOut (Some amountIn) amountOutMin"

definition path_ok :: "address list \<Rightarrow> bool" where
  \<comment> \<open>at least two tokens, and no more than fit the memory of a machine\<close>
  "path_ok path \<longleftrightarrow> 2 \<le> length path \<and> length path < 2 ^ 58 \<and> (\<forall>a\<in>set path. length a = 20)"

fun router_call_ok :: "router_call \<Rightarrow> bool" where
  "router_call_ok (TokensForTokens fee amountIn amountOutMin path to' deadline) \<longleftrightarrow>
     amountIn < 2 ^ 256 \<and> amountOutMin < 2 ^ 256 \<and> path_ok path \<and> length to' = 20"
| "router_call_ok (ETHForTokens fee amountOutMin path to' deadline) \<longleftrightarrow> amountOutMin < 2 ^ 256 \<and> path_ok path \<and> length to' = 20"
| "router_call_ok (TokensForETH fee amountIn amountOutMin path to' deadline) \<longleftrightarrow>
     amountIn < 2 ^ 256 \<and> amountOutMin < 2 ^ 256 \<and> path_ok path \<and> length to' = 20"
| "router_call_ok (InputSingle tokenIn tokenOut fee recipient deadline amountIn amountOutMin limit) \<longleftrightarrow>
     length tokenIn = 20 \<and> length tokenOut = 20 \<and> length recipient = 20 \<and> amountIn < 2 ^ 256 \<and> amountOutMin < 2 ^ 256"

text \<open>The selectors are four bytes and differ.\<close>

lemmas selector_defs = mustDecodeSelector_def swapExactTokensForTokens_def swapExactTokensForTokensFee_def
  swapExactETHForTokens_def swapExactETHForTokensFee_def swapExactTokensForETH_def swapExactTokensForETHFee_def
  exactInputSingle_def exactInput_def multicall_def multicallV3_def execute_def

lemma selector_values:
  "swapExactTokensForTokens = [0x38, 0xed, 0x17, 0x39]" "swapExactTokensForTokensFee = [0x5c, 0x11, 0xd7, 0x95]"
  "swapExactETHForTokens = [0x7f, 0xf3, 0x6a, 0xb5]" "swapExactETHForTokensFee = [0xb6, 0xf9, 0xde, 0x95]"
  "swapExactTokensForETH = [0x18, 0xcb, 0xaf, 0xe5]" "swapExactTokensForETHFee = [0x79, 0x1a, 0xc9, 0x47]"
  "exactInputSingle = [0x41, 0x4b, 0xf3, 0x89]" "exactInput = [0xc0, 0x4b, 0x8d, 0x59]"
  "multicall = [0xac, 0x96, 0x50, 0xd8]" "multicallV3 = [0x5a, 0xe4, 0x01, 0xdc]" "execute = [0x35, 0x93, 0x56, 0x4c]"
  by (code_simp; fail)+

lemma read_selector: "length sel = 4 \<Longrightarrow> gs_mem data = calldata sel ws @ spare \<Longrightarrow> read 0 4 data = Some sel"
  by (simp add: read_eq calldata_def)

lemma words_abi_addresses: "\<forall>a\<in>set path. length a = 20 \<Longrightarrow> words_ok (map abi_address path)"
  by (simp add: words_ok_def)

lemma uint_pos: "a + 32 * k < 2 ^ 64 \<Longrightarrow> uint (of_nat a + of_nat k * 32 :: uint64) = int (a + 32 * k)"
proof -
  assume "a + 32 * k < 2 ^ 64"
  then have "unat (of_nat (a + 32 * k) :: uint64) = a + 32 * k"
    by (simp only: unat_of_nat) simp
  moreover have "(of_nat a + of_nat k * 32 :: uint64) = of_nat (a + 32 * k)"
    by (simp add: mult.commute)
  ultimately show ?thesis
    by (metis uint_nat)
qed

lemma path_reads:
  assumes "gs_mem data = calldata sel (head @ [abi_uint (length path)] @ map abi_address path) @ spare"
    and "length sel = 4" and "words_ok head" and "path_ok path" and "length head < 8" and "off = of_nat (32 * length head)"
  shows "read_u (4 + off) (4 + off + 32) data = Some (abi_uint (length path))"
    and "read_u (4 + off + 32) (4 + off + 64) data = Some (abi_address (hd path))"
    and "read_u (4 + off + 32 + (of_nat (length path) - 1) * 32) (4 + off + 64 + (of_nat (length path) - 1) * 32) data =
      Some (abi_address (last path))"
proof -
  let ?n = "length path" and ?ws = "head @ [abi_uint (length path)] @ map abi_address path"
  have path: "2 \<le> ?n" "?n < 2 ^ 58" "\<forall>a\<in>set path. length a = 20"
    using assms(4) by (auto simp: path_ok_def)
  have ws: "words_ok ?ws"
    using assms(3) words_abi_addresses [OF path(3)] by simp
  have small: "4 + 32 * length head + 64 + 32 * ?n < 2 ^ 64"
    using assms(5) path(2) by simp
  have pos: "uint (4 + off + of_nat c + of_nat k * 32) = 4 + 32 * int (length head) + int c + 32 * int k"
    if "c + 32 * k \<le> 64 + 32 * ?n" for c k
    using uint_pos [of "4 + 32 * length head + c" k] small that by (simp add: assms(6))
  note word = read_word [OF ws assms(2) _ assms(1)]
  show "read_u (4 + off) (4 + off + 32) data = Some (abi_uint ?n)"
    using word [of "length head" "uint (4 + off)"] pos [of 0 0] pos [of 32 0] by (simp add: add.commute)
  show "read_u (4 + off + 32) (4 + off + 64) data = Some (abi_address (hd path))"
    using word [of "Suc (length head)" "uint (4 + off + 32)"] pos [of 32 0] pos [of 64 0] path(1)
    by (cases path) (auto simp: nth_append add.commute)
  have pred: "(of_nat ?n - 1 :: uint64) = of_nat (?n - 1)"
    using path(1) by simp
  show "read_u (4 + off + 32 + (of_nat ?n - 1) * 32) (4 + off + 64 + (of_nat ?n - 1) * 32) data = Some (abi_address (last path))"
    using word [of "length head + ?n" "uint (4 + off + 32 + of_nat (?n - 1) * 32)"] pos [of 32 "?n - 1"] pos [of 64 "?n - 1"] path(1)
    unfolding pred by (auto simp: nth_append last_conv_nth nth_Cons' algebra_simps)
qed

lemma unat_data_len: "k < 2 ^ 64 \<Longrightarrow> unat (of_nat k :: uint64) = k"
  by (simp only: unat_of_nat) simp

lemma path_checks:
  assumes "gs_len data = length (calldata sel (head @ [abi_uint (length path)] @ map abi_address path))"
    and "length sel = 4" and "words_ok head" and "path_ok path" and "length head < 8" and "off = of_nat (32 * length head)"
  shows "\<not> off + 32 > data_len data" and "\<not> (of_nat (length path) :: uint64) < 2"
    and "\<not> 4 + off + 32 + of_nat (length path) * 32 > data_len data" and "Uint64 (abi_uint (length path)) = of_nat (length path)"
    and "gs_len data = 36 + 32 * length head + 32 * length path"
proof -
  let ?n = "length path"
  have path: "2 \<le> ?n" "?n < 2 ^ 58" "\<forall>a\<in>set path. length a = 20"
    using assms(4) by (auto simp: path_ok_def)
  show len: "gs_len data = 36 + 32 * length head + 32 * ?n"
    using assms(1-3) words_abi_addresses [OF path(3)] by (simp add: length_calldata)
  have small: "gs_len data < 2 ^ 64"
    using len assms(5) path(2) by simp
  have "off + 32 = of_nat (32 * length head + 32)"
    by (simp add: assms(6))
  then show "\<not> off + 32 > data_len data"
    using len small assms(5) unat_data_len [of "32 * length head + 32"] unat_data_len [OF small] by (simp add: word_less_nat_alt)
  show "\<not> (of_nat ?n :: uint64) < 2"
    using path unat_data_len [of ?n] by (simp add: word_less_nat_alt)
  have "4 + off + 32 + of_nat ?n * 32 = data_len data"
    by (simp add: len assms(6) mult.commute)
  then show "\<not> 4 + off + 32 + of_nat ?n * 32 > data_len data"
    by simp
  show "Uint64 (abi_uint ?n) = of_nat ?n"
    using uint_Uint64_abi [of ?n] path(2) by simp
qed

lemma head_reads:
  assumes "gs_mem data = calldata sel ws @ spare" and "length sel = 4" and "words_ok ws"
  shows "0 < length ws \<Longrightarrow> read 4 36 data = Some (ws ! 0)" and "1 < length ws \<Longrightarrow> read 36 68 data = Some (ws ! 1)"
    and "2 < length ws \<Longrightarrow> read 68 100 data = Some (ws ! 2)" and "3 < length ws \<Longrightarrow> read 100 132 data = Some (ws ! 3)"
    and "4 < length ws \<Longrightarrow> read 132 164 data = Some (ws ! 4)" and "5 < length ws \<Longrightarrow> read 164 196 data = Some (ws ! 5)"
    and "6 < length ws \<Longrightarrow> read 196 228 data = Some (ws ! 6)"
    and "0 < length ws \<Longrightarrow> read 16 36 data = Some (drop 12 (ws ! 0))" and "1 < length ws \<Longrightarrow> read 48 68 data = Some (drop 12 (ws ! 1))"
proof -
  have word: "read lo (lo + 32) data = Some (ws ! i)" if "i < length ws" "lo = 4 + 32 * int i" for i lo
    using read_word [OF assms(3,2) that(1) assms(1) that(2)] .
  show "0 < length ws \<Longrightarrow> read 4 36 data = Some (ws ! 0)" "1 < length ws \<Longrightarrow> read 36 68 data = Some (ws ! 1)"
    "2 < length ws \<Longrightarrow> read 68 100 data = Some (ws ! 2)" "3 < length ws \<Longrightarrow> read 100 132 data = Some (ws ! 3)"
    "4 < length ws \<Longrightarrow> read 132 164 data = Some (ws ! 4)" "5 < length ws \<Longrightarrow> read 164 196 data = Some (ws ! 5)"
    "6 < length ws \<Longrightarrow> read 196 228 data = Some (ws ! 6)"
    using word [of 0 4] word [of 1 36] word [of 2 68] word [of 3 100] word [of 4 132] word [of 5 164] word [of 6 196] by simp_all
  show "0 < length ws \<Longrightarrow> read 16 36 data = Some (drop 12 (ws ! 0))" "1 < length ws \<Longrightarrow> read 48 68 data = Some (drop 12 (ws ! 1))"
    using read_suffix [OF word [of 0 4], of 12] read_suffix [OF word [of 1 36], of 12] by simp_all
qed

lemma BytesToAddress_abi: "common_ok ec \<Longrightarrow> length a = 20 \<Longrightarrow> BytesToAddress ec (abi_address a) = a"
  by (simp add: BytesToAddress_word)

lemma parse_TokensForTokens:
  assumes "common_ok ec" and "router_call_ok (TokensForTokens fee amountIn amountOutMin path to' deadline)"
    and "call_bytes (TokensForTokens fee amountIn amountOutMin path to' deadline) = bs"
    and "gs_len data = length bs" and "gs_mem data = bs @ spare"
  shows "parseCalldata ec chainID router data = Some (Some (exact_in (hd path) (last path) (Some amountIn) amountOutMin))"
proof -
  let ?sel = "if fee then swapExactTokensForTokensFee else swapExactTokensForTokens"
  let ?head = "[abi_uint amountIn, abi_uint amountOutMin, abi_uint 160, abi_address to', abi_uint deadline]"
  let ?ws = "?head @ [abi_uint (length path)] @ map abi_address path"
  have ok: "amountIn < 2 ^ 256" "amountOutMin < 2 ^ 256" "path_ok path" "length to' = 20"
    using assms(2) by simp_all
  then have path: "\<forall>a\<in>set path. length a = 20" "path \<noteq> []"
    by (auto simp: path_ok_def)
  have bs: "bs = calldata ?sel ?ws"
    using assms(3) by simp
  have sel: "length ?sel = 4"
    by (simp add: selector_values)
  have head: "words_ok ?head"
    using ok(4) by simp
  have ws: "words_ok ?ws"
    using ok(4) words_abi_addresses [OF path(1)] by simp
  have mem: "gs_mem data = calldata ?sel ?ws @ spare" and len: "gs_len data = length (calldata ?sel ?ws)"
    using assms(4,5) bs by simp_all
  have off: "Uint64 (abi_uint 160) = of_nat (32 * length ?head)"
    using uint_Uint64_abi [of 160] by simp
  note reads = path_reads [OF mem sel head ok(3) _ off] and checks = path_checks [OF len sel head ok(3) _ off]
    and first = head_reads [OF mem sel ws]
  have "parseV2SwapExactTokensForTokens ec data =
      Some (Some (exact_in (BytesToAddress ec (abi_address (hd path))) (BytesToAddress ec (abi_address (last path)))
        (Some (be_nat (abi_uint amountIn))) (be_nat (abi_uint amountOutMin))))"
    unfolding parseV2SwapExactTokensForTokens_def
    using first(1-3) reads checks by (simp add: Let_def)
  then have "parseV2SwapExactTokensForTokens ec data = Some (Some (exact_in (hd path) (last path) (Some amountIn) amountOutMin))"
    using assms(1) path ok(1,2) by (simp add: BytesToAddress_abi be_nat_abi_uint)
  then show ?thesis
    using read_selector [OF sel mem] checks(5) by (simp add: parseCalldata_def)
qed

lemma parse_ETHForTokens:
  assumes "common_ok ec" and "router_call_ok (ETHForTokens fee amountOutMin path to' deadline)"
    and "call_bytes (ETHForTokens fee amountOutMin path to' deadline) = bs"
    and "gs_len data = length bs" and "gs_mem data = bs @ spare"
  shows "parseCalldata ec chainID router data = Some (Some (exact_in (weth ec chainID) (last path) None amountOutMin))"
proof -
  let ?sel = "if fee then swapExactETHForTokensFee else swapExactETHForTokens"
  let ?head = "[abi_uint amountOutMin, abi_uint 128, abi_address to', abi_uint deadline]"
  let ?ws = "?head @ [abi_uint (length path)] @ map abi_address path"
  have ok: "amountOutMin < 2 ^ 256" "path_ok path" "length to' = 20" "\<forall>a\<in>set path. length a = 20" "path \<noteq> []"
    using assms(2) by (auto simp: path_ok_def)
  have sel: "length ?sel = 4" and head: "words_ok ?head" and ws: "words_ok ?ws"
    using ok(3) words_abi_addresses [OF ok(4)] by (simp_all add: selector_values)
  have mem: "gs_mem data = calldata ?sel ?ws @ spare" and len: "gs_len data = length (calldata ?sel ?ws)"
    using assms(3-5) by auto
  have off: "Uint64 (abi_uint 128) = of_nat (32 * length ?head)"
    using uint_Uint64_abi [of 128] by simp
  note reads = path_reads [OF mem sel head ok(2) _ off] and checks = path_checks [OF len sel head ok(2) _ off]
    and first = head_reads [OF mem sel ws]
  have "parseV2SwapExactETHForTokens ec chainID data =
      Some (Some (exact_in (weth ec chainID) (BytesToAddress ec (abi_address (last path))) None (be_nat (abi_uint amountOutMin))))"
    unfolding parseV2SwapExactETHForTokens_def
    using first(1,2) reads checks by (simp add: Let_def)
  then have "parseV2SwapExactETHForTokens ec chainID data = Some (Some (exact_in (weth ec chainID) (last path) None amountOutMin))"
    using assms(1) ok by (simp add: BytesToAddress_abi be_nat_abi_uint)
  then show ?thesis
    using read_selector [OF sel mem] checks(5) by (simp add: parseCalldata_def selector_values)
qed

lemma parse_TokensForETH:
  assumes "common_ok ec" and "router_call_ok (TokensForETH fee amountIn amountOutMin path to' deadline)"
    and "call_bytes (TokensForETH fee amountIn amountOutMin path to' deadline) = bs"
    and "gs_len data = length bs" and "gs_mem data = bs @ spare"
  shows "parseCalldata ec chainID router data = Some (Some (exact_in (hd path) (weth ec chainID) (Some amountIn) amountOutMin))"
proof -
  let ?sel = "if fee then swapExactTokensForETHFee else swapExactTokensForETH"
  let ?head = "[abi_uint amountIn, abi_uint amountOutMin, abi_uint 160, abi_address to', abi_uint deadline]"
  let ?ws = "?head @ [abi_uint (length path)] @ map abi_address path"
  have ok: "amountIn < 2 ^ 256" "amountOutMin < 2 ^ 256" "path_ok path" "length to' = 20" "\<forall>a\<in>set path. length a = 20" "path \<noteq> []"
    using assms(2) by (auto simp: path_ok_def)
  have sel: "length ?sel = 4" and head: "words_ok ?head" and ws: "words_ok ?ws"
    using ok(4) words_abi_addresses [OF ok(5)] by (simp_all add: selector_values)
  have mem: "gs_mem data = calldata ?sel ?ws @ spare" and len: "gs_len data = length (calldata ?sel ?ws)"
    using assms(3-5) by auto
  have off: "Uint64 (abi_uint 160) = of_nat (32 * length ?head)"
    using uint_Uint64_abi [of 160] by simp
  note reads = path_reads [OF mem sel head ok(3) _ off] and checks = path_checks [OF len sel head ok(3) _ off]
    and first = head_reads [OF mem sel ws]
  have "parseV2SwapExactTokensForETH ec chainID data =
      Some (Some (exact_in (BytesToAddress ec (abi_address (hd path))) (weth ec chainID)
        (Some (be_nat (abi_uint amountIn))) (be_nat (abi_uint amountOutMin))))"
    unfolding parseV2SwapExactTokensForETH_def
    using first(1-3) reads checks by (simp add: Let_def)
  then have "parseV2SwapExactTokensForETH ec chainID data = Some (Some (exact_in (hd path) (weth ec chainID) (Some amountIn) amountOutMin))"
    using assms(1) ok by (simp add: BytesToAddress_abi be_nat_abi_uint)
  then show ?thesis
    using read_selector [OF sel mem] checks(5) by (simp add: parseCalldata_def selector_values)
qed

lemma parse_InputSingle:
  assumes "common_ok ec" and "router_call_ok (InputSingle tokenIn tokenOut fee recipient deadline amountIn amountOutMin limit)"
    and "call_bytes (InputSingle tokenIn tokenOut fee recipient deadline amountIn amountOutMin limit) = bs"
    and "gs_len data = length bs" and "gs_mem data = bs @ spare"
  shows "parseCalldata ec chainID router data = Some (Some (exact_in tokenIn tokenOut (Some amountIn) amountOutMin))"
proof -
  let ?ws = "[abi_address tokenIn, abi_address tokenOut, abi_uint fee, abi_address recipient, abi_uint deadline,
    abi_uint amountIn, abi_uint amountOutMin, abi_uint limit]"
  have mem: "gs_mem data = calldata exactInputSingle ?ws @ spare" and ws: "words_ok ?ws" and sel: "length exactInputSingle = 4"
    using assms(2,3,5) by (auto simp: selector_values)
  have len: "gs_len data = 260"
    using assms(3,4) length_calldata [OF ws] sel by auto
  note first = head_reads [OF mem sel ws]
  have "mempool_parseV3ExactInputSingle ec data = Some (Some (exact_in tokenIn tokenOut (Some amountIn) amountOutMin))"
    unfolding mempool_parseV3ExactInputSingle_def
    using first(6-9) len assms(1,2) by (simp add: BytesToAddress_id be_nat_abi_uint)
  then show ?thesis
    using read_selector [OF sel mem] len by (simp add: parseCalldata_def selector_values)
qed

lemma parse_call:
  assumes "common_ok ec" and "router_call_ok c" and "gs_len data = length (call_bytes c)" and "gs_mem data = call_bytes c @ spare"
  shows "parseCalldata ec chainID router data = Some (Some (call_swap ec chainID c))"
proof (cases c)
  case (TokensForTokens fee amountIn amountOutMin path to' deadline)
  then show ?thesis
    using parse_TokensForTokens [OF assms(1)] assms(2-4) by simp
next
  case (ETHForTokens fee amountOutMin path to' deadline)
  then show ?thesis
    using parse_ETHForTokens [OF assms(1)] assms(2-4) by simp
next
  case (TokensForETH fee amountIn amountOutMin path to' deadline)
  then show ?thesis
    using parse_TokensForETH [OF assms(1)] assms(2-4) by simp
next
  case (InputSingle tokenIn tokenOut fee recipient deadline amountIn amountOutMin limit)
  then show ?thesis
    using parse_InputSingle [OF assms(1)] assms(2-4) by simp
qed

section \<open>What is recorded\<close>

text \<open>
  C32: a transaction that calls a known router with an encoded \<open>swapExactTokensForTokens\<close>,
  \<open>swapExactETHForTokens\<close> or \<open>swapExactTokensForETH\<close>, or the variant of one for tokens that take a
  fee, or \<open>exactInputSingle\<close>, is recorded under its hash with the tokens and amounts encoded in
  the call, whatever spare capacity its data has;
  the other pending swaps stay, and cleaning removes it only once it is older than the given age.
\<close>

theorem router_call_detected:
  assumes "common_ok ec" and "router_call_ok c"
    and "tr_To tx = Some to'" and "mp_routers mp chainID = Some routers" and "routers to' = Some name"
    and "gs_len (tr_Data tx) = length (call_bytes c)" and "gs_mem (tr_Data tx) = call_bytes c @ spare"
  shows "\<exists>mp' swap. ParseTransaction ec sender now chainID tx mp = Some (mp', Some swap) \<and>
    swap = complete_swap sender now chainID to' name tx (call_swap ec chainID c) \<and>
    (\<forall>h. GetPendingSwap h mp' = (if h = tr_Hash tx then Some swap else GetPendingSwap h mp)) \<and>
    (\<forall>t maxAge order. GetPendingSwap (tr_Hash tx) (fst (CleanOldSwaps t maxAge order mp')) =
       (if now < t + wrap64 (- maxAge) then None else Some swap))"
proof -
  let ?swap = "complete_swap sender now chainID to' name tx (call_swap ec chainID c)"
  have len: "4 \<le> gs_len (tr_Data tx)"
    unfolding assms(6) by (cases c) (simp_all add: calldata_def selector_values)
  have "ParseTransaction ec sender now chainID tx mp =
      Some (mp\<lparr>mp_txParsed := mp_txParsed mp + 1, mp_pendingSwaps := (mp_pendingSwaps mp)(tr_Hash tx \<mapsto> ?swap),
               mp_swapsDetected := mp_swapsDetected mp + 1\<rparr>, Some ?swap)"
    using parse_call [OF assms(1,2,6,7)] assms(3-5) len by (simp add: ParseTransaction_def Let_def complete_swap_def)
  then show ?thesis
    by (simp add: GetPendingSwap_def CleanOldSwaps_def Let_def complete_swap_def)
qed

definition demo_path :: "address list" where
  "demo_path = [replicate 20 1, replicate 20 2, replicate 20 3]"

definition demo_call :: router_call where
  "demo_call = TokensForTokens False 1000 900 demo_path (replicate 20 9) 5"

definition demo_routers :: "uint64 \<Rightarrow> (address \<Rightarrow> string option) option" where
  "demo_routers = [1 \<mapsto> [replicate 20 7 \<mapsto> ''uniswap_v2'']]"

definition demo_parser :: MempoolParser where
  "demo_parser = (NewMempoolParser demo_common)\<lparr>mp_routers := demo_routers\<rparr>"

definition demo_swap_tx :: "go_slice \<Rightarrow> transaction" where
  "demo_swap_tx data = \<lparr>tr_Hash = zero32, tr_To = Some (replicate 20 7), tr_Data = data, tr_GasPrice = 1, tr_Gas = 21000, tr_Nonce = 0\<rparr>"

theorem router_call_detected_witness:
  "router_call_ok demo_call \<and> (\<exists>mp' swap. ParseTransaction demo_common (\<lambda>_ _. None) 0 1 (demo_swap_tx (exact (call_bytes demo_call))) demo_parser = Some (mp', Some swap) \<and>
     ps_TokenIn swap = replicate 20 1 \<and> ps_TokenOut swap = replicate 20 3 \<and> ps_AmountIn swap = Some 1000 \<and>
     GetPendingSwap zero32 mp' = Some swap)"
proof -
  let ?tx = "demo_swap_tx (exact (call_bytes demo_call))"
  have call: "router_call_ok demo_call"
    by (simp add: demo_call_def demo_path_def path_ok_def)
  have "\<exists>mp' swap. ParseTransaction demo_common (\<lambda>_ _. None) 0 1 ?tx demo_parser = Some (mp', Some swap) \<and>
      swap = complete_swap (\<lambda>_ _. None) 0 1 (replicate 20 7) ''uniswap_v2'' ?tx (call_swap demo_common 1 demo_call) \<and>
      (\<forall>h. GetPendingSwap h mp' = (if h = tr_Hash ?tx then Some swap else GetPendingSwap h demo_parser)) \<and>
      (\<forall>t maxAge order. GetPendingSwap (tr_Hash ?tx) (fst (CleanOldSwaps t maxAge order mp')) =
         (if 0 < t + wrap64 (- maxAge) then None else Some swap))"
    by (rule router_call_detected [OF demo_common_ok call, where routers = "[replicate 20 7 \<mapsto> ''uniswap_v2'']" and spare = "[]"])
      (simp_all add: demo_swap_tx_def demo_parser_def demo_routers_def)
  then show ?thesis
    using call by (auto simp: demo_swap_tx_def complete_swap_def demo_call_def demo_path_def exact_in_def)
qed

section \<open>What goes wrong\<close>

lemma parse_overflow:
  assumes "gs_len data = length (calldata sel ws)" and "gs_mem data = calldata sel ws @ spare" and "words_ok ws"
    and "sel \<in> {swapExactTokensForTokens, swapExactTokensForTokensFee, swapExactTokensForETH, swapExactTokensForETHFee}"
    and "5 \<le> length ws" and "ws ! 2 = abi_uint (2 ^ 64 - 32)"
  shows "parseCalldata ec chainID router data = None"
proof -
  have sel: "length sel = 4"
    using assms(4) by (auto simp: selector_values)
  have len: "164 \<le> gs_len data"
    using assms(1,3,5) sel by (simp add: length_calldata)
  have off: "Uint64 (ws ! 2) = - 32"
    unfolding assms(6) using uint_Uint64_abi [of "2 ^ 64 - 32"] by simp
  note first = head_reads [OF assms(2) sel assms(3)]
  have bad: "read_u (4 + - 32) (4 + - 32 + 32) data = None"
    by (simp add: read_eq)
  have "parseV2SwapExactTokensForTokens ec data = None" "parseV2SwapExactTokensForETH ec chainID data = None"
    unfolding parseV2SwapExactTokensForTokens_def parseV2SwapExactTokensForETH_def
    using first(1-3) assms(5) len off bad by (simp_all add: Let_def)
  moreover have "parseCalldata ec chainID router data =
      (if sel = swapExactTokensForTokens \<or> sel = swapExactTokensForTokensFee then parseV2SwapExactTokensForTokens ec data
       else parseV2SwapExactTokensForETH ec chainID data)"
    using assms(4) read_selector [OF sel assms(2)] len
    by (elim insertE emptyE) (simp_all add: parseCalldata_def selector_values)
  ultimately show ?thesis
    by simp
qed

text \<open>
  C35: Anyone can make the parser panic with a pending transaction to a known router: with a path
  offset of \<open>2^64 - 32\<close>, which passes the check because the sum wraps around to zero, and with a
  call of \<open>exactInputSingle\<close> whose data, without spare capacity, ends before byte 228.
\<close>

theorem hostile_calldata_panics:
  assumes "tr_To tx = Some to'" and "mp_routers mp chainID = Some routers" and "routers to' = Some name"
    and "words_ok ws" and "5 \<le> length ws" and "ws ! 2 = abi_uint (2 ^ 64 - 32)"
    and "192 \<le> length args" and "length args < 224"
  shows "ParseTransaction ec sender now chainID (tx\<lparr>tr_Data := exact (calldata swapExactTokensForTokens ws)\<rparr>) mp = None \<and>
    ParseTransaction ec sender now chainID (tx\<lparr>tr_Data := exact (exactInputSingle @ args)\<rparr>) mp = None"
proof -
  let ?d = "exact (calldata swapExactTokensForTokens ws)" and ?e = "exact (exactInputSingle @ args)"
  have "parseCalldata ec chainID name ?d = None"
    using parse_overflow [of ?d swapExactTokensForTokens ws "[]"] assms(4-6) by simp
  moreover have "4 \<le> length (calldata swapExactTokensForTokens ws)"
    by (simp add: calldata_def selector_values)
  ultimately have first: "ParseTransaction ec sender now chainID (tx\<lparr>tr_Data := ?d\<rparr>) mp = None"
    using assms(1-3) by (simp add: ParseTransaction_def Let_def)
  have "read 0 4 ?e = Some exactInputSingle" "read 196 228 ?e = None"
    using assms(7,8) by (simp_all add: read_eq selector_values)
  then have "parseCalldata ec chainID name ?e = None"
    using assms(7) by (simp add: parseCalldata_def mempool_parseV3ExactInputSingle_def selector_values bind_eq_None_conv)
  then have "ParseTransaction ec sender now chainID (tx\<lparr>tr_Data := ?e\<rparr>) mp = None"
    using assms(1-3,7) by (simp add: ParseTransaction_def Let_def)
  with first show ?thesis
    by blast
qed

theorem hostile_calldata_panics_witness:
  "ParseTransaction demo_common (\<lambda>_ _. None) 0 1
     (demo_swap_tx (exact (calldata swapExactTokensForTokens [abi_uint 0, abi_uint 0, abi_uint (2 ^ 64 - 32), abi_uint 0, abi_uint 0]))) demo_parser = None \<and>
   ParseTransaction demo_common (\<lambda>_ _. None) 0 1 (demo_swap_tx (exact (exactInputSingle @ replicate 192 0))) demo_parser = None"
  using hostile_calldata_panics [of "demo_swap_tx (exact [])" "replicate 20 7" demo_parser 1 "[replicate 20 7 \<mapsto> ''uniswap_v2'']" "''uniswap_v2''"
      "[abi_uint 0, abi_uint 0, abi_uint (2 ^ 64 - 32), abi_uint 0, abi_uint 0]" "replicate 192 0" demo_common "\<lambda>_ _. None" 0]
  by (simp add: demo_swap_tx_def demo_parser_def demo_routers_def)

text \<open>
  The tuple of \<open>exactInput\<close> is encoded behind an offset, which the parser takes for the offset of
  the path: for every well-formed call it reports the deadline as the amount in, the amount in as
  the amount out, and as tokens a piece of the recipient and the length of the path.
\<close>

theorem exactInput_misread:
  assumes "common_ok ec" and "length recipient = 20" and "deadline < 2 ^ 256" and "amountIn < 2 ^ 256" and "words_ok path"
    and "length path < 2 ^ 50"
  shows "parseCalldata ec chainID router (exact (calldata exactInput ([abi_uint 32, abi_uint 160, abi_address recipient,
      abi_uint deadline, abi_uint amountIn, abi_uint amountOutMin, abi_uint n] @ path))) =
    Some (Some (exact_in (take 20 (abi_address recipient)) (drop 12 (abi_uint n)) (Some deadline) amountIn))"
proof -
  let ?ws = "[abi_uint 32, abi_uint 160, abi_address recipient, abi_uint deadline, abi_uint amountIn, abi_uint amountOutMin, abi_uint n] @ path"
  let ?d = "exact (calldata exactInput ?ws)"
  have sel: "length exactInput = 4" and ws: "words_ok ?ws"
    using assms(2,5) by (simp_all add: selector_values)
  have mem: "gs_mem ?d = calldata exactInput ?ws @ []"
    by simp
  have len: "gs_len ?d = 228 + 32 * length path"
    using length_calldata [OF ws] sel by simp
  have off: "Uint64 (abi_uint 32) = 32" "Uint64 (abi_uint 160) = 160"
    using uint_Uint64_abi [of 32] uint_Uint64_abi [of 160] by simp_all
  note first = head_reads [OF mem sel ws]
  have "read 68 100 ?d = Some (abi_address recipient)"
    using first(3) by simp
  then have tokenIn: "read 68 88 ?d = Some (take 20 (abi_address recipient))"
    using read_prefix [of 68 100 ?d "abi_address recipient" 20] by simp
  have tokenOut: "read 208 228 ?d = Some (drop 12 (abi_uint n))"
    using read_suffix [OF first(7), of 12] by simp
  have "32 + 32 \<le> data_len ?d"
    using unat_data_len [of "gs_len ?d"] len assms(6) by (simp add: word_le_nat_alt)
  then have "parseV3ExactInput ec ?d = Some (Some (exact_in (BytesToAddress ec (take 20 (abi_address recipient)))
      (BytesToAddress ec (drop 12 (abi_uint n))) (Some (be_nat (abi_uint deadline))) (be_nat (abi_uint amountIn))))"
    unfolding parseV3ExactInput_def
    using first(1,2,4,5) len off tokenIn tokenOut by (simp add: Let_def)
  then show ?thesis
    using read_selector [OF sel mem] len assms(1-4)
    by (simp add: parseCalldata_def selector_values BytesToAddress_id be_nat_abi_uint)
qed

theorem exactInput_misread_witness:
  "parseCalldata demo_common 1 ''uniswap_v3'' (exact (calldata exactInput ([abi_uint 32, abi_uint 160, abi_address (replicate 20 7),
      abi_uint 99, abi_uint 1000, abi_uint 900, abi_uint 43] @ [replicate 32 1, replicate 32 2]))) =
    Some (Some (exact_in (take 20 (abi_address (replicate 20 7))) (drop 12 (abi_uint 43)) (Some 99) 1000))"
  using exactInput_misread [of demo_common "replicate 20 7" 99 1000 "[replicate 32 1, replicate 32 2]" 1 "''uniswap_v3''" 900 43] by simp

end
