(* ===== verification/Calldata_Parser.thy ===== *)
theory Calldata_Parser
  imports Mempool_Parser
begin

text \<open>
  The parser of transaction data that feeds pool discovery (\<open>arb/discovery/calldata_parser.go\<close> and
  the table of factories of \<open>factory.go\<close>): calls of pool factories, swaps through routers, and the
  calls inside a multicall.

  Offsets are converted to \<open>int\<close> and may be negative; every sum wraps around. As in
  \<open>Mempool_Parser\<close>, \<open>None\<close> is a panic. The selectors are the first bytes of Keccak hashes, which is
  the parameter \<open>cr\<close>.
\<close>

section \<open>Factories and routers\<close>

record FactoryInfo =
  fi_Address :: address
  fi_ChainID :: uint64
  fi_DEXType :: string
  fi_Version :: int64
  fi_EventTopic :: hash32
  fi_EventName :: string

definition TopicPairCreatedV2 :: "('sk, 'pk) crypto \<Rightarrow> hash32" where
  "TopicPairCreatedV2 cr = Keccak256 cr (bytes_of_string ''PairCreated(address,address,address,uint256)'')"

definition TopicPoolCreatedV3 :: "('sk, 'pk) crypto \<Rightarrow> hash32" where
  "TopicPoolCreatedV3 cr = Keccak256 cr (bytes_of_string ''PoolCreated(address,address,uint24,int24,address)'')"

definition TopicPairCreatedVelo :: "('sk, 'pk) crypto \<Rightarrow> hash32" where
  "TopicPairCreatedVelo cr = Keccak256 cr (bytes_of_string ''PairCreated(address,address,bool,address,uint256)'')"

definition factory_info :: "eth_common \<Rightarrow> string \<Rightarrow> uint64 \<Rightarrow> string \<Rightarrow> int64 \<Rightarrow> hash32 \<Rightarrow> string \<Rightarrow> FactoryInfo" where
  "factory_info ec hex chainID dexType version topic name =
     \<lparr>fi_Address = HexToAddress ec hex, fi_ChainID = chainID, fi_DEXType = dexType, fi_Version = version,
      fi_EventTopic = topic, fi_EventName = name\<rparr>"

definition Factories :: "eth_common \<Rightarrow> ('sk, 'pk) crypto \<Rightarrow> (uint64 \<times> FactoryInfo list) list" where
  "Factories ec cr = [
     (1, [
       factory_info ec ''0x5C69bEe701ef814a2B6a3EDD4B1652CB9cc5aA6f'' 1 ''uniswap_v2'' 2 (TopicPairCreatedV2 cr) ''PairCreated'',
       factory_info ec ''0x1F98431c8aD98523631AE4a59f267346ea31F984'' 1 ''uniswap_v3'' 3 (TopicPoolCreatedV3 cr) ''PoolCreated'',
       factory_info ec ''0xC0AEe478e3658e2610c5F7A4A2E1777cE9e4f2Ac'' 1 ''sushiswap'' 2 (TopicPairCreatedV2 cr) ''PairCreated'',
       factory_info ec ''0xB9fC157394Af804a3578134A6585C0dc9cc990d4'' 1 ''pancakeswap_v2'' 2 (TopicPairCreatedV2 cr) ''PairCreated'']),
     (8453, [
       factory_info ec ''0x33128a8fC17869897dcE68Ed026d694621f6FDfD'' 8453 ''uniswap_v3'' 3 (TopicPoolCreatedV3 cr) ''PoolCreated'',
       factory_info ec ''0x8909Dc15e40173Ff4699343b6eB8132c65e18eC6'' 8453 ''uniswap_v2'' 2 (TopicPairCreatedV2 cr) ''PairCreated'',
       factory_info ec ''0x420DD381b31aEf6683db6B902084cB0FFECe40Da'' 8453 ''aerodrome'' 2 (TopicPairCreatedVelo cr) ''PairCreated'',
       factory_info ec ''0x02F25e951b16B57c711eeB6BA9E0e5CCDFc9Fd38'' 8453 ''sushiswap_v3'' 3 (TopicPoolCreatedV3 cr) ''PoolCreated'']),
     (10, [
       factory_info ec ''0x1F98431c8aD98523631AE4a59f267346ea31F984'' 10 ''uniswap_v3'' 3 (TopicPoolCreatedV3 cr) ''PoolCreated'',
       factory_info ec ''0x0c3c1c532F1e39EdF36BE9Fe0bE1410313E074Bf'' 10 ''uniswap_v2'' 2 (TopicPairCreatedV2 cr) ''PairCreated'',
       factory_info ec ''0x25CbdDb98b35ab1FF77413456B31EC81A6B6B746'' 10 ''velodrome_v2'' 2 (TopicPairCreatedVelo cr) ''PairCreated'',
       factory_info ec ''0xF1046053aa5682b4F9a81b5481394DA16BE5FF5a'' 10 ''velodrome_cl'' 3 (TopicPoolCreatedV3 cr) ''PoolCreated'']),
     (42161, [
       factory_info ec ''0x1F98431c8aD98523631AE4a59f267346ea31F984'' 42161 ''uniswap_v3'' 3 (TopicPoolCreatedV3 cr) ''PoolCreated'',
       factory_info ec ''0xc35DADB65012eC5796536bD9864eD8773aBc74C4'' 42161 ''sushiswap'' 2 (TopicPairCreatedV2 cr) ''PairCreated'',
       factory_info ec ''0x1af415a1EbA07a4986a52B6f2e7dE7003D82231e'' 42161 ''camelot'' 2 (TopicPairCreatedV2 cr) ''PairCreated'']),
     (11155111, [
       factory_info ec ''0x0227628f3F023bb0B980b67D528571c95c6DaC1c'' 11155111 ''uniswap_v3'' 3 (TopicPoolCreatedV3 cr) ''PoolCreated''])]"

definition factory_table :: "(uint64 \<times> FactoryInfo list) list \<Rightarrow> uint64 \<Rightarrow> (address \<Rightarrow> FactoryInfo option) option" where
  \<comment> \<open>the loop of the constructors: a later entry with the same address replaces an earlier one\<close>
  "factory_table fs chainID =
     map_option (\<lambda>infos. map_of (rev (map (\<lambda>info. (fi_Address info, info)) infos))) (map_of fs chainID)"

definition discovery_initRouters :: "eth_common \<Rightarrow> uint64 \<Rightarrow> (address \<Rightarrow> string option) option" where
  "discovery_initRouters ec = map_of [
     (1, map_of [
       (HexToAddress ec ''0x7a250d5630B4cF539739dF2C5dAcb4c659F2488D'', ''uniswap_v2_router''),
       (HexToAddress ec ''0xE592427A0AEce92De3Edee1F18E0157C05861564'', ''uniswap_v3_router''),
       (HexToAddress ec ''0x68b3465833fb72A70ecDF485E0e4C7bD8665Fc45'', ''uniswap_v3_router2''),
       (HexToAddress ec ''0xd9e1cE17f2641f24aE83637ab66a2cca9C378B9F'', ''sushiswap_router'')]),
     (8453, map_of [
       (HexToAddress ec ''0x2626664c2603336E57B271c5C0b26F421741e481'', ''uniswap_v3_router''),
       (HexToAddress ec ''0xcF77a3Ba9A5CA399B7c97c74d54e5b1Beb874E43'', ''aerodrome_router''),
       (HexToAddress ec ''0x4752ba5DBc23f44D87826276BF6Fd6b1C372aD24'', ''uniswap_v2_router'')]),
     (10, map_of [
       (HexToAddress ec ''0xE592427A0AEce92De3Edee1F18E0157C05861564'', ''uniswap_v3_router''),
       (HexToAddress ec ''0xa062aE8A9c5e11aaA026fc2670B0D65cCc8B2858'', ''velodrome_router'')]),
     (42161, map_of [
       (HexToAddress ec ''0xE592427A0AEce92De3Edee1F18E0157C05861564'', ''uniswap_v3_router''),
       (HexToAddress ec ''0x1b02dA8Cb0d097eB8D57A175b88c7D8b47997506'', ''sushiswap_router''),
       (HexToAddress ec ''0xc873fEcbd354f5A56E00E710B90EF4201db2448d'', ''camelot_router'')])]"

record CalldataParser =
  cp_factories :: "uint64 \<Rightarrow> (address \<Rightarrow> FactoryInfo option) option"
  cp_routers :: "uint64 \<Rightarrow> (address \<Rightarrow> string option) option"

definition NewCalldataParser :: "eth_common \<Rightarrow> ('sk, 'pk) crypto \<Rightarrow> CalldataParser" where
  "NewCalldataParser ec cr = \<lparr>cp_factories = factory_table (Factories ec cr), cp_routers = discovery_initRouters ec\<rparr>"

section \<open>Selectors\<close>

definition SelectorCreatePairV2 :: "('sk, 'pk) crypto \<Rightarrow> bytes" where
  "SelectorCreatePairV2 cr = selector cr ''createPair(address,address)''"

definition SelectorCreatePoolV3 :: "('sk, 'pk) crypto \<Rightarrow> bytes" where
  "SelectorCreatePoolV3 cr = selector cr ''createPool(address,address,uint24)''"

definition SelectorCreatePoolVelo :: "('sk, 'pk) crypto \<Rightarrow> bytes" where
  "SelectorCreatePoolVelo cr = selector cr ''createPool(address,address,bool)''"

definition SelectorSwapExactTokensForTokens :: "('sk, 'pk) crypto \<Rightarrow> bytes" where
  "SelectorSwapExactTokensForTokens cr = selector cr ''swapExactTokensForTokens(uint256,uint256,address[],address,uint256)''"

definition SelectorSwapTokensForExactTokens :: "('sk, 'pk) crypto \<Rightarrow> bytes" where
  "SelectorSwapTokensForExactTokens cr = selector cr ''swapTokensForExactTokens(uint256,uint256,address[],address,uint256)''"

definition SelectorExactInputSingle :: "('sk, 'pk) crypto \<Rightarrow> bytes" where
  "SelectorExactInputSingle cr = selector cr ''exactInputSingle((address,address,uint24,address,uint256,uint256,uint256,uint160))''"

definition SelectorExactOutputSingle :: "('sk, 'pk) crypto \<Rightarrow> bytes" where
  "SelectorExactOutputSingle cr = selector cr ''exactOutputSingle((address,address,uint24,address,uint256,uint256,uint256,uint160))''"

definition SelectorMulticall :: "('sk, 'pk) crypto \<Rightarrow> bytes" where
  "SelectorMulticall cr = selector cr ''multicall(bytes[])''"

definition SelectorMulticallDeadline :: "('sk, 'pk) crypto \<Rightarrow> bytes" where
  "SelectorMulticallDeadline cr = selector cr ''multicall(uint256,bytes[])''"

definition bytesEqual :: "bytes \<Rightarrow> bytes \<Rightarrow> bool" where
  "bytesEqual a b = (if length a \<noteq> length b then False else list_all (\<lambda>i. a ! i = b ! i) [0..<length a])"

section \<open>Parsing\<close>

record ParsedFactoryCall =
  fc_Token0 :: address
  fc_Token1 :: address
  fc_Fee :: "32 word"
  fc_Stable :: bool
  fc_PoolType :: string

record ParsedSwapCall =
  sw_TokenIn :: address
  sw_TokenOut :: address
  sw_AmountIn :: nat
  sw_AmountOut :: nat
  sw_Recipient :: address
  sw_IsV3 :: bool

definition Uint32 :: "bytes \<Rightarrow> 32 word" where
  "Uint32 bs = of_nat (be_nat bs)"

definition parseFactoryCalldata :: "eth_common \<Rightarrow> ('sk, 'pk) crypto \<Rightarrow> go_slice \<Rightarrow> ParsedFactoryCall option option" where
  "parseFactoryCalldata ec cr data =
     (if gs_len data < 68 then Some None
      else do {
        sel \<leftarrow> read 0 4 data;
        t0 \<leftarrow> read 16 36 data;
        t1 \<leftarrow> read 48 68 data;
        let call = \<lparr>fc_Token0 = BytesToAddress ec t0, fc_Token1 = BytesToAddress ec t1, fc_Fee = 0, fc_Stable = False, fc_PoolType = []\<rparr>;
        if bytesEqual sel (SelectorCreatePairV2 cr) then Some (Some (call\<lparr>fc_PoolType := ''v2''\<rparr>))
        else if bytesEqual sel (SelectorCreatePoolV3 cr) \<and> gs_len data \<ge> 100 then do {
          fee \<leftarrow> read 97 100 data;
          Some (Some (call\<lparr>fc_Fee := Uint32 ([0] @ fee), fc_PoolType := ''v3''\<rparr>))
        }
        else if bytesEqual sel (SelectorCreatePoolVelo cr) \<and> gs_len data \<ge> 100 then
          Some (Some (call\<lparr>fc_Stable := (contents data ! 99 = 1), fc_PoolType := ''velo''\<rparr>))
        else Some None
      })"

text \<open>\<open>int(binary.BigEndian.Uint64(...))\<close> of eight bytes.\<close>

definition Int64 :: "bytes \<Rightarrow> int64" where
  "Int64 bs = wrap64 (int (be_nat bs))"

definition parseV2SwapCalldata :: "eth_common \<Rightarrow> go_slice \<Rightarrow> ParsedSwapCall option option" where
  "parseV2SwapCalldata ec data =
     (if gs_len data < 164 then Some None
      else do {
        amountIn \<leftarrow> read 4 36 data;
        amountOutMin \<leftarrow> read 36 68 data;
        recipient \<leftarrow> read 100 132 data;
        off \<leftarrow> read 60 68 data;
        let pathOffset = wrap64 (Int64 off + 4);
        if pathOffset \<ge> int (gs_len data) then Some None
        else do {
          n \<leftarrow> read (wrap64 (pathOffset + 24)) (wrap64 (pathOffset + 32)) data;
          let pathLen = Int64 n;
          if pathLen < 2 \<or> wrap64 (pathOffset + 32 + pathLen * 32) > int (gs_len data) then Some None
          else do {
            tokenIn \<leftarrow> read (wrap64 (pathOffset + 44)) (wrap64 (pathOffset + 64)) data;
            tokenOut \<leftarrow> read (wrap64 (pathOffset + 32 + (pathLen - 1) * 32 + 12)) (wrap64 (pathOffset + 32 + pathLen * 32)) data;
            Some (Some \<lparr>sw_TokenIn = BytesToAddress ec tokenIn, sw_TokenOut = BytesToAddress ec tokenOut,
              sw_AmountIn = be_nat amountIn, sw_AmountOut = be_nat amountOutMin, sw_Recipient = BytesToAddress ec recipient,
              sw_IsV3 = False\<rparr>)
          }
        }
      })"

definition v3_single :: "eth_common \<Rightarrow> go_slice \<Rightarrow> (address \<times> address \<times> address \<times> nat \<times> nat) option" where
  \<comment> \<open>the slices the two V3 functions read behind \<open>offset\<close>\<close>
  "v3_single ec data = do {
     let offset = 36;
     tokenIn \<leftarrow> read (offset + 12) (offset + 32) data;
     tokenOut \<leftarrow> read (offset + 44) (offset + 64) data;
     recipient \<leftarrow> read (offset + 108) (offset + 128) data;
     amount1 \<leftarrow> read (offset + 160) (offset + 192) data;
     amount2 \<leftarrow> read (offset + 192) (offset + 224) data;
     Some (BytesToAddress ec tokenIn, BytesToAddress ec tokenOut, BytesToAddress ec recipient, be_nat amount1, be_nat amount2)
   }"

definition parseV3ExactInputSingle :: "eth_common \<Rightarrow> go_slice \<Rightarrow> ParsedSwapCall option option" where
  "parseV3ExactInputSingle ec data =
     (if gs_len data < 260 then Some None
      else do {
        (tokenIn, tokenOut, recipient, amountIn, amountOutMin) \<leftarrow> v3_single ec data;
        Some (Some \<lparr>sw_TokenIn = tokenIn, sw_TokenOut = tokenOut, sw_AmountIn = amountIn, sw_AmountOut = amountOutMin,
          sw_Recipient = recipient, sw_IsV3 = True\<rparr>)
      })"

definition parseV3ExactOutputSingle :: "eth_common \<Rightarrow> go_slice \<Rightarrow> ParsedSwapCall option option" where
  "parseV3ExactOutputSingle ec data =
     (if gs_len data < 260 then Some None
      else do {
        (tokenIn, tokenOut, recipient, amountOut, amountInMax) \<leftarrow> v3_single ec data;
        Some (Some \<lparr>sw_TokenIn = tokenIn, sw_TokenOut = tokenOut, sw_AmountIn = amountInMax, sw_AmountOut = amountOut,
          sw_Recipient = recipient, sw_IsV3 = True\<rparr>)
      })"

text \<open>The loop of \<open>unwrapMulticall\<close> over the remaining indices; a \<open>break\<close> ends it.\<close>

fun unwrap_from :: "int \<Rightarrow> go_slice \<Rightarrow> nat list \<Rightarrow> go_slice list option" where
  "unwrap_from arrayOffset data [] = Some []"
| "unwrap_from arrayOffset data (i # is) =
     (let offsetOffset = wrap64 (arrayOffset + 32 + int i * 32) in
      if wrap64 (offsetOffset + 32) > int (gs_len data) then Some []
      else do {
        w \<leftarrow> read (wrap64 (offsetOffset + 24)) (wrap64 (offsetOffset + 32)) data;
        let elementOffset = wrap64 (Int64 w + arrayOffset + 32);
        if elementOffset \<ge> int (gs_len data) \<or> wrap64 (elementOffset + 32) > int (gs_len data) then Some []
        else do {
          l \<leftarrow> read (wrap64 (elementOffset + 24)) (wrap64 (elementOffset + 32)) data;
          let elementLen = Int64 l;
          let elementStart = wrap64 (elementOffset + 32);
          if elementLen > 10000 \<or> wrap64 (elementStart + elementLen) > int (gs_len data) then Some []
          else do {
            call \<leftarrow> reslice elementStart (wrap64 (elementStart + elementLen)) data;
            calls \<leftarrow> unwrap_from arrayOffset data is;
            Some (call # calls)
          }
        }
      })"

definition unwrapMulticall :: "('sk, 'pk) crypto \<Rightarrow> go_slice \<Rightarrow> go_slice list option" where
  "unwrapMulticall cr data =
     (if gs_len data < 68 then Some []
      else do {
        sel \<leftarrow> read 0 4 data;
        w \<leftarrow> (if bytesEqual sel (SelectorMulticallDeadline cr) then read 60 68 data else read 28 36 data);
        let arrayOffset = wrap64 (Int64 w + 4);
        if arrayOffset \<ge> int (gs_len data) then Some []
        else do {
          n \<leftarrow> read (wrap64 (arrayOffset + 24)) (wrap64 (arrayOffset + 32)) data;
          let arrayLen = Int64 n;
          if arrayLen > 20 then Some [] else unwrap_from arrayOffset data [0..<nat arrayLen]
        }
      })"

text \<open>Every call inside a multicall is shorter than the multicall, so the nesting ends.\<close>

lemma wrap64_zero: "in_int64 x \<Longrightarrow> wrap64 (x + 32) = 0 \<Longrightarrow> x = - 32"
proof -
  assume "in_int64 x" "wrap64 (x + 32) = 0"
  then have y: "(x + 32 + 2 ^ 63) mod 2 ^ 64 = 2 ^ 63" "32 \<le> x + 32 + 2 ^ 63" "x + 32 + 2 ^ 63 < 2 ^ 64 + 32"
    by (auto simp: wrap64_def in_int64_def)
  show "x = - 32"
  proof (cases "x + 32 + 2 ^ 63 < 2 ^ 64")
    case True
    then show ?thesis
      using y by simp
  next
    case False
    have "(x + 32 + 2 ^ 63) mod 2 ^ 64 = (x + 32 + 2 ^ 63 - 2 ^ 64) mod 2 ^ 64"
      by (rule minus_mod_self2 [symmetric])
    also have "\<dots> = x + 32 + 2 ^ 63 - 2 ^ 64"
      by (rule mod_pos_pos_trivial) (use False y(3) in simp_all)
    finally have "(x + 32 + 2 ^ 63) mod 2 ^ 64 = x + 32 + 2 ^ 63 - 2 ^ 64" .
    then show ?thesis
      using y by simp
  qed
qed

lemma unwrap_from_shorter: "unwrap_from off data is = Some calls \<Longrightarrow> s \<in> set calls \<Longrightarrow> gs_len s < gs_len data"
proof (induction "is" arbitrary: calls)
  case (Cons i "is")
  let ?oo = "wrap64 (off + 32 + int i * 32)"
  show ?case
  proof (cases "s \<in> set (tl calls) \<or> calls = []")
    case True
    with Cons show ?thesis
      by (auto simp: Let_def bind_eq_Some_conv split: if_splits)
  next
    case False
    then have hd: "s = hd calls" "calls \<noteq> []"
      using Cons.prems(2) by (auto simp: neq_Nil_conv)
    obtain w l where l: "read (wrap64 (wrap64 (Int64 w + off + 32) + 24)) (wrap64 (wrap64 (Int64 w + off + 32) + 32)) data = Some l"
        "wrap64 (wrap64 (wrap64 (Int64 w + off + 32) + 32) + Int64 l) \<le> int (gs_len data)"
        "reslice (wrap64 (wrap64 (Int64 w + off + 32) + 32)) (wrap64 (wrap64 (wrap64 (Int64 w + off + 32) + 32) + Int64 l)) data = Some s"
      using Cons.prems(1) hd by (auto simp: Let_def bind_eq_Some_conv not_less split: if_splits)
    define e where "e = wrap64 (Int64 w + off + 32)"
    have "wrap64 (e + 32) \<noteq> 0"
    proof
      assume "wrap64 (e + 32) = 0"
      then have "e = - 32"
        by (intro wrap64_zero) (simp_all add: e_def)
      then have "wrap64 (e + 24) = - 8"
        by (simp add: in_int64_def)
      then show False
        using l(1) by (simp add: e_def [symmetric] read_eq)
    qed
    moreover have "0 \<le> wrap64 (e + 32)" "int (gs_len s) = wrap64 (wrap64 (e + 32) + Int64 l) - wrap64 (e + 32)"
      using l(3) reslice_ok [OF l(3)] by (auto simp: e_def [symmetric] reslice_def split: if_splits)
    ultimately show ?thesis
      using l(2) by (simp add: e_def [symmetric])
  qed
qed simp

lemma unwrapMulticall_shorter: "unwrapMulticall cr data = Some calls \<Longrightarrow> s \<in> set calls \<Longrightarrow> gs_len s < gs_len data"
  by (auto simp: unwrapMulticall_def Let_def bind_eq_Some_conv split: if_splits dest: unwrap_from_shorter)

function parseRouterCalldata :: "eth_common \<Rightarrow> ('sk, 'pk) crypto \<Rightarrow> bytes \<Rightarrow> go_slice \<Rightarrow> ParsedSwapCall list option" where
  "parseRouterCalldata ec cr sel data =
     (if bytesEqual sel (SelectorMulticall cr) \<or> bytesEqual sel (SelectorMulticallDeadline cr) then do {
        innerCalls \<leftarrow> unwrapMulticall cr data;
        calls \<leftarrow> those (map (\<lambda>innerData.
          if gs_len innerData \<ge> 4 then do { sel' \<leftarrow> read 0 4 innerData; parseRouterCalldata ec cr sel' innerData } else Some []) innerCalls);
        Some (concat calls)
      }
      else if bytesEqual sel (SelectorSwapExactTokensForTokens cr) \<or> bytesEqual sel (SelectorSwapTokensForExactTokens cr) then
        map_option (\<lambda>call. case call of None \<Rightarrow> [] | Some c \<Rightarrow> [c]) (parseV2SwapCalldata ec data)
      else if bytesEqual sel (SelectorExactInputSingle cr) then
        map_option (\<lambda>call. case call of None \<Rightarrow> [] | Some c \<Rightarrow> [c]) (parseV3ExactInputSingle ec data)
      else if bytesEqual sel (SelectorExactOutputSingle cr) then
        map_option (\<lambda>call. case call of None \<Rightarrow> [] | Some c \<Rightarrow> [c]) (parseV3ExactOutputSingle ec data)
      else Some [])"
  by pat_completeness auto
termination
  by (relation "measure (\<lambda>(_, _, _, data). gs_len data)") (auto dest: unwrapMulticall_shorter)

declare parseRouterCalldata.simps [simp del]

text \<open>What \<open>ProcessTransaction\<close> hands to its two callbacks, in order.\<close>

datatype parsed_call = FactoryCall ParsedFactoryCall | SwapCall ParsedSwapCall

definition CalldataParser_ProcessTransaction :: "eth_common \<Rightarrow> ('sk, 'pk) crypto \<Rightarrow> uint64 \<Rightarrow> transaction \<Rightarrow> CalldataParser \<Rightarrow> parsed_call list option" where
  "CalldataParser_ProcessTransaction ec cr chainID tx cp =
     (case tr_To tx of
        None \<Rightarrow> Some []
      | Some to' \<Rightarrow>
          let data = tr_Data tx in
          if gs_len data < 4 then Some []
          else do {
            sel \<leftarrow> read 0 4 data;
            case Option.bind (cp_factories cp chainID) (\<lambda>fs. fs to') of
              Some factory \<Rightarrow> map_option (\<lambda>call. case call of None \<Rightarrow> [] | Some c \<Rightarrow> [FactoryCall c]) (parseFactoryCalldata ec cr data)
            | None \<Rightarrow>
                (case Option.bind (cp_routers cp chainID) (\<lambda>rs. rs to') of
                   Some routerType \<Rightarrow> map_option (map SwapCall) (parseRouterCalldata ec cr sel data)
                 | None \<Rightarrow> Some [])
          })"

record GossipPoolDiscovery =
  gd_poolsDiscovered :: uint64
  gd_swapsSeen :: uint64
  gd_lastDiscovery :: int

definition gossip_on_call :: "int \<Rightarrow> parsed_call \<Rightarrow> GossipPoolDiscovery \<Rightarrow> GossipPoolDiscovery" where
  "gossip_on_call now c gpd =
     (case c of
        FactoryCall _ \<Rightarrow> gpd\<lparr>gd_poolsDiscovered := gd_poolsDiscovered gpd + 1, gd_lastDiscovery := now\<rparr>
      | SwapCall _ \<Rightarrow> gpd\<lparr>gd_swapsSeen := gd_swapsSeen gpd + 1\<rparr>)"

definition GossipPoolDiscovery_ProcessTransaction :: "eth_common \<Rightarrow> ('sk, 'pk) crypto \<Rightarrow> int \<Rightarrow> uint64 \<Rightarrow> transaction \<Rightarrow> CalldataParser \<Rightarrow> GossipPoolDiscovery \<Rightarrow> GossipPoolDiscovery option" where
  "GossipPoolDiscovery_ProcessTransaction ec cr now chainID tx cp gpd =
     map_option (\<lambda>calls. fold (gossip_on_call now) calls gpd) (CalldataParser_ProcessTransaction ec cr chainID tx cp)"

text \<open>What the selectors have to be: four bytes, no two alike.\<close>

definition selectors_ok :: "('sk, 'pk) crypto \<Rightarrow> bool" where
  "selectors_ok cr \<longleftrightarrow>
     (let sels = [SelectorCreatePairV2 cr, SelectorCreatePoolV3 cr, SelectorCreatePoolVelo cr, SelectorSwapExactTokensForTokens cr,
        SelectorSwapTokensForExactTokens cr, SelectorExactInputSingle cr, SelectorExactOutputSingle cr, SelectorMulticall cr,
        SelectorMulticallDeadline cr]
      in distinct sels \<and> (\<forall>s\<in>set sels. length s = 4))"

definition sel_crypto :: "(bytes, bytes) crypto" where
  "sel_crypto = demo_crypto\<lparr>Keccak256 := (\<lambda>bs. take 3 (drop 4 (bs @ replicate 8 0)) @ replicate 29 (of_nat (length bs)))\<rparr>"

lemmas Selector_defs = SelectorCreatePairV2_def SelectorCreatePoolV3_def SelectorCreatePoolVelo_def SelectorSwapExactTokensForTokens_def
  SelectorSwapTokensForExactTokens_def SelectorExactInputSingle_def SelectorExactOutputSingle_def SelectorMulticall_def
  SelectorMulticallDeadline_def

lemma sel_crypto_ok: "selectors_ok sel_crypto"
  by code_simp

section \<open>Reading words\<close>

lemma bytesEqual_eq [simp]: "bytesEqual a b \<longleftrightarrow> a = b"
  by (auto simp: bytesEqual_def list_all_iff intro: nth_equalityI)

lemma be_bytes_add: "be_bytes (k + m) n = be_bytes k (n div 256 ^ m) @ be_bytes m n"
proof (induction m arbitrary: n)
  case (Suc m)
  have "be_bytes (k + Suc m) n = be_bytes (k + m) (n div 256) @ [of_nat (n mod 256)]"
    by simp
  also have "\<dots> = be_bytes k (n div 256 ^ Suc m) @ be_bytes (Suc m) n"
    by (simp add: Suc.IH div_mult2_eq mult.commute)
  finally show ?case .
qed simp

lemma drop_abi_uint: "k \<le> 32 \<Longrightarrow> drop k (abi_uint n) = be_bytes (32 - k) n"
  using be_bytes_add [of k "32 - k" n] by (simp add: abi_uint_def)

lemma Int64_be_bytes: "Int64 (be_bytes 8 n) = wrap64 (int (n mod 2 ^ 64))"
  by (simp add: Int64_def be_nat_be_bytes)

lemma Int64_small: "n < 2 ^ 63 \<Longrightarrow> Int64 (be_bytes 8 n) = int n"
  by (simp add: Int64_be_bytes in_int64_def)

lemma read_low:
  assumes "read lo (lo + 32) data = Some (abi_uint n)"
  shows "read (lo + 24) (lo + 32) data = Some (be_bytes 8 n)"
  using read_suffix [OF assms, of 24] by (simp add: drop_abi_uint)

lemma read_mid:
  assumes "gs_mem data = pre @ mid @ post" and "lo = int (length pre)" and "hi = lo + int (length mid)"
  shows "read lo hi data = Some mid"
  using assms by (simp add: read_eq)

section \<open>Multicalls\<close>

text \<open>The ABI encoding of an array of byte strings: its length, the offset of each, and each behind its length.\<close>

definition pad32 :: "bytes \<Rightarrow> bytes" where
  "pad32 bs = bs @ replicate ((32 - length bs mod 32) mod 32) 0"

definition abi_bytes :: "bytes \<Rightarrow> bytes" where
  "abi_bytes bs = abi_uint (length bs) @ pad32 bs"

fun element_offsets :: "nat \<Rightarrow> bytes list \<Rightarrow> nat list" where
  "element_offsets off [] = []"
| "element_offsets off (b # bs) = off # element_offsets (off + length (abi_bytes b)) bs"

definition abi_bytes_array :: "bytes list \<Rightarrow> bytes" where
  "abi_bytes_array calls = abi_uint (length calls) @ concat (map abi_uint (element_offsets (32 * length calls) calls)) @
     concat (map abi_bytes calls)"

definition multicall_bytes :: "('sk, 'pk) crypto \<Rightarrow> nat option \<Rightarrow> bytes list \<Rightarrow> bytes" where
  "multicall_bytes cr deadline calls =
     (case deadline of
        None \<Rightarrow> SelectorMulticall cr @ abi_uint 32 @ abi_bytes_array calls
      | Some t \<Rightarrow> SelectorMulticallDeadline cr @ abi_uint t @ abi_uint 64 @ abi_bytes_array calls)"

lemma length_pad32_le: "length (pad32 bs) \<le> length bs + 31"
  by (simp add: pad32_def)

lemma length_element_offsets [simp]: "length (element_offsets off bs) = length bs"
  by (induction bs arbitrary: off) auto

lemma nth_element_offsets:
  "i < length bs \<Longrightarrow> element_offsets off bs ! i = off + length (concat (map abi_bytes (take i bs)))"
proof (induction bs arbitrary: i off)
  case (Cons b bs)
  then show ?case
    by (cases i) auto
qed simp

lemma length_concat_bounded: "(\<And>x. x \<in> set xs \<Longrightarrow> length x \<le> k) \<Longrightarrow> length (concat xs) \<le> k * length xs"
  by (induction xs) (auto simp: add_mono)

lemma concat_nth_split: "i < length xs \<Longrightarrow> concat xs = concat (take i xs) @ xs ! i @ concat (drop (Suc i) xs)"
  by (metis append_Cons append_Nil concat.simps(2) concat_append id_take_nth_drop)

lemma unwrap_from_elements:
  assumes mem: "gs_mem data = pre @ abi_bytes_array calls" and len: "gs_len data = length (gs_mem data)"
    and off: "off = int (length pre)" and pre: "length pre \<le> 100"
    and calls: "length calls \<le> 20" "\<And>c. c \<in> set calls \<Longrightarrow> length c \<le> 10000"
    and i: "i \<le> length calls"
  shows "\<exists>ss. unwrap_from off data [i..<length calls] = Some ss \<and> map contents ss = drop i calls"
  using i
proof (induction "length calls - i" arbitrary: i)
  case 0
  then show ?case
    by simp
next
  case (Suc m)
  let ?n = "length calls" and ?os = "element_offsets (32 * length calls) calls"
  have i: "i < ?n"
    using Suc.hyps(2) by simp
  define W where "W = map abi_uint ?os"
  define E where "E = map abi_bytes calls"
  define o' where "o' = ?os ! i"
  let ?c = "calls ! i"
  have W: "words_ok W" "length W = ?n"
    by (simp_all add: W_def words_ok_def)
  have c: "length ?c \<le> 10000"
    using calls(2) i by simp
  have o': "o' = 32 * ?n + length (concat (take i E))"
    using nth_element_offsets [OF i] by (simp add: o'_def E_def take_map)
  have Elen: "length x \<le> 10063" if "x \<in> set E" for x
  proof -
    obtain c' where "c' \<in> set calls" "x = abi_bytes c'"
      using \<open>x \<in> set E\<close> by (auto simp: E_def)
    then show ?thesis
      using calls(2) [of c'] length_pad32_le [of c'] by (simp add: abi_bytes_def)
  qed
  have "length (concat (take i E)) \<le> 10063 * length (take i E)"
    using Elen by (intro length_concat_bounded) (meson in_set_takeD)
  also have "\<dots> \<le> 10063 * 20"
    using calls(1) i by (simp add: E_def)
  finally have small: "o' \<le> 210000"
    using o' calls(1) by simp
  have Ei: "concat E = concat (take i E) @ (abi_uint (length ?c) @ pad32 ?c) @ concat (drop (Suc i) E)"
    using concat_nth_split [of i E] i by (simp add: E_def abi_bytes_def)
  have memW: "gs_mem data = (pre @ abi_uint ?n) @ concat W @ concat E"
    by (simp add: mem abi_bytes_array_def W_def E_def)
  have memE: "gs_mem data = (pre @ abi_uint ?n @ concat W @ concat (take i E)) @ abi_uint (length ?c) @ (pad32 ?c @ concat (drop (Suc i) E))"
    by (simp add: memW Ei)
  have memC: "gs_mem data = (pre @ abi_uint ?n @ concat W @ concat (take i E) @ abi_uint (length ?c)) @ ?c @
      (replicate ((32 - length ?c mod 32) mod 32) 0 @ concat (drop (Suc i) E))"
    by (simp add: memE pad32_def)
  have lenW: "length (concat W) = 32 * ?n" "length (concat (take i W)) = 32 * i"
    using length_concat_words [OF W(1)] length_concat_words [of "take i W"] W i by (auto simp: words_ok_def dest: in_set_takeD)
  have wordW: "gs_mem data = ((pre @ abi_uint ?n) @ concat (take i W)) @ abi_uint o' @ (concat (drop (Suc i) W) @ concat E)"
    using concat_nth_split [of i W] i W(2) by (simp add: memW W_def o'_def)
  have total: "off + 64 + int o' + int (length ?c) \<le> int (gs_len data)" "off + 64 + 32 * int i \<le> int (gs_len data)" "0 \<le> off"
    using memC o' lenW len i off by simp_all
  have r1: "read (off + 32 + int i * 32) (off + 32 + int i * 32 + 32) data = Some (abi_uint o')"
    by (rule read_mid [OF wordW]) (use lenW off in simp_all)
  have r2: "read (off + 32 + int o') (off + 32 + int o' + 32) data = Some (abi_uint (length ?c))"
    by (rule read_mid [OF memE]) (use lenW off o' in simp_all)
  define s where "s = \<lparr>gs_len = length ?c, gs_mem = drop (nat (off + 64 + int o')) (gs_mem data)\<rparr>"
  have r3: "reslice (off + 64 + int o') (off + 64 + int o' + int (length ?c)) data = Some s"
    using total(1,3) len by (simp add: reslice_def s_def)
  have s: "contents s = ?c"
    using read_mid [OF memC, of "off + 64 + int o'" "off + 64 + int o' + int (length ?c)"] lenW off o' r3
    by (simp add: read_def)
  have wraps: "wrap64 x = x" if "0 \<le> x" "x \<le> 300000" for x
    using that by (simp add: in_int64_def)
  have ints: "Int64 (be_bytes 8 o') = int o'" "Int64 (be_bytes 8 (length ?c)) = int (length ?c)"
    using small c by (simp_all add: Int64_small)
  have "m = ?n - Suc i"
    using Suc.hyps(2) by simp
  then obtain ss where ss: "unwrap_from off data [Suc i..<?n] = Some ss" "map contents ss = drop (Suc i) calls"
    using Suc.hyps(1) [of "Suc i"] i by auto
  have "unwrap_from off data (i # [Suc i..<?n]) = Some (s # ss)"
    using read_low [OF r1] read_low [OF r2] r3 ss(1) total c off pre small i calls(1)
    by (simp add: Let_def wraps ints ac_simps)
  moreover have "[i..<?n] = i # [Suc i..<?n]"
    using i by (rule upt_conv_Cons)
  ultimately show ?case
    using ss(2) s Cons_nth_drop_Suc [OF i] by (metis list.simps(9))
qed

text \<open>
  C33: A multicall, with or without a deadline, of at most 20 calls of at most 10000 bytes each is
  unwrapped to exactly its calls, in order.
\<close>

theorem multicall_unwrapped:
  assumes "length (SelectorMulticall cr) = 4" and "length (SelectorMulticallDeadline cr) = 4"
    and "SelectorMulticall cr \<noteq> SelectorMulticallDeadline cr"
    and "length calls \<le> 20" and "\<forall>c\<in>set calls. length c \<le> 10000"
  shows "map_option (map contents) (unwrapMulticall cr (exact (multicall_bytes cr deadline calls))) = Some calls"
proof -
  let ?d = "exact (multicall_bytes cr deadline calls)"
  define pre where "pre = (case deadline of None \<Rightarrow> SelectorMulticall cr @ abi_uint 32
    | Some t \<Rightarrow> SelectorMulticallDeadline cr @ abi_uint t @ abi_uint 64)"
  let ?n = "length calls"
  have mem: "gs_mem ?d = pre @ abi_bytes_array calls"
    by (cases deadline) (simp_all add: multicall_bytes_def pre_def)
  have pre: "length pre = (case deadline of None \<Rightarrow> 36 | Some _ \<Rightarrow> 68)"
    using assms(1,2) by (cases deadline) (simp_all add: pre_def)
  have small: "length pre \<le> 100"
    unfolding pre by (cases deadline) simp_all
  define off where "off = int (length pre)"
  have offset: "(if sel = SelectorMulticallDeadline cr then read 60 68 ?d else read 28 36 ?d) = Some (be_bytes 8 (length pre - 4))"
    and sel: "read 0 4 ?d = Some sel" if "sel = (case deadline of None \<Rightarrow> SelectorMulticall cr | Some _ \<Rightarrow> SelectorMulticallDeadline cr)" for sel
  proof -
    show "(if sel = SelectorMulticallDeadline cr then read 60 68 ?d else read 28 36 ?d) = Some (be_bytes 8 (length pre - 4))"
    proof (cases deadline)
      case None
      have "read 4 (4 + 32) ?d = Some (abi_uint 32)"
        by (rule read_mid [where pre = "SelectorMulticall cr" and post = "abi_bytes_array calls"])
          (simp_all add: None multicall_bytes_def assms(1))
      from read_low [OF this] show ?thesis
        using that assms(3) by (simp add: None pre)
    next
      case (Some t)
      have "read 36 (36 + 32) ?d = Some (abi_uint 64)"
        by (rule read_mid [where pre = "SelectorMulticallDeadline cr @ abi_uint t" and post = "abi_bytes_array calls"])
          (simp_all add: Some multicall_bytes_def assms(2))
      from read_low [OF this] show ?thesis
        using that by (simp add: Some pre)
    qed
    show "read 0 4 ?d = Some sel"
      using that assms(1,2) by (cases deadline) (simp_all add: multicall_bytes_def read_eq)
  qed
  have "length (gs_mem ?d) = length pre + length (abi_bytes_array calls)"
    by (simp add: mem del: exact_simps)
  then have len: "length pre + 32 \<le> gs_len ?d"
    by (simp add: abi_bytes_array_def)
  have off4: "wrap64 (Int64 (be_bytes 8 (length pre - 4)) + 4) = off"
    using small pre by (cases deadline) (simp_all add: Int64_small off_def in_int64_def)
  have "read off (off + 32) ?d = Some (abi_uint ?n)"
    by (rule read_mid [where pre = pre and post = "concat (map abi_uint (element_offsets (32 * length calls) calls)) @ concat (map abi_bytes calls)"])
      (simp_all add: mem abi_bytes_array_def off_def del: exact_simps)
  from read_low [OF this] have n: "read (wrap64 (off + 24)) (wrap64 (off + 32)) ?d = Some (be_bytes 8 ?n)"
    using small by (simp add: off_def in_int64_def)
  have Int64n: "Int64 (be_bytes 8 ?n) = int ?n"
    using assms(4) by (simp add: Int64_small)
  obtain ss where ss: "unwrap_from off ?d [0..<?n] = Some ss" "map contents ss = drop 0 calls"
    using unwrap_from_elements [OF mem _ off_def small assms(4), of 0] assms(5) by auto
  have "68 \<le> gs_len ?d"
    using len pre by (cases deadline) auto
  then have "unwrapMulticall cr ?d = Some ss"
    unfolding unwrapMulticall_def
    using sel [OF refl] offset [OF refl] off4 n Int64n len ss(1) assms(4) by (simp add: Let_def off_def)
  then show ?thesis
    using ss(2) by simp
qed

theorem multicall_unwrapped_witness:
  "map_option (map contents) (unwrapMulticall sel_crypto (exact (multicall_bytes sel_crypto (Some 7) [[1, 2, 3, 4, 5], []]))) =
     Some [[1, 2, 3, 4, 5], []]"
  using multicall_unwrapped [of sel_crypto "[[1, 2, 3, 4, 5], []]" "Some 7"] sel_crypto_ok by (simp add: selectors_ok_def Let_def)

section \<open>Factories\<close>

text \<open>
  A call of a factory is recognised with the tokens of its arguments, and for a V3 pool the
  fee; no data of any length makes the factory parser panic.
\<close>

theorem factory_call_parsed:
  assumes "common_ok ec" and "selectors_ok cr" and "length tokenA = 20" and "length tokenB = 20" and "fee < 2 ^ 24"
  shows "parseFactoryCalldata ec cr (exact (calldata (SelectorCreatePairV2 cr) [abi_address tokenA, abi_address tokenB])) =
      Some (Some \<lparr>fc_Token0 = tokenA, fc_Token1 = tokenB, fc_Fee = 0, fc_Stable = False, fc_PoolType = ''v2''\<rparr>) \<and>
    parseFactoryCalldata ec cr (exact (calldata (SelectorCreatePoolV3 cr) [abi_address tokenA, abi_address tokenB, abi_uint fee])) =
      Some (Some \<lparr>fc_Token0 = tokenA, fc_Token1 = tokenB, fc_Fee = of_nat fee, fc_Stable = False, fc_PoolType = ''v3''\<rparr>) \<and>
    (\<forall>data. slice_ok data \<longrightarrow> parseFactoryCalldata ec cr data \<noteq> None)"
proof (intro conjI allI impI)
  note sel = assms(2) [unfolded selectors_ok_def]
  let ?d = "exact (calldata (SelectorCreatePairV2 cr) [abi_address tokenA, abi_address tokenB])"
  have "gs_mem ?d = calldata (SelectorCreatePairV2 cr) [abi_address tokenA, abi_address tokenB] @ []" by simp
  note reads = head_reads [OF this] read_selector [OF _ this]
  show "parseFactoryCalldata ec cr ?d =
      Some (Some \<lparr>fc_Token0 = tokenA, fc_Token1 = tokenB, fc_Fee = 0, fc_Stable = False, fc_PoolType = ''v2''\<rparr>)"
    using reads(8-10) assms(1,3,4) sel by (simp add: parseFactoryCalldata_def Let_def length_calldata BytesToAddress_id)
  let ?e = "exact (calldata (SelectorCreatePoolV3 cr) [abi_address tokenA, abi_address tokenB, abi_uint fee])"
  have "gs_mem ?e = calldata (SelectorCreatePoolV3 cr) [abi_address tokenA, abi_address tokenB, abi_uint fee] @ []" by simp
  note reads = head_reads [OF this] read_selector [OF _ this]
  have "read 68 100 ?e = Some (abi_uint fee)"
    using reads(3) sel assms(3,4) by simp
  from read_suffix [OF this, of 29] have "read 97 100 ?e = Some (be_bytes 3 fee)"
    by (simp add: drop_abi_uint)
  moreover have "be_nat ([0] @ be_bytes 3 fee) = fee"
    using assms(5) be_nat_replicate0 [of 1 "be_bytes 3 fee"] by (simp add: be_nat_be_bytes)
  ultimately show "parseFactoryCalldata ec cr ?e =
      Some (Some \<lparr>fc_Token0 = tokenA, fc_Token1 = tokenB, fc_Fee = of_nat fee, fc_Stable = False, fc_PoolType = ''v3''\<rparr>)"
    using reads(8-10) assms(1,3,4) sel by (auto simp: parseFactoryCalldata_def Let_def length_calldata BytesToAddress_id Uint32_def)
next
  fix data assume "slice_ok data"
  then show "parseFactoryCalldata ec cr data \<noteq> None"
    by (auto simp: parseFactoryCalldata_def read_eq slice_ok_def Let_def split: if_splits)
qed

theorem factory_call_parsed_witness:
  "parseFactoryCalldata demo_common sel_crypto (exact (calldata (SelectorCreatePoolV3 sel_crypto)
      [abi_address (replicate 20 1), abi_address (replicate 20 2), abi_uint 3000])) =
    Some (Some \<lparr>fc_Token0 = replicate 20 1, fc_Token1 = replicate 20 2, fc_Fee = 3000, fc_Stable = False, fc_PoolType = ''v3''\<rparr>)"
  using factory_call_parsed [OF demo_common_ok sel_crypto_ok, of "replicate 20 1" "replicate 20 2" 3000] by simp

section \<open>Swaps\<close>

lemma process_router_call:
  assumes "tr_To tx = Some to'" and "Option.bind (cp_factories cp chainID) (\<lambda>fs. fs to') = None"
    and "Option.bind (cp_routers cp chainID) (\<lambda>rs. rs to') = Some routerType"
    and "length sel = 4" and "tr_Data tx = exact (calldata sel ws)"
  shows "CalldataParser_ProcessTransaction ec cr chainID tx cp = map_option (map SwapCall) (parseRouterCalldata ec cr sel (tr_Data tx))"
proof -
  have "read 0 4 (tr_Data tx) = Some sel"
    using read_selector [of sel "tr_Data tx" ws "[]"] assms(4,5) by simp
  moreover have "\<not> gs_len (tr_Data tx) < 4"
    using assms(4,5) by (simp add: calldata_def)
  ultimately show ?thesis
    using assms(1-3) by (simp add: CalldataParser_ProcessTransaction_def Let_def)
qed

definition v2_words :: "nat \<Rightarrow> nat \<Rightarrow> address list \<Rightarrow> address \<Rightarrow> nat \<Rightarrow> bytes list" where
  "v2_words amountIn amountOutMin path to' deadline =
     [abi_uint amountIn, abi_uint amountOutMin, abi_uint 160, abi_address to', abi_uint deadline, abi_uint (length path)] @ map abi_address path"

lemma wrap64_high: "2 ^ 63 \<le> x \<Longrightarrow> x < 2 ^ 64 \<Longrightarrow> wrap64 x = x - 2 ^ 64"
proof -
  assume x: "2 ^ 63 \<le> x" "x < 2 ^ 64"
  have "(x + 2 ^ 63) mod 2 ^ 64 = (x + 2 ^ 63 - 2 ^ 64) mod 2 ^ 64"
    by (rule minus_mod_self2 [symmetric])
  also have "\<dots> = x + 2 ^ 63 - 2 ^ 64"
    by (rule mod_pos_pos_trivial) (use x in simp_all)
  finally show "wrap64 x = x - 2 ^ 64"
    by (simp add: wrap64_def)
qed

text \<open>
  The offset of the path is read from the minimum amount instead of its own word. A swap whose
  minimum amount, modulo \<open>2^64\<close>, is at least the length of the data is not seen; one for which it is
  negative as an \<open>int64\<close> makes the process panic. Both are ordinary calls of a known router.
\<close>

theorem v2_swap_missed_or_fatal:
  assumes "selectors_ok cr" and "path_ok path" and "length recipient = 20"
    and "tr_To tx = Some to'" and "Option.bind (cp_factories cp chainID) (\<lambda>fs. fs to') = None"
    and "Option.bind (cp_routers cp chainID) (\<lambda>rs. rs to') = Some routerType"
    and "tr_Data tx = exact (calldata (SelectorSwapExactTokensForTokens cr) (v2_words amountIn amountOutMin path recipient deadline))"
  shows "(gs_len (tr_Data tx) \<le> amountOutMin mod 2 ^ 64 \<and> amountOutMin mod 2 ^ 64 < 2 ^ 63 - 4 \<longrightarrow>
      CalldataParser_ProcessTransaction ec cr chainID tx cp = Some []) \<and>
    (2 ^ 63 \<le> amountOutMin mod 2 ^ 64 \<and> amountOutMin mod 2 ^ 64 < 2 ^ 64 - 28 \<longrightarrow>
      CalldataParser_ProcessTransaction ec cr chainID tx cp = None)"
proof -
  note sel = assms(1) [unfolded selectors_ok_def]
  let ?s = "SelectorSwapExactTokensForTokens cr" and ?ws = "v2_words amountIn amountOutMin path recipient deadline" and ?d = "tr_Data tx"
  let ?m = "amountOutMin mod 2 ^ 64"
  have path: "2 \<le> length path" "\<forall>a\<in>set path. length a = 20"
    using assms(2) by (auto simp: path_ok_def)
  have ws: "words_ok ?ws"
    using assms(3) words_abi_addresses [OF path(2)] by (simp add: v2_words_def)
  have mem: "gs_mem ?d = calldata ?s ?ws @ []" and len: "164 \<le> gs_len ?d"
    using assms(7) path(1) sel length_calldata [OF ws] by (simp_all add: v2_words_def)
  note first = head_reads [OF mem _ ws]
  have words: "read 4 36 ?d = Some (abi_uint amountIn)" "read 36 68 ?d = Some (abi_uint amountOutMin)" "read 100 132 ?d = Some (abi_address recipient)"
    using first(1,2,4) sel by (simp_all add: v2_words_def)
  have off: "read 60 68 ?d = Some (be_bytes 8 amountOutMin)"
    using read_low [of 36 ?d amountOutMin] words(2) by simp
  have "parseRouterCalldata ec cr ?s ?d = map_option (\<lambda>call. case call of None \<Rightarrow> [] | Some c \<Rightarrow> [c]) (parseV2SwapCalldata ec ?d)"
    using sel by (subst parseRouterCalldata.simps) simp
  moreover have "length ?s = 4"
    using sel by simp
  ultimately have run: "CalldataParser_ProcessTransaction ec cr chainID tx cp =
      map_option (map SwapCall) (map_option (\<lambda>call. case call of None \<Rightarrow> [] | Some c \<Rightarrow> [c]) (parseV2SwapCalldata ec ?d))"
    using process_router_call [OF assms(4-6) _ assms(7)] by metis
  have parse: "parseV2SwapCalldata ec ?d = Some None" if "gs_len ?d \<le> ?m" "?m < 2 ^ 63 - 4"
  proof -
    have "wrap64 (wrap64 (int ?m) + 4) = int ?m + 4"
      using that(2) by (simp add: in_int64_def)
    then show ?thesis
      using words off len that(1) by (simp add: parseV2SwapCalldata_def Let_def Int64_be_bytes)
  qed
  have fatal: "parseV2SwapCalldata ec ?d = None" if "2 ^ 63 \<le> ?m" "?m < 2 ^ 64 - 28"
  proof -
    have "wrap64 (int ?m) = int ?m - 2 ^ 64"
      using that by (intro wrap64_high) simp_all
    moreover have "in_int64 (int ?m - 2 ^ 64 + 4)" "in_int64 (int ?m - 2 ^ 64 + 28)" "int ?m - 2 ^ 64 + 28 < 0"
      using that by (simp_all add: in_int64_def)
    ultimately have neg: "wrap64 (wrap64 (int ?m) + 4) < 0" "wrap64 (wrap64 (wrap64 (int ?m) + 4) + 24) < 0"
      by simp_all
    then have "read (wrap64 (wrap64 (wrap64 (int ?m) + 4) + 24)) hi ?d = None" for hi
      by (simp add: read_eq)
    then show ?thesis
      using words off len neg(1) by (simp add: parseV2SwapCalldata_def Let_def Int64_be_bytes)
  qed
  show ?thesis
    using run parse fatal by auto
qed

text \<open>
  The arguments of \<open>exactInputSingle\<close> are a static tuple and stand right behind the selector,
  but the parser skips a word: every call is reported with the output token as input, the fee as
  output token, the deadline as recipient, the minimum output as amount in and the price limit
  as amount out.
\<close>

theorem exactInputSingle_shifted:
  assumes "common_ok ec" and "selectors_ok cr" and "length tokenIn = 20" and "length tokenOut = 20" and "length recipient = 20"
    and "amountOutMin < 2 ^ 256" and "limit < 2 ^ 256"
  shows "parseRouterCalldata ec cr (SelectorExactInputSingle cr) (exact (calldata (SelectorExactInputSingle cr)
      [abi_address tokenIn, abi_address tokenOut, abi_uint fee, abi_address recipient, abi_uint deadline, abi_uint amountIn,
       abi_uint amountOutMin, abi_uint limit])) =
    Some [\<lparr>sw_TokenIn = tokenOut, sw_TokenOut = be_bytes 20 fee, sw_AmountIn = amountOutMin, sw_AmountOut = limit,
      sw_Recipient = be_bytes 20 deadline, sw_IsV3 = True\<rparr>]"
proof -
  note sel = assms(2) [unfolded selectors_ok_def]
  let ?s = "SelectorExactInputSingle cr"
  let ?ws = "[abi_address tokenIn, abi_address tokenOut, abi_uint fee, abi_address recipient, abi_uint deadline, abi_uint amountIn,
    abi_uint amountOutMin, abi_uint limit]"
  let ?d = "exact (calldata ?s ?ws)"
  have ws: "words_ok ?ws" and s: "length ?s = 4" and mem: "gs_mem ?d = calldata ?s ?ws @ []"
    using assms(3-5) sel by simp_all
  note first = head_reads [OF mem s ws]
  have reads: "read 48 68 ?d = Some tokenOut" "read 196 228 ?d = Some (abi_uint amountOutMin)"
    using first(7,9) by simp_all
  have "read 68 100 ?d = Some (abi_uint fee)" "read 132 164 ?d = Some (abi_uint deadline)"
    using first(3,5) by simp_all
  then have mids: "read 80 100 ?d = Some (be_bytes 20 fee)" "read 144 164 ?d = Some (be_bytes 20 deadline)"
    using read_suffix [of 68 100 ?d "abi_uint fee" 12] read_suffix [of 132 164 ?d "abi_uint deadline" 12] by (simp_all add: drop_abi_uint)
  have lim: "read 228 260 ?d = Some (abi_uint limit)"
    using read_word [OF ws s, of 7 ?d "[]" 228] by simp
  have "v3_single ec ?d = Some (tokenOut, be_bytes 20 fee, be_bytes 20 deadline, amountOutMin, limit)"
    using reads mids lim assms(1,4,6,7) by (simp add: v3_single_def BytesToAddress_id be_nat_abi_uint)
  then have "parseV3ExactInputSingle ec ?d = Some (Some \<lparr>sw_TokenIn = tokenOut, sw_TokenOut = be_bytes 20 fee, sw_AmountIn = amountOutMin,
      sw_AmountOut = limit, sw_Recipient = be_bytes 20 deadline, sw_IsV3 = True\<rparr>)"
    using length_calldata [OF ws] s by (simp add: parseV3ExactInputSingle_def)
  then show ?thesis
    using sel by (subst parseRouterCalldata.simps) auto
qed

definition sel_parser :: CalldataParser where
  "sel_parser = \<lparr>cp_factories = Map.empty, cp_routers = demo_routers\<rparr>"

definition sel_tx :: "nat \<Rightarrow> transaction" where
  "sel_tx amountOutMin = demo_swap_tx (exact (calldata (SelectorSwapExactTokensForTokens sel_crypto) (v2_words 1000 amountOutMin demo_path (replicate 20 9) 5)))"

theorem v2_swap_missed_or_fatal_witness:
  "CalldataParser_ProcessTransaction demo_common sel_crypto 1 (sel_tx 1000) sel_parser = Some [] \<and>
   CalldataParser_ProcessTransaction demo_common sel_crypto 1 (sel_tx 10000000000000000000) sel_parser = None"
proof -
  have path: "path_ok demo_path"
    by (simp add: demo_path_def path_ok_def)
  have ws: "words_ok (v2_words 1000 m demo_path (replicate 20 9) 5)" for m
    by (simp add: v2_words_def words_ok_def demo_path_def)
  have "length (SelectorSwapExactTokensForTokens sel_crypto) = 4"
    using sel_crypto_ok by (simp add: selectors_ok_def Let_def)
  then have len: "gs_len (tr_Data (sel_tx 1000)) = 292"
    using length_calldata [OF ws, of "SelectorSwapExactTokensForTokens sel_crypto" 1000]
    by (simp add: sel_tx_def demo_swap_tx_def v2_words_def demo_path_def)
  note use = v2_swap_missed_or_fatal [OF sel_crypto_ok path, of "replicate 20 9" _ "replicate 20 7" sel_parser 1 "''uniswap_v2''"]
  show ?thesis
    using use [of "sel_tx 1000" 1000 1000 5 demo_common] use [of "sel_tx 10000000000000000000" 1000 10000000000000000000 5 demo_common] len
    by (simp add: sel_tx_def demo_swap_tx_def sel_parser_def demo_routers_def)
qed

theorem exactInputSingle_shifted_witness:
  "parseRouterCalldata demo_common sel_crypto (SelectorExactInputSingle sel_crypto) (exact (calldata (SelectorExactInputSingle sel_crypto)
      [abi_address (replicate 20 1), abi_address (replicate 20 2), abi_uint 3000, abi_address (replicate 20 9), abi_uint 5, abi_uint 1000,
       abi_uint 900, abi_uint 0])) =
    Some [\<lparr>sw_TokenIn = replicate 20 2, sw_TokenOut = be_bytes 20 3000, sw_AmountIn = 900, sw_AmountOut = 0,
      sw_Recipient = be_bytes 20 5, sw_IsV3 = True\<rparr>]"
  using exactInputSingle_shifted [OF demo_common_ok sel_crypto_ok, of "replicate 20 1" "replicate 20 2" "replicate 20 9" 900 0 3000 5 1000] by simp

end
