(* ===== verification/Pool_Registry.thy ===== *)
theory Pool_Registry
  imports Calldata_Parser Reward_Epoch
begin

text \<open>
  Pool discovery (\<open>arb/discovery/factory.go\<close>, \<open>pool_registry.go\<close>, \<open>discovery_types.go\<close>): the listener
  that turns calls of pool factories into pools, and the registry of pools with its indexes by
  token and by pair.

  The scores are \<open>float64\<close>; their arithmetic is the parameter \<open>fl\<close> of \<open>Reward_Epoch\<close>, and the product of
  two reserves as \<open>big.Float\<close> the parameter \<open>big_product\<close>. The text of an address, which the code
  compares, is \<open>AddressHex cr\<close>. Slices that Go keeps in nested maps are functions of the chain and
  the key; the empty slice stands for an absent key.
\<close>

section \<open>Pools\<close>

record 'f DiscoveredPool =
  dp_Address :: address
  dp_ChainID :: uint64
  dp_DEXType :: string
  dp_Token0 :: address
  dp_Token1 :: address
  dp_Fee :: "32 word"
  dp_TickSpacing :: int64
  dp_Stable :: bool
  dp_Reserve0 :: "int option"
  dp_Reserve1 :: "int option"
  dp_DiscoveredAt :: int
  dp_LastUpdated :: int
  dp_CreatedBlock :: uint64
  dp_LastBlock :: uint64
  dp_DepthScore :: 'f
  dp_ActivityScore :: 'f
  dp_TotalScore :: 'f
  dp_UpdateCount :: uint64
  dp_SwapCount :: uint64

definition new_pool :: "'f float64 \<Rightarrow> uint64 \<Rightarrow> string \<Rightarrow> int \<Rightarrow> int \<Rightarrow> 'f DiscoveredPool" where
  "new_pool fl chainID dexType now now' =
     \<lparr>dp_Address = zero_address, dp_ChainID = chainID, dp_DEXType = dexType, dp_Token0 = zero_address, dp_Token1 = zero_address,
      dp_Fee = 0, dp_TickSpacing = 0, dp_Stable = False, dp_Reserve0 = None, dp_Reserve1 = None, dp_DiscoveredAt = now,
      dp_LastUpdated = now', dp_CreatedBlock = 0, dp_LastBlock = 0, dp_DepthScore = f_of_int fl 0, dp_ActivityScore = f_of_int fl 0,
      dp_TotalScore = f_of_int fl 0, dp_UpdateCount = 0, dp_SwapCount = 0\<rparr>"

definition HasToken :: "address \<Rightarrow> 'f DiscoveredPool \<Rightarrow> bool" where
  "HasToken token p \<longleftrightarrow> dp_Token0 p = token \<or> dp_Token1 p = token"

definition OtherToken :: "address \<Rightarrow> 'f DiscoveredPool \<Rightarrow> address" where
  "OtherToken token p = (if dp_Token0 p = token then dp_Token1 p else dp_Token0 p)"

definition IsV3 :: "'f DiscoveredPool \<Rightarrow> bool" where
  "IsV3 p \<longleftrightarrow> dp_DEXType p = ''uniswap_v3''"

record 'f PoolFilter =
  pf_MaxAgeHours :: int64
  pf_MinTotalScore :: 'f
  pf_IncludeStable :: bool
  pf_IncludeVolatile :: bool
  pf_TokenWhitelist :: "address list"
  pf_TokenBlacklist :: "address list"
  pf_DEXWhitelist :: "string list"

definition hour :: int64 where
  "hour = 3600 * 1000000000"

definition Matches :: "'f float64 \<Rightarrow> int \<Rightarrow> 'f PoolFilter \<Rightarrow> 'f DiscoveredPool \<Rightarrow> bool" where
  "Matches fl now f pool \<longleftrightarrow>
     \<not> f_less fl (dp_TotalScore pool) (pf_MinTotalScore f) \<and>
     \<not> (pf_MaxAgeHours f > 0 \<and> time_sub now (dp_LastUpdated pool) > wrap64 (pf_MaxAgeHours f * hour)) \<and>
     \<not> (dp_Stable pool \<and> \<not> pf_IncludeStable f) \<and>
     \<not> (\<not> dp_Stable pool \<and> \<not> pf_IncludeVolatile f) \<and>
     (pf_TokenWhitelist f = [] \<or> list_ex (\<lambda>t. HasToken t pool) (pf_TokenWhitelist f)) \<and>
     list_all (\<lambda>t. \<not> HasToken t pool) (pf_TokenBlacklist f) \<and>
     (pf_DEXWhitelist f = [] \<or> list_ex (\<lambda>d. dp_DEXType pool = d) (pf_DEXWhitelist f))"

section \<open>Factories\<close>

text \<open>Go compares strings byte by byte.\<close>

fun str_less :: "string \<Rightarrow> string \<Rightarrow> bool" where
  "str_less [] ys = (ys \<noteq> [])"
| "str_less (x # xs) [] = False"
| "str_less (x # xs) (y # ys) = ((of_char x :: nat) < of_char y \<or> x = y \<and> str_less xs ys)"

definition hex_bytes :: "string \<Rightarrow> bytes" where
  "hex_bytes s = (case hex_decode s of None \<Rightarrow> [] | Some b \<Rightarrow> b)"

definition sorted_tokens :: "('sk, 'pk) crypto \<Rightarrow> address \<Rightarrow> address \<Rightarrow> address \<times> address" where
  "sorted_tokens cr token0 token1 =
     (if str_less (AddressHex cr token1) (AddressHex cr token0) then (token1, token0) else (token0, token1))"

definition create2 :: "eth_common \<Rightarrow> ('sk, 'pk) crypto \<Rightarrow> address \<Rightarrow> bytes \<Rightarrow> string \<Rightarrow> address" where
  "create2 ec cr factory salt initCodeHash =
     BytesToAddress ec (drop 12 (Keccak256 cr ([0xff] @ factory @ salt @ hex_bytes initCodeHash)))"

definition ComputePairAddressV2 :: "eth_common \<Rightarrow> ('sk, 'pk) crypto \<Rightarrow> address \<Rightarrow> address \<Rightarrow> address \<Rightarrow> address" where
  "ComputePairAddressV2 ec cr factory token0 token1 =
     (let (t0, t1) = sorted_tokens cr token0 token1
      in create2 ec cr factory (Keccak256 cr (t0 @ t1)) ''96e8ac4277198ff8b6f785478aa9a39f403cb768dd02cbee326c3e7da348845f'')"

definition ComputePoolAddressV3 :: "eth_common \<Rightarrow> ('sk, 'pk) crypto \<Rightarrow> address \<Rightarrow> address \<Rightarrow> address \<Rightarrow> 32 word \<Rightarrow> address" where
  "ComputePoolAddressV3 ec cr factory token0 token1 fee =
     (let (t0, t1) = sorted_tokens cr token0 token1
      in create2 ec cr factory (Keccak256 cr (t0 @ t1 @ replicate 28 0 @ be_bytes 4 (unat fee)))
           ''e34f199b19b2b4f47f68442619d555527d244f78a3297ea89325f843f87b8b54'')"

definition listener_parse :: "'f float64 \<Rightarrow> eth_common \<Rightarrow> ('sk, 'pk) crypto \<Rightarrow> int \<Rightarrow> int \<Rightarrow> FactoryInfo \<Rightarrow> go_slice \<Rightarrow> 'f DiscoveredPool option option" where
  "listener_parse fl ec cr now now' factory data =
     (if gs_len data < 68 then Some None
      else do {
        sel \<leftarrow> read 0 4 data;
        t0 \<leftarrow> read 16 36 data;
        t1 \<leftarrow> read 48 68 data;
        let pool = (new_pool fl (fi_ChainID factory) (fi_DEXType factory) now now')\<lparr>dp_Token0 := BytesToAddress ec t0, dp_Token1 := BytesToAddress ec t1\<rparr>;
        if sel = [0xc9, 0xc6, 0x53, 0x96] then
          Some (Some (pool\<lparr>dp_Fee := 30, dp_Address := ComputePairAddressV2 ec cr (fi_Address factory) (dp_Token0 pool) (dp_Token1 pool)\<rparr>))
        else if sel = [0xa1, 0x67, 0x12, 0x95] \<and> gs_len data \<ge> 100 then do {
          fee \<leftarrow> read 97 100 data;
          Some (Some (pool\<lparr>dp_Fee := Uint32 ([0] @ fee),
            dp_Address := ComputePoolAddressV3 ec cr (fi_Address factory) (dp_Token0 pool) (dp_Token1 pool) (Uint32 ([0] @ fee))\<rparr>))
        }
        else Some None
      })"

record GossipFactoryListener =
  gl_factories :: "uint64 \<Rightarrow> (address \<Rightarrow> FactoryInfo option) option"
  gl_factoryCallsSeen :: uint64
  gl_poolsDiscovered :: uint64
  gl_lastDiscovery :: int

definition NewGossipFactoryListener :: "eth_common \<Rightarrow> ('sk, 'pk) crypto \<Rightarrow> GossipFactoryListener" where
  "NewGossipFactoryListener ec cr = \<lparr>gl_factories = factory_table (Factories ec cr), gl_factoryCallsSeen = 0, gl_poolsDiscovered = 0, gl_lastDiscovery = 0\<rparr>"

definition GetFactoryForAddress :: "uint64 \<Rightarrow> address \<Rightarrow> GossipFactoryListener \<Rightarrow> FactoryInfo option" where
  "GetFactoryForAddress chainID addr gfl = Option.bind (gl_factories gfl chainID) (\<lambda>fs. fs addr)"

definition IsFactory :: "uint64 \<Rightarrow> address \<Rightarrow> GossipFactoryListener \<Rightarrow> bool" where
  "IsFactory chainID addr gfl \<longleftrightarrow> GetFactoryForAddress chainID addr gfl \<noteq> None"

text \<open>\<open>ProcessTransaction\<close> of the listener; the pool is handed to the callback \<open>OnPoolDiscovered\<close>.\<close>

definition listener_ProcessTransaction :: "'f float64 \<Rightarrow> eth_common \<Rightarrow> ('sk, 'pk) crypto \<Rightarrow> int \<Rightarrow> uint64 \<Rightarrow> transaction \<Rightarrow> GossipFactoryListener \<Rightarrow> (GossipFactoryListener \<times> 'f DiscoveredPool option) option" where
  "listener_ProcessTransaction fl ec cr now chainID tx gfl =
     (case tr_To tx of
        None \<Rightarrow> Some (gfl, None)
      | Some to' \<Rightarrow>
          (case GetFactoryForAddress chainID to' gfl of
             None \<Rightarrow> Some (gfl, None)
           | Some factory \<Rightarrow>
               if gs_len (tr_Data tx) < 4 then Some (gfl, None)
               else
                 let gfl1 = gfl\<lparr>gl_factoryCallsSeen := gl_factoryCallsSeen gfl + 1\<rparr>
                 in (case listener_parse fl ec cr now now factory (tr_Data tx) of
                       None \<Rightarrow> None
                     | Some None \<Rightarrow> Some (gfl1, None)
                     | Some (Some pool) \<Rightarrow>
                         Some (gfl1\<lparr>gl_poolsDiscovered := gl_poolsDiscovered gfl1 + 1, gl_lastDiscovery := now\<rparr>, Some pool))))"

section \<open>Logs\<close>

record eth_log =
  lg_Address :: address
  lg_Topics :: "hash32 list"
  lg_Data :: bytes
  lg_BlockNumber :: uint64

text \<open>\<open>common.HexToAddress(topic.Hex())\<close> keeps the last 20 bytes of the topic, as \<open>BytesToAddress\<close> does.\<close>

definition parseV2EventFromLog :: "eth_common \<Rightarrow> 'f DiscoveredPool \<Rightarrow> FactoryInfo \<Rightarrow> eth_log \<Rightarrow> go_error + 'f DiscoveredPool" where
  "parseV2EventFromLog ec pool factory log =
     (if length (lg_Topics log) < 3 then Inl (Errorf ''insufficient topics for V2 event'')
      else
        let pool1 = pool\<lparr>dp_Token0 := BytesToAddress ec (lg_Topics log ! 1), dp_Token1 := BytesToAddress ec (lg_Topics log ! 2)\<rparr>;
            data = lg_Data log
        in if length data < 64 then Inl (Errorf ''insufficient data for V2 event'')
           else
             let pool2 = (if fi_DEXType factory = ''aerodrome'' \<or> fi_DEXType factory = ''velodrome_v2'' then
                            (if length data \<ge> 96
                             then pool1\<lparr>dp_Stable := (data ! 31 = 1), dp_Address := BytesToAddress ec (take 20 (drop 44 data))\<rparr>
                             else pool1)
                          else pool1\<lparr>dp_Address := BytesToAddress ec (take 20 (drop 12 data))\<rparr>)
             in Inr (pool2\<lparr>dp_Fee := 30\<rparr>))"

definition tick_spacing :: "bytes \<Rightarrow> int64" where
  \<comment> \<open>of the 32 bytes of an \<open>int24\<close>: the low three bytes, negated when the sign bit above them is set\<close>
  "tick_spacing tickBytes =
     (let low = int (be_nat (take 3 (drop 29 tickBytes))) in if bit (tickBytes ! 28) 7 then - low else low)"

definition parseV3EventFromLog :: "eth_common \<Rightarrow> 'f DiscoveredPool \<Rightarrow> FactoryInfo \<Rightarrow> eth_log \<Rightarrow> go_error + 'f DiscoveredPool" where
  "parseV3EventFromLog ec pool factory log =
     (if length (lg_Topics log) < 4 then Inl (Errorf ''insufficient topics for V3 event'')
      else if length (lg_Data log) < 64 then Inl (Errorf ''insufficient data for V3 event'')
      else Inr (pool\<lparr>dp_Token0 := BytesToAddress ec (lg_Topics log ! 1), dp_Token1 := BytesToAddress ec (lg_Topics log ! 2),
             dp_Fee := Uint32 ([0] @ take 3 (drop 29 (lg_Topics log ! 3))),
             dp_TickSpacing := tick_spacing (take 32 (lg_Data log)),
             dp_Address := BytesToAddress ec (take 20 (drop 44 (lg_Data log)))\<rparr>))"

definition ParsePoolCreatedLog :: "'f float64 \<Rightarrow> eth_common \<Rightarrow> ('sk, 'pk) crypto \<Rightarrow> int \<Rightarrow> int \<Rightarrow> uint64 \<Rightarrow> eth_log \<Rightarrow> go_error + 'f DiscoveredPool" where
  "ParsePoolCreatedLog fl ec cr now now' chainID log =
     (case map_of (Factories ec cr) chainID of
        None \<Rightarrow> Inl (Errorf ''no factories for chain'')
      | Some chainFactories \<Rightarrow>
          (case find (\<lambda>f. fi_Address f = lg_Address log) chainFactories of
             None \<Rightarrow> Inl (Errorf ''unknown factory address'')
           | Some factory \<Rightarrow>
               let pool = (new_pool fl chainID (fi_DEXType factory) now now')\<lparr>dp_CreatedBlock := lg_BlockNumber log\<rparr>
               in if fi_Version factory = 2 then parseV2EventFromLog ec pool factory log
                  else if fi_Version factory = 3 then parseV3EventFromLog ec pool factory log
                  else Inl (Errorf ''unknown factory version'')))"

section \<open>The registry\<close>

record 'f RegistryConfig =
  rg_InactiveThreshold :: int64
  rg_MinScoreThreshold :: 'f

record 'f PoolRegistry =
  pl_pools :: "uint64 \<Rightarrow> address \<Rightarrow> 'f DiscoveredPool option"
  pl_tokenPools :: "uint64 \<Rightarrow> address \<Rightarrow> address list"
  pl_pairPools :: "uint64 \<Rightarrow> string \<Rightarrow> address list"
  pl_config :: "'f RegistryConfig"
  pl_TotalPoolsDiscovered :: int
  pl_PoolsByChain :: "uint64 \<Rightarrow> int"
  pl_PoolsByDEX :: "string \<Rightarrow> int"
  pl_LastUpdateTime :: int

definition NewPoolRegistry :: "'f RegistryConfig \<Rightarrow> 'f PoolRegistry" where
  "NewPoolRegistry config =
     \<lparr>pl_pools = (\<lambda>_ _. None), pl_tokenPools = (\<lambda>_ _. []), pl_pairPools = (\<lambda>_ _. []), pl_config = config,
      pl_TotalPoolsDiscovered = 0, pl_PoolsByChain = (\<lambda>_. 0), pl_PoolsByDEX = (\<lambda>_. 0), pl_LastUpdateTime = 0\<rparr>"

definition pairKey :: "('sk, 'pk) crypto \<Rightarrow> address \<Rightarrow> address \<Rightarrow> string" where
  "pairKey cr token0 token1 =
     (if str_less (AddressHex cr token0) (AddressHex cr token1)
      then AddressHex cr token0 @ '':'' @ AddressHex cr token1
      else AddressHex cr token1 @ '':'' @ AddressHex cr token0)"

definition append_at :: "uint64 \<Rightarrow> 'k \<Rightarrow> address \<Rightarrow> (uint64 \<Rightarrow> 'k \<Rightarrow> address list) \<Rightarrow> uint64 \<Rightarrow> 'k \<Rightarrow> address list" where
  "append_at chainID k a m = m(chainID := (m chainID)(k := m chainID k @ [a]))"

definition AddPool :: "('sk, 'pk) crypto \<Rightarrow> int \<Rightarrow> 'f DiscoveredPool \<Rightarrow> 'f PoolRegistry \<Rightarrow> 'f PoolRegistry" where
  "AddPool cr now pool pr =
     (let chainID = dp_ChainID pool; addr = dp_Address pool
      in if pl_pools pr chainID addr \<noteq> None then pr
         else pr\<lparr>pl_pools := (pl_pools pr)(chainID := (pl_pools pr chainID)(addr \<mapsto> pool)),
                pl_tokenPools := append_at chainID (dp_Token1 pool) addr (append_at chainID (dp_Token0 pool) addr (pl_tokenPools pr)),
                pl_pairPools := append_at chainID (pairKey cr (dp_Token0 pool) (dp_Token1 pool)) addr (pl_pairPools pr),
                pl_TotalPoolsDiscovered := pl_TotalPoolsDiscovered pr + 1,
                pl_PoolsByChain := (pl_PoolsByChain pr)(chainID := pl_PoolsByChain pr chainID + 1),
                pl_PoolsByDEX := (pl_PoolsByDEX pr)(dp_DEXType pool := pl_PoolsByDEX pr (dp_DEXType pool) + 1),
                pl_LastUpdateTime := now\<rparr>)"

definition registry_ProcessTransaction :: "'f float64 \<Rightarrow> eth_common \<Rightarrow> ('sk, 'pk) crypto \<Rightarrow> int \<Rightarrow> uint64 \<Rightarrow> transaction \<Rightarrow> GossipFactoryListener \<times> 'f PoolRegistry \<Rightarrow> (GossipFactoryListener \<times> 'f PoolRegistry) option" where
  "registry_ProcessTransaction fl ec cr now chainID tx s =
     map_option (\<lambda>(gfl, found). (gfl, case found of None \<Rightarrow> snd s | Some pool \<Rightarrow> AddPool cr now pool (snd s)))
       (listener_ProcessTransaction fl ec cr now chainID tx (fst s))"

definition update_pool :: "uint64 \<Rightarrow> address \<Rightarrow> ('f DiscoveredPool \<Rightarrow> 'f DiscoveredPool) \<Rightarrow> 'f PoolRegistry \<Rightarrow> 'f PoolRegistry" where
  "update_pool chainID addr f pr =
     pr\<lparr>pl_pools := (pl_pools pr)(chainID := (pl_pools pr chainID)(addr := map_option f (pl_pools pr chainID addr)))\<rparr>"

definition raise_reserve :: "int option \<Rightarrow> nat \<Rightarrow> int option" where
  "raise_reserve reserve amount =
     (let estimated = int amount * 100
      in case reserve of None \<Rightarrow> Some estimated | Some r \<Rightarrow> if r < estimated then Some estimated else Some r)"

definition UpdatePoolFromSwap :: "int \<Rightarrow> uint64 \<Rightarrow> address \<Rightarrow> nat option \<Rightarrow> nat option \<Rightarrow> 'f PoolRegistry \<Rightarrow> 'f PoolRegistry" where
  "UpdatePoolFromSwap now chainID poolAddr amountIn amountOut =
     update_pool chainID poolAddr (\<lambda>pool.
       let pool1 = pool\<lparr>dp_SwapCount := dp_SwapCount pool + 1, dp_UpdateCount := dp_UpdateCount pool + 1, dp_LastUpdated := now\<rparr>
       in case (amountIn, amountOut) of
            (Some a, Some b) \<Rightarrow> pool1\<lparr>dp_Reserve0 := raise_reserve (dp_Reserve0 pool1) a, dp_Reserve1 := raise_reserve (dp_Reserve1 pool1) b\<rparr>
          | _ \<Rightarrow> pool1)"

definition UpdatePoolFromPriceGossip :: "'f float64 \<Rightarrow> int \<Rightarrow> uint64 \<Rightarrow> address \<Rightarrow> int option \<Rightarrow> int option \<Rightarrow> uint64 \<Rightarrow> 'f \<Rightarrow> 'f PoolRegistry \<Rightarrow> 'f PoolRegistry" where
  "UpdatePoolFromPriceGossip fl now chainID poolAddr reserve0 reserve1 blockNum confidence =
     update_pool chainID poolAddr (\<lambda>pool.
       if f_less fl confidence (f_div fl (f_of_int fl 1) (f_of_int fl 2)) \<or> dp_LastBlock pool \<ge> blockNum then pool
       else pool\<lparr>dp_Reserve0 := reserve0, dp_Reserve1 := reserve1, dp_LastBlock := blockNum,
         dp_UpdateCount := dp_UpdateCount pool + 1, dp_LastUpdated := now\<rparr>)"

definition GetPool :: "uint64 \<Rightarrow> address \<Rightarrow> 'f PoolRegistry \<Rightarrow> 'f DiscoveredPool option" where
  "GetPool chainID addr pr = pl_pools pr chainID addr"

definition GetPoolsForToken :: "uint64 \<Rightarrow> address \<Rightarrow> 'f PoolRegistry \<Rightarrow> 'f DiscoveredPool list" where
  "GetPoolsForToken chainID token pr = List.map_filter (pl_pools pr chainID) (pl_tokenPools pr chainID token)"

definition GetPoolsForPair :: "('sk, 'pk) crypto \<Rightarrow> uint64 \<Rightarrow> address \<Rightarrow> address \<Rightarrow> 'f PoolRegistry \<Rightarrow> 'f DiscoveredPool list" where
  "GetPoolsForPair cr chainID token0 token1 pr = List.map_filter (pl_pools pr chainID) (pl_pairPools pr chainID (pairKey cr token0 token1))"

definition GetAllPools :: "uint64 \<Rightarrow> address list \<Rightarrow> 'f PoolRegistry \<Rightarrow> 'f DiscoveredPool list" where
  \<comment> \<open>\<open>order\<close> lists the keys of the chain's map once each\<close>
  "GetAllPools chainID order pr = List.map_filter (pl_pools pr chainID) order"

definition GetFilteredPools :: "'f float64 \<Rightarrow> int \<Rightarrow> uint64 \<Rightarrow> 'f PoolFilter \<Rightarrow> address list \<Rightarrow> 'f PoolRegistry \<Rightarrow> 'f DiscoveredPool list" where
  "GetFilteredPools fl now chainID f order pr = filter (Matches fl now f) (GetAllPools chainID order pr)"

definition f_min :: "'f float64 \<Rightarrow> 'f \<Rightarrow> 'f \<Rightarrow> 'f" where
  "f_min fl a b = (if f_less fl a b then a else b)"

definition calculatePoolScore :: "'f float64 \<Rightarrow> (int \<Rightarrow> int \<Rightarrow> 'f) \<Rightarrow> int \<Rightarrow> 'f DiscoveredPool \<Rightarrow> 'f DiscoveredPool" where
  "calculatePoolScore fl big_product now pool =
     (let n = f_of_int fl;
          depthScore = (case (dp_Reserve0 pool, dp_Reserve1 pool) of
              (Some r0, Some r1) \<Rightarrow> if f_less fl (n 0) (big_product r0 r1) then f_min fl (n 1) (f_div fl (big_product r0 r1) (f_of_big fl (10 ^ 36))) else n 0
            | _ \<Rightarrow> n 0);
          activityScore = f_min fl (n 1) (f_div fl (n (uint (dp_SwapCount pool))) (n 1000));
          ageHours = f_hours fl (time_sub now (dp_DiscoveredAt pool));
          ageScore = f_div fl (n 1) (f_add fl (n 1) (f_div fl ageHours (n 168)))
      in pool\<lparr>dp_DepthScore := depthScore, dp_ActivityScore := activityScore,
           dp_TotalScore := f_add fl (f_add fl (f_mul fl (f_div fl (n 1) (n 2)) depthScore) (f_mul fl (f_div fl (n 3) (n 10)) activityScore))
             (f_mul fl (f_div fl (n 1) (n 5)) ageScore)\<rparr>)"

definition updateAllScores :: "'f float64 \<Rightarrow> (int \<Rightarrow> int \<Rightarrow> 'f) \<Rightarrow> int \<Rightarrow> 'f PoolRegistry \<Rightarrow> 'f PoolRegistry" where
  "updateAllScores fl big_product now pr =
     pr\<lparr>pl_pools := (\<lambda>chainID addr. map_option (calculatePoolScore fl big_product now) (pl_pools pr chainID addr))\<rparr>"

definition inactive :: "'f float64 \<Rightarrow> int \<Rightarrow> 'f PoolRegistry \<Rightarrow> 'f DiscoveredPool \<Rightarrow> bool" where
  "inactive fl now pr pool \<longleftrightarrow>
     \<not> (dp_SwapCount pool = 0 \<and> dp_UpdateCount pool = 0) \<and>
     dp_LastUpdated pool < now + wrap64 (- rg_InactiveThreshold (pl_config pr)) \<and>
     f_less fl (dp_TotalScore pool) (rg_MinScoreThreshold (pl_config pr))"

definition prune_one :: "'f float64 \<Rightarrow> int \<Rightarrow> uint64 \<times> address \<Rightarrow> 'f PoolRegistry \<Rightarrow> 'f PoolRegistry" where
  "prune_one fl now k pr =
     (let (chainID, addr) = k in
      case pl_pools pr chainID addr of
        None \<Rightarrow> pr
      | Some pool \<Rightarrow>
          if inactive fl now pr pool
          then pr\<lparr>pl_pools := (pl_pools pr)(chainID := (pl_pools pr chainID)(addr := None)),
                 pl_PoolsByChain := (pl_PoolsByChain pr)(chainID := pl_PoolsByChain pr chainID - 1),
                 pl_PoolsByDEX := (pl_PoolsByDEX pr)(dp_DEXType pool := pl_PoolsByDEX pr (dp_DEXType pool) - 1)\<rparr>
          else pr)"

definition pruneInactivePools :: "'f float64 \<Rightarrow> int \<Rightarrow> (uint64 \<times> address) list \<Rightarrow> 'f PoolRegistry \<Rightarrow> 'f PoolRegistry" where
  \<comment> \<open>\<open>order\<close> lists the keys of the two nested maps in the order of the loops\<close>
  "pruneInactivePools fl now order pr = fold (prune_one fl now) order pr"

definition ImportPools :: "('sk, 'pk) crypto \<Rightarrow> int \<Rightarrow> 'f DiscoveredPool list \<Rightarrow> 'f PoolRegistry \<Rightarrow> 'f PoolRegistry \<times> nat" where
  "ImportPools cr now pools pr = (fold (AddPool cr now) pools pr, length pools)"

section \<open>Runs of the registry\<close>

datatype 'f registry_op =
    Op_AddPool int "'f DiscoveredPool"
  | Op_UpdatePoolFromSwap int uint64 address "nat option" "nat option"
  | Op_UpdatePoolFromPriceGossip int uint64 address "int option" "int option" uint64 'f
  | Op_updateAllScores int
  | Op_pruneInactivePools int "(uint64 \<times> address) list"

fun pool_registry_step :: "'f float64 \<Rightarrow> (int \<Rightarrow> int \<Rightarrow> 'f) \<Rightarrow> ('sk, 'pk) crypto \<Rightarrow> 'f registry_op \<Rightarrow> 'f PoolRegistry \<Rightarrow> 'f PoolRegistry" where
  "pool_registry_step fl bp cr (Op_AddPool now pool) pr = AddPool cr now pool pr"
| "pool_registry_step fl bp cr (Op_UpdatePoolFromSwap now c a x y) pr = UpdatePoolFromSwap now c a x y pr"
| "pool_registry_step fl bp cr (Op_UpdatePoolFromPriceGossip now c a r s b conf) pr = UpdatePoolFromPriceGossip fl now c a r s b conf pr"
| "pool_registry_step fl bp cr (Op_updateAllScores now) pr = updateAllScores fl bp now pr"
| "pool_registry_step fl bp cr (Op_pruneInactivePools now order) pr = pruneInactivePools fl now order pr"

definition registry_run :: "'f float64 \<Rightarrow> (int \<Rightarrow> int \<Rightarrow> 'f) \<Rightarrow> ('sk, 'pk) crypto \<Rightarrow> 'f registry_op list \<Rightarrow> 'f PoolRegistry \<Rightarrow> 'f PoolRegistry" where
  "registry_run fl bp cr ops pr = fold (pool_registry_step fl bp cr) ops pr"

definition pool_indexed :: "('sk, 'pk) crypto \<Rightarrow> 'f PoolRegistry \<Rightarrow> uint64 \<Rightarrow> address \<Rightarrow> 'f DiscoveredPool \<Rightarrow> bool" where
  "pool_indexed cr pr c a p \<longleftrightarrow> dp_ChainID p = c \<and> dp_Address p = a \<and> a \<in> set (pl_tokenPools pr c (dp_Token0 p)) \<and>
     a \<in> set (pl_tokenPools pr c (dp_Token1 p)) \<and> a \<in> set (pl_pairPools pr c (pairKey cr (dp_Token0 p) (dp_Token1 p)))"

definition registry_inv :: "('sk, 'pk) crypto \<Rightarrow> 'f PoolRegistry \<Rightarrow> bool" where
  "registry_inv cr pr \<longleftrightarrow> (\<forall>c a p. pl_pools pr c a = Some p \<longrightarrow> pool_indexed cr pr c a p) \<and>
     (\<forall>c. finite (dom (pl_pools pr c)) \<and> pl_PoolsByChain pr c = int (card (dom (pl_pools pr c))))"

lemma append_at_apply: "append_at c k a m c' k' = (if c' = c \<and> k' = k then m c k @ [a] else m c' k')"
  by (simp add: append_at_def)

lemma registry_inv_Add:
  assumes "registry_inv cr pr"
  shows "registry_inv cr (AddPool cr now pool pr)"
proof (cases "pl_pools pr (dp_ChainID pool) (dp_Address pool)")
  case None
  let ?q = "AddPool cr now pool pr" and ?c = "dp_ChainID pool" and ?a = "dp_Address pool"
  have fin: "finite (dom (pl_pools pr c))" "pl_PoolsByChain pr c = int (card (dom (pl_pools pr c)))" for c
    using assms by (auto simp: registry_inv_def)
  have pools: "pl_pools ?q c a = (if c = ?c \<and> a = ?a then Some pool else pl_pools pr c a)" for c a
    using None by (simp add: AddPool_def Let_def)
  have counts: "pl_PoolsByChain ?q c = pl_PoolsByChain pr c + (if c = ?c then 1 else 0)" for c
    using None by (simp add: AddPool_def Let_def)
  have more: "set (pl_tokenPools pr c t) \<subseteq> set (pl_tokenPools ?q c t)" "set (pl_pairPools pr c k) \<subseteq> set (pl_pairPools ?q c k)" for c t k
    using None by (auto simp: AddPool_def Let_def append_at_apply)
  have new: "pool_indexed cr ?q ?c ?a pool"
    using None by (simp add: pool_indexed_def AddPool_def Let_def append_at_apply)
  have "pool_indexed cr ?q c a p" if "pl_pools ?q c a = Some p" for c a p
  proof (cases "c = ?c \<and> a = ?a")
    case True
    then show ?thesis
      using that new by (simp add: pools)
  next
    case False
    then have "pl_pools pr c a = Some p"
      using that by (auto simp: pools)
    then have "pool_indexed cr pr c a p"
      using assms by (simp add: registry_inv_def)
    then show ?thesis
      using more unfolding pool_indexed_def by blast
  qed
  moreover have "dom (pl_pools ?q c) = (if c = ?c then insert ?a (dom (pl_pools pr c)) else dom (pl_pools pr c))" for c
    by (auto simp: pools split: if_splits)
  moreover have "?a \<notin> dom (pl_pools pr ?c)"
    using None by (simp add: domIff)
  ultimately show ?thesis
    using fin by (simp add: registry_inv_def counts)
qed (use assms in \<open>simp add: AddPool_def Let_def\<close>)

lemma registry_inv_map:
  assumes "registry_inv cr pr" and "\<And>c a p. dp_ChainID (f c a p) = dp_ChainID p \<and> dp_Address (f c a p) = dp_Address p \<and>
      dp_Token0 (f c a p) = dp_Token0 p \<and> dp_Token1 (f c a p) = dp_Token1 p"
  shows "registry_inv cr (pr\<lparr>pl_pools := (\<lambda>c a. map_option (f c a) (pl_pools pr c a))\<rparr>)"
proof -
  have "dom (\<lambda>a. map_option (f c a) (pl_pools pr c a)) = dom (pl_pools pr c)" for c
    by auto
  then show ?thesis
    using assms by (auto simp: registry_inv_def pool_indexed_def)
qed

lemma update_pool_map:
  "update_pool c a f pr = pr\<lparr>pl_pools := (\<lambda>c' a'. map_option (if c' = c \<and> a' = a then f else (\<lambda>p. p)) (pl_pools pr c' a'))\<rparr>"
proof -
  have "(pl_pools pr)(c := (pl_pools pr c)(a := map_option f (pl_pools pr c a))) =
      (\<lambda>c' a'. map_option (if c' = c \<and> a' = a then f else (\<lambda>p. p)) (pl_pools pr c' a'))"
    by (auto simp: fun_eq_iff option.map_ident)
  then show ?thesis
    by (simp add: update_pool_def)
qed

lemma registry_inv_update:
  assumes "registry_inv cr pr" and "\<And>p. dp_ChainID (f p) = dp_ChainID p \<and> dp_Address (f p) = dp_Address p \<and>
      dp_Token0 (f p) = dp_Token0 p \<and> dp_Token1 (f p) = dp_Token1 p"
  shows "registry_inv cr (update_pool c a f pr)"
  unfolding update_pool_map using assms by (intro registry_inv_map) auto

lemma card_dom_remove: "finite (dom m) \<Longrightarrow> m a = Some p \<Longrightarrow> int (card (dom (m(a := None)))) = int (card (dom m)) - 1"
proof -
  assume "finite (dom m)" "m a = Some p"
  then have "card (dom m - {a}) = card (dom m) - 1" "0 < card (dom m)"
    by (auto simp: card_gt_0_iff domI)
  then show ?thesis
    by simp
qed

lemma registry_inv_prune_one: "registry_inv cr pr \<Longrightarrow> registry_inv cr (prune_one fl now k pr)"
proof (cases k)
  case (Pair c a)
  assume inv: "registry_inv cr pr"
  show ?thesis
  proof (cases "\<exists>p. pl_pools pr c a = Some p \<and> inactive fl now pr p")
    case True
    then obtain p where p: "pl_pools pr c a = Some p" "inactive fl now pr p"
      by blast
    have fin: "finite (dom (pl_pools pr c'))" "pl_PoolsByChain pr c' = int (card (dom (pl_pools pr c')))" for c'
      using inv by (auto simp: registry_inv_def)
    have card: "int (card (dom ((pl_pools pr c)(a := None)))) = int (card (dom (pl_pools pr c))) - 1"
      using card_dom_remove [OF fin(1) p(1)] .
    let ?pr = "prune_one fl now k pr"
    have "?pr = pr\<lparr>pl_pools := (pl_pools pr)(c := (pl_pools pr c)(a := None)),
        pl_PoolsByChain := (pl_PoolsByChain pr)(c := pl_PoolsByChain pr c - 1),
        pl_PoolsByDEX := (pl_PoolsByDEX pr)(dp_DEXType p := pl_PoolsByDEX pr (dp_DEXType p) - 1)\<rparr>"
      using p by (simp add: prune_one_def Pair)
    then show ?thesis
      using inv card fin by (auto simp: registry_inv_def pool_indexed_def)
  next
    case False
    then have "prune_one fl now k pr = pr"
      by (auto simp: prune_one_def Pair split: option.splits)
    with inv show ?thesis
      by simp
  qed
qed

lemma registry_inv_prune: "registry_inv cr pr \<Longrightarrow> registry_inv cr (pruneInactivePools fl now order pr)"
  unfolding pruneInactivePools_def by (induction order arbitrary: pr) (simp_all add: registry_inv_prune_one)

lemma registry_inv_step: "registry_inv cr pr \<Longrightarrow> registry_inv cr (pool_registry_step fl bp cr op pr)"
proof (cases op)
  case (Op_UpdatePoolFromSwap now c a x y)
  assume "registry_inv cr pr"
  then show ?thesis
    unfolding Op_UpdatePoolFromSwap pool_registry_step.simps UpdatePoolFromSwap_def
    by (rule registry_inv_update) (simp add: Let_def split: option.splits)
next
  case (Op_UpdatePoolFromPriceGossip now c a r s b conf)
  assume "registry_inv cr pr"
  then show ?thesis
    unfolding Op_UpdatePoolFromPriceGossip pool_registry_step.simps UpdatePoolFromPriceGossip_def
    by (rule registry_inv_update) simp
next
  case (Op_updateAllScores now)
  assume "registry_inv cr pr"
  then show ?thesis
    unfolding Op_updateAllScores pool_registry_step.simps updateAllScores_def
    by (rule registry_inv_map) (simp add: calculatePoolScore_def Let_def)
qed (simp_all add: registry_inv_Add registry_inv_prune)

lemma registry_inv_run: "registry_inv cr pr \<Longrightarrow> registry_inv cr (registry_run fl bp cr ops pr)"
  unfolding registry_run_def by (induction ops arbitrary: pr) (simp_all add: registry_inv_step)

lemma registry_inv_new: "registry_inv cr (NewPoolRegistry config)"
  by (simp add: registry_inv_def NewPoolRegistry_def)

lemma str_less_total: "str_less a b \<or> a = b \<or> str_less b a"
proof (induction a b rule: str_less.induct)
  case (1 ys)
  then show ?case by (cases ys) auto
next
  case (3 x xs y ys)
  then show ?case
    by (metis linorder_neqE_nat of_char_eq_iff str_less.simps(3))
qed simp

lemma str_less_Nil [simp]: "\<not> str_less xs []"
  by (cases xs) simp_all

lemma str_less_asym: "str_less a b \<Longrightarrow> \<not> str_less b a"
  by (induction a b rule: str_less.induct) auto

lemma pairKey_commute: "pairKey cr a b = pairKey cr b a"
  using str_less_total [of "AddressHex cr a" "AddressHex cr b"] str_less_asym [of "AddressHex cr a" "AddressHex cr b"]
  by (auto simp: pairKey_def)

lemma map_filter_in: "m a = Some p \<Longrightarrow> a \<in> set xs \<Longrightarrow> p \<in> set (List.map_filter m xs)"
  by (induction xs) (auto simp: List.map_filter_simps split: option.splits)

text \<open>
  C34: In every state a registry reaches, each stored pool is found by both of its tokens and by its
  pair in either order, whatever was pruned and updated before, and the counter of a chain is the
  number of its pools.
\<close>

theorem registry_lookup_complete:
  assumes "pr = registry_run fl bp cr ops (NewPoolRegistry config)" and "GetPool c a pr = Some p"
  shows "dp_ChainID p = c \<and> dp_Address p = a \<and> p \<in> set (GetPoolsForToken c (dp_Token0 p) pr) \<and>
    p \<in> set (GetPoolsForToken c (dp_Token1 p) pr) \<and> p \<in> set (GetPoolsForPair cr c (dp_Token0 p) (dp_Token1 p) pr) \<and>
    p \<in> set (GetPoolsForPair cr c (dp_Token1 p) (dp_Token0 p) pr) \<and>
    pl_PoolsByChain pr c = int (card {b. GetPool c b pr \<noteq> None})"
proof -
  have "registry_inv cr pr"
    unfolding assms(1) by (rule registry_inv_run [OF registry_inv_new])
  then have inv: "pool_indexed cr pr c a p" "pl_PoolsByChain pr c = int (card (dom (pl_pools pr c)))"
    using assms(2) by (auto simp: registry_inv_def GetPool_def)
  then show ?thesis
    using assms(2) pairKey_commute [of cr "dp_Token1 p" "dp_Token0 p"]
    by (simp add: pool_indexed_def GetPool_def GetPoolsForToken_def GetPoolsForPair_def map_filter_in dom_def)
qed

text \<open>
  Pruning forgets the pool but not the index entries: a pool that is pruned and discovered again
  is listed twice for its pair, and routes over it are counted twice.
\<close>

theorem pruned_pool_listed_twice:
  assumes "pr = registry_run fl bp cr ops (NewPoolRegistry config)" and "GetPool c a pr = Some p" and "inactive fl now pr p"
  shows "2 \<le> length (filter (\<lambda>q. q = p) (GetPoolsForPair cr c (dp_Token0 p) (dp_Token1 p) (AddPool cr t p (pruneInactivePools fl now [(c, a)] pr))))"
proof -
  have "registry_inv cr pr"
    unfolding assms(1) by (rule registry_inv_run [OF registry_inv_new])
  then have ix: "dp_ChainID p = c" "dp_Address p = a" "a \<in> set (pl_pairPools pr c (pairKey cr (dp_Token0 p) (dp_Token1 p)))"
    using assms(2) by (auto simp: registry_inv_def GetPool_def pool_indexed_def)
  let ?k = "pairKey cr (dp_Token0 p) (dp_Token1 p)" and ?pr = "pruneInactivePools fl now [(c, a)] pr"
  let ?q = "AddPool cr t p ?pr"
  have pruned: "pl_pools ?pr c a = None" "pl_pairPools ?pr = pl_pairPools pr"
    using assms(2,3) by (simp_all add: pruneInactivePools_def prune_one_def GetPool_def)
  have q: "pl_pools ?q c a = Some p" "pl_pairPools ?q c ?k = pl_pairPools pr c ?k @ [a]"
    using pruned ix by (simp_all add: AddPool_def Let_def append_at_apply)
  obtain xs ys where xs: "pl_pairPools pr c ?k = xs @ a # ys"
    using ix(3) by (meson split_list)
  have "GetPoolsForPair cr c (dp_Token0 p) (dp_Token1 p) ?q =
      List.map_filter (pl_pools ?q c) xs @ [p] @ List.map_filter (pl_pools ?q c) ys @ [p]"
    using q xs by (simp add: GetPoolsForPair_def map_filter_def)
  then show ?thesis
    by simp
qed

section \<open>From a factory call to the registry\<close>

text \<open>
  A pending call of \<open>createPair\<close> to a known factory puts the pair into the registry under the
  computed address, unless one is there already; it is then found for its two tokens.
\<close>

theorem pair_creation_discovered:
  assumes "common_ok ec" and "tr_To tx = Some to'" and "GetFactoryForAddress chainID to' gfl = Some factory"
    and "length tokenA = 20" and "length tokenB = 20"
    and "tr_Data tx = exact (calldata [0xc9, 0xc6, 0x53, 0x96] [abi_address tokenA, abi_address tokenB])"
    and "a = ComputePairAddressV2 ec cr (fi_Address factory) tokenA tokenB" and "GetPool (fi_ChainID factory) a pr = None"
  shows "\<exists>gfl' pr' pool. registry_ProcessTransaction fl ec cr now chainID tx (gfl, pr) = Some (gfl', pr') \<and>
    GetPool (fi_ChainID factory) a pr' = Some pool \<and> dp_Token0 pool = tokenA \<and> dp_Token1 pool = tokenB \<and> dp_Fee pool = 30 \<and>
    pool \<in> set (GetPoolsForPair cr (fi_ChainID factory) tokenB tokenA pr') \<and>
    gl_poolsDiscovered gfl' = gl_poolsDiscovered gfl + 1"
proof -
  let ?ws = "[abi_address tokenA, abi_address tokenB]" and ?s = "[0xc9, 0xc6, 0x53, 0x96] :: bytes" and ?d = "tr_Data tx"
  have mem: "gs_mem ?d = calldata ?s ?ws @ []" and len: "gs_len ?d = 68" and ws: "words_ok ?ws"
    using assms(4-6) by (simp_all add: length_calldata)
  have reads: "read 0 4 ?d = Some ?s" "read 16 36 ?d = Some tokenA" "read 48 68 ?d = Some tokenB"
    using read_selector [OF _ mem] head_reads(8,9) [OF mem _ ws] by simp_all
  define pool where "pool = (new_pool fl (fi_ChainID factory) (fi_DEXType factory) now now)\<lparr>dp_Token0 := tokenA, dp_Token1 := tokenB,
    dp_Fee := 30, dp_Address := a\<rparr>"
  have parse: "listener_parse fl ec cr now now factory ?d = Some (Some pool)"
    using reads len assms(1,4,5,7) by (simp add: listener_parse_def Let_def BytesToAddress_id pool_def new_pool_def)
  define pr' where "pr' = AddPool cr now pool pr"
  have run: "registry_ProcessTransaction fl ec cr now chainID tx (gfl, pr) =
      Some (gfl\<lparr>gl_factoryCallsSeen := gl_factoryCallsSeen gfl + 1, gl_poolsDiscovered := gl_poolsDiscovered gfl + 1, gl_lastDiscovery := now\<rparr>, pr')"
    using parse len assms(2,3) by (simp add: registry_ProcessTransaction_def listener_ProcessTransaction_def Let_def pr'_def)
  have fields: "dp_ChainID pool = fi_ChainID factory" "dp_Address pool = a" "dp_Token0 pool = tokenA" "dp_Token1 pool = tokenB" "dp_Fee pool = 30"
    by (simp_all add: pool_def new_pool_def)
  have stored: "pl_pools pr' (fi_ChainID factory) a = Some pool" "a \<in> set (pl_pairPools pr' (fi_ChainID factory) (pairKey cr tokenA tokenB))"
    using assms(8) fields by (simp_all add: pr'_def AddPool_def Let_def GetPool_def append_at_apply)
  then have "pool \<in> set (GetPoolsForPair cr (fi_ChainID factory) tokenB tokenA pr')"
    using map_filter_in [of "pl_pools pr' (fi_ChainID factory)" a pool] pairKey_commute [of cr tokenB tokenA] by (simp add: GetPoolsForPair_def)
  then show ?thesis
    using run stored(1) fields by (auto simp: GetPool_def)
qed

definition demo_factory :: FactoryInfo where
  "demo_factory = \<lparr>fi_Address = replicate 20 7, fi_ChainID = 1, fi_DEXType = ''uniswap_v2'', fi_Version = 2, fi_EventTopic = zero32, fi_EventName = ''PairCreated''\<rparr>"

definition demo_listener :: GossipFactoryListener where
  "demo_listener = \<lparr>gl_factories = [1 \<mapsto> [replicate 20 7 \<mapsto> demo_factory]], gl_factoryCallsSeen = 0, gl_poolsDiscovered = 0, gl_lastDiscovery = 0\<rparr>"

definition demo_registry_config :: "int RegistryConfig" where
  "demo_registry_config = \<lparr>rg_InactiveThreshold = 5, rg_MinScoreThreshold = 1\<rparr>"

definition demo_pair_pool :: "int DiscoveredPool" where
  "demo_pair_pool = (new_pool demo_float 1 ''uniswap_v2'' 0 0)\<lparr>dp_Address := replicate 20 3, dp_Token0 := replicate 20 1, dp_Token1 := replicate 20 2, dp_SwapCount := 1\<rparr>"

theorem pair_creation_discovered_witness:
  "\<exists>gfl' pr' pool. registry_ProcessTransaction demo_float demo_common demo_crypto 9 1
      (demo_swap_tx (exact (calldata [0xc9, 0xc6, 0x53, 0x96] [abi_address (replicate 20 1), abi_address (replicate 20 2)])))
      (demo_listener, NewPoolRegistry demo_registry_config) = Some (gfl', pr') \<and>
    GetPool 1 (ComputePairAddressV2 demo_common demo_crypto (replicate 20 7) (replicate 20 1) (replicate 20 2)) pr' = Some pool \<and>
    pool \<in> set (GetPoolsForPair demo_crypto 1 (replicate 20 2) (replicate 20 1) pr')"
  using pair_creation_discovered [OF demo_common_ok, of "demo_swap_tx (exact (calldata [0xc9, 0xc6, 0x53, 0x96] [abi_address (replicate 20 1), abi_address (replicate 20 2)]))"
      "replicate 20 7" 1 demo_listener demo_factory "replicate 20 1" "replicate 20 2" _ demo_crypto "NewPoolRegistry demo_registry_config" demo_float 9, OF _ _ _ _ _ refl]
  by (auto simp: demo_swap_tx_def demo_listener_def demo_factory_def GetFactoryForAddress_def GetPool_def NewPoolRegistry_def)

theorem registry_lookup_complete_witness:
  "demo_pair_pool \<in> set (GetPoolsForPair demo_crypto 1 (replicate 20 2) (replicate 20 1)
     (registry_run demo_float (\<lambda>a b. a * b) demo_crypto [Op_AddPool 0 demo_pair_pool] (NewPoolRegistry demo_registry_config)))"
  using registry_lookup_complete [OF refl, of 1 "replicate 20 3" demo_float "\<lambda>a b. a * b" demo_crypto "[Op_AddPool 0 demo_pair_pool]" demo_registry_config demo_pair_pool]
  by (simp add: registry_run_def GetPool_def AddPool_def Let_def NewPoolRegistry_def demo_pair_pool_def new_pool_def)

lemma AddPool_config [simp]: "pl_config (AddPool cr now pool pr) = pl_config pr"
  by (simp add: AddPool_def Let_def)

theorem pruned_pool_listed_twice_witness:
  "2 \<le> length (filter (\<lambda>q. q = demo_pair_pool) (GetPoolsForPair demo_crypto 1 (dp_Token0 demo_pair_pool) (dp_Token1 demo_pair_pool)
     (AddPool demo_crypto 8 demo_pair_pool (pruneInactivePools demo_float 7 [(1, replicate 20 3)]
       (registry_run demo_float (\<lambda>a b. a * b) demo_crypto [Op_AddPool 0 demo_pair_pool] (NewPoolRegistry demo_registry_config))))))"
proof (rule pruned_pool_listed_twice [OF refl])
  let ?pr = "registry_run demo_float (\<lambda>a b. a * b) demo_crypto [Op_AddPool 0 demo_pair_pool] (NewPoolRegistry demo_registry_config)"
  show "GetPool 1 (replicate 20 3) ?pr = Some demo_pair_pool"
    by (simp add: registry_run_def GetPool_def AddPool_def Let_def NewPoolRegistry_def demo_pair_pool_def new_pool_def)
  have "pl_config ?pr = demo_registry_config"
    by (simp add: registry_run_def NewPoolRegistry_def)
  then show "inactive demo_float 7 ?pr demo_pair_pool"
    by (simp add: inactive_def demo_registry_config_def demo_pair_pool_def new_pool_def demo_float_def in_int64_def)
qed

text \<open>The sign of a negative \<open>int24\<close> is not its two's complement reading: \<open>-60\<close> is read as \<open>-16777156\<close>.\<close>

lemma tick_spacing_negative: "tick_spacing (replicate 29 0xff @ [0xff, 0xff, 0xc4]) = - 16777156"
proof -
  have "bit (0xff :: byte) 7"
    by code_simp
  moreover have "be_nat [0xff, 0xff, 0xc4] = 16777156"
    by (simp add: be_nat_def)
  ultimately show ?thesis
    by (simp add: tick_spacing_def nth_append)
qed

end
