(* ===== verification/Position_Manager.thy ===== *)
theory Position_Manager
  imports Reward_Epoch
begin

text \<open>
  The positions of the arbitrage engine (\<open>arb/positions.go\<close> and \<open>Position\<close> of \<open>arb/types.go\<close>): the
  balance held per chain and token, the part of it that is locked by running trades, the targets,
  and the plan that moves balances back towards them.

  The nested maps of Go are functions from the chain to an optional function from the token. A range
  over them visits the keys in an order Go does not fix: the list \<open>order\<close> of the keys is an argument.
  Quotients and products of \<open>big.Float\<close> are the parameters \<open>big_ratio\<close> and \<open>big_scale\<close>; the latter is
  \<open>None\<close> where the product is not finite and the conversion to an integer panics.
\<close>

section \<open>A position\<close>

record Position =
  po_ChainID :: uint64
  po_Token :: address
  po_Symbol :: string
  po_Amount :: int
  po_Available :: int
  po_Locked :: int
  po_LastRebalance :: int

definition Position_Lock :: "int \<Rightarrow> Position \<Rightarrow> Position \<times> bool" where
  "Position_Lock amount p =
     (if po_Available p < amount then (p, False)
      else (p\<lparr>po_Available := po_Available p - amount, po_Locked := po_Locked p + amount\<rparr>, True))"

definition Position_Unlock :: "int \<Rightarrow> Position \<Rightarrow> Position" where
  "Position_Unlock amount p = p\<lparr>po_Locked := po_Locked p - amount, po_Available := po_Available p + amount\<rparr>"

definition Position_UpdateBalance :: "int \<Rightarrow> Position \<Rightarrow> Position" where
  "Position_UpdateBalance delta p = p\<lparr>po_Amount := po_Amount p + delta, po_Available := po_Available p + delta\<rparr>"

section \<open>The manager\<close>

record 'f PositionConfig =
  pc_RebalanceThreshold :: 'f
  pc_MinRebalanceAmount :: int
  pc_RebalanceCheckFreq :: int64

definition DefaultPositionConfig :: "'f float64 \<Rightarrow> 'f PositionConfig" where
  "DefaultPositionConfig fl =
     \<lparr>pc_RebalanceThreshold = f_div fl (f_of_int fl 2) (f_of_int fl 10), pc_MinRebalanceAmount = 10 ^ 17,
      pc_RebalanceCheckFreq = 5 * 60 * 1000000000\<rparr>"

type_synonym 'a by_token = "uint64 \<Rightarrow> (address \<Rightarrow> 'a option) option"

record 'f PositionManager =
  pm_positions :: "Position by_token"
  pm_targets :: "int by_token"
  pm_config :: "'f PositionConfig"
  pm_totalTrades :: uint64
  pm_totalProfitWei :: int

definition entry :: "uint64 \<Rightarrow> address \<Rightarrow> 'a by_token \<Rightarrow> 'a option" where
  "entry c t m = Option.bind (m c) (\<lambda>tokens. tokens t)"

text \<open>\<open>m[c][t] = v\<close> where the inner map is made when it is missing.\<close>

definition put_entry :: "uint64 \<Rightarrow> address \<Rightarrow> 'a \<Rightarrow> 'a by_token \<Rightarrow> 'a by_token" where
  "put_entry c t v m = m(c \<mapsto> (case m c of None \<Rightarrow> [t \<mapsto> v] | Some tokens \<Rightarrow> tokens(t \<mapsto> v)))"

definition NewPositionManager :: "'f float64 \<Rightarrow> (uint64 \<Rightarrow> address \<Rightarrow> int) \<Rightarrow> int by_token \<Rightarrow> 'f PositionConfig option \<Rightarrow> 'f PositionManager" where
  "NewPositionManager fl now initialPositions config =
     \<lparr>pm_positions = (\<lambda>c. map_option (\<lambda>tokens t. map_option (\<lambda>amount.
        \<lparr>po_ChainID = c, po_Token = t, po_Symbol = [], po_Amount = amount, po_Available = amount, po_Locked = 0,
         po_LastRebalance = now c t\<rparr>) (tokens t)) (initialPositions c)),
      pm_targets = initialPositions,
      pm_config = (case config of None \<Rightarrow> DefaultPositionConfig fl | Some cfg \<Rightarrow> cfg),
      pm_totalTrades = 0, pm_totalProfitWei = 0\<rparr>"

definition getPositionUnsafe :: "uint64 \<Rightarrow> address \<Rightarrow> 'f PositionManager \<Rightarrow> Position option" where
  "getPositionUnsafe chainID token pm = entry chainID token (pm_positions pm)"

definition GetPosition :: "uint64 \<Rightarrow> address \<Rightarrow> 'f PositionManager \<Rightarrow> Position option" where
  "GetPosition chainID token pm = entry chainID token (pm_positions pm)"

definition GetChainPositions :: "uint64 \<Rightarrow> 'f PositionManager \<Rightarrow> address \<Rightarrow> Position option" where
  "GetChainPositions chainID pm = (case pm_positions pm chainID of None \<Rightarrow> Map.empty | Some chain \<Rightarrow> chain)"

definition GetAllPositions :: "'f PositionManager \<Rightarrow> Position by_token" where
  "GetAllPositions pm = pm_positions pm"

type_synonym key_order = "(uint64 \<times> address) list"

text \<open>The positions in the order in which a range visits them.\<close>

definition ranged :: "key_order \<Rightarrow> 'f PositionManager \<Rightarrow> Position list" where
  "ranged order pm = concat (map (\<lambda>(c, t). case entry c t (pm_positions pm) of None \<Rightarrow> [] | Some p \<Rightarrow> [p]) order)"

definition GetTotalValue :: "key_order \<Rightarrow> 'f PositionManager \<Rightarrow> int" where
  "GetTotalValue order pm = foldl (\<lambda>sum p. sum + po_Amount p) 0 (ranged order pm)"

text \<open>A method called on the pointer the map holds changes the position in place.\<close>

definition store_position :: "uint64 \<Rightarrow> address \<Rightarrow> Position \<Rightarrow> 'f PositionManager \<Rightarrow> 'f PositionManager" where
  "store_position c t p pm = pm\<lparr>pm_positions := put_entry c t p (pm_positions pm)\<rparr>"

definition PositionManager_Lock :: "uint64 \<Rightarrow> address \<Rightarrow> int \<Rightarrow> 'f PositionManager \<Rightarrow> 'f PositionManager outcome" where
  "PositionManager_Lock chainID token amount pm =
     (case getPositionUnsafe chainID token pm of
        None \<Rightarrow> (pm, Some (Errorf ''no position for chain token''))
      | Some pos \<Rightarrow>
          if po_Available pos < amount then (pm, Some (Errorf ''insufficient available balance''))
          else (store_position chainID token
                  (pos\<lparr>po_Available := po_Available pos - amount, po_Locked := po_Locked pos + amount\<rparr>) pm, None))"

definition PositionManager_Unlock :: "uint64 \<Rightarrow> address \<Rightarrow> int \<Rightarrow> 'f PositionManager \<Rightarrow> 'f PositionManager" where
  "PositionManager_Unlock chainID token amount pm =
     (case getPositionUnsafe chainID token pm of
        None \<Rightarrow> pm
      | Some pos \<Rightarrow> store_position chainID token
          (pos\<lparr>po_Locked := po_Locked pos - amount, po_Available := po_Available pos + amount\<rparr>) pm)"

definition AdjustAfterTrade :: "uint64 \<Rightarrow> address \<Rightarrow> address \<Rightarrow> int \<Rightarrow> int \<Rightarrow> 'f PositionManager \<Rightarrow> 'f PositionManager" where
  "AdjustAfterTrade chainID tokenIn tokenOut amountIn amountOut pm =
     (let pm1 = (case getPositionUnsafe chainID tokenIn pm of
            None \<Rightarrow> pm
          | Some pos \<Rightarrow> store_position chainID tokenIn
              (pos\<lparr>po_Amount := po_Amount pos - amountIn, po_Locked := po_Locked pos - amountIn\<rparr>) pm);
          pm2 = (case getPositionUnsafe chainID tokenOut pm1 of
            Some pos \<Rightarrow> store_position chainID tokenOut
              (pos\<lparr>po_Amount := po_Amount pos + amountOut, po_Available := po_Available pos + amountOut\<rparr>) pm1
          | None \<Rightarrow> store_position chainID tokenOut
              \<lparr>po_ChainID = chainID, po_Token = tokenOut, po_Symbol = [], po_Amount = amountOut, po_Available = amountOut,
               po_Locked = 0, po_LastRebalance = 0\<rparr> pm1)
      in pm2\<lparr>pm_totalTrades := pm_totalTrades pm2 + 1\<rparr>)"

definition RecordProfit :: "int \<Rightarrow> 'f PositionManager \<Rightarrow> 'f PositionManager" where
  "RecordProfit profit pm = pm\<lparr>pm_totalProfitWei := pm_totalProfitWei pm + profit\<rparr>"

record PositionStats =
  pst_TotalTrades :: uint64
  pst_TotalProfitWei :: int
  pst_TotalValue :: int
  pst_ChainCount :: int

definition PositionManager_GetStats :: "uint64 list \<Rightarrow> key_order \<Rightarrow> 'f PositionManager \<Rightarrow> PositionStats" where
  "PositionManager_GetStats chainIDs order pm =
     \<lparr>pst_TotalTrades = pm_totalTrades pm, pst_TotalProfitWei = pm_totalProfitWei pm, pst_TotalValue = GetTotalValue order pm,
      pst_ChainCount = int (length (filter (\<lambda>c. pm_positions pm c \<noteq> None) chainIDs))\<rparr>"

definition SetTarget :: "uint64 \<Rightarrow> address \<Rightarrow> int \<Rightarrow> 'f PositionManager \<Rightarrow> 'f PositionManager" where
  "SetTarget chainID token amount pm = pm\<lparr>pm_targets := put_entry chainID token amount (pm_targets pm)\<rparr>"

definition GetTarget :: "uint64 \<Rightarrow> address \<Rightarrow> 'f PositionManager \<Rightarrow> int option" where
  "GetTarget chainID token pm = entry chainID token (pm_targets pm)"

definition PositionManager_CanExecute :: "uint64 \<Rightarrow> address \<Rightarrow> int \<Rightarrow> 'f PositionManager \<Rightarrow> bool" where
  "PositionManager_CanExecute chainID token amount pm =
     (case getPositionUnsafe chainID token pm of None \<Rightarrow> False | Some pos \<Rightarrow> po_Available pos \<ge> amount)"

definition GetAvailable :: "uint64 \<Rightarrow> address \<Rightarrow> 'f PositionManager \<Rightarrow> int" where
  "GetAvailable chainID token pm =
     (case getPositionUnsafe chainID token pm of None \<Rightarrow> 0 | Some pos \<Rightarrow> po_Available pos)"

definition GetMaxTradeSize :: "(int \<Rightarrow> 'f \<Rightarrow> int option) \<Rightarrow> uint64 \<Rightarrow> address \<Rightarrow> 'f \<Rightarrow> 'f PositionManager \<Rightarrow> int option" where
  "GetMaxTradeSize big_scale chainID token maxPct pm =
     (case getPositionUnsafe chainID token pm of
        None \<Rightarrow> Some 0
      | Some pos \<Rightarrow> map_option (\<lambda>maxFromPct. if maxFromPct < po_Available pos then maxFromPct else po_Available pos)
          (big_scale (po_Amount pos) maxPct))"

section \<open>Rebalancing\<close>

definition NeedsRebalance :: "'f float64 \<Rightarrow> (int \<Rightarrow> int \<Rightarrow> 'f) \<Rightarrow> key_order \<Rightarrow> 'f PositionManager \<Rightarrow> bool" where
  "NeedsRebalance fl big_ratio order pm =
     list_ex (\<lambda>(c, t). case (entry c t (pm_positions pm), entry c t (pm_targets pm)) of
         (Some pos, Some target) \<Rightarrow>
           target \<noteq> 0 \<and> f_less fl (pc_RebalanceThreshold (pm_config pm)) (big_ratio \<bar>po_Amount pos - target\<bar> target)
       | _ \<Rightarrow> False) order"

record Imbalance =
  im_ChainID :: uint64
  im_Token :: address
  im_Delta :: int

record RebalanceTrade =
  rt_FromChain :: uint64
  rt_ToChain :: uint64
  rt_Token :: address
  rt_Amount :: int

definition imbalance_of :: "'f PositionManager \<Rightarrow> uint64 \<times> address \<Rightarrow> Imbalance list" where
  "imbalance_of pm k =
     (case (entry (fst k) (snd k) (pm_positions pm), entry (fst k) (snd k) (pm_targets pm)) of
        (Some pos, Some target) \<Rightarrow>
          let delta = po_Amount pos - target
          in if \<bar>delta\<bar> < \<bar>pc_MinRebalanceAmount (pm_config pm)\<bar> then []
             else [\<lparr>im_ChainID = fst k, im_Token = snd k, im_Delta = delta\<rparr>]
      | _ \<Rightarrow> [])"

definition imbalances :: "key_order \<Rightarrow> 'f PositionManager \<Rightarrow> Imbalance list" where
  "imbalances order pm = concat (map (imbalance_of pm) order)"

type_synonym plan_state = "RebalanceTrade list \<times> Imbalance list"

definition add_delta :: "int \<Rightarrow> Imbalance \<Rightarrow> Imbalance" where
  "add_delta d m = m\<lparr>im_Delta := im_Delta m + d\<rparr>"

text \<open>The bodies of the inner and of the outer loop, for a surplus at \<open>i\<close> and a deficit at \<open>j\<close>.\<close>

definition match_pair :: "int \<Rightarrow> nat \<Rightarrow> nat \<Rightarrow> plan_state \<Rightarrow> plan_state" where
  "match_pair least i j st =
     (let (trades, ims) = st; over = ims ! i; under = ims ! j
      in if i = j \<or> im_Delta under \<ge> 0 then st
         else if im_Token over \<noteq> im_Token under then st
         else
           let overAmount = im_Delta over; underAmount = - im_Delta under;
               transferAmount = (if underAmount < overAmount then underAmount else overAmount)
           in if transferAmount \<ge> least then
                (trades @ [\<lparr>rt_FromChain = im_ChainID over, rt_ToChain = im_ChainID under, rt_Token = im_Token over,
                            rt_Amount = transferAmount\<rparr>],
                 ims[i := add_delta (- transferAmount) over, j := add_delta transferAmount under])
              else st)"

definition match_surplus :: "int \<Rightarrow> nat \<Rightarrow> plan_state \<Rightarrow> plan_state" where
  "match_surplus least i st =
     (if im_Delta (snd st ! i) \<le> 0 then st else fold (match_pair least i) [0..<length (snd st)] st)"

definition GetRebalancePlan :: "key_order \<Rightarrow> 'f PositionManager \<Rightarrow> RebalanceTrade list" where
  "GetRebalancePlan order pm =
     (let ims = imbalances order pm
      in fst (fold (match_surplus (pc_MinRebalanceAmount (pm_config pm))) [0..<length ims] ([], ims)))"

section \<open>Balances\<close>

lemma entry_put [simp]: "entry c t (put_entry c' t' v m) = (if c = c' \<and> t = t' then Some v else entry c t m)"
  by (auto simp: entry_def put_entry_def split: option.splits)

lemma entry_store [simp]:
  "entry c t (pm_positions (store_position c' t' p pm)) = (if c = c' \<and> t = t' then Some p else entry c t (pm_positions pm))"
  by (simp add: store_position_def)

lemmas position_ops = PositionManager_Lock_def PositionManager_Unlock_def AdjustAfterTrade_def getPositionUnsafe_def

datatype position_call =
    Call_Lock uint64 address int
  | Call_Unlock uint64 address int
  | Call_Adjust uint64 address address int int
  | Call_UpdateBalance uint64 address int
  | Call_RecordProfit int
  | Call_SetTarget uint64 address int

fun position_step :: "position_call \<Rightarrow> 'f PositionManager \<Rightarrow> 'f PositionManager" where
  "position_step (Call_Lock c t a) pm = fst (PositionManager_Lock c t a pm)"
| "position_step (Call_Unlock c t a) pm = PositionManager_Unlock c t a pm"
| "position_step (Call_Adjust c tin tout ain aout) pm = AdjustAfterTrade c tin tout ain aout pm"
| "position_step (Call_UpdateBalance c t d) pm =
     (case GetPosition c t pm of None \<Rightarrow> pm | Some p \<Rightarrow> store_position c t (Position_UpdateBalance d p) pm)"
| "position_step (Call_RecordProfit a) pm = RecordProfit a pm"
| "position_step (Call_SetTarget c t a) pm = SetTarget c t a pm"

text \<open>
  What a client has reserved and not yet released, per chain and token. A client is disciplined
  when its amounts are not negative and it releases or spends no more than it holds.
\<close>

type_synonym reserved = "uint64 \<times> address \<Rightarrow> int"

fun reserve :: "position_call \<Rightarrow> 'f PositionManager \<Rightarrow> reserved \<Rightarrow> reserved" where
  "reserve (Call_Lock c t a) pm r = (if succeeded (PositionManager_Lock c t a pm) then r((c, t) := r (c, t) + a) else r)"
| "reserve (Call_Unlock c t a) pm r = r((c, t) := r (c, t) - a)"
| "reserve (Call_Adjust c tin tout ain aout) pm r = r((c, tin) := r (c, tin) - ain)"
| "reserve _ pm r = r"

fun disciplined :: "position_call \<Rightarrow> reserved \<Rightarrow> bool" where
  "disciplined (Call_Lock c t a) r \<longleftrightarrow> 0 \<le> a"
| "disciplined (Call_Unlock c t a) r \<longleftrightarrow> 0 \<le> a \<and> a \<le> r (c, t)"
| "disciplined (Call_Adjust c tin tout ain aout) r \<longleftrightarrow> 0 \<le> ain \<and> ain \<le> r (c, tin) \<and> 0 \<le> aout"
| "disciplined (Call_UpdateBalance c t d) r \<longleftrightarrow> 0 \<le> d"
| "disciplined _ r \<longleftrightarrow> True"

inductive client_run :: "'f PositionManager \<Rightarrow> 'f PositionManager \<Rightarrow> reserved \<Rightarrow> bool" for pm0 where
  start: "client_run pm0 pm0 (\<lambda>_. 0)"
| step: "client_run pm0 pm r \<Longrightarrow> disciplined call r \<Longrightarrow> client_run pm0 (position_step call pm) (reserve call pm r)"

fun book_ok :: "uint64 \<Rightarrow> address \<Rightarrow> Position option \<Rightarrow> int \<Rightarrow> bool" where
  "book_ok c t None n \<longleftrightarrow> n = 0"
| "book_ok c t (Some p) n \<longleftrightarrow> 0 \<le> n \<and> po_ChainID p = c \<and> po_Token p = t \<and> po_Amount p = po_Available p + po_Locked p \<and>
     po_Locked p = n \<and> 0 \<le> po_Available p"

definition books_ok :: "'f PositionManager \<Rightarrow> reserved \<Rightarrow> bool" where
  "books_ok pm r \<longleftrightarrow> (\<forall>c t. book_ok c t (entry c t (pm_positions pm)) (r (c, t)))"

lemma books_okD: "books_ok pm r \<Longrightarrow> entry c t (pm_positions pm) = q \<Longrightarrow> book_ok c t q (r (c, t))"
  by (auto simp: books_ok_def)

lemma books_ok_store:
  "books_ok pm r \<Longrightarrow> book_ok c t (Some p) a \<Longrightarrow> books_ok (store_position c t p pm) (r((c, t) := a))"
  by (simp add: books_ok_def)

lemma books_ok_store_same:
  "books_ok pm r \<Longrightarrow> book_ok c t (Some p) (r (c, t)) \<Longrightarrow> books_ok (store_position c t p pm) r"
  by (simp add: books_ok_def)

lemma books_ok_Adjust:
  assumes ok: "books_ok pm r" and d: "0 \<le> ain" "ain \<le> r (c, tin)" "0 \<le> aout"
  shows "books_ok (AdjustAfterTrade c tin tout ain aout pm) (r((c, tin) := r (c, tin) - ain))" (is "books_ok _ ?r")
proof -
  define pm1 where "pm1 = (case entry c tin (pm_positions pm) of None \<Rightarrow> pm
    | Some pos \<Rightarrow> store_position c tin (pos\<lparr>po_Amount := po_Amount pos - ain, po_Locked := po_Locked pos - ain\<rparr>) pm)"
  have ok1: "books_ok pm1 ?r"
  proof (cases "entry c tin (pm_positions pm)")
    case None
    then have "r (c, tin) = 0"
      using books_okD [OF ok None] by simp
    then have "?r = r"
      using d by (auto simp: fun_eq_iff)
    then show ?thesis
      using ok None by (simp add: pm1_def)
  next
    case (Some p)
    then show ?thesis
      using books_okD [OF ok Some] d by (auto simp: pm1_def intro!: books_ok_store [OF ok])
  qed
  have "books_ok (pm'\<lparr>pm_totalTrades := n\<rparr>) ?r" if "books_ok pm' ?r" for pm' n
    using that by (simp add: books_ok_def)
  moreover have "books_ok (case entry c tout (pm_positions pm1) of
      Some pos \<Rightarrow> store_position c tout (pos\<lparr>po_Amount := po_Amount pos + aout, po_Available := po_Available pos + aout\<rparr>) pm1
    | None \<Rightarrow> store_position c tout \<lparr>po_ChainID = c, po_Token = tout, po_Symbol = [], po_Amount = aout, po_Available = aout,
        po_Locked = 0, po_LastRebalance = 0\<rparr> pm1) ?r"
  proof (cases "entry c tout (pm_positions pm1)")
    case None
    then show ?thesis
      using books_okD [OF ok1 None] d(3) by (simp only: option.case) (rule books_ok_store_same [OF ok1], simp)
  next
    case (Some p)
    then show ?thesis
      using books_okD [OF ok1 Some] d(3) by (simp only: option.case) (rule books_ok_store_same [OF ok1], simp)
  qed
  ultimately show ?thesis
    by (simp add: AdjustAfterTrade_def getPositionUnsafe_def Let_def pm1_def [symmetric])
qed

lemma books_ok_step:
  assumes "books_ok pm r" and "disciplined call r"
  shows "books_ok (position_step call pm) (reserve call pm r)"
proof (cases call)
  case (Call_Lock c t a)
  then show ?thesis
    using assms books_okD [OF assms(1), of c t]
    by (auto simp: PositionManager_Lock_def getPositionUnsafe_def split: option.splits intro!: books_ok_store)
next
  case (Call_Unlock c t a)
  show ?thesis
  proof (cases "entry c t (pm_positions pm)")
    case None
    then show ?thesis
      using assms books_okD [OF assms(1) None] Call_Unlock
      by (simp add: PositionManager_Unlock_def getPositionUnsafe_def fun_upd_idem)
  next
    case (Some p)
    then show ?thesis
      using assms books_okD [OF assms(1) Some] Call_Unlock
      by (auto simp: PositionManager_Unlock_def getPositionUnsafe_def intro!: books_ok_store)
  qed
next
  case (Call_Adjust c tin tout ain aout)
  then show ?thesis
    using assms by (simp add: books_ok_Adjust)
next
  case (Call_UpdateBalance c t d)
  then show ?thesis
    using assms books_okD [OF assms(1), of c t]
    by (auto simp: GetPosition_def Position_UpdateBalance_def split: option.splits intro!: books_ok_store_same)
qed (use assms in \<open>simp_all add: RecordProfit_def SetTarget_def books_ok_def\<close>)

lemma client_run_books:
  "client_run pm0 pm r \<Longrightarrow> books_ok pm0 (\<lambda>_. 0) \<Longrightarrow> books_ok pm r"
  by (induction rule: client_run.induct) (auto intro: books_ok_step)

lemma NewPositionManager_books:
  assumes "\<And>c t a. entry c t ini = Some a \<Longrightarrow> 0 \<le> a"
  shows "books_ok (NewPositionManager fl now ini config) (\<lambda>_. 0)"
proof -
  have "book_ok c t (entry c t (pm_positions (NewPositionManager fl now ini config))) 0" for c t
    using assms [of c t] by (cases "ini c"; cases "entry c t ini") (auto simp: entry_def NewPositionManager_def)
  then show ?thesis
    by (simp add: books_ok_def)
qed

section \<open>The rebalancing plan\<close>

text \<open>What a trade, and a list of trades, adds to the balance of a token on a chain.\<close>

definition flow :: "uint64 \<Rightarrow> address \<Rightarrow> RebalanceTrade \<Rightarrow> int" where
  "flow c t x = (if rt_Token x \<noteq> t then 0
     else (if rt_ToChain x = c then rt_Amount x else 0) - (if rt_FromChain x = c then rt_Amount x else 0))"

definition moved :: "RebalanceTrade list \<Rightarrow> uint64 \<Rightarrow> address \<Rightarrow> int" where
  "moved trades c t = sum_list (map (flow c t) trades)"

lemma moved_simps [simp]: "moved [] c t = 0" "moved (xs @ [x]) c t = moved xs c t + flow c t x"
  by (simp_all add: moved_def)

definition between :: "int \<Rightarrow> int \<Rightarrow> bool" where
  "between d d0 \<longleftrightarrow> (0 \<le> d \<and> d \<le> d0) \<or> (d0 \<le> d \<and> d \<le> 0)"

definition im_key :: "Imbalance \<Rightarrow> uint64 \<times> address" where
  "im_key m = (im_ChainID m, im_Token m)"

definition shrunk :: "Imbalance list \<Rightarrow> Imbalance list \<Rightarrow> bool" where
  "shrunk ims ims' \<longleftrightarrow> length ims' = length ims \<and>
     (\<forall>k<length ims. im_key (ims' ! k) = im_key (ims ! k) \<and> between (im_Delta (ims' ! k)) (im_Delta (ims ! k)))"

definition accounted :: "Imbalance list \<Rightarrow> plan_state \<Rightarrow> bool" where
  "accounted ims0 st \<longleftrightarrow>
     (\<forall>k<length ims0. im_Delta (snd st ! k) = im_Delta (ims0 ! k) + moved (fst st) (im_ChainID (ims0 ! k)) (im_Token (ims0 ! k))) \<and>
     (\<forall>c t. (c, t) \<notin> im_key ` set ims0 \<longrightarrow> moved (fst st) c t = 0)"

text \<open>No transfer of at least the minimum is left between the surplus \<open>i\<close> and the deficit \<open>j\<close>.\<close>

definition settled :: "int \<Rightarrow> Imbalance list \<Rightarrow> nat \<Rightarrow> nat \<Rightarrow> bool" where
  "settled least ims i j \<longleftrightarrow> (0 < im_Delta (ims ! i) \<and> im_Delta (ims ! j) < 0 \<and> im_Token (ims ! i) = im_Token (ims ! j) \<longrightarrow>
     min (im_Delta (ims ! i)) (- im_Delta (ims ! j)) < least)"

lemma shrunk_refl [simp]: "shrunk ims ims"
  by (auto simp: shrunk_def between_def)

lemma shrunk_trans: "shrunk a b \<Longrightarrow> shrunk b c \<Longrightarrow> shrunk a c"
  by (auto simp: shrunk_def between_def; force)

lemma shrunk_settled:
  assumes "shrunk ims ims'" and "settled least ims i j" and "i < length ims" and "j < length ims"
  shows "settled least ims' i j"
proof -
  have "im_Token (ims' ! k) = im_Token (ims ! k) \<and> between (im_Delta (ims' ! k)) (im_Delta (ims ! k))" if "k < length ims" for k
    using assms(1) that by (auto simp: shrunk_def im_key_def)
  from this [OF assms(3)] this [OF assms(4)] show ?thesis
    using assms(2) by (auto simp: settled_def between_def min_def split: if_splits)
qed

lemma add_delta_simps [simp]:
  "im_Delta (add_delta d m) = im_Delta m + d" "im_Token (add_delta d m) = im_Token m" "im_ChainID (add_delta d m) = im_ChainID m"
  "im_key (add_delta d m) = im_key m"
  by (simp_all add: add_delta_def im_key_def)

definition plan_ok :: "Imbalance list \<Rightarrow> plan_state \<Rightarrow> bool" where
  "plan_ok ims0 st \<longleftrightarrow> distinct (map im_key ims0) \<and> shrunk ims0 (snd st) \<and> accounted ims0 st"

lemma match_pair_cases:
  obtains (skip) "match_pair least i j st = st" and "i = j \<or> settled least (snd st) i j"
  | (transfer) amt where "i \<noteq> j" and "im_Token (snd st ! i) = im_Token (snd st ! j)" and "im_Delta (snd st ! j) < 0"
      and "amt = min (im_Delta (snd st ! i)) (- im_Delta (snd st ! j))" and "least \<le> amt"
      and "match_pair least i j st =
        (fst st @ [\<lparr>rt_FromChain = im_ChainID (snd st ! i), rt_ToChain = im_ChainID (snd st ! j), rt_Token = im_Token (snd st ! i), rt_Amount = amt\<rparr>],
         (snd st)[i := add_delta (- amt) (snd st ! i), j := add_delta amt (snd st ! j)])"
proof (cases "i \<noteq> j \<and> im_Token (snd st ! i) = im_Token (snd st ! j) \<and> im_Delta (snd st ! j) < 0 \<and>
    least \<le> min (im_Delta (snd st ! i)) (- im_Delta (snd st ! j))")
  case True
  then show ?thesis
    by (intro transfer) (auto simp: match_pair_def Let_def min_def case_prod_beta)
next
  case False
  then show ?thesis
    by (intro skip) (auto simp: match_pair_def Let_def min_def case_prod_beta settled_def)
qed

lemma flow_transfer:
  assumes "distinct (map im_key ims)" and "i < length ims" "j < length ims" "k < length ims" and "i \<noteq> j"
    and "im_Token (ims ! i) = im_Token (ims ! j)"
  shows "flow (im_ChainID (ims ! k)) (im_Token (ims ! k))
      \<lparr>rt_FromChain = im_ChainID (ims ! i), rt_ToChain = im_ChainID (ims ! j), rt_Token = im_Token (ims ! i), rt_Amount = amt\<rparr> =
    (if k = i then - amt else if k = j then amt else 0)"
proof -
  have "im_key (ims ! a) \<noteq> im_key (ims ! b)" if "a < length ims" "b < length ims" "a \<noteq> b" for a b
    using assms(1) that by (metis distinct_conv_nth length_map nth_map)
  then have "im_ChainID (ims ! a) \<noteq> im_ChainID (ims ! b) \<or> im_Token (ims ! a) \<noteq> im_Token (ims ! b)"
    if "a < length ims" "b < length ims" "a \<noteq> b" for a b
    using that by (auto simp: im_key_def)
  from this [of i j] this [of k i] this [of k j] show ?thesis
    using assms by (auto simp: flow_def)
qed

lemma match_pair_ok:
  assumes ok: "plan_ok ims0 st" and i: "i < length ims0" and j: "j < length ims0" and pos: "0 \<le> im_Delta (snd st ! i)"
  shows "plan_ok ims0 (match_pair least i j st) \<and> shrunk (snd st) (snd (match_pair least i j st)) \<and>
    0 \<le> im_Delta (snd (match_pair least i j st) ! i) \<and> settled least (snd (match_pair least i j st)) i j"
proof (cases rule: match_pair_cases [of least i j st])
  case skip
  then show ?thesis
    using ok pos by (auto simp: settled_def)
next
  case (transfer amt)
  have dist: "distinct (map im_key ims0)" and len: "length (snd st) = length ims0"
    and keys: "\<And>k. k < length ims0 \<Longrightarrow> im_ChainID (snd st ! k) = im_ChainID (ims0 ! k) \<and> im_Token (snd st ! k) = im_Token (ims0 ! k)"
    using ok by (auto simp: plan_ok_def shrunk_def im_key_def)
  have sh: "shrunk (snd st) (snd (match_pair least i j st))"
    using transfer pos i j len by (auto simp: shrunk_def between_def nth_list_update)
  have "accounted ims0 (match_pair least i j st)"
  proof -
    have key: "(im_ChainID (ims0 ! k), im_Token (ims0 ! k)) \<in> im_key ` set ims0" if "k < length ims0" for k
      using that by (auto simp: im_key_def)
    have "flow c t \<lparr>rt_FromChain = im_ChainID (ims0 ! i), rt_ToChain = im_ChainID (ims0 ! j), rt_Token = im_Token (ims0 ! i), rt_Amount = amt\<rparr> = 0"
      if "(c, t) \<notin> im_key ` set ims0" for c t
      using that key [OF i] key [OF j] keys [OF i] keys [OF j] transfer(2) by (auto simp: flow_def)
    then show ?thesis
      using ok i j len transfer keys flow_transfer [OF dist i j _ transfer(1)]
      by (auto simp: plan_ok_def accounted_def nth_list_update)
  qed
  then have "plan_ok ims0 (match_pair least i j st)"
    using ok sh by (auto simp: plan_ok_def intro: shrunk_trans)
  moreover have "settled least (snd (match_pair least i j st)) i j" "0 \<le> im_Delta (snd (match_pair least i j st) ! i)"
    using transfer i j len by (auto simp: settled_def nth_list_update)
  ultimately show ?thesis
    using sh by simp
qed

lemma fold_match_pair:
  assumes "plan_ok ims0 st" and "i < length ims0" and "set js \<subseteq> {..<length ims0}" and "0 \<le> im_Delta (snd st ! i)"
  shows "plan_ok ims0 (fold (match_pair least i) js st) \<and> shrunk (snd st) (snd (fold (match_pair least i) js st)) \<and>
    (\<forall>j\<in>set js. settled least (snd (fold (match_pair least i) js st)) i j)"
  using assms
proof (induction js arbitrary: st)
  case (Cons j js)
  let ?st = "match_pair least i j st"
  have st: "plan_ok ims0 ?st" "shrunk (snd st) (snd ?st)" "0 \<le> im_Delta (snd ?st ! i)" "settled least (snd ?st) i j"
    using match_pair_ok [OF Cons.prems(1,2) _ Cons.prems(4), of j least] Cons.prems(3) by auto
  have IH: "plan_ok ims0 (fold (match_pair least i) js ?st)" "shrunk (snd ?st) (snd (fold (match_pair least i) js ?st))"
    "\<forall>j\<in>set js. settled least (snd (fold (match_pair least i) js ?st)) i j"
    using Cons.IH [OF st(1) Cons.prems(2) _ st(3)] Cons.prems(3) by auto
  have "length (snd ?st) = length ims0"
    using st(1) by (simp add: plan_ok_def shrunk_def)
  then have "settled least (snd (fold (match_pair least i) js ?st)) i j"
    using shrunk_settled [OF IH(2) st(4)] Cons.prems(2,3) by simp
  then show ?case
    using IH shrunk_trans [OF st(2) IH(2)] by simp
qed simp

lemma match_surplus_ok:
  assumes "plan_ok ims0 st" and "i < length ims0"
  shows "plan_ok ims0 (match_surplus least i st) \<and> shrunk (snd st) (snd (match_surplus least i st)) \<and>
    (\<forall>j<length ims0. settled least (snd (match_surplus least i st)) i j)"
proof (cases "im_Delta (snd st ! i) \<le> 0")
  case True
  then show ?thesis
    using assms by (simp add: match_surplus_def settled_def)
next
  case False
  moreover have "length (snd st) = length ims0"
    using assms(1) by (simp add: plan_ok_def shrunk_def)
  ultimately show ?thesis
    using fold_match_pair [OF assms, of "[0..<length ims0]" least] by (simp add: match_surplus_def atLeast0LessThan)
qed

lemma fold_match_surplus:
  assumes "plan_ok ims0 st" and "set is \<subseteq> {..<length ims0}"
  shows "plan_ok ims0 (fold (match_surplus least) is st) \<and> shrunk (snd st) (snd (fold (match_surplus least) is st)) \<and>
    (\<forall>i\<in>set is. \<forall>j<length ims0. settled least (snd (fold (match_surplus least) is st)) i j)"
  using assms
proof (induction "is" arbitrary: st)
  case (Cons i "is")
  let ?st = "match_surplus least i st"
  have st: "plan_ok ims0 ?st" "shrunk (snd st) (snd ?st)" "\<forall>j<length ims0. settled least (snd ?st) i j"
    using match_surplus_ok [OF Cons.prems(1), of i least] Cons.prems(2) by auto
  have IH: "plan_ok ims0 (fold (match_surplus least) is ?st)" "shrunk (snd ?st) (snd (fold (match_surplus least) is ?st))"
    "\<forall>i\<in>set is. \<forall>j<length ims0. settled least (snd (fold (match_surplus least) is ?st)) i j"
    using Cons.IH [OF st(1)] Cons.prems(2) by auto
  have "length (snd ?st) = length ims0"
    using st(1) by (simp add: plan_ok_def shrunk_def)
  then have "\<forall>j<length ims0. settled least (snd (fold (match_surplus least) is ?st)) i j"
    using shrunk_settled [OF IH(2)] st(3) Cons.prems(2) by simp
  then show ?case
    using IH shrunk_trans [OF st(2) IH(2)] by simp
qed simp

definition at_least :: "int \<Rightarrow> plan_state \<Rightarrow> bool" where
  "at_least least st \<longleftrightarrow> (\<forall>x\<in>set (fst st). least \<le> rt_Amount x)"

lemma match_pair_least: "at_least least st \<Longrightarrow> at_least least (match_pair least i j st)"
  by (cases rule: match_pair_cases [of least i j st]) (auto simp: at_least_def)

lemma match_surplus_least:
  assumes "at_least least st"
  shows "at_least least (match_surplus least i st)"
proof -
  have "at_least least (fold (match_pair least i) js st)" for js
    using assms by (induction js arbitrary: st) (simp_all add: match_pair_least)
  then show ?thesis
    using assms by (simp add: match_surplus_def)
qed

lemma plan_least: "x \<in> set (GetRebalancePlan order pm) \<Longrightarrow> pc_MinRebalanceAmount (pm_config pm) \<le> rt_Amount x"
proof -
  have "at_least least (fold (match_surplus least) is st)" if "at_least least st" for st "is" least
    using that by (induction "is" arbitrary: st) (simp_all add: match_surplus_least)
  from this [of _ "([], imbalances order pm)"] show "x \<in> set (GetRebalancePlan order pm) \<Longrightarrow> ?thesis"
    by (simp add: GetRebalancePlan_def Let_def at_least_def)
qed

text \<open>How far a position is above its target; \<open>None\<close> without a position or a target.\<close>

definition excess :: "uint64 \<Rightarrow> address \<Rightarrow> 'f PositionManager \<Rightarrow> int option" where
  "excess c t pm = (case (entry c t (pm_positions pm), entry c t (pm_targets pm)) of
     (Some p, Some target) \<Rightarrow> Some (po_Amount p - target) | _ \<Rightarrow> None)"

lemma imbalance_of_excess:
  "imbalance_of pm (c, t) = (case excess c t pm of None \<Rightarrow> []
     | Some d \<Rightarrow> if \<bar>d\<bar> < \<bar>pc_MinRebalanceAmount (pm_config pm)\<bar> then [] else [\<lparr>im_ChainID = c, im_Token = t, im_Delta = d\<rparr>])"
  by (simp add: imbalance_of_def excess_def Let_def split: option.splits)

lemma in_imbalances:
  "m \<in> set (imbalances order pm) \<longleftrightarrow> im_key m \<in> set order \<and> excess (im_ChainID m) (im_Token m) pm = Some (im_Delta m) \<and>
     \<bar>pc_MinRebalanceAmount (pm_config pm)\<bar> \<le> \<bar>im_Delta m\<bar>"
  by (cases m) (force simp: imbalances_def im_key_def imbalance_of_excess split: option.splits if_splits)

lemma imbalances_distinct: "distinct order \<Longrightarrow> distinct (map im_key (imbalances order pm))"
proof (induction order)
  case (Cons k order)
  have split: "imbalances (k # order) pm = imbalance_of pm k @ imbalances order pm"
    by (simp add: imbalances_def)
  have sub: "set (map im_key (imbalances order pm)) \<subseteq> set order"
    by (auto simp: in_imbalances)
  have "imbalance_of pm k = [] \<or> (\<exists>m. imbalance_of pm k = [m] \<and> im_key m = k)"
    by (cases k) (auto simp: imbalance_of_excess im_key_def split: option.splits)
  then show ?case
    using Cons sub unfolding split by auto
qed (simp add: imbalances_def)

lemma plan_correct:
  assumes "distinct order" and "\<And>c t. entry c t (pm_positions pm) \<noteq> None \<Longrightarrow> (c, t) \<in> set order"
  shows "excess c t pm = None \<Longrightarrow> moved (GetRebalancePlan order pm) c t = 0"
    and "excess c t pm = Some d \<Longrightarrow> between (d + moved (GetRebalancePlan order pm) c t) d"
    and "excess c t pm = Some d \<Longrightarrow> excess c' t pm = Some d' \<Longrightarrow>
      0 < d + moved (GetRebalancePlan order pm) c t \<Longrightarrow> d' + moved (GetRebalancePlan order pm) c' t < 0 \<Longrightarrow>
      min (d + moved (GetRebalancePlan order pm) c t) (- (d' + moved (GetRebalancePlan order pm) c' t)) < \<bar>pc_MinRebalanceAmount (pm_config pm)\<bar>"
proof -
  define ims0 where "ims0 = imbalances order pm"
  define least where "least = pc_MinRebalanceAmount (pm_config pm)"
  define st where "st = fold (match_surplus least) [0..<length ims0] ([], ims0)"
  have plan: "GetRebalancePlan order pm = fst st"
    by (simp add: GetRebalancePlan_def Let_def st_def ims0_def least_def)
  have "plan_ok ims0 ([], ims0)"
    using imbalances_distinct [OF assms(1)] by (simp add: plan_ok_def accounted_def ims0_def)
  then have st: "plan_ok ims0 st" "\<And>i j. i < length ims0 \<Longrightarrow> j < length ims0 \<Longrightarrow> settled least (snd st) i j"
    using fold_match_surplus [of ims0 _ "[0..<length ims0]" least] by (simp_all add: st_def atLeast0LessThan)
  have order: "excess c t pm \<noteq> None \<Longrightarrow> (c, t) \<in> set order" for c t
    using assms(2) [of c t] by (auto simp: excess_def split: option.splits)
  have none: "moved (fst st) c t = 0" if "\<And>d. excess c t pm = Some d \<Longrightarrow> \<bar>d\<bar> < \<bar>least\<bar>" for c t
  proof -
    have "(c, t) \<notin> im_key ` set ims0"
    proof
      assume "(c, t) \<in> im_key ` set ims0"
      then obtain m where "m \<in> set ims0" "im_ChainID m = c" "im_Token m = t"
        by (auto simp: im_key_def)
      then show False
        using that [of "im_Delta m"] by (simp add: ims0_def in_imbalances least_def)
    qed
    then show ?thesis
      using st(1) by (simp add: plan_ok_def accounted_def)
  qed
  have some: "\<exists>k<length ims0. im_Token (snd st ! k) = t \<and> im_Delta (snd st ! k) = d + moved (fst st) c t \<and> between (im_Delta (snd st ! k)) d"
    if "excess c t pm = Some d" "\<bar>least\<bar> \<le> \<bar>d\<bar>" for c t d
  proof -
    have "\<lparr>im_ChainID = c, im_Token = t, im_Delta = d\<rparr> \<in> set ims0"
      using that order [of c t] by (simp add: ims0_def in_imbalances im_key_def least_def)
    then obtain k where "k < length ims0" "ims0 ! k = \<lparr>im_ChainID = c, im_Token = t, im_Delta = d\<rparr>"
      by (auto simp: in_set_conv_nth)
    then show ?thesis
      using st(1) by (auto simp: plan_ok_def accounted_def shrunk_def im_key_def intro!: exI [of _ k])
  qed
  show "excess c t pm = None \<Longrightarrow> moved (GetRebalancePlan order pm) c t = 0"
    using none [of c t] by (simp add: plan)
  show btw: "between (d + moved (GetRebalancePlan order pm) c t) d" if "excess c t pm = Some d" for c t d
  proof (cases "\<bar>least\<bar> \<le> \<bar>d\<bar>")
    case True
    then show ?thesis
      using some [OF that True] by (auto simp: plan)
  next
    case False
    then show ?thesis
      using none [of c t] that by (simp add: plan between_def) linarith
  qed
  show "min (d + moved (GetRebalancePlan order pm) c t) (- (d' + moved (GetRebalancePlan order pm) c' t)) < \<bar>pc_MinRebalanceAmount (pm_config pm)\<bar>"
    if e: "excess c t pm = Some d" "excess c' t pm = Some d'"
      and r: "0 < d + moved (GetRebalancePlan order pm) c t" "d' + moved (GetRebalancePlan order pm) c' t < 0"
  proof (cases "\<bar>least\<bar> \<le> \<bar>d\<bar> \<and> \<bar>least\<bar> \<le> \<bar>d'\<bar>")
    case True
    obtain i j where "i < length ims0" "j < length ims0" "im_Token (snd st ! i) = t" "im_Token (snd st ! j) = t"
      "im_Delta (snd st ! i) = d + moved (fst st) c t" "im_Delta (snd st ! j) = d' + moved (fst st) c' t"
      using some [OF e(1)] some [OF e(2)] True by blast
    then show ?thesis
      using st(2) [of i j] r by (simp add: settled_def plan least_def [symmetric])
  next
    case False
    then show ?thesis
      using btw [OF e(1)] btw [OF e(2)] r by (auto simp: between_def least_def)
  qed
qed

section \<open>Properties\<close>

text \<open>
  C36: for a client that releases and spends no more than it has locked, the locked part of every
  position is exactly what is reserved, the available part is never negative, and both add up to the
  amount of the position.
\<close>

theorem positions_cover_reservations:
  assumes "\<And>c t a. entry c t initialPositions = Some a \<Longrightarrow> 0 \<le> a"
    and "client_run (NewPositionManager fl now initialPositions config) pm r"
    and "GetPosition c t pm = Some p"
  shows "po_Locked p = r (c, t) \<and> 0 \<le> po_Available p \<and> 0 \<le> po_Locked p \<and> po_Amount p = po_Available p + po_Locked p \<and>
    (PositionManager_CanExecute c t a pm \<longleftrightarrow> succeeded (PositionManager_Lock c t a pm))"
proof -
  have "books_ok pm r"
    using assms(2) client_run_books NewPositionManager_books assms(1) by blast
  then have "book_ok c t (Some p) (r (c, t))"
    using assms(3) by (simp only: GetPosition_def books_okD)
  then show ?thesis
    using assms(3) by (auto simp: PositionManager_CanExecute_def PositionManager_Lock_def getPositionUnsafe_def GetPosition_def)
qed

text \<open>
  C37: executing the rebalancing plan moves no balance past its target and none without a target, every
  trade of it has at least the minimum amount, and it leaves no pair of chains between which that
  much could still be moved.
\<close>

theorem rebalance_plan_correct:
  assumes "distinct order" and "\<And>c t. GetPosition c t pm \<noteq> None \<Longrightarrow> (c, t) \<in> set order"
    and "trades = GetRebalancePlan order pm" and "least = \<bar>pc_MinRebalanceAmount (pm_config pm)\<bar>"
  shows "(\<forall>c t. excess c t pm = None \<longrightarrow> moved trades c t = 0) \<and>
    (\<forall>c t d. excess c t pm = Some d \<longrightarrow> between (d + moved trades c t) d) \<and>
    (\<forall>x\<in>set trades. pc_MinRebalanceAmount (pm_config pm) \<le> rt_Amount x) \<and>
    (\<forall>c c' t d d'. excess c t pm = Some d \<and> excess c' t pm = Some d' \<and> 0 < d + moved trades c t \<and> d' + moved trades c' t < 0 \<longrightarrow>
       min (d + moved trades c t) (- (d' + moved trades c' t)) < least)"
proof -
  have order: "\<And>c t. entry c t (pm_positions pm) \<noteq> None \<Longrightarrow> (c, t) \<in> set order"
    using assms(2) by (simp add: GetPosition_def)
  note plan = plan_correct [OF assms(1) order]
  show ?thesis
    unfolding assms(3,4) using plan(1,2) plan_least plan(3) by blast
qed

definition demo_positions :: "int PositionManager" where
  "demo_positions = SetTarget 1 [7] 40 (SetTarget 2 [7] 150
     (NewPositionManager demo_float (\<lambda>_ _. 0) [1 \<mapsto> [[7] \<mapsto> 100], 2 \<mapsto> [[7] \<mapsto> 100]]
       (Some \<lparr>pc_RebalanceThreshold = 0, pc_MinRebalanceAmount = 10, pc_RebalanceCheckFreq = 0\<rparr>)))"

lemma demo_entry:
  "GetPosition c t demo_positions = (if (c = 1 \<or> c = 2) \<and> t = [7]
     then Some \<lparr>po_ChainID = c, po_Token = t, po_Symbol = [], po_Amount = 100, po_Available = 100, po_Locked = 0, po_LastRebalance = 0\<rparr> else None)"
  by (auto simp: demo_positions_def GetPosition_def SetTarget_def NewPositionManager_def entry_def)

lemma demo_plan:
  "GetRebalancePlan [(2, [7]), (1, [7])] demo_positions = [\<lparr>rt_FromChain = 1, rt_ToChain = 2, rt_Token = [7], rt_Amount = 50\<rparr>]"
proof -
  have "imbalances [(2, [7]), (1, [7])] demo_positions =
      [\<lparr>im_ChainID = 2, im_Token = [7], im_Delta = - 50\<rparr>, \<lparr>im_ChainID = 1, im_Token = [7], im_Delta = 60\<rparr>]"
    by (simp add: imbalances_def imbalance_of_def demo_positions_def SetTarget_def NewPositionManager_def entry_def put_entry_def Let_def)
  moreover have "pc_MinRebalanceAmount (pm_config demo_positions) = 10"
    by (simp add: demo_positions_def SetTarget_def NewPositionManager_def)
  ultimately show ?thesis
    by (simp add: GetRebalancePlan_def Let_def upt_rec match_surplus_def match_pair_def add_delta_def)
qed

theorem rebalance_plan_correct_witness:
  "\<exists>trades. trades = GetRebalancePlan [(2, [7]), (1, [7])] demo_positions \<and> trades \<noteq> [] \<and>
    (\<forall>c t d. excess c t demo_positions = Some d \<longrightarrow> between (d + moved trades c t) d)"
proof -
  have "distinct [(2 :: uint64, [7 :: byte]), (1, [7])]"
    by simp
  moreover have "(c, t) \<in> set [(2, [7]), (1, [7])]" if "GetPosition c t demo_positions \<noteq> None" for c t
    using that by (auto simp: demo_entry split: if_splits)
  ultimately have "\<forall>c t d. excess c t demo_positions = Some d \<longrightarrow>
      between (d + moved (GetRebalancePlan [(2, [7]), (1, [7])] demo_positions) c t) d"
    using rebalance_plan_correct [OF _ _ refl refl, THEN conjunct2, THEN conjunct1] by metis
  then show ?thesis
    by (simp add: demo_plan)
qed

theorem positions_cover_reservations_witness:
  "\<exists>pm p. pm = position_step (Call_Lock 1 [7] 30) (NewPositionManager demo_float (\<lambda>_ _. 0) [1 \<mapsto> [[7] \<mapsto> 100]] None) \<and>
    GetPosition 1 [7] pm = Some p \<and> po_Locked p = 30 \<and> po_Available p = 70 \<and> po_Amount p = po_Available p + po_Locked p"
proof -
  let ?ini = "[1 \<mapsto> [[7] \<mapsto> 100]] :: int by_token"
  let ?new = "NewPositionManager demo_float (\<lambda>_ _. 0) ?ini None"
  let ?pm = "position_step (Call_Lock 1 [7] 30) ?new"
  obtain p where p: "GetPosition 1 [7] ?pm = Some p" "po_Locked p = 30" "po_Available p = 70"
    by (simp add: GetPosition_def PositionManager_Lock_def getPositionUnsafe_def NewPositionManager_def entry_def store_position_def put_entry_def)
  have "client_run ?new ?pm (reserve (Call_Lock 1 [7] 30) ?new (\<lambda>_. 0))"
    by (intro client_run.intros) simp
  moreover have "0 \<le> a" if "entry c t ?ini = Some a" for c t a
    using that by (auto simp: entry_def split: if_splits)
  ultimately have "po_Amount p = po_Available p + po_Locked p"
    using positions_cover_reservations [of ?ini demo_float "\<lambda>_ _. 0" None ?pm _ 1 "[7]" p] p(1) by blast
  then show ?thesis
    using p by blast
qed

end
