(* ===== verification/Presigned_Cache.thy ===== *)
theory Presigned_Cache
  imports Mempool_Parser "HOL-Library.Sublist"
begin

text \<open>
  The cache of transactions signed ahead of time (\<open>arb/presigned.go\<close>) and the routers they are sent
  to (\<open>arb/executor.go\<close>): filling the cache, taking a transaction out of it, and the nonces.

  Signing and encoding a transaction are go-ethereum's: the parameter \<open>tt\<close>. The private key is the
  argument \<open>key\<close>. The maps of chains and of exchanges are one function that is defined where both
  maps exist; an absent slice is the empty list. The successive readings of the clock during a call
  are \<open>clk 0\<close>, \<open>clk 1\<close> and so on.
\<close>

section \<open>Routers\<close>

definition RouterAddresses :: "eth_common \<Rightarrow> uint64 \<Rightarrow> (string \<Rightarrow> address option) option" where
  "RouterAddresses ec = map_of [
     (ChainIDEthereum, map_of [
       (''uniswap_v2'', HexToAddress ec ''0x7a250d5630B4cF539739dF2C5dAcb4c659F2488D''),
       (''uniswap_v3'', HexToAddress ec ''0xE592427A0AEce92De3Edee1F18E0157C05861564'')]),
     (ChainIDBase, map_of [
       (''uniswap_v2'', HexToAddress ec ''0x4752ba5DBc23f44D87826276BF6Fd6b1C372aD24''),
       (''uniswap_v3'', HexToAddress ec ''0x2626664c2603336E57B271c5C0b26F421741e481''),
       (''aerodrome'', HexToAddress ec ''0xcF77a3Ba9A5CA399B7c97c74d54e5b1Beb874E43'')]),
     (ChainIDOptimism, map_of [
       (''uniswap_v2'', HexToAddress ec ''0x4A7b5Da61326A6379179b40d00F57E5bbDC962c2''),
       (''uniswap_v3'', HexToAddress ec ''0xE592427A0AEce92De3Edee1F18E0157C05861564''),
       (''velodrome'', HexToAddress ec ''0xa062aE8A9c5e11aaA026fc2670B0D65cCc8B2858'')])]"

section \<open>Calldata\<close>

text \<open>\<open>copy(data[o:o+32], common.LeftPadBytes(b, 32))\<close>: one word of the data.\<close>

definition word_field :: "bytes \<Rightarrow> bytes" where
  "word_field b = take 32 (left_pad 32 b)"

definition big_field :: "int \<Rightarrow> bytes" where
  "big_field x = word_field (big_bytes (nat \<bar>x\<bar>))"

definition deadline_at :: "int \<Rightarrow> int" where
  \<comment> \<open>\<open>time.Now().Add(5 * time.Minute).Unix()\<close>\<close>
  "deadline_at now = (now + 5 * 60 * 1000000000) div 1000000000"

definition buildV2SwapCalldata :: "int \<Rightarrow> int \<Rightarrow> address \<Rightarrow> address \<Rightarrow> address \<Rightarrow> bytes" where
  "buildV2SwapCalldata now amount tokenIn tokenOut recipient =
     [0x38, 0xed, 0x17, 0x39] @ big_field amount @ big_field 0 @ big_field 160 @ word_field recipient @
     big_field (deadline_at now) @ big_field 2 @ word_field tokenIn @ word_field tokenOut"

definition buildV3SwapCalldata :: "int \<Rightarrow> int \<Rightarrow> address \<Rightarrow> address \<Rightarrow> 32 word \<Rightarrow> address \<Rightarrow> bytes" where
  "buildV3SwapCalldata now amount tokenIn tokenOut fee recipient =
     [0x41, 0x4b, 0xf3, 0x89] @ word_field tokenIn @ word_field tokenOut @ big_field (uint fee) @ word_field recipient @
     big_field (deadline_at now) @ big_field amount @ big_field 0 @ big_field 0"

definition buildSolidlySwapCalldata :: "int \<Rightarrow> int \<Rightarrow> address \<Rightarrow> address \<Rightarrow> address \<Rightarrow> bool \<Rightarrow> bytes" where
  "buildSolidlySwapCalldata now amount tokenIn tokenOut recipient isStable =
     [0x38, 0xed, 0x17, 0x39] @ big_field amount @ big_field 0 @ big_field 160 @ word_field recipient @
     big_field (deadline_at now) @ big_field 2 @ word_field tokenIn @ word_field tokenOut"

section \<open>The cache\<close>

record DynamicFeeTx =
  dt_ChainID :: int
  dt_Nonce :: uint64
  dt_GasTipCap :: int
  dt_GasFeeCap :: int
  dt_Gas :: uint64
  dt_To :: address
  dt_Value :: int
  dt_Data :: bytes

record ('sk, 'tx) tx_types =
  SignNewTx :: "'sk \<Rightarrow> int \<Rightarrow> DynamicFeeTx \<Rightarrow> go_error + 'tx"
  MarshalBinary :: "'tx \<Rightarrow> go_error + bytes"
  tx_Hash :: "'tx \<Rightarrow> hash32"

record PreSignedTx =
  pt_ChainID :: uint64
  pt_DEX :: string
  pt_Direction :: string
  pt_Amount :: int
  pt_Nonce :: uint64
  pt_SignedTx :: bytes
  pt_TxHash :: hash32
  pt_CreatedAt :: int
  pt_ExpiresAt :: int

record PreSignedConfig =
  sg_CacheDepth :: int64
  sg_Amounts :: "int list"
  sg_TxLifetime :: int64
  sg_MaxGasPrice :: int
  sg_MaxPriorityFee :: int
  sg_Chains :: "uint64 list"
  sg_DEXs :: "string list"

definition DefaultPreSignedConfig :: PreSignedConfig where
  "DefaultPreSignedConfig =
     \<lparr>sg_CacheDepth = 3, sg_Amounts = [10 ^ 17, 5 * 10 ^ 17, 10 ^ 18], sg_TxLifetime = 30 * 1000000000,
      sg_MaxGasPrice = 100 * 10 ^ 9, sg_MaxPriorityFee = 2 * 10 ^ 9,
      sg_Chains = [ChainIDEthereum, ChainIDBase, ChainIDOptimism],
      sg_DEXs = [''uniswap_v3_005'', ''uniswap_v3_030'', ''uniswap_v3_100'', ''uniswap_v2'', ''sushiswap'',
        ''aerodrome'', ''aerodrome_cl'', ''baseswap'', ''velodrome'']\<rparr>"

record PreSignedCache =
  sc_address :: address
  sc_cache :: "uint64 \<Rightarrow> string \<Rightarrow> (string \<Rightarrow> PreSignedTx list) option"
  sc_currentNonce :: "uint64 \<Rightarrow> uint64"
  sc_maxNonce :: "uint64 \<Rightarrow> uint64"
  sc_config :: PreSignedConfig
  sc_running :: bool
  sc_stopped :: bool \<comment> \<open>\<open>stopCh\<close> is closed\<close>

definition NewPreSignedCache :: "('sk, 'pk) crypto \<Rightarrow> 'sk \<Rightarrow> PreSignedConfig option \<Rightarrow> PreSignedCache" where
  "NewPreSignedCache cr key config =
     \<lparr>sc_address = key_address cr key, sc_cache = (\<lambda>_ _. None), sc_currentNonce = (\<lambda>_. 0), sc_maxNonce = (\<lambda>_. 0),
      sc_config = (case config of None \<Rightarrow> DefaultPreSignedConfig | Some cfg \<Rightarrow> cfg), sc_running = False, sc_stopped = False\<rparr>"

definition PreSignedCache_SetNonce :: "uint64 \<Rightarrow> uint64 \<Rightarrow> PreSignedCache \<Rightarrow> PreSignedCache" where
  "PreSignedCache_SetNonce chainID nonce psc =
     psc\<lparr>sc_currentNonce := (sc_currentNonce psc)(chainID := nonce),
         sc_maxNonce := (if sc_maxNonce psc chainID < nonce then (sc_maxNonce psc)(chainID := nonce) else sc_maxNonce psc)\<rparr>"

definition cached :: "uint64 \<Rightarrow> string \<Rightarrow> string \<Rightarrow> PreSignedCache \<Rightarrow> PreSignedTx list" where
  "cached chainID dex k psc = (case sc_cache psc chainID dex of None \<Rightarrow> [] | Some slots \<Rightarrow> slots k)"

definition put_cached :: "uint64 \<Rightarrow> string \<Rightarrow> string \<Rightarrow> PreSignedTx list \<Rightarrow> PreSignedCache \<Rightarrow> PreSignedCache" where
  "put_cached chainID dex k txs psc =
     psc\<lparr>sc_cache := (sc_cache psc)(chainID := (sc_cache psc chainID)(dex \<mapsto>
       (case sc_cache psc chainID dex of None \<Rightarrow> (\<lambda>_. []) | Some slots \<Rightarrow> slots)(k := txs)))\<rparr>"

definition usdc :: "eth_common \<Rightarrow> uint64 \<Rightarrow> address" where
  "usdc ec chainID = (case USDCAddresses ec chainID of None \<Rightarrow> zero_address | Some a \<Rightarrow> a)"

definition dex_type :: "string \<Rightarrow> string option" where
  "dex_type dex =
     (if dex \<in> {''uniswap_v2'', ''sushiswap'', ''baseswap''} then Some ''uniswap_v2''
      else if dex \<in> {''uniswap_v3_005'', ''uniswap_v3_030''} then Some ''uniswap_v3''
      else if dex \<in> {''aerodrome'', ''velodrome''} then Some ''aerodrome''
      else None)"

definition buildSwapCalldata :: "eth_common \<Rightarrow> int \<Rightarrow> uint64 \<Rightarrow> string \<Rightarrow> string \<Rightarrow> int \<Rightarrow> PreSignedCache \<Rightarrow> go_error + bytes \<times> address" where
  "buildSwapCalldata ec now chainID dex direction amount psc =
     (case RouterAddresses ec chainID of
        None \<Rightarrow> Inl (Errorf ''no routers for chain'')
      | Some chainRouters \<Rightarrow>
      (case dex_type dex of
        None \<Rightarrow> Inl (Errorf ''unknown DEX'')
      | Some dexType \<Rightarrow>
      (case chainRouters dexType of
        None \<Rightarrow> Inl (Errorf ''no router for DEX type on chain'')
      | Some router \<Rightarrow>
          let (tokenIn, tokenOut) =
                (if direction = ''buy'' then (usdc ec chainID, weth ec chainID) else (weth ec chainID, usdc ec chainID));
              data =
                (if dexType = ''uniswap_v2'' then buildV2SwapCalldata now amount tokenIn tokenOut (sc_address psc)
                 else if dexType = ''uniswap_v3'' then
                   buildV3SwapCalldata now amount tokenIn tokenOut (if dex = ''uniswap_v3_030'' then 3000 else 500) (sc_address psc)
                 else buildSolidlySwapCalldata now amount tokenIn tokenOut (sc_address psc) False)
          in Inr (data, router))))"

text \<open>The transaction \<open>preSignTx\<close> signs for a nonce.\<close>

definition unsigned_tx :: "uint64 \<Rightarrow> string \<Rightarrow> uint64 \<Rightarrow> bytes \<Rightarrow> address \<Rightarrow> PreSignedConfig \<Rightarrow> DynamicFeeTx" where
  "unsigned_tx chainID dex nonce data to' config =
     \<lparr>dt_ChainID = sint chainID, dt_Nonce = nonce, dt_GasTipCap = sg_MaxPriorityFee config, dt_GasFeeCap = sg_MaxGasPrice config,
      dt_Gas = (if dex = ''uniswap_v2'' \<or> dex = ''sushiswap'' then 200000 else 300000), dt_To = to', dt_Value = 0, dt_Data = data\<rparr>"

definition preSignTx :: "eth_common \<Rightarrow> ('sk, 'tx) tx_types \<Rightarrow> 'sk \<Rightarrow> (nat \<Rightarrow> int) \<Rightarrow> uint64 \<Rightarrow> string \<Rightarrow> string \<Rightarrow> int \<Rightarrow>
    PreSignedCache \<Rightarrow> PreSignedCache \<times> (go_error + PreSignedTx)" where
  "preSignTx ec tt key clk chainID dex direction amount psc =
     (let nonce = sc_maxNonce psc chainID;
          psc' = psc\<lparr>sc_maxNonce := (sc_maxNonce psc)(chainID := nonce + 1)\<rparr>
      in (psc',
        (case buildSwapCalldata ec (clk 0) chainID dex direction amount psc of
           Inl e \<Rightarrow> Inl e
         | Inr (data, to') \<Rightarrow>
         (case SignNewTx tt key (sint chainID) (unsigned_tx chainID dex nonce data to' (sc_config psc)) of
           Inl e \<Rightarrow> Inl (Wrapped ''signing failed'' e)
         | Inr signedTx \<Rightarrow>
         (case MarshalBinary tt signedTx of
           Inl e \<Rightarrow> Inl (Wrapped ''encoding failed'' e)
         | Inr rawTx \<Rightarrow>
             Inr \<lparr>pt_ChainID = chainID, pt_DEX = dex, pt_Direction = direction, pt_Amount = amount, pt_Nonce = nonce,
                  pt_SignedTx = rawTx, pt_TxHash = tx_Hash tt signedTx, pt_CreatedAt = clk 1,
                  pt_ExpiresAt = clk 2 + sg_TxLifetime (sc_config psc)\<rparr>)))))"

definition cache_key :: "string \<Rightarrow> int option \<Rightarrow> string" where
  "cache_key direction amount = direction @ ''_'' @ (case amount of None \<Rightarrow> ''<nil>'' | Some a \<Rightarrow> dec_int a)"

text \<open>The loop of \<open>ensureCacheDepth\<close> for the \<open>n\<close> transactions that are missing.\<close>

fun sign_missing :: "eth_common \<Rightarrow> ('sk, 'tx) tx_types \<Rightarrow> 'sk \<Rightarrow> (nat \<Rightarrow> int) \<Rightarrow> uint64 \<Rightarrow> string \<Rightarrow> string \<Rightarrow> int \<Rightarrow> nat \<Rightarrow>
    PreSignedCache \<Rightarrow> PreSignedCache" where
  "sign_missing ec tt key clk chainID dex direction amount 0 psc = psc"
| "sign_missing ec tt key clk chainID dex direction amount (Suc n) psc =
     (case preSignTx ec tt key clk chainID dex direction amount psc of
        (psc', Inl e) \<Rightarrow> psc'
      | (psc', Inr tx) \<Rightarrow>
          let k = cache_key direction (Some amount)
          in sign_missing ec tt key (\<lambda>i. clk (i + 3)) chainID dex direction amount n
               (put_cached chainID dex k (cached chainID dex k psc' @ [tx]) psc'))"

definition valid_count :: "(nat \<Rightarrow> int) \<Rightarrow> PreSignedTx list \<Rightarrow> nat" where
  "valid_count clk txs = length (filter (\<lambda>(i, tx). clk i < pt_ExpiresAt tx) (enumerate 0 txs))"

definition ensureCacheDepth :: "eth_common \<Rightarrow> ('sk, 'tx) tx_types \<Rightarrow> 'sk \<Rightarrow> (nat \<Rightarrow> int) \<Rightarrow> uint64 \<Rightarrow> string \<Rightarrow> string \<Rightarrow> int \<Rightarrow>
    PreSignedCache \<Rightarrow> PreSignedCache" where
  "ensureCacheDepth ec tt key clk chainID dex direction amount psc =
     (let existing = cached chainID dex (cache_key direction (Some amount)) psc
      in sign_missing ec tt key (\<lambda>i. clk (length existing + i)) chainID dex direction amount
           (nat (sg_CacheDepth (sc_config psc) - int (valid_count clk existing))) psc)"

text \<open>Making the inner maps; the four nested loops of \<open>populateCache\<close>.\<close>

definition open_slots :: "uint64 \<Rightarrow> string \<Rightarrow> PreSignedCache \<Rightarrow> PreSignedCache" where
  "open_slots chainID dex psc =
     (if sc_cache psc chainID dex = None
      then psc\<lparr>sc_cache := (sc_cache psc)(chainID := (sc_cache psc chainID)(dex \<mapsto> (\<lambda>_. [])))\<rparr> else psc)"

type_synonym cache_clock = "uint64 \<Rightarrow> string \<Rightarrow> string \<Rightarrow> int \<Rightarrow> nat \<Rightarrow> int"

definition populate_dex :: "eth_common \<Rightarrow> ('sk, 'tx) tx_types \<Rightarrow> 'sk \<Rightarrow> cache_clock \<Rightarrow> uint64 \<Rightarrow> string \<Rightarrow> PreSignedCache \<Rightarrow> PreSignedCache" where
  "populate_dex ec tt key clk chainID dex psc =
     fold (\<lambda>(direction, amount). ensureCacheDepth ec tt key (clk chainID dex direction amount) chainID dex direction amount)
       (List.product [''buy'', ''sell''] (sg_Amounts (sc_config psc))) (open_slots chainID dex psc)"

definition populateCache :: "eth_common \<Rightarrow> ('sk, 'tx) tx_types \<Rightarrow> 'sk \<Rightarrow> cache_clock \<Rightarrow> PreSignedCache \<Rightarrow> PreSignedCache" where
  "populateCache ec tt key clk psc =
     fold (\<lambda>(chainID, dex). populate_dex ec tt key clk chainID dex)
       (List.product (sg_Chains (sc_config psc)) (sg_DEXs (sc_config psc))) psc"

definition findClosestAmount :: "int \<Rightarrow> int list \<Rightarrow> int option" where
  "findClosestAmount target amounts =
     map_option snd (fold (\<lambda>amt best. case best of
         None \<Rightarrow> Some (\<bar>amt - target\<bar>, amt)
       | Some (minDiff, closest) \<Rightarrow> if \<bar>amt - target\<bar> < minDiff then Some (\<bar>amt - target\<bar>, amt) else best) amounts None)"

fun take_tx :: "(nat \<Rightarrow> int) \<Rightarrow> uint64 \<Rightarrow> PreSignedTx list \<Rightarrow> (PreSignedTx \<times> PreSignedTx list) option" where
  "take_tx clk currentNonce [] = None"
| "take_tx clk currentNonce (tx # txs) =
     (if clk 0 < pt_ExpiresAt tx \<and> pt_Nonce tx \<ge> currentNonce then Some (tx, txs)
      else map_option (\<lambda>(t, rest). (t, tx # rest)) (take_tx (\<lambda>i. clk (Suc i)) currentNonce txs))"

definition GetPreSignedTx :: "(nat \<Rightarrow> int) \<Rightarrow> uint64 \<Rightarrow> string \<Rightarrow> string \<Rightarrow> int \<Rightarrow> PreSignedCache \<Rightarrow> PreSignedCache \<times> (go_error + PreSignedTx)" where
  "GetPreSignedTx clk chainID dex direction amount psc =
     (let k = cache_key direction (findClosestAmount amount (sg_Amounts (sc_config psc)))
      in if sc_cache psc chainID dex = None then (psc, Inl (Errorf ''no cache for chain DEX''))
         else if cached chainID dex k psc = [] then (psc, Inl (Errorf ''no pre-signed tx available''))
         else case take_tx clk (sc_currentNonce psc chainID) (cached chainID dex k psc) of
           None \<Rightarrow> (psc, Inl (Errorf ''no valid pre-signed tx (nonce expired)''))
         | Some (tx, rest) \<Rightarrow> (put_cached chainID dex k rest psc, Inr tx))"

definition pruneExpired :: "int \<Rightarrow> PreSignedCache \<Rightarrow> PreSignedCache" where
  "pruneExpired now psc =
     psc\<lparr>sc_cache := (\<lambda>c d. map_option (\<lambda>slots k. filter (\<lambda>tx. now < pt_ExpiresAt tx) (slots k)) (sc_cache psc c d))\<rparr>"

definition MarkNonceUsed :: "uint64 \<Rightarrow> uint64 \<Rightarrow> PreSignedCache \<Rightarrow> PreSignedCache" where
  "MarkNonceUsed chainID nonce psc =
     psc\<lparr>sc_currentNonce := (if nonce \<ge> sc_currentNonce psc chainID then (sc_currentNonce psc)(chainID := nonce + 1)
                             else sc_currentNonce psc),
         sc_cache := (sc_cache psc)(chainID := (\<lambda>d. map_option (\<lambda>slots k. filter (\<lambda>tx. pt_Nonce tx \<noteq> nonce) (slots k))
           (sc_cache psc chainID d)))\<rparr>"

definition PreSignedCache_Start :: "eth_common \<Rightarrow> ('sk, 'tx) tx_types \<Rightarrow> 'sk \<Rightarrow> cache_clock \<Rightarrow> PreSignedCache \<Rightarrow> PreSignedCache" where
  "PreSignedCache_Start ec tt key clk psc =
     (if sc_running psc then psc else populateCache ec tt key clk (psc\<lparr>sc_running := True\<rparr>))"

definition PreSignedCache_Stop :: "PreSignedCache \<Rightarrow> PreSignedCache option" where
  \<comment> \<open>closing a closed channel panics\<close>
  "PreSignedCache_Stop psc =
     (if \<not> sc_running psc then Some psc
      else if sc_stopped psc then None
      else Some (psc\<lparr>sc_running := False, sc_stopped := True\<rparr>))"

text \<open>One tick of \<open>refreshLoop\<close>.\<close>

definition refresh_tick :: "eth_common \<Rightarrow> ('sk, 'tx) tx_types \<Rightarrow> 'sk \<Rightarrow> int \<Rightarrow> cache_clock \<Rightarrow> PreSignedCache \<Rightarrow> PreSignedCache" where
  "refresh_tick ec tt key now clk psc = populateCache ec tt key clk (pruneExpired now psc)"

section \<open>Calldata that is signed\<close>

lemma word_field_address: "length a = 20 \<Longrightarrow> word_field a = abi_address a"
  by (simp add: word_field_def left_pad_def abi_address_def)

lemma big_field_uint:
  assumes "\<bar>x\<bar> < 2 ^ 256"
  shows "big_field x = abi_uint (nat \<bar>x\<bar>)"
proof -
  have "nat \<bar>x\<bar> < 256 ^ 32"
    using assms by (simp add: nat_less_iff)
  then have "left_pad 32 (big_bytes (nat \<bar>x\<bar>)) = abi_uint (nat \<bar>x\<bar>)"
    by (simp only: left_pad_be_bytes abi_uint_def)
  then show ?thesis
    by (simp add: big_field_def word_field_def)
qed

lemma buildV2_call:
  assumes "length recipient = 20" "length tokenIn = 20" "length tokenOut = 20" and "0 \<le> amount" "amount < 2 ^ 256"
    and "0 \<le> deadline_at now" "deadline_at now < 2 ^ 256"
  shows "buildV2SwapCalldata now amount tokenIn tokenOut recipient =
    call_bytes (TokensForTokens False (nat amount) 0 [tokenIn, tokenOut] recipient (nat (deadline_at now)))"
  using assms by (simp add: buildV2SwapCalldata_def calldata_def selector_values word_field_address big_field_uint numeral_2_eq_2)

lemma buildV3_call:
  assumes "length recipient = 20" "length tokenIn = 20" "length tokenOut = 20" and "0 \<le> amount" "amount < 2 ^ 256"
    and "0 \<le> deadline_at now" "deadline_at now < 2 ^ 256"
  shows "buildV3SwapCalldata now amount tokenIn tokenOut fee recipient =
    call_bytes (InputSingle tokenIn tokenOut (unat fee) recipient (nat (deadline_at now)) (nat amount) 0 0)"
proof -
  have "uint fee < 2 ^ 32"
    using unsigned_less [where 'a = int and w = fee] by simp
  also have "(2 :: int) ^ 32 < 2 ^ 256"
    by (rule power_strict_increasing) simp_all
  finally show ?thesis
    using assms
    by (simp add: buildV3SwapCalldata_def calldata_def selector_values word_field_address big_field_uint)
qed

text \<open>The documented length of an address.\<close>

definition addresses_ok :: "eth_common \<Rightarrow> bool" where
  "addresses_ok ec \<longleftrightarrow> common_ok ec \<and> (\<forall>s. length (HexToAddress ec s) = 20)"

lemma token_lengths:
  assumes "addresses_ok ec"
  shows "length (weth ec chainID) = 20" and "length (usdc ec chainID) = 20"
proof -
  have "length a = 20" if "addresses_of ec symbol chainID = Some a" for symbol a
    using that assms unfolding addresses_of_def CommonTokens_def token_entry_def addresses_ok_def
    by (auto simp: bind_eq_Some_conv split: if_splits)
  then show "length (weth ec chainID) = 20" "length (usdc ec chainID) = 20"
    by (auto simp: weth_def usdc_def WETHAddresses_def USDCAddresses_def zero_address_def split: option.splits)
qed

definition swap_tokens :: "eth_common \<Rightarrow> uint64 \<Rightarrow> string \<Rightarrow> address \<times> address" where
  "swap_tokens ec chainID direction =
     (if direction = ''buy'' then (usdc ec chainID, weth ec chainID) else (weth ec chainID, usdc ec chainID))"

lemma built_call:
  assumes ec: "addresses_ok ec" and "length (sc_address psc) = 20" and "0 \<le> amount" "amount < 2 ^ 256"
    and "0 \<le> deadline_at now" "deadline_at now < 2 ^ 256"
    and built: "buildSwapCalldata ec now chainID dex direction amount psc = Inr (data, router)"
  obtains c where "data = call_bytes c" and "router_call_ok c"
    and "call_swap ec chainID c =
      exact_in (fst (swap_tokens ec chainID direction)) (snd (swap_tokens ec chainID direction)) (Some (nat amount)) 0"
proof -
  obtain tin tout where t: "swap_tokens ec chainID direction = (tin, tout)"
    by fastforce
  have len: "length tin = 20" "length tout = 20"
    using t token_lengths [OF ec] by (auto simp: swap_tokens_def split: if_splits)
  obtain chainRouters dexType where "RouterAddresses ec chainID = Some chainRouters" "dex_type dex = Some dexType"
      "chainRouters dexType = Some router"
    using built by (auto simp: buildSwapCalldata_def split: option.splits if_splits)
  then have data: "data =
      (if dexType = ''uniswap_v3'' then buildV3SwapCalldata now amount tin tout (if dex = ''uniswap_v3_030'' then 3000 else 500) (sc_address psc)
       else buildV2SwapCalldata now amount tin tout (sc_address psc))"
    using built t by (auto simp: buildSwapCalldata_def Let_def swap_tokens_def buildSolidlySwapCalldata_def buildV2SwapCalldata_def)
  have small: "nat amount < 2 ^ 256"
    using assms(3,4) by (simp add: nat_less_iff)
  show ?thesis
  proof (cases "dexType = ''uniswap_v3''")
    case True
    then show ?thesis
      using that [of "InputSingle tin tout (unat (if dex = ''uniswap_v3_030'' then 3000 else 500 :: 32 word)) (sc_address psc)
          (nat (deadline_at now)) (nat amount) 0 0"]
        data buildV3_call [OF assms(2) len assms(3-6)] small len assms(2) t by simp
  next
    case False
    then show ?thesis
      using that [of "TokensForTokens False (nat amount) 0 [tin, tout] (sc_address psc) (nat (deadline_at now))"]
        data buildV2_call [OF assms(2) len assms(3-6)] small len assms(2) t by (simp add: path_ok_def)
  qed
qed

text \<open>The routers the cache sends to are watched by the parser, but for the one of Uniswap V3 on Optimism.\<close>

lemma router_watched:
  assumes routers: "RouterAddresses ec chainID = Some chainRouters" and router: "chainRouters dexType = Some router"
    and "\<not> (chainID = ChainIDOptimism \<and> dexType = ''uniswap_v3'')"
  obtains name where "Option.bind (initRouters ec chainID) (\<lambda>rs. rs router) = Some name"
proof -
  have "chainID = ChainIDEthereum \<or> chainID = ChainIDBase \<or> chainID = ChainIDOptimism"
    using map_of_SomeD [OF routers [unfolded RouterAddresses_def]] by auto
  then have "\<exists>rs. initRouters ec chainID = Some rs \<and> rs router \<noteq> None"
  proof (elim disjE)
    assume chain: "chainID = ChainIDEthereum"
    have "(dexType, router) \<in> set [(''uniswap_v2'', HexToAddress ec ''0x7a250d5630B4cF539739dF2C5dAcb4c659F2488D''),
       (''uniswap_v3'', HexToAddress ec ''0xE592427A0AEce92De3Edee1F18E0157C05861564'')]"
      by (rule map_of_SomeD) (use routers router in \<open>simp add: RouterAddresses_def chain\<close>)
    then show ?thesis
      unfolding initRouters_def chain by auto
  next
    assume chain: "chainID = ChainIDBase"
    have "(dexType, router) \<in> set [(''uniswap_v2'', HexToAddress ec ''0x4752ba5DBc23f44D87826276BF6Fd6b1C372aD24''),
       (''uniswap_v3'', HexToAddress ec ''0x2626664c2603336E57B271c5C0b26F421741e481''),
       (''aerodrome'', HexToAddress ec ''0xcF77a3Ba9A5CA399B7c97c74d54e5b1Beb874E43'')]"
      by (rule map_of_SomeD) (use routers router in \<open>simp add: RouterAddresses_def chain ChainIDBase_def ChainIDEthereum_def\<close>)
    then show ?thesis
      unfolding initRouters_def chain by (auto simp: ChainIDBase_def ChainIDEthereum_def)
  next
    assume chain: "chainID = ChainIDOptimism"
    have "(dexType, router) \<in> set [(''uniswap_v2'', HexToAddress ec ''0x4A7b5Da61326A6379179b40d00F57E5bbDC962c2''),
       (''uniswap_v3'', HexToAddress ec ''0xE592427A0AEce92De3Edee1F18E0157C05861564''),
       (''velodrome'', HexToAddress ec ''0xa062aE8A9c5e11aaA026fc2670B0D65cCc8B2858'')]"
      by (rule map_of_SomeD) (use routers router in \<open>simp add: RouterAddresses_def chain ChainIDBase_def ChainIDEthereum_def ChainIDOptimism_def\<close>)
    then show ?thesis
      using assms(3) unfolding initRouters_def chain by (auto simp: ChainIDBase_def ChainIDEthereum_def ChainIDOptimism_def)
  qed
  then show ?thesis
    using that by auto
qed

text \<open>
  C40: the mempool parser recognises the swaps the cache signs: a pending transaction with the data
  built for an exchange, sent to its router, is recorded under its hash with the tokens of the
  direction, the amount and a minimum output of zero. The swaps of Uniswap V3 on Optimism are left
  out: their router is not one the parser watches.
\<close>

theorem presigned_swap_detected:
  assumes "addresses_ok ec" and "length (sc_address psc) = 20" and "0 \<le> amount" and "amount < 2 ^ 256"
    and "0 \<le> deadline_at now" and "deadline_at now < 2 ^ 256"
    and "buildSwapCalldata ec now chainID dex direction amount psc = Inr (data, router)"
    and "\<not> (chainID = ChainIDOptimism \<and> dex_type dex = Some ''uniswap_v3'')"
    and "tr_To tx = Some router" and "tr_Data tx = exact data" and "mp_routers mp = initRouters ec"
  shows "\<exists>mp' swap. ParseTransaction ec sender now' chainID tx mp = Some (mp', Some swap) \<and>
    GetPendingSwap (tr_Hash tx) mp' = Some swap \<and>
    ps_TokenIn swap = fst (swap_tokens ec chainID direction) \<and> ps_TokenOut swap = snd (swap_tokens ec chainID direction) \<and>
    ps_AmountIn swap = Some (nat amount) \<and> ps_AmountOut swap = Some 0 \<and> ps_To swap = router \<and> ps_ChainID swap = chainID"
proof -
  let ?parsed = "exact_in (fst (swap_tokens ec chainID direction)) (snd (swap_tokens ec chainID direction)) (Some (nat amount)) 0"
  obtain c where c: "data = call_bytes c" "router_call_ok c" "call_swap ec chainID c = ?parsed"
    using built_call [OF assms(1-7)] .
  have "gs_len (exact data) = length (call_bytes c)" "gs_mem (exact data) = call_bytes c @ []"
    using c(1) by simp_all
  then have parsed: "parseCalldata ec chainID name (exact data) = Some (Some ?parsed)" for name
    using parse_call [of ec c "exact data" "[]" chainID name] assms(1) c(2,3) by (simp add: addresses_ok_def)
  have len: "4 \<le> length data"
    unfolding c(1) by (cases c) (simp_all add: calldata_def selector_values)
  obtain chainRouters dexType where "RouterAddresses ec chainID = Some chainRouters" "dex_type dex = Some dexType"
      "chainRouters dexType = Some router"
    using assms(7) by (auto simp: buildSwapCalldata_def split: option.splits if_splits)
  then obtain name where "Option.bind (initRouters ec chainID) (\<lambda>rs. rs router) = Some name"
    using router_watched [of ec chainID chainRouters dexType router] assms(8) by auto
  then show ?thesis
    using assms(9-11) parsed len
    by (simp add: ParseTransaction_def Let_def complete_swap_def GetPendingSwap_def exact_in_def)
qed

text \<open>
  A swap of Uniswap V3 on Optimism is built for a router that is not watched there, and goes
  unrecognised.
\<close>

theorem optimism_v3_swap_missed:
  assumes "inj (HexToAddress ec)" and "dex_type dex = Some ''uniswap_v3''"
    and "buildSwapCalldata ec now ChainIDOptimism dex direction amount psc = Inr (data, router)"
    and "tr_To tx = Some router" and "mp_routers mp = initRouters ec"
  shows "ParseTransaction ec sender now' ChainIDOptimism tx mp = Some (mp\<lparr>mp_txParsed := mp_txParsed mp + 1\<rparr>, None)"
proof -
  have "router = HexToAddress ec ''0xE592427A0AEce92De3Edee1F18E0157C05861564''"
    using assms(2,3) by (simp add: buildSwapCalldata_def RouterAddresses_def ChainIDEthereum_def ChainIDBase_def ChainIDOptimism_def Let_def split: if_splits)
  then have "Option.bind (initRouters ec ChainIDOptimism) (\<lambda>rs. rs router) = None"
    using assms(1) by (simp add: initRouters_def ChainIDEthereum_def ChainIDBase_def ChainIDOptimism_def inj_eq)
  then show ?thesis
    using assms(4,5) by (simp add: ParseTransaction_def Let_def)
qed

section \<open>Nonces\<close>

lemma cached_put [simp]:
  "cached c d k (put_cached c' d' k' txs psc) = (if c = c' \<and> d = d' \<and> k = k' then txs else cached c d k psc)"
  by (auto simp: cached_def put_cached_def split: option.splits)

lemma put_cached_fields [simp]:
  "sc_maxNonce (put_cached c d k txs psc) = sc_maxNonce psc" "sc_currentNonce (put_cached c d k txs psc) = sc_currentNonce psc"
  "sc_config (put_cached c d k txs psc) = sc_config psc" "sc_address (put_cached c d k txs psc) = sc_address psc"
  by (simp_all add: put_cached_def)

lemma take_tx_Some:
  "take_tx clk cur txs = Some (tx, rest) \<Longrightarrow>
     cur \<le> pt_Nonce tx \<and> (\<exists>i. clk i < pt_ExpiresAt tx) \<and> (\<exists>us vs. txs = us @ tx # vs \<and> rest = us @ vs)"
proof (induction txs arbitrary: clk rest)
  case (Cons t txs)
  show ?case
  proof (cases "clk 0 < pt_ExpiresAt t \<and> pt_Nonce t \<ge> cur")
    case True
    then show ?thesis
      using Cons.prems by (auto intro: exI [of _ "[]"])
  next
    case False
    then obtain rest' where "take_tx (\<lambda>i. clk (Suc i)) cur txs = Some (tx, rest')" "rest = t # rest'"
      using Cons.prems by (auto split: if_splits)
    then show ?thesis
      using Cons.IH [of "\<lambda>i. clk (Suc i)" rest'] by (metis append_Cons)
  qed
qed simp

text \<open>
  The nonces given out so far: every cached transaction has a nonce below the next one, no two cached
  transactions of a chain share a nonce, and none has a nonce that was handed out.
\<close>

type_synonym handed = "(uint64 \<times> uint64) list"

definition nonces_ok :: "PreSignedCache \<Rightarrow> handed \<Rightarrow> bool" where
  "nonces_ok psc h \<longleftrightarrow> distinct h \<and> (\<forall>(c, n) \<in> set h. n < sc_maxNonce psc c) \<and>
     (\<forall>c d k. distinct (map pt_Nonce (cached c d k psc))) \<and>
     (\<forall>c d k. \<forall>tx\<in>set (cached c d k psc). pt_Nonce tx < sc_maxNonce psc c \<and> (c, pt_Nonce tx) \<notin> set h \<and>
        (\<forall>d' k'. \<forall>tx'\<in>set (cached c d' k' psc). pt_Nonce tx = pt_Nonce tx' \<longrightarrow> d = d' \<and> k = k'))"

lemma nonces_okI:
  assumes "distinct h" and "\<And>c n. (c, n) \<in> set h \<Longrightarrow> n < sc_maxNonce psc c"
    and "\<And>c d k. distinct (map pt_Nonce (cached c d k psc))"
    and "\<And>c d k tx. tx \<in> set (cached c d k psc) \<Longrightarrow> pt_Nonce tx < sc_maxNonce psc c"
    and "\<And>c d k tx. tx \<in> set (cached c d k psc) \<Longrightarrow> (c, pt_Nonce tx) \<notin> set h"
    and "\<And>c d k d' k' tx tx'. tx \<in> set (cached c d k psc) \<Longrightarrow> tx' \<in> set (cached c d' k' psc) \<Longrightarrow>
      pt_Nonce tx = pt_Nonce tx' \<Longrightarrow> d = d' \<and> k = k'"
  shows "nonces_ok psc h"
  unfolding nonces_ok_def using assms by blast

lemma nonces_ok_handed: "nonces_ok psc h \<Longrightarrow> distinct h \<and> ((c, n) \<in> set h \<longrightarrow> n < sc_maxNonce psc c)"
  unfolding nonces_ok_def by blast

lemma nonces_ok_distinct: "nonces_ok psc h \<Longrightarrow> distinct (map pt_Nonce (cached c d k psc))"
  by (simp add: nonces_ok_def)

lemma nonces_ok_tx:
  "nonces_ok psc h \<Longrightarrow> tx \<in> set (cached c d k psc) \<Longrightarrow> pt_Nonce tx < sc_maxNonce psc c \<and> (c, pt_Nonce tx) \<notin> set h"
  by (simp add: nonces_ok_def)

lemma nonces_ok_slot:
  "nonces_ok psc h \<Longrightarrow> tx \<in> set (cached c d k psc) \<Longrightarrow> tx' \<in> set (cached c d' k' psc) \<Longrightarrow> pt_Nonce tx = pt_Nonce tx' \<Longrightarrow> d = d' \<and> k = k'"
  unfolding nonces_ok_def by blast

lemma nonces_ok_less:
  assumes "nonces_ok psc h" and "\<And>c. sc_maxNonce psc c \<le> sc_maxNonce psc' c"
    and "\<And>c d k. set (cached c d k psc') \<subseteq> set (cached c d k psc)" and "\<And>c d k. distinct (map pt_Nonce (cached c d k psc'))"
  shows "nonces_ok psc' h"
proof -
  have "pt_Nonce tx < sc_maxNonce psc' c \<and> (c, pt_Nonce tx) \<notin> set h \<and>
      (\<forall>d' k'. \<forall>tx'\<in>set (cached c d' k' psc'). pt_Nonce tx = pt_Nonce tx' \<longrightarrow> d = d' \<and> k = k')"
    if "tx \<in> set (cached c d k psc')" for c d k tx
    using assms(1) assms(2) [of c] assms(3) that unfolding nonces_ok_def by (meson in_mono order_less_le_trans)
  moreover have "\<forall>(c, n) \<in> set h. n < sc_maxNonce psc' c"
    using assms(1,2) unfolding nonces_ok_def by (auto intro: order_less_le_trans)
  ultimately show ?thesis
    using assms(1,4) unfolding nonces_ok_def by blast
qed

lemma nonces_ok_filtered:
  assumes "nonces_ok psc h" and "\<And>c. sc_maxNonce psc c \<le> sc_maxNonce psc' c"
    and "\<And>c d k. \<exists>P. cached c d k psc' = filter P (cached c d k psc)"
  shows "nonces_ok psc' h"
proof (rule nonces_ok_less [OF assms(1,2)])
  fix c d k
  obtain P where P: "cached c d k psc' = filter P (cached c d k psc)"
    using assms(3) by blast
  have "distinct (map pt_Nonce (cached c d k psc))"
    using assms(1) by (simp add: nonces_ok_def)
  then show "set (cached c d k psc') \<subseteq> set (cached c d k psc)" "distinct (map pt_Nonce (cached c d k psc'))"
    unfolding P by (auto intro: distinct_map_filter)
qed

lemma nonces_ok_SetNonce: "nonces_ok psc h \<Longrightarrow> nonces_ok (PreSignedCache_SetNonce c n psc) h"
  by (rule nonces_ok_filtered [of psc]) (auto simp: PreSignedCache_SetNonce_def cached_def intro: exI [of _ "\<lambda>_. True"])

lemma nonces_ok_prune: "nonces_ok psc h \<Longrightarrow> nonces_ok (pruneExpired now psc) h"
  by (rule nonces_ok_filtered [of psc])
    (auto simp: pruneExpired_def cached_def split: option.splits intro: exI [of _ "\<lambda>tx. now < pt_ExpiresAt tx"])

lemma nonces_ok_Mark: "nonces_ok psc h \<Longrightarrow> nonces_ok (MarkNonceUsed c n psc) h"
  by (rule nonces_ok_filtered [of psc])
    (auto simp: MarkNonceUsed_def cached_def split: option.splits intro: exI [of _ "\<lambda>tx. pt_Nonce tx \<noteq> n"] exI [of _ "\<lambda>_. True"])

lemma cached_open [simp]: "cached c d k (open_slots c' d' psc) = cached c d k psc"
  by (auto simp: open_slots_def cached_def)

lemma open_slots_fields [simp]:
  "sc_maxNonce (open_slots c d psc) = sc_maxNonce psc" "sc_config (open_slots c d psc) = sc_config psc"
  "sc_address (open_slots c d psc) = sc_address psc" "sc_currentNonce (open_slots c d psc) = sc_currentNonce psc"
  "sc_running (open_slots c d psc) = sc_running psc" "sc_stopped (open_slots c d psc) = sc_stopped psc"
  by (simp_all add: open_slots_def)

lemma nonces_ok_take:
  assumes ok: "nonces_ok psc h" and "cached c d k psc = us @ tx # vs"
  shows "nonces_ok (put_cached c d k (us @ vs) psc) ((c, pt_Nonce tx) # h)" and "(c, pt_Nonce tx) \<notin> set h"
proof -
  have "distinct (map pt_Nonce (cached c d k psc))"
    using ok by (simp add: nonces_ok_def)
  then have dist: "distinct (map pt_Nonce (us @ vs))" "pt_Nonce tx \<notin> pt_Nonce ` set (us @ vs)"
    unfolding assms(2) by auto
  have tx: "tx \<in> set (cached c d k psc)" and sub: "set (us @ vs) \<subseteq> set (cached c d k psc)"
    unfolding assms(2) by auto
  show "(c, pt_Nonce tx) \<notin> set h"
    using nonces_ok_tx [OF ok tx] by simp
  let ?q = "put_cached c d k (us @ vs) psc"
  have ok': "nonces_ok ?q h"
    by (rule nonces_ok_less [OF ok]) (use sub dist(1) nonces_ok_distinct [OF ok] in auto)
  have "pt_Nonce tx' \<noteq> pt_Nonce tx" if "tx' \<in> set (cached c d' k' ?q)" for d' k' tx'
  proof (cases "d' = d \<and> k' = k")
    case True
    then have "pt_Nonce tx' \<in> pt_Nonce ` set (us @ vs)"
      using that by (intro imageI) simp
    then show ?thesis
      using dist(2) by metis
  next
    case False
    then show ?thesis
      using that nonces_ok_slot [OF ok tx, of tx' d' k'] by auto
  qed
  then show "nonces_ok ?q ((c, pt_Nonce tx) # h)"
    using nonces_ok_handed [OF ok'] nonces_ok_distinct [OF ok'] nonces_ok_tx [OF ok'] nonces_ok_slot [OF ok']
      nonces_ok_tx [OF ok tx]
    by (intro nonces_okI) (auto simp del: cached_put)
qed

lemma nonces_ok_sign:
  assumes ok: "nonces_ok psc h" and "pt_Nonce tx = sc_maxNonce psc c" and "sc_maxNonce psc c < sc_maxNonce psc c + 1"
    and psc': "psc' = psc\<lparr>sc_maxNonce := (sc_maxNonce psc)(c := sc_maxNonce psc c + 1)\<rparr>"
  shows "nonces_ok psc' h" and "nonces_ok (put_cached c d k (cached c d k psc' @ [tx]) psc') h"
proof -
  have same: "cached c d k psc' = cached c d k psc" for c d k
    by (simp add: psc' cached_def)
  have max: "sc_maxNonce psc c' \<le> sc_maxNonce psc' c'" for c'
    using assms(3) by (auto simp: psc')
  show ok': "nonces_ok psc' h"
    by (rule nonces_ok_filtered [OF ok max]) (auto simp: same intro: exI [of _ "\<lambda>_. True"])
  have below: "pt_Nonce t < pt_Nonce tx" if "t \<in> set (cached c d k psc')" for d k t
    using nonces_ok_tx [OF ok] that unfolding same assms(2) by blast
  have fresh: "(c, pt_Nonce tx) \<notin> set h" and next_nonce: "pt_Nonce tx < sc_maxNonce psc' c"
    using nonces_ok_handed [OF ok, of c "pt_Nonce tx"] assms(2,3) by (auto simp: psc')
  let ?q = "put_cached c d k (cached c d k psc' @ [tx]) psc'"
  have mem: "t \<in> set (cached c1 d1 k1 psc') \<or> (c1 = c \<and> d1 = d \<and> k1 = k \<and> t = tx)" if "t \<in> set (cached c1 d1 k1 ?q)" for c1 d1 k1 t
    using that by (auto split: if_splits)
  show "nonces_ok ?q h"
  proof (rule nonces_okI)
    show "distinct h" and "\<And>c n. (c, n) \<in> set h \<Longrightarrow> n < sc_maxNonce ?q c"
      using nonces_ok_handed [OF ok'] by auto
  next
    fix c1 d1 k1
    have "pt_Nonce tx \<notin> pt_Nonce ` set (cached c d k psc')"
      using below by fastforce
    then show "distinct (map pt_Nonce (cached c1 d1 k1 ?q))"
      using nonces_ok_distinct [OF ok'] by simp
  next
    fix c1 d1 k1 t
    assume "t \<in> set (cached c1 d1 k1 ?q)"
    from mem [OF this] show "pt_Nonce t < sc_maxNonce ?q c1" "(c1, pt_Nonce t) \<notin> set h"
      using nonces_ok_tx [OF ok'] fresh next_nonce by auto
  next
    fix c1 d1 k1 d2 k2 t t'
    assume t: "t \<in> set (cached c1 d1 k1 ?q)" "t' \<in> set (cached c1 d2 k2 ?q)" "pt_Nonce t = pt_Nonce t'"
    show "d1 = d2 \<and> k1 = k2"
      using mem [OF t(1)] mem [OF t(2)] t(3) below nonces_ok_slot [OF ok'] by (elim disjE) (fastforce+)
  qed
qed

text \<open>Room for \<open>n\<close> more nonces on every chain before the counter wraps around.\<close>

definition room :: "PreSignedCache \<Rightarrow> nat \<Rightarrow> bool" where
  "room psc n \<longleftrightarrow> (\<forall>c. unat (sc_maxNonce psc c) + n < 2 ^ 64)"

lemma room_next:
  assumes "room psc (Suc n)"
  shows "sc_maxNonce psc c < sc_maxNonce psc c + 1"
    and "unat (sc_maxNonce psc c + 1) = Suc (unat (sc_maxNonce psc c))"
proof -
  have "unat (sc_maxNonce psc c) + Suc n < 2 ^ 64"
    using assms by (simp only: room_def)
  then have "Suc (unat (sc_maxNonce psc c)) < 2 ^ 64"
    by linarith
  then show "unat (sc_maxNonce psc c + 1) = Suc (unat (sc_maxNonce psc c))"
    by (simp add: unat_word_ariths)
  then show "sc_maxNonce psc c < sc_maxNonce psc c + 1"
    by (simp add: word_less_nat_alt)
qed

section \<open>What the slots hold\<close>

definition signed_for :: "eth_common \<Rightarrow> ('sk, 'tx) tx_types \<Rightarrow> 'sk \<Rightarrow> PreSignedCache \<Rightarrow> PreSignedTx \<Rightarrow> bool" where
  "signed_for ec tt key psc tx \<longleftrightarrow> (\<exists>now data to' signedTx.
     buildSwapCalldata ec now (pt_ChainID tx) (pt_DEX tx) (pt_Direction tx) (pt_Amount tx) psc = Inr (data, to') \<and>
     SignNewTx tt key (sint (pt_ChainID tx)) (unsigned_tx (pt_ChainID tx) (pt_DEX tx) (pt_Nonce tx) data to' (sc_config psc)) = Inr signedTx \<and>
     MarshalBinary tt signedTx = Inr (pt_SignedTx tx) \<and> pt_TxHash tx = tx_Hash tt signedTx)"

definition fits_slot :: "eth_common \<Rightarrow> ('sk, 'tx) tx_types \<Rightarrow> 'sk \<Rightarrow> PreSignedCache \<Rightarrow> uint64 \<Rightarrow> string \<Rightarrow> string \<Rightarrow> PreSignedTx \<Rightarrow> bool" where
  "fits_slot ec tt key psc c d k tx \<longleftrightarrow> pt_ChainID tx = c \<and> pt_DEX tx = d \<and> pt_Direction tx \<in> {''buy'', ''sell''} \<and>
     k = cache_key (pt_Direction tx) (Some (pt_Amount tx)) \<and> signed_for ec tt key psc tx"

definition slots_ok :: "eth_common \<Rightarrow> ('sk, 'tx) tx_types \<Rightarrow> 'sk \<Rightarrow> PreSignedCache \<Rightarrow> bool" where
  "slots_ok ec tt key psc \<longleftrightarrow> (\<forall>c d k. \<forall>tx\<in>set (cached c d k psc). fits_slot ec tt key psc c d k tx)"

lemma fits_slot_cong:
  assumes "sc_address psc' = sc_address psc" and "sc_config psc' = sc_config psc"
  shows "fits_slot ec tt key psc' = fits_slot ec tt key psc"
proof -
  have "buildSwapCalldata ec now c d dir a psc' = buildSwapCalldata ec now c d dir a psc" for now c d dir a
    unfolding buildSwapCalldata_def assms(1) ..
  then show ?thesis
    by (simp add: fits_slot_def signed_for_def assms fun_eq_iff)
qed

lemma slots_ok_less:
  assumes "slots_ok ec tt key psc" and "sc_address psc' = sc_address psc" and "sc_config psc' = sc_config psc"
    and "\<And>c d k. set (cached c d k psc') \<subseteq> set (cached c d k psc)"
  shows "slots_ok ec tt key psc'"
  using assms(1,4) unfolding slots_ok_def fits_slot_cong [OF assms(2,3)] by blast

lemma slots_ok_add:
  assumes "slots_ok ec tt key psc" and "fits_slot ec tt key psc c d k tx"
  shows "slots_ok ec tt key (put_cached c d k (cached c d k psc @ [tx]) psc)" (is "slots_ok _ _ _ ?q")
proof -
  have "fits_slot ec tt key ?q = fits_slot ec tt key psc"
    by (rule fits_slot_cong) simp_all
  then show ?thesis
    using assms by (simp add: slots_ok_def)
qed

lemma preSignTx_max:
  "preSignTx ec tt key clk c d dir amount psc = (psc', r) \<Longrightarrow>
     psc' = psc\<lparr>sc_maxNonce := (sc_maxNonce psc)(c := sc_maxNonce psc c + 1)\<rparr>"
  by (simp add: preSignTx_def Let_def)

lemma preSignTx_signed:
  assumes "preSignTx ec tt key clk c d dir amount psc = (psc', Inr tx)" and "dir \<in> {''buy'', ''sell''}"
  shows "pt_Nonce tx = sc_maxNonce psc c \<and> fits_slot ec tt key psc c d (cache_key dir (Some amount)) tx"
proof -
  let ?unsigned = "\<lambda>data to'. unsigned_tx c d (sc_maxNonce psc c) data to' (sc_config psc)"
  obtain data to' where built: "buildSwapCalldata ec (clk 0) c d dir amount psc = Inr (data, to')"
    using assms(1) by (auto simp: preSignTx_def Let_def split: sum.splits)
  obtain stx raw where signed: "SignNewTx tt key (sint c) (?unsigned data to') = Inr stx" "MarshalBinary tt stx = Inr raw"
    using assms(1) built by (auto simp: preSignTx_def Let_def split: sum.splits)
  have tx: "pt_ChainID tx = c" "pt_DEX tx = d" "pt_Direction tx = dir" "pt_Amount tx = amount" "pt_Nonce tx = sc_maxNonce psc c"
    "pt_SignedTx tx = raw" "pt_TxHash tx = tx_Hash tt stx"
    using assms(1) built signed by (auto simp: preSignTx_def Let_def)
  have "signed_for ec tt key psc tx"
    unfolding signed_for_def tx using built signed by blast
  then show ?thesis
    using tx assms(2) by (simp add: fits_slot_def)
qed

text \<open>
  The state of a cache with \<open>n\<close> nonces left on every chain: its settings do not change, and filling it
  consumes at most one nonce per missing transaction.
\<close>

definition cache_ok :: "eth_common \<Rightarrow> ('sk, 'tx) tx_types \<Rightarrow> 'sk \<Rightarrow> PreSignedConfig \<Rightarrow> handed \<Rightarrow> nat \<Rightarrow> PreSignedCache \<Rightarrow> bool" where
  "cache_ok ec tt key config h n psc \<longleftrightarrow> sc_config psc = config \<and> nonces_ok psc h \<and> slots_ok ec tt key psc \<and> room psc n"

lemma room_mono: "room psc n \<Longrightarrow> m \<le> n \<Longrightarrow> room psc m"
  unfolding room_def by (meson add_left_mono le_less_trans)

lemma cache_ok_mono: "cache_ok ec tt key config h n psc \<Longrightarrow> m \<le> n \<Longrightarrow> cache_ok ec tt key config h m psc"
  by (auto simp: cache_ok_def intro: room_mono)

lemma room_after:
  assumes "room psc (Suc n)"
  shows "room (psc\<lparr>sc_maxNonce := (sc_maxNonce psc)(c := sc_maxNonce psc c + 1)\<rparr>) n"
  using assms room_next(2) [OF assms, of c] room_mono [OF assms, of n] by (simp add: room_def)

lemma cache_ok_sign:
  assumes "cache_ok ec tt key config h (Suc n) psc" and "preSignTx ec tt key clk c d dir amount psc = (psc', r)"
    and "dir \<in> {''buy'', ''sell''}" and "k = cache_key dir (Some amount)"
  shows "cache_ok ec tt key config h n psc'"
    and "r = Inr tx \<Longrightarrow> cache_ok ec tt key config h n (put_cached c d k (cached c d k psc' @ [tx]) psc')"
proof -
  note psc' = preSignTx_max [OF assms(2)]
  have ok: "sc_config psc = config" "nonces_ok psc h" "slots_ok ec tt key psc" "room psc (Suc n)"
    using assms(1) by (simp_all add: cache_ok_def)
  have slots: "slots_ok ec tt key psc'"
    by (rule slots_ok_less [OF ok(3)]) (simp_all add: psc' cached_def)
  have room': "room psc' n"
    unfolding psc' by (rule room_after [OF ok(4)])
  obtain t :: PreSignedTx where "pt_Nonce t = sc_maxNonce psc c"
    by (meson PreSignedTx.select_convs(5))
  then have "nonces_ok psc' h"
    using nonces_ok_sign(1) [OF ok(2) _ room_next(1) [OF ok(4)] psc'] by blast
  then show "cache_ok ec tt key config h n psc'"
    using slots room' ok(1) by (simp add: cache_ok_def psc')
  assume r: "r = Inr tx"
  note tx = preSignTx_signed [OF assms(2) [unfolded r] assms(3)]
  have "fits_slot ec tt key psc' = fits_slot ec tt key psc"
    by (rule fits_slot_cong) (simp_all add: psc')
  then have "slots_ok ec tt key (put_cached c d k (cached c d k psc' @ [tx]) psc')"
    using slots_ok_add [OF slots] tx assms(4) by simp
  moreover have "room (put_cached c d k (cached c d k psc' @ [tx]) psc') n"
    using room' by (simp add: room_def)
  ultimately show "cache_ok ec tt key config h n (put_cached c d k (cached c d k psc' @ [tx]) psc')"
    using nonces_ok_sign(2) [OF ok(2) _ room_next(1) [OF ok(4)] psc'] tx ok(1) by (simp add: cache_ok_def psc')
qed

lemma cache_ok_missing:
  assumes "cache_ok ec tt key config h (n + m) psc" and "dir \<in> {''buy'', ''sell''}"
  shows "cache_ok ec tt key config h m (sign_missing ec tt key clk c d dir amount n psc)"
  using assms(1)
proof (induction n arbitrary: psc clk)
  case (Suc n)
  obtain psc' r where pre: "preSignTx ec tt key clk c d dir amount psc = (psc', r)"
    by fastforce
  note sign = cache_ok_sign [OF _ pre assms(2) refl, of config h "n + m"]
  show ?case
  proof (cases r)
    case (Inl e)
    then show ?thesis
      using sign(1) Suc.prems pre cache_ok_mono [of _ _ _ _ _ "n + m" psc' m] by simp
  next
    case (Inr tx)
    then show ?thesis
      using sign(2) [OF _ Inr] Suc.prems Suc.IH pre by (simp add: Let_def)
  qed
qed simp

lemma cache_ok_ensure:
  assumes "cache_ok ec tt key config h (nat (sg_CacheDepth config) + m) psc" and "dir \<in> {''buy'', ''sell''}"
  shows "cache_ok ec tt key config h m (ensureCacheDepth ec tt key clk c d dir amount psc)"
proof -
  let ?n = "nat (sg_CacheDepth config - int (valid_count clk (cached c d (cache_key dir (Some amount)) psc)))"
  have "cache_ok ec tt key config h (?n + m) psc"
    by (rule cache_ok_mono [OF assms(1)]) simp
  moreover have "sc_config psc = config"
    using assms(1) by (simp add: cache_ok_def)
  ultimately show ?thesis
    using cache_ok_missing [OF _ assms(2)] by (simp add: ensureCacheDepth_def Let_def)
qed

lemma cache_ok_fold:
  assumes "\<And>x m psc. x \<in> set xs \<Longrightarrow> cache_ok ec tt key config h (b + m) psc \<Longrightarrow> cache_ok ec tt key config h m (f x psc)"
    and "cache_ok ec tt key config h (length xs * b + m) psc"
  shows "cache_ok ec tt key config h m (fold f xs psc)"
  using assms
proof (induction xs arbitrary: psc)
  case (Cons x xs)
  have "cache_ok ec tt key config h (length xs * b + m) (f x psc)"
    using Cons.prems(1) [of x "length xs * b + m" psc] Cons.prems(2) by (simp add: add.assoc)
  then show ?case
    using Cons.IH [of "f x psc"] Cons.prems(1) by simp
qed simp

definition slot_bound :: "PreSignedConfig \<Rightarrow> nat" where
  "slot_bound config = 2 * length (sg_Amounts config) * nat (sg_CacheDepth config)"

definition populate_bound :: "PreSignedConfig \<Rightarrow> nat" where
  "populate_bound config = length (sg_Chains config) * length (sg_DEXs config) * slot_bound config"

lemma nonces_ok_same:
  assumes "nonces_ok psc h" and "sc_maxNonce psc' = sc_maxNonce psc" and "\<And>c d k. cached c d k psc' = cached c d k psc"
  shows "nonces_ok psc' h"
  using assms(1) unfolding nonces_ok_def assms(2,3) .

lemma cache_ok_open: "cache_ok ec tt key config h n psc \<Longrightarrow> cache_ok ec tt key config h n (open_slots c d psc)"
  by (auto simp: cache_ok_def room_def intro: nonces_ok_same [of psc] slots_ok_less [of _ _ _ psc])

lemma cache_ok_dex:
  assumes "cache_ok ec tt key config h (slot_bound config + m) psc"
  shows "cache_ok ec tt key config h m (populate_dex ec tt key clk c d psc)"
proof -
  have "sc_config psc = config"
    using assms by (simp add: cache_ok_def)
  moreover have "cache_ok ec tt key config h m (fold (\<lambda>(direction, amount).
      ensureCacheDepth ec tt key (clk c d direction amount) c d direction amount)
      (List.product [''buy'', ''sell''] (sg_Amounts config)) (open_slots c d psc))"
  proof (rule cache_ok_fold [where b = "nat (sg_CacheDepth config)"])
    show "cache_ok ec tt key config h (length (List.product [''buy'', ''sell''] (sg_Amounts config)) * nat (sg_CacheDepth config) + m) (open_slots c d psc)"
      using cache_ok_open [OF assms, of c d] by (simp add: slot_bound_def mult_2 distrib_right)
  next
    fix x m psc
    assume "x \<in> set (List.product [''buy'', ''sell''] (sg_Amounts config))" "cache_ok ec tt key config h (nat (sg_CacheDepth config) + m) psc"
    then show "cache_ok ec tt key config h m ((case x of (direction, amount) \<Rightarrow>
        ensureCacheDepth ec tt key (clk c d direction amount) c d direction amount) psc)"
      by (auto intro!: cache_ok_ensure)
  qed
  ultimately show ?thesis
    by (simp add: populate_dex_def)
qed

lemma cache_ok_populate:
  assumes "cache_ok ec tt key config h (populate_bound config + m) psc"
  shows "cache_ok ec tt key config h m (populateCache ec tt key clk psc)"
proof -
  have "sc_config psc = config"
    using assms by (simp add: cache_ok_def)
  moreover have "cache_ok ec tt key config h m (fold (\<lambda>(c, d). populate_dex ec tt key clk c d)
      (List.product (sg_Chains config) (sg_DEXs config)) psc)"
    by (rule cache_ok_fold [where b = "slot_bound config"])
      (use assms in \<open>auto simp: populate_bound_def intro: cache_ok_dex\<close>)
  ultimately show ?thesis
    by (simp add: populateCache_def)
qed

section \<open>Runs\<close>

text \<open>
  The calls the cache sees: setting a nonce, starting and stopping, a tick of the refresh loop, taking
  a transaction and marking a nonce as used. The counters are assumed to have room for one filling
  of the cache when it is filled.
\<close>

inductive cache_run :: "eth_common \<Rightarrow> ('sk, 'tx) tx_types \<Rightarrow> 'sk \<Rightarrow> PreSignedCache \<Rightarrow> PreSignedCache \<Rightarrow> handed \<Rightarrow> bool"
  for ec tt key new where
  new: "cache_run ec tt key new new []"
| set_nonce: "cache_run ec tt key new psc h \<Longrightarrow> cache_run ec tt key new (PreSignedCache_SetNonce c n psc) h"
| start: "cache_run ec tt key new psc h \<Longrightarrow> room psc (populate_bound (sc_config psc)) \<Longrightarrow>
    cache_run ec tt key new (PreSignedCache_Start ec tt key clk psc) h"
| stop: "cache_run ec tt key new psc h \<Longrightarrow> PreSignedCache_Stop psc = Some psc' \<Longrightarrow> cache_run ec tt key new psc' h"
| tick: "cache_run ec tt key new psc h \<Longrightarrow> room psc (populate_bound (sc_config psc)) \<Longrightarrow>
    cache_run ec tt key new (refresh_tick ec tt key now clk psc) h"
| get: "cache_run ec tt key new psc h \<Longrightarrow> GetPreSignedTx tclk c dex dir amount psc = (psc', Inr tx) \<Longrightarrow>
    cache_run ec tt key new psc' ((c, pt_Nonce tx) # h)"
| miss: "cache_run ec tt key new psc h \<Longrightarrow> GetPreSignedTx tclk c dex dir amount psc = (psc', Inl e) \<Longrightarrow>
    cache_run ec tt key new psc' h"
| used: "cache_run ec tt key new psc h \<Longrightarrow> cache_run ec tt key new (MarkNonceUsed c n psc) h"

definition held_ok :: "eth_common \<Rightarrow> ('sk, 'tx) tx_types \<Rightarrow> 'sk \<Rightarrow> PreSignedCache \<Rightarrow> handed \<Rightarrow> bool" where
  "held_ok ec tt key psc h \<longleftrightarrow> nonces_ok psc h \<and> slots_ok ec tt key psc"

lemma GetPreSignedTx_miss: "GetPreSignedTx clk c dex dir amount psc = (psc', Inl e) \<Longrightarrow> psc' = psc"
  by (auto simp: GetPreSignedTx_def Let_def split: if_splits option.splits)

lemma GetPreSignedTx_hit:
  assumes "GetPreSignedTx clk c dex dir amount psc = (psc', Inr tx)"
    and "k = cache_key dir (findClosestAmount amount (sg_Amounts (sc_config psc)))"
  obtains us vs i where "cached c dex k psc = us @ tx # vs" and "psc' = put_cached c dex k (us @ vs) psc"
    and "sc_currentNonce psc c \<le> pt_Nonce tx" and "clk i < pt_ExpiresAt tx"
  using assms by (auto simp: GetPreSignedTx_def Let_def split: if_splits option.splits dest!: take_tx_Some)

lemma held_ok_populate:
  assumes "held_ok ec tt key psc h" and "room psc (populate_bound (sc_config psc))"
  shows "held_ok ec tt key (populateCache ec tt key clk psc) h"
  using assms cache_ok_populate [of ec tt key "sc_config psc" h 0 psc clk] by (simp add: held_ok_def cache_ok_def)

lemma held_ok_filtered:
  assumes "held_ok ec tt key psc h" and "\<And>c. sc_maxNonce psc c \<le> sc_maxNonce psc' c"
    and "sc_address psc' = sc_address psc" and "sc_config psc' = sc_config psc"
    and "\<And>c d k. \<exists>P. cached c d k psc' = filter P (cached c d k psc)"
  shows "held_ok ec tt key psc' h"
proof -
  have "set (cached c d k psc') \<subseteq> set (cached c d k psc)" for c d k
    using assms(5) [of c d k] by auto
  then show ?thesis
    using assms slots_ok_less [of ec tt key psc psc'] nonces_ok_filtered [of psc h psc'] by (simp add: held_ok_def)
qed

lemma held_ok_SetNonce: "held_ok ec tt key psc h \<Longrightarrow> held_ok ec tt key (PreSignedCache_SetNonce c n psc) h"
  by (rule held_ok_filtered [of _ _ _ psc]) (auto simp: PreSignedCache_SetNonce_def cached_def intro: exI [of _ "\<lambda>_. True"])

lemma held_ok_prune: "held_ok ec tt key psc h \<Longrightarrow> held_ok ec tt key (pruneExpired now psc) h"
  by (rule held_ok_filtered [of _ _ _ psc])
    (auto simp: pruneExpired_def cached_def split: option.splits intro: exI [of _ "\<lambda>tx. now < pt_ExpiresAt tx"])

lemma held_ok_Mark: "held_ok ec tt key psc h \<Longrightarrow> held_ok ec tt key (MarkNonceUsed c n psc) h"
  by (rule held_ok_filtered [of _ _ _ psc])
    (auto simp: MarkNonceUsed_def cached_def split: option.splits intro: exI [of _ "\<lambda>tx. pt_Nonce tx \<noteq> n"] exI [of _ "\<lambda>_. True"])

lemma held_ok_flags:
  assumes "held_ok ec tt key psc h"
  shows "held_ok ec tt key (psc\<lparr>sc_running := r\<rparr>) h" and "held_ok ec tt key (psc\<lparr>sc_running := r, sc_stopped := s\<rparr>) h"
  by (rule held_ok_filtered [OF assms]; auto simp: cached_def intro: exI [of _ "\<lambda>_. True"])+

lemma held_ok_take:
  assumes "held_ok ec tt key psc h" and "GetPreSignedTx clk c dex dir amount psc = (psc', Inr tx)"
  shows "held_ok ec tt key psc' ((c, pt_Nonce tx) # h)"
proof -
  obtain us vs i where hit: "cached c dex (cache_key dir (findClosestAmount amount (sg_Amounts (sc_config psc)))) psc = us @ tx # vs"
      "psc' = put_cached c dex (cache_key dir (findClosestAmount amount (sg_Amounts (sc_config psc)))) (us @ vs) psc"
    using GetPreSignedTx_hit [OF assms(2) refl] by blast
  have "slots_ok ec tt key psc'"
    by (rule slots_ok_less [of _ _ _ psc]) (use assms(1) hit in \<open>auto simp: held_ok_def\<close>)
  then show ?thesis
    using nonces_ok_take(1) [OF _ hit(1)] assms(1) hit(2) by (simp add: held_ok_def)
qed

lemma room_flags [simp]: "room (psc\<lparr>sc_running := r\<rparr>) n = room psc n" "room (pruneExpired now psc) n = room psc n"
  by (simp_all add: room_def pruneExpired_def)

lemma held_ok_run:
  assumes "cache_run ec tt key new psc h" and "held_ok ec tt key new []"
  shows "held_ok ec tt key psc h"
  using assms
proof (induction rule: cache_run.induct)
  case (start psc h clk)
  then show ?case
    using held_ok_populate [of ec tt key "psc\<lparr>sc_running := True\<rparr>" h clk] held_ok_flags(1) [of ec tt key psc h True]
    by (simp add: PreSignedCache_Start_def)
next
  case (stop psc h psc')
  then show ?case
    by (auto simp: PreSignedCache_Stop_def intro: held_ok_flags(2) split: if_splits)
next
  case (tick psc h now clk)
  then show ?case
    using held_ok_populate [of ec tt key "pruneExpired now psc" h clk] held_ok_prune [of ec tt key psc h now]
    by (simp add: refresh_tick_def) (simp add: pruneExpired_def)
qed (auto intro: held_ok_SetNonce held_ok_Mark held_ok_take dest: GetPreSignedTx_miss)

section \<open>What is taken out\<close>

lemma dec_nat_digits: "c \<in> set (dec_nat n) \<Longrightarrow> of_char c \<in> {48..57 :: nat}"
proof (induction n rule: dec_nat.induct)
  case (1 n)
  then show ?case
    by (subst (asm) (2) dec_nat.simps) (auto split: if_splits)
qed

lemma dec_int_head: "hd (dec_int a) \<noteq> CHR ''<'' \<and> (hd (dec_int a) = CHR ''-'' \<longleftrightarrow> a < 0) \<and> dec_int a \<noteq> []"
proof -
  have range: "of_char (hd (dec_nat n)) \<in> {48..57 :: nat}" for n
    by (rule dec_nat_digits [of _ n]) simp
  have "hd (dec_nat n) \<noteq> CHR ''<''" "hd (dec_nat n) \<noteq> CHR ''-''" for n
    using range [of n] by auto
  then show ?thesis
    by (auto simp: dec_int_def)
qed

lemma dec_int_inject: "dec_int a = dec_int b \<longleftrightarrow> a = b"
proof
  assume eq: "dec_int a = dec_int b"
  then have "a < 0 \<longleftrightarrow> b < 0"
    using dec_int_head [of a] dec_int_head [of b] by simp
  then show "a = b"
    using eq by (auto simp: dec_int_def split: if_splits)
qed simp

lemma cache_key_inject:
  assumes "dir \<in> {''buy'', ''sell''}" and "dir' \<in> {''buy'', ''sell''}" and "cache_key dir a = cache_key dir' (Some b)"
  shows "dir = dir' \<and> a = Some b"
proof -
  have "dec_int x \<noteq> ''<nil>''" for x
    using dec_int_head [of x] by force
  then show ?thesis
    using assms by (auto simp: cache_key_def dec_int_inject split: option.splits) (metis+)
qed

lemma findClosestAmount_fold:
  fixes target :: int
  defines "f \<equiv> \<lambda>amt best. case best of None \<Rightarrow> Some (\<bar>amt - target\<bar>, amt)
    | Some (minDiff, closest) \<Rightarrow> if \<bar>amt - target\<bar> < minDiff then Some (\<bar>amt - target\<bar>, amt) else best"
  assumes "best = None \<or> (\<exists>a. best = Some (\<bar>a - target\<bar>, a))" and "fold f amounts best = Some (m, a)"
  shows "(a \<in> set amounts \<or> best = Some (m, a)) \<and> m = \<bar>a - target\<bar> \<and> (\<forall>b\<in>set amounts. m \<le> \<bar>b - target\<bar>) \<and>
    (\<forall>m' a'. best = Some (m', a') \<longrightarrow> m \<le> m')"
  using assms(2,3)
proof (induction amounts arbitrary: best)
  case (Cons x amounts)
  have f: "f x best = None \<or> (\<exists>a. f x best = Some (\<bar>a - target\<bar>, a))"
    using Cons.prems(1) by (elim disjE exE) (simp_all add: f_def)
  show ?case
    using Cons.IH [OF f] Cons.prems by (auto simp: f_def split: if_splits option.splits)
qed auto

lemma findClosestAmount_Some:
  assumes "findClosestAmount target amounts = Some a"
  shows "a \<in> set amounts \<and> (\<forall>b\<in>set amounts. \<bar>a - target\<bar> \<le> \<bar>b - target\<bar>)"
  using assms findClosestAmount_fold [of None target amounts] by (auto simp: findClosestAmount_def)

text \<open>
  C39: whatever calls the cache has seen, a transaction taken out of it is a signed swap on the asked
  chain, exchange and direction, of the configured amount nearest to the asked one; it has not
  expired, its nonce is not below the current one, and no transaction with that nonce on that chain
  was taken before.
\<close>

theorem presigned_tx_correct:
  assumes "cache_run ec tt key (NewPreSignedCache cr key config) psc h" and "dir \<in> {''buy'', ''sell''}"
    and "GetPreSignedTx clk c dex dir amount psc = (psc', Inr tx)"
  shows "pt_ChainID tx = c \<and> pt_DEX tx = dex \<and> pt_Direction tx = dir \<and> pt_Amount tx \<in> set (sg_Amounts (sc_config psc)) \<and>
    (\<forall>a\<in>set (sg_Amounts (sc_config psc)). \<bar>pt_Amount tx - amount\<bar> \<le> \<bar>a - amount\<bar>) \<and>
    (\<exists>i. clk i < pt_ExpiresAt tx) \<and> sc_currentNonce psc c \<le> pt_Nonce tx \<and> signed_for ec tt key psc tx \<and>
    distinct ((c, pt_Nonce tx) # h)"
proof -
  let ?k = "cache_key dir (findClosestAmount amount (sg_Amounts (sc_config psc)))"
  have "held_ok ec tt key (NewPreSignedCache cr key config) []"
    by (auto simp: held_ok_def slots_ok_def cached_def NewPreSignedCache_def intro: nonces_okI)
  then have held: "held_ok ec tt key psc h"
    using held_ok_run [OF assms(1)] by simp
  obtain us vs i where hit: "cached c dex ?k psc = us @ tx # vs" "sc_currentNonce psc c \<le> pt_Nonce tx" "clk i < pt_ExpiresAt tx"
    using GetPreSignedTx_hit [OF assms(3) refl] by metis
  have "fits_slot ec tt key psc c dex ?k tx"
    using held hit(1) by (auto simp: held_ok_def slots_ok_def)
  then have fits: "pt_ChainID tx = c" "pt_DEX tx = dex" "signed_for ec tt key psc tx" "pt_Direction tx = dir"
      "findClosestAmount amount (sg_Amounts (sc_config psc)) = Some (pt_Amount tx)"
    using cache_key_inject [OF assms(2)] by (auto simp: fits_slot_def)
  moreover have "distinct ((c, pt_Nonce tx) # h)"
    using held nonces_ok_take(2) [OF _ hit(1)] nonces_ok_handed [of psc h] by (simp add: held_ok_def)
  ultimately show ?thesis
    using findClosestAmount_Some [OF fits(5)] hit by blast
qed

text \<open>A small instance: two amounts on one exchange, and a signer that encodes the nonce and the data.\<close>

definition demo_signer :: "(bytes, bytes) tx_types" where
  "demo_signer = \<lparr>SignNewTx = (\<lambda>key c tx. Inr (be_bytes 8 (unat (dt_Nonce tx)) @ dt_Data tx)), MarshalBinary = Inr, tx_Hash = (\<lambda>_. zero32)\<rparr>"

definition demo_presigned :: PreSignedConfig where
  "demo_presigned = \<lparr>sg_CacheDepth = 1, sg_Amounts = [100, 500], sg_TxLifetime = 30, sg_MaxGasPrice = 9, sg_MaxPriorityFee = 1,
     sg_Chains = [1], sg_DEXs = [''uniswap_v2'']\<rparr>"

definition demo_psc :: PreSignedCache where
  "demo_psc = PreSignedCache_Start demo_common demo_signer [] (\<lambda>_ _ _ _ _. 0) (NewPreSignedCache demo_crypto [] (Some demo_presigned))"

lemma demo_psc_run: "cache_run demo_common demo_signer [] (NewPreSignedCache demo_crypto [] (Some demo_presigned)) demo_psc []"
  unfolding demo_psc_def
  by (intro cache_run.start cache_run.new)
    (simp add: room_def NewPreSignedCache_def demo_presigned_def populate_bound_def slot_bound_def)

definition demo_signed_swap :: "string \<Rightarrow> int \<Rightarrow> uint64 \<Rightarrow> PreSignedTx" where
  "demo_signed_swap dir a n = \<lparr>pt_ChainID = 1, pt_DEX = ''uniswap_v2'', pt_Direction = dir, pt_Amount = a, pt_Nonce = n,
     pt_SignedTx = be_bytes 8 (unat n) @ buildV2SwapCalldata 0 a (fst (swap_tokens demo_common 1 dir)) (snd (swap_tokens demo_common 1 dir)) [],
     pt_TxHash = zero32, pt_CreatedAt = 0, pt_ExpiresAt = 30\<rparr>"

lemma demo_signs_swap:
  assumes "sc_config psc = demo_presigned" and "sc_address psc = []"
  shows "preSignTx demo_common demo_signer [] (\<lambda>_. 0) 1 ''uniswap_v2'' dir a psc =
    (psc\<lparr>sc_maxNonce := (sc_maxNonce psc)(1 := sc_maxNonce psc 1 + 1)\<rparr>, Inr (demo_signed_swap dir a (sc_maxNonce psc 1)))"
  using assms
  by (simp add: preSignTx_def Let_def buildSwapCalldata_def RouterAddresses_def ChainIDEthereum_def dex_type_def demo_signer_def unsigned_tx_def
     demo_signed_swap_def swap_tokens_def demo_presigned_def)

lemma demo_ensure:
  assumes "sc_config psc = demo_presigned" and "sc_address psc = []" and "cached 1 ''uniswap_v2'' (cache_key dir (Some a)) psc = []"
  shows "ensureCacheDepth demo_common demo_signer [] (\<lambda>_. 0) 1 ''uniswap_v2'' dir a psc =
    put_cached 1 ''uniswap_v2'' (cache_key dir (Some a)) [demo_signed_swap dir a (sc_maxNonce psc 1)]
      (psc\<lparr>sc_maxNonce := (sc_maxNonce psc)(1 := sc_maxNonce psc 1 + 1)\<rparr>)"
proof -
  have "cached 1 ''uniswap_v2'' (cache_key dir (Some a)) (psc\<lparr>sc_maxNonce := m\<rparr>) = []" for m
    using assms(3) by (simp add: cached_def)
  moreover have "nat (sg_CacheDepth demo_presigned) = Suc 0"
    by (simp add: demo_presigned_def)
  ultimately show ?thesis
    using assms demo_signs_swap [OF assms(1,2), of dir a]
    by (simp add: ensureCacheDepth_def Let_def valid_count_def)
qed

lemma demo_keys:
  "cache_key ''buy'' (Some 100) = ''buy_100''" "cache_key ''buy'' (Some 500) = ''buy_500''"
  "cache_key ''sell'' (Some 100) = ''sell_100''" "cache_key ''sell'' (Some 500) = ''sell_500''"
  by (code_simp; fail)+

lemma cached_flags [simp]:
  "cached c d k (psc\<lparr>sc_maxNonce := m\<rparr>) = cached c d k psc" "cached c d k (psc\<lparr>sc_running := r\<rparr>) = cached c d k psc"
  "cached c d k (NewPreSignedCache cr key config) = []"
  by (simp_all add: cached_def NewPreSignedCache_def)

lemma demo_slot: "cached 1 ''uniswap_v2'' ''sell_500'' demo_psc = [demo_signed_swap ''sell'' 500 3]" "sc_cache demo_psc 1 ''uniswap_v2'' \<noteq> None"
    "sc_config demo_psc = demo_presigned" "sc_currentNonce demo_psc 1 = 0"
proof -
  let ?new = "NewPreSignedCache demo_crypto [] (Some demo_presigned)"
  have new: "sc_config ?new = demo_presigned" "sc_address ?new = []" "sc_maxNonce ?new = (\<lambda>_. 0)" "\<not> sc_running ?new"
    "sc_currentNonce ?new = (\<lambda>_. 0)"
    by (simp_all add: NewPreSignedCache_def)
  have lists: "sg_Amounts demo_presigned = [100, 500]" "sg_Chains demo_presigned = [1]" "sg_DEXs demo_presigned = [''uniswap_v2'']"
    by (simp_all add: demo_presigned_def)
  note unfold = demo_psc_def PreSignedCache_Start_def populateCache_def populate_dex_def new lists demo_ensure demo_keys
  show slot: "cached 1 ''uniswap_v2'' ''sell_500'' demo_psc = [demo_signed_swap ''sell'' 500 3]"
    by (simp add: unfold)
  then show "sc_cache demo_psc 1 ''uniswap_v2'' \<noteq> None"
    by (cases "sc_cache demo_psc 1 ''uniswap_v2''") (simp_all add: cached_def)
  show "sc_config demo_psc = demo_presigned"
    by (simp add: unfold)
  show "sc_currentNonce demo_psc 1 = 0"
    by (simp add: unfold)
qed

lemma demo_take: "GetPreSignedTx (\<lambda>_. 5) 1 ''uniswap_v2'' ''sell'' 450 demo_psc =
   (put_cached 1 ''uniswap_v2'' ''sell_500'' [] demo_psc, Inr (demo_signed_swap ''sell'' 500 3))"
proof -
  have "findClosestAmount 450 (sg_Amounts demo_presigned) = Some 500"
    by (simp add: findClosestAmount_def demo_presigned_def)
  then show ?thesis
    using demo_slot by (simp add: GetPreSignedTx_def Let_def demo_keys demo_signed_swap_def)
qed

theorem presigned_tx_correct_witness:
  "\<exists>psc tx. GetPreSignedTx (\<lambda>_. 5) 1 ''uniswap_v2'' ''sell'' 450 demo_psc = (psc, Inr tx) \<and> pt_Amount tx = 500 \<and>
     \<bar>pt_Amount tx - 450\<bar> \<le> \<bar>100 - 450\<bar> \<and> signed_for demo_common demo_signer [] demo_psc tx"
proof -
  have "\<forall>a\<in>set (sg_Amounts (sc_config demo_psc)). \<bar>pt_Amount (demo_signed_swap ''sell'' 500 3) - 450\<bar> \<le> \<bar>a - 450\<bar>"
    "signed_for demo_common demo_signer [] demo_psc (demo_signed_swap ''sell'' 500 3)"
    using presigned_tx_correct [OF demo_psc_run _ demo_take] by simp_all
  then show ?thesis
    using demo_take by (auto simp: demo_signed_swap_def)
qed

definition demo_addresses :: eth_common where
  "demo_addresses = demo_common\<lparr>HexToAddress := (\<lambda>s. copy_into 20 (drop 2 (bytes_of_string s)))\<rparr>"

lemma demo_addresses_ok: "addresses_ok demo_addresses"
  by (simp add: addresses_ok_def common_ok_def demo_addresses_def demo_common_def)

lemma demo_tokens: "swap_tokens demo_addresses 1 ''buy'' = (HexToAddress demo_addresses ''0xA0b86991c6218b36c1d19D4a2e9Eb0cE3606eB48'',
    HexToAddress demo_addresses ''0xC02aaA39b223FE8D0A0e5C4F27eAD9083C756Cc2'')"
  by (simp add: swap_tokens_def usdc_def weth_def USDCAddresses_def WETHAddresses_def addresses_of_def CommonTokens_def token_entry_def
      ChainIDEthereum_def)

lemma demo_tokens_differ: "fst (swap_tokens demo_addresses 1 ''buy'') \<noteq> snd (swap_tokens demo_addresses 1 ''buy'')"
  unfolding demo_tokens by (simp add: demo_addresses_def bytes_of_string_def copy_into_def)

theorem presigned_swap_detected_witness:
  "\<exists>data router mp' swap. buildSwapCalldata demo_addresses 0 1 ''uniswap_v3_030'' ''buy'' 1000 (demo_psc\<lparr>sc_address := zero_address\<rparr>) = Inr (data, router) \<and>
    ParseTransaction demo_addresses (\<lambda>_ _. None) 5 1 ((demo_swap_tx (exact data))\<lparr>tr_To := Some router\<rparr>) (NewMempoolParser demo_addresses) = Some (mp', Some swap) \<and>
    ps_TokenIn swap \<noteq> ps_TokenOut swap \<and> ps_AmountIn swap = Some 1000"
proof -
  let ?ec = demo_addresses and ?psc = "demo_psc\<lparr>sc_address := zero_address\<rparr>"
  obtain data router where built: "buildSwapCalldata ?ec 0 1 ''uniswap_v3_030'' ''buy'' 1000 ?psc = Inr (data, router)"
    by (simp add: buildSwapCalldata_def RouterAddresses_def ChainIDEthereum_def dex_type_def Let_def)
  have "\<exists>mp' swap. ParseTransaction ?ec (\<lambda>_ _. None) 5 1 ((demo_swap_tx (exact data))\<lparr>tr_To := Some router\<rparr>) (NewMempoolParser ?ec) = Some (mp', Some swap) \<and>
      GetPendingSwap (tr_Hash ((demo_swap_tx (exact data))\<lparr>tr_To := Some router\<rparr>)) mp' = Some swap \<and>
      ps_TokenIn swap = fst (swap_tokens ?ec 1 ''buy'') \<and> ps_TokenOut swap = snd (swap_tokens ?ec 1 ''buy'') \<and>
      ps_AmountIn swap = Some (nat 1000) \<and> ps_AmountOut swap = Some 0 \<and> ps_To swap = router \<and> ps_ChainID swap = 1"
    by (rule presigned_swap_detected [OF demo_addresses_ok _ _ _ _ _ built])
      (simp_all add: zero_address_def deadline_at_def ChainIDOptimism_def demo_swap_tx_def NewMempoolParser_def)
  then show ?thesis
    using built demo_tokens_differ by auto
qed

text \<open>
  Findings on nonces. Failing to build the data of an exchange without a router still consumes a
  nonce; using a nonce makes every lower one unavailable; and a cache that was stopped cannot be
  stopped again after a restart.
\<close>

theorem failed_signing_burns_nonce:
  assumes "dex_type dex = None" and "int (valid_count clk (cached c dex (cache_key dir (Some amount)) psc)) < sg_CacheDepth (sc_config psc)"
  shows "ensureCacheDepth ec tt key clk c dex dir amount psc = psc\<lparr>sc_maxNonce := (sc_maxNonce psc)(c := sc_maxNonce psc c + 1)\<rparr>"
proof -
  obtain n where "nat (sg_CacheDepth (sc_config psc) - int (valid_count clk (cached c dex (cache_key dir (Some amount)) psc))) = Suc n"
    using assms(2) by (metis nat_0_iff not0_implies_Suc diff_le_0_iff_le not_le)
  then show ?thesis
    using assms(1) by (cases "RouterAddresses ec c") (simp_all add: ensureCacheDepth_def Let_def preSignTx_def buildSwapCalldata_def)
qed

theorem used_nonce_strands_lower:
  assumes "sc_currentNonce psc c \<le> n" and "n < n + 1" and "GetPreSignedTx clk c dex dir amount (MarkNonceUsed c n psc) = (psc', Inr tx)"
  shows "n < pt_Nonce tx"
proof -
  have "sc_currentNonce (MarkNonceUsed c n psc) c \<le> pt_Nonce tx"
    using GetPreSignedTx_hit [OF assms(3) refl] by metis
  then show ?thesis
    using assms(1,2) by (simp add: MarkNonceUsed_def)
qed

lemma sign_missing_flags:
  "sc_running (sign_missing ec tt key clk c d dir amount n psc) = sc_running psc \<and>
   sc_stopped (sign_missing ec tt key clk c d dir amount n psc) = sc_stopped psc"
proof (induction n arbitrary: psc clk)
  case (Suc n)
  obtain psc' r where pre: "preSignTx ec tt key clk c d dir amount psc = (psc', r)"
    by fastforce
  then show ?case
    using Suc preSignTx_max [OF pre] by (cases r) (simp_all add: Let_def put_cached_def)
qed simp

lemma fold_keeps: "(\<And>x s. P s \<Longrightarrow> P (f x s)) \<Longrightarrow> P s \<Longrightarrow> P (fold f xs s)"
  by (induction xs arbitrary: s) simp_all

lemma populateCache_flags:
  "sc_running (populateCache ec tt key clk psc) = sc_running psc \<and> sc_stopped (populateCache ec tt key clk psc) = sc_stopped psc"
proof -
  define same where "same q = (sc_running q = sc_running psc \<and> sc_stopped q = sc_stopped psc)" for q :: PreSignedCache
  have "same (ensureCacheDepth ec tt key clk' c d dir amount q)" if "same q" for clk' c d dir amount q
    using that by (simp add: same_def ensureCacheDepth_def Let_def sign_missing_flags)
  then have "same (populate_dex ec tt key clk c d q)" if "same q" for c d q
    unfolding populate_dex_def using that by (intro fold_keeps [of same]) (auto simp: same_def split: prod.splits)
  then have "same (populateCache ec tt key clk psc)"
    unfolding populateCache_def by (intro fold_keeps [of same]) (auto simp: same_def split: prod.splits)
  then show ?thesis
    by (simp add: same_def)
qed

theorem restarted_cache_panics:
  assumes "sc_running psc" and "PreSignedCache_Stop psc = Some psc'"
  shows "PreSignedCache_Stop (PreSignedCache_Start ec tt key clk psc') = None"
proof -
  have "\<not> sc_running psc' \<and> sc_stopped psc'"
    using assms by (auto simp: PreSignedCache_Stop_def split: if_splits)
  then show ?thesis
    by (simp add: PreSignedCache_Start_def PreSignedCache_Stop_def populateCache_flags)
qed
end
