(* ===== verification/Trade_Executor.thy ===== *)
theory Trade_Executor
  imports Position_Manager Presigned_Cache
begin

text \<open>
  The executor of opportunities (\<open>arb/executor.go\<close>), with the marks it sets in the detector
  (\<open>arb/opportunities.go\<close>): it locks the position an opportunity needs, sends the swaps of its path,
  from the cache of signed transactions where that has one, unlocks, and books the profit.

  The network is the parameter \<open>bc\<close>: what it answers to the first and to the second broadcast of a
  step. \<open>None\<close> is a panic. The two steps of a cross-chain trade run in two goroutines; here one runs
  after the other, in the order the argument \<open>sellFirst\<close> gives. The counters, which the workers
  increment without the lock, are incremented as if by one worker at a time. Deferred calls run when
  their function returns.
\<close>

section \<open>Opportunities\<close>

datatype OpportunityStatus = StatusDetected | StatusScored | StatusValidated | StatusQueued | StatusExecuting | StatusCompleted
  | StatusFailed | StatusExpired

record PathStep =
  st_ChainID :: uint64
  st_DEX :: string
  st_Pool :: address
  st_TokenIn :: address
  st_TokenOut :: address

record ArbitrageOpportunity =
  ao_ID :: hash32
  ao_Type :: "8 word"
  ao_Path :: "PathStep list"
  ao_BuyChain :: uint64
  ao_SellChain :: uint64
  ao_IsCrossChain :: bool
  ao_InputAmount :: "int option"
  ao_ExpectedProfit :: "int option"
  ao_DetectedAt :: int

definition ComputeID :: "('sk, 'pk) crypto \<Rightarrow> ArbitrageOpportunity \<Rightarrow> ArbitrageOpportunity" where
  "ComputeID cr ao = ao\<lparr>ao_ID := Keccak256 cr (
     [ao_Type ao, ucast (ao_BuyChain ao), ucast (ao_SellChain ao)] @
     (if ao_Path ao \<noteq> [] then st_TokenIn (hd (ao_Path ao)) @ st_TokenOut (last (ao_Path ao)) else []) @
     (case ao_InputAmount ao of None \<Rightarrow> [] | Some a \<Rightarrow> big_bytes (nat \<bar>a\<bar>)) @
     [word_of_int (ao_DetectedAt ao div 2 ^ 32)])\<rparr>"

type_synonym detector = "hash32 \<Rightarrow> OpportunityStatus option"

definition MarkExecuting :: "hash32 \<Rightarrow> detector \<Rightarrow> detector \<times> bool" where
  "MarkExecuting oid od = (if od oid = None then (od, False) else (od(oid \<mapsto> StatusExecuting), True))"

definition MarkCompleted :: "hash32 \<Rightarrow> bool \<Rightarrow> detector \<Rightarrow> detector" where
  "MarkCompleted oid success od = od(oid := None)"

section \<open>The executor\<close>

record ExecutionResult =
  er_Opportunity :: ArbitrageOpportunity
  er_Success :: bool
  er_TxHashes :: "uint64 \<Rightarrow> hash32 option"
  er_ActualProfit :: "int option"
  er_Error :: "go_error option"
  er_ExecutedAt :: int
  er_Latency :: int64

record ExecutorConfig =
  xc_MaxGasPrice :: int
  xc_SlippageBPS :: int64
  xc_ExecutionTimeout :: int64
  xc_MaxConcurrent :: int64
  xc_UseFlashLoans :: bool
  xc_MinProfitAfterGas :: int

definition DefaultExecutorConfig :: ExecutorConfig where
  "DefaultExecutorConfig = \<lparr>xc_MaxGasPrice = 50 * 10 ^ 9, xc_SlippageBPS = 50, xc_ExecutionTimeout = 30 * 1000000000,
     xc_MaxConcurrent = 3, xc_UseFlashLoans = True, xc_MinProfitAfterGas = 10 ^ 16\<rparr>"

record 'f Executor =
  ex_positions :: "'f PositionManager option"
  ex_detector :: "detector option"
  ex_preSignedCache :: "PreSignedCache option"
  ex_nonces :: "uint64 \<Rightarrow> uint64"
  ex_config :: ExecutorConfig
  ex_results :: "ExecutionResult list"
  ex_queue :: "ArbitrageOpportunity list"
  ex_totalExecuted :: uint64
  ex_totalSuccess :: uint64
  ex_totalFailed :: uint64
  ex_preSignedUsed :: uint64
  ex_preSignedMissed :: uint64
  ex_running :: bool
  ex_stopped :: bool \<comment> \<open>\<open>stopCh\<close> is closed\<close>

definition NewExecutor :: "('sk, 'pk) crypto \<Rightarrow> 'f PositionManager option \<Rightarrow> detector option \<Rightarrow> 'sk \<Rightarrow> ExecutorConfig option \<Rightarrow> 'f Executor" where
  "NewExecutor cr positions od key config =
     \<lparr>ex_positions = positions, ex_detector = od, ex_preSignedCache = Some (NewPreSignedCache cr key (Some DefaultPreSignedConfig)),
      ex_nonces = (\<lambda>_. 0), ex_config = (case config of None \<Rightarrow> DefaultExecutorConfig | Some cfg \<Rightarrow> cfg), ex_results = [], ex_queue = [],
      ex_totalExecuted = 0, ex_totalSuccess = 0, ex_totalFailed = 0, ex_preSignedUsed = 0, ex_preSignedMissed = 0,
      ex_running = False, ex_stopped = False\<rparr>"

definition Executor_Start :: "eth_common \<Rightarrow> ('sk, 'tx) tx_types \<Rightarrow> 'sk \<Rightarrow> cache_clock \<Rightarrow> 'f Executor \<Rightarrow> 'f Executor" where
  "Executor_Start ec tt key clk e =
     (if ex_running e then e
      else e\<lparr>ex_running := True, ex_preSignedCache := map_option (PreSignedCache_Start ec tt key clk) (ex_preSignedCache e)\<rparr>)"

definition Executor_Stop :: "'f Executor \<Rightarrow> 'f Executor option" where
  "Executor_Stop e =
     (if \<not> ex_running e then Some e
      else if ex_stopped e then None
      else case ex_preSignedCache e of
        None \<Rightarrow> Some (e\<lparr>ex_running := False, ex_stopped := True\<rparr>)
      | Some psc \<Rightarrow> map_option (\<lambda>psc'. e\<lparr>ex_running := False, ex_stopped := True, ex_preSignedCache := Some psc'\<rparr>) (PreSignedCache_Stop psc))"

definition queue_capacity :: nat where
  "queue_capacity = 100"

definition Submit :: "ArbitrageOpportunity \<Rightarrow> 'f Executor \<Rightarrow> 'f Executor outcome" where
  "Submit opp e =
     (if \<not> ex_running e then (e, Some (Errorf ''executor not running''))
      else if length (ex_queue e) < queue_capacity then
        (e\<lparr>ex_queue := ex_queue e @ [opp], ex_detector := map_option (\<lambda>od. fst (MarkExecuting (ao_ID opp) od)) (ex_detector e)\<rparr>, None)
      else (e, Some (Errorf ''execution queue full'')))"

definition nextNonce :: "uint64 \<Rightarrow> 'f Executor \<Rightarrow> 'f Executor \<times> uint64" where
  "nextNonce chainID e = (e\<lparr>ex_nonces := (ex_nonces e)(chainID := ex_nonces e chainID + 1)\<rparr>, ex_nonces e chainID)"

definition Executor_SetNonce :: "uint64 \<Rightarrow> uint64 \<Rightarrow> 'f Executor \<Rightarrow> 'f Executor" where
  "Executor_SetNonce chainID nonce e =
     e\<lparr>ex_nonces := (ex_nonces e)(chainID := nonce),
       ex_preSignedCache := map_option (PreSignedCache_SetNonce chainID nonce) (ex_preSignedCache e)\<rparr>"

section \<open>Sending a swap\<close>

definition executor_dex_type :: "string \<Rightarrow> string" where
  "executor_dex_type dex =
     (if dex = ''uniswap_v3'' then ''uniswap_v3'' else if dex = ''aerodrome'' then ''aerodrome''
      else if dex = ''velodrome'' then ''velodrome'' else ''uniswap_v2'')"

text \<open>\<open>copy(calldata[4+32-len(b):4+32], b)\<close>: the slice panics when \<open>b\<close> is longer than 36 bytes.\<close>

definition swap_data :: "int \<Rightarrow> bytes option" where
  "swap_data amount =
     (let b = big_bytes (nat \<bar>amount\<bar>); data = [0x38, 0xed, 0x17, 0x39] @ replicate (32 * 5) 0
      in if 36 < length b then None else Some (take (36 - length b) data @ b @ drop 36 data))"

definition buildSwapTx :: "eth_common \<Rightarrow> PathStep \<Rightarrow> int \<Rightarrow> 'f Executor \<Rightarrow> ('f Executor \<times> (go_error + DynamicFeeTx)) option" where
  "buildSwapTx ec step amount e =
     (case RouterAddresses ec (st_ChainID step) of
        None \<Rightarrow> Some (e, Inl (Errorf ''no routers for chain''))
      | Some chainRouters \<Rightarrow>
      (case chainRouters (executor_dex_type (st_DEX step)) of
        None \<Rightarrow> Some (e, Inl (Errorf ''no router for DEX on chain''))
      | Some routerAddr \<Rightarrow>
          map_option (\<lambda>data. let (e', nonce) = nextNonce (st_ChainID step) e
            in (e', Inr \<lparr>dt_ChainID = sint (st_ChainID step), dt_Nonce = nonce, dt_GasTipCap = 10 ^ 9,
                  dt_GasFeeCap = xc_MaxGasPrice (ex_config e), dt_Gas = 300000, dt_To = routerAddr, dt_Value = 0, dt_Data = data\<rparr>))
            (swap_data amount)))"

definition signTx :: "('sk, 'tx) tx_types \<Rightarrow> 'sk \<Rightarrow> uint64 \<Rightarrow> DynamicFeeTx \<Rightarrow> go_error + bytes" where
  "signTx tt key chainID tx = (case SignNewTx tt key (sint chainID) tx of Inl e \<Rightarrow> Inl e | Inr signedTx \<Rightarrow> MarshalBinary tt signedTx)"

type_synonym broadcast = "bool \<Rightarrow> uint64 \<Rightarrow> bytes \<Rightarrow> go_error + hash32"

text \<open>The first half of \<open>executeStep\<close>: a transaction of the cache, if it has one that can be sent.\<close>

definition send_presigned :: "eth_common \<Rightarrow> (nat \<Rightarrow> int) \<Rightarrow> broadcast \<Rightarrow> PathStep \<Rightarrow> int \<Rightarrow> 'f Executor \<Rightarrow> 'f Executor \<times> hash32 option" where
  "send_presigned ec clk bc step amount e =
     (case ex_preSignedCache e of
        None \<Rightarrow> (e, None)
      | Some psc \<Rightarrow>
          let direction = (if st_TokenIn step = weth ec (st_ChainID step) then ''sell'' else ''buy'')
          in case GetPreSignedTx clk (st_ChainID step) (st_DEX step) direction amount psc of
               (psc', Inr preSigned) \<Rightarrow>
                 (case bc True (st_ChainID step) (pt_SignedTx preSigned) of
                    Inr hash \<Rightarrow> (e\<lparr>ex_preSignedUsed := ex_preSignedUsed e + 1,
                        ex_preSignedCache := Some (MarkNonceUsed (st_ChainID step) (pt_Nonce preSigned) psc')\<rparr>, Some hash)
                  | Inl err \<Rightarrow> (e\<lparr>ex_preSignedMissed := ex_preSignedMissed e + 1, ex_preSignedCache := Some psc'\<rparr>, None))
             | (psc', Inl err) \<Rightarrow> (e\<lparr>ex_preSignedMissed := ex_preSignedMissed e + 1, ex_preSignedCache := Some psc'\<rparr>, None))"

definition executeStep :: "eth_common \<Rightarrow> ('sk, 'tx) tx_types \<Rightarrow> 'sk \<Rightarrow> (nat \<Rightarrow> int) \<Rightarrow> broadcast \<Rightarrow> PathStep \<Rightarrow> int \<Rightarrow> 'f Executor \<Rightarrow>
    ('f Executor \<times> (go_error + hash32)) option" where
  "executeStep ec tt key clk bc step amount e =
     (case send_presigned ec clk bc step amount e of
        (e1, Some hash) \<Rightarrow> Some (e1, Inr hash)
      | (e1, None) \<Rightarrow>
      (case buildSwapTx ec step amount e1 of
        None \<Rightarrow> None
      | Some (e2, Inl err) \<Rightarrow> Some (e2, Inl (Wrapped ''failed to build tx'' err))
      | Some (e2, Inr tx) \<Rightarrow>
      (case signTx tt key (st_ChainID step) tx of
        Inl err \<Rightarrow> Some (e2, Inl (Wrapped ''failed to sign tx'' err))
      | Inr raw \<Rightarrow>
      (case bc False (st_ChainID step) raw of
        Inl err \<Rightarrow> Some (e2, Inl (Wrapped ''failed to broadcast'' err))
      | Inr hash \<Rightarrow> Some (e2, Inr hash)))))"

section \<open>Executing an opportunity\<close>

text \<open>The float parameters: the arithmetic, the product of an integer and a float, and the readings of the clock.\<close>

record ('f, 'sk, 'tx) trading =
  td_fl :: "'f float64"
  td_big_scale :: "int \<Rightarrow> 'f \<Rightarrow> int option"
  td_ec :: eth_common
  td_tt :: "('sk, 'tx) tx_types"
  td_key :: 'sk

definition on_positions :: "('f PositionManager \<Rightarrow> 'f PositionManager) \<Rightarrow> 'f Executor \<Rightarrow> 'f Executor" where
  "on_positions f e = e\<lparr>ex_positions := map_option f (ex_positions e)\<rparr>"

text \<open>The amount to trade: \<open>Some None\<close> where the code returns an error.\<close>

definition input_amount :: "('f, 'sk, 'tx) trading \<Rightarrow> uint64 \<Rightarrow> address \<Rightarrow> ArbitrageOpportunity \<Rightarrow> 'f Executor \<Rightarrow> int option option" where
  "input_amount td chainID token opp e =
     (let positive = (\<lambda>a. case a of Some x \<Rightarrow> 0 < x | None \<Rightarrow> False)
      in if positive (ao_InputAmount opp) then Some (ao_InputAmount opp)
         else case ex_positions e of
           None \<Rightarrow> Some None
         | Some pm \<Rightarrow> map_option (\<lambda>x. if 0 < x then Some x else None)
             (GetMaxTradeSize (td_big_scale td) chainID token (f_div (td_fl td) (f_of_int (td_fl td) 1) (f_of_int (td_fl td) 10)) pm))"

definition lock_position :: "uint64 \<Rightarrow> address \<Rightarrow> int \<Rightarrow> 'f Executor \<Rightarrow> 'f Executor outcome" where
  "lock_position chainID token amount e =
     (case ex_positions e of
        None \<Rightarrow> (e, None)
      | Some pm \<Rightarrow> (case PositionManager_Lock chainID token amount pm of (pm', err) \<Rightarrow> (e\<lparr>ex_positions := Some pm'\<rparr>, err)))"

text \<open>The loop over the path: the steps are numbered for the clock and the network.\<close>

fun run_path :: "('f, 'sk, 'tx) trading \<Rightarrow> (nat \<Rightarrow> nat \<Rightarrow> int) \<Rightarrow> (nat \<Rightarrow> broadcast) \<Rightarrow> uint64 \<Rightarrow> int \<Rightarrow> nat \<Rightarrow> PathStep list \<Rightarrow>
    'f Executor \<Rightarrow> ExecutionResult \<Rightarrow> ('f Executor \<times> ExecutionResult \<times> go_error option) option" where
  "run_path td clk bc chainID amount i [] e result = Some (e, result, None)"
| "run_path td clk bc chainID amount i (step # steps) e result =
     (case executeStep (td_ec td) (td_tt td) (td_key td) (clk i) (bc i) step amount e of
        None \<Rightarrow> None
      | Some (e', Inl err) \<Rightarrow> Some (e', result, Some (Wrapped ''step failed'' err))
      | Some (e', Inr hash) \<Rightarrow> run_path td clk bc chainID amount (Suc i) steps e'
          (result\<lparr>er_TxHashes := (er_TxHashes result)(chainID \<mapsto> hash)\<rparr>))"

definition executeSameChain :: "('f, 'sk, 'tx) trading \<Rightarrow> (nat \<Rightarrow> nat \<Rightarrow> int) \<Rightarrow> (nat \<Rightarrow> broadcast) \<Rightarrow> ArbitrageOpportunity \<Rightarrow>
    ExecutionResult \<Rightarrow> 'f Executor \<Rightarrow> ('f Executor \<times> ExecutionResult \<times> go_error option) option" where
  "executeSameChain td clk bc opp result e =
     (if length (ao_Path opp) < 2 then Some (e, result, Some (Errorf ''invalid path: need at least 2 steps''))
      else
        let chainID = st_ChainID (hd (ao_Path opp)); token = st_TokenIn (hd (ao_Path opp))
        in case input_amount td chainID token opp e of
             None \<Rightarrow> None
           | Some None \<Rightarrow> Some (e, result, Some (Errorf ''no input amount available''))
           | Some (Some amount) \<Rightarrow>
           (case lock_position chainID token amount e of
              (e1, Some err) \<Rightarrow> Some (e1, result, Some (Wrapped ''failed to lock position'' err))
            | (e1, None) \<Rightarrow>
            (case run_path td clk bc chainID amount 0 (ao_Path opp) e1 result of
               None \<Rightarrow> None
             | Some (e2, result', err) \<Rightarrow>
                 Some (on_positions (PositionManager_Unlock chainID token amount) e2,
                   (if err = None then result'\<lparr>er_ActualProfit := ao_ExpectedProfit opp\<rparr> else result'), err))))"

text \<open>The two goroutines of a cross-chain trade, one after the other.\<close>

definition both_steps :: "('f, 'sk, 'tx) trading \<Rightarrow> (nat \<Rightarrow> nat \<Rightarrow> int) \<Rightarrow> (nat \<Rightarrow> broadcast) \<Rightarrow> bool \<Rightarrow> PathStep \<Rightarrow> PathStep \<Rightarrow> int \<Rightarrow> 'f Executor \<Rightarrow>
    ('f Executor \<times> (go_error + hash32) \<times> (go_error + hash32)) option" where
  "both_steps td clk bc sellFirst buy sell amount e =
     (let (first, second, i, j) = (if sellFirst then (sell, buy, 1, 0) else (buy, sell, 0, 1))
      in case executeStep (td_ec td) (td_tt td) (td_key td) (clk i) (bc i) first amount e of
           None \<Rightarrow> None
         | Some (e1, r1) \<Rightarrow>
         (case executeStep (td_ec td) (td_tt td) (td_key td) (clk j) (bc j) second amount e1 of
            None \<Rightarrow> None
          | Some (e2, r2) \<Rightarrow> Some (e2, (if sellFirst then (r2, r1) else (r1, r2)))))"

definition hash_or_zero :: "go_error + hash32 \<Rightarrow> hash32" where
  "hash_or_zero r = (case r of Inl _ \<Rightarrow> zero32 | Inr h \<Rightarrow> h)"

definition executeCrossChain :: "('f, 'sk, 'tx) trading \<Rightarrow> (nat \<Rightarrow> nat \<Rightarrow> int) \<Rightarrow> (nat \<Rightarrow> broadcast) \<Rightarrow> bool \<Rightarrow> ArbitrageOpportunity \<Rightarrow>
    ExecutionResult \<Rightarrow> 'f Executor \<Rightarrow> ('f Executor \<times> ExecutionResult \<times> go_error option) option" where
  "executeCrossChain td clk bc sellFirst opp result e =
     (if length (ao_Path opp) < 2 then Some (e, result, Some (Errorf ''invalid path: need at least 2 steps''))
      else
        let buy = hd (ao_Path opp); sell = ao_Path opp ! 1
        in case input_amount td (ao_BuyChain opp) (st_TokenIn buy) opp e of
             None \<Rightarrow> None
           | Some None \<Rightarrow> Some (e, result, Some (Errorf ''no input amount available''))
           | Some (Some amount) \<Rightarrow>
           (case lock_position (ao_BuyChain opp) (st_TokenIn buy) amount e of
              (e1, Some err) \<Rightarrow> Some (e1, result, Some (Wrapped ''failed to lock buy position'' err))
            | (e1, None) \<Rightarrow>
                let unlock_buy = on_positions (PositionManager_Unlock (ao_BuyChain opp) (st_TokenIn buy) amount)
                in case lock_position (ao_SellChain opp) (st_TokenIn sell) amount e1 of
                     (e2, Some err) \<Rightarrow> Some (unlock_buy e2, result, Some (Wrapped ''failed to lock sell position'' err))
                   | (e2, None) \<Rightarrow>
                   (case both_steps td clk bc sellFirst buy sell amount e2 of
                      None \<Rightarrow> None
                    | Some (e3, buyResult, sellResult) \<Rightarrow>
                        let unlocked = unlock_buy (on_positions (PositionManager_Unlock (ao_SellChain opp) (st_TokenIn sell) amount) e3);
                            hashes = (er_TxHashes result)(ao_BuyChain opp \<mapsto> hash_or_zero buyResult);
                            result' = result\<lparr>er_TxHashes := (if ao_SellChain opp \<noteq> ao_BuyChain opp
                              then hashes(ao_SellChain opp \<mapsto> hash_or_zero sellResult) else hashes)\<rparr>
                        in if isl buyResult \<or> isl sellResult then Some (unlocked, result', Some (Errorf ''execution failed''))
                           else Some (unlocked, result'\<lparr>er_ActualProfit := ao_ExpectedProfit opp\<rparr>, None))))"

text \<open>The end of \<open>execute\<close>: counters, the result, the detector and the profit.\<close>

fun finish_execution :: "int \<Rightarrow> int \<Rightarrow> ArbitrageOpportunity \<Rightarrow> 'f Executor \<times> ExecutionResult \<times> go_error option \<Rightarrow> 'f Executor \<times> ExecutionResult" where
  "finish_execution now now' opp (e, r, err) =
     (let e' = e\<lparr>ex_totalSuccess := ex_totalSuccess e + (if err = None then 1 else 0), ex_totalFailed := ex_totalFailed e + (if err = None then 0 else 1),
            ex_detector := map_option (MarkCompleted (ao_ID opp) (err = None)) (ex_detector e)\<rparr>
      in ((case er_ActualProfit r of
             Some profit \<Rightarrow> if err = None then on_positions (RecordProfit profit) e' else e'
           | None \<Rightarrow> e'),
          r\<lparr>er_Success := (err = None), er_Error := err, er_Latency := time_sub now' now\<rparr>))"

definition Executor_execute :: "('f, 'sk, 'tx) trading \<Rightarrow> int \<Rightarrow> int \<Rightarrow> (nat \<Rightarrow> nat \<Rightarrow> int) \<Rightarrow> (nat \<Rightarrow> broadcast) \<Rightarrow> bool \<Rightarrow>
    ArbitrageOpportunity \<Rightarrow> 'f Executor \<Rightarrow> ('f Executor \<times> ExecutionResult) option" where
  "Executor_execute td now now' clk bc sellFirst opp e =
     (let result = \<lparr>er_Opportunity = opp, er_Success = False, er_TxHashes = Map.empty, er_ActualProfit = None, er_Error = None,
            er_ExecutedAt = now, er_Latency = 0\<rparr>;
          e0 = e\<lparr>ex_totalExecuted := ex_totalExecuted e + 1\<rparr>
      in map_option (finish_execution now now' opp)
           (if ao_IsCrossChain opp then executeCrossChain td clk bc sellFirst opp result e0 else executeSameChain td clk bc opp result e0))"

text \<open>One turn of a worker: the oldest queued opportunity; a result that finds no room is dropped.\<close>

definition worker_turn :: "('f, 'sk, 'tx) trading \<Rightarrow> int \<Rightarrow> int \<Rightarrow> (nat \<Rightarrow> nat \<Rightarrow> int) \<Rightarrow> (nat \<Rightarrow> broadcast) \<Rightarrow> bool \<Rightarrow> 'f Executor \<Rightarrow> 'f Executor option" where
  "worker_turn td now now' clk bc sellFirst e =
     (case ex_queue e of
        [] \<Rightarrow> Some e
      | opp # rest \<Rightarrow> map_option (\<lambda>(e', result). if length (ex_results e') < queue_capacity then e'\<lparr>ex_results := ex_results e' @ [result]\<rparr> else e')
          (Executor_execute td now now' clk bc sellFirst opp (e\<lparr>ex_queue := rest\<rparr>)))"

record 'f ExecutorStats =
  xs_TotalExecuted :: uint64
  xs_TotalSuccess :: uint64
  xs_TotalFailed :: uint64
  xs_SuccessRate :: 'f
  xs_QueueSize :: int
  xs_Running :: bool

definition Executor_GetStats :: "'f float64 \<Rightarrow> 'f Executor \<Rightarrow> 'f ExecutorStats" where
  "Executor_GetStats fl e =
     \<lparr>xs_TotalExecuted = ex_totalExecuted e, xs_TotalSuccess = ex_totalSuccess e, xs_TotalFailed = ex_totalFailed e,
      xs_SuccessRate = (if ex_totalExecuted e > 0 then f_div fl (f_of_int fl (uint (ex_totalSuccess e))) (f_of_int fl (uint (ex_totalExecuted e)))
        else f_of_int fl 0),
      xs_QueueSize = int (length (ex_queue e)), xs_Running = ex_running e\<rparr>"

section \<open>Locks\<close>

lemma put_entry_same: "entry c t m = Some v \<Longrightarrow> put_entry c t v m = m"
  by (cases "m c") (auto simp: entry_def put_entry_def fun_eq_iff)

lemma put_entry_twice [simp]: "put_entry c t v (put_entry c t w m) = put_entry c t v m"
  by (cases "m c") (auto simp: put_entry_def fun_eq_iff)

lemma unlock_after_lock:
  assumes "PositionManager_Lock c t a pm = (pm', None)"
  shows "PositionManager_Unlock c t a pm' = pm"
proof -
  obtain p where p: "entry c t (pm_positions pm) = Some p"
      "pm' = store_position c t (p\<lparr>po_Available := po_Available p - a, po_Locked := po_Locked p + a\<rparr>) pm"
    using assms by (auto simp: PositionManager_Lock_def getPositionUnsafe_def split: option.splits if_splits)
  then show ?thesis
    by (simp add: PositionManager_Unlock_def getPositionUnsafe_def store_position_def put_entry_same)
qed

lemma failed_lock: "PositionManager_Lock c t a pm = (pm', Some err) \<Longrightarrow> pm' = pm"
  by (auto simp: PositionManager_Lock_def split: option.splits if_splits)

lemma lock_position_failed: "lock_position c t a e = (e', Some err) \<Longrightarrow> e' = e"
  by (auto simp: lock_position_def split: option.splits prod.splits dest: failed_lock)

lemma lock_position_ok:
  assumes "lock_position c t a e = (e', None)"
  obtains ps where "e' = e\<lparr>ex_positions := ps\<rparr>" and "map_option (PositionManager_Unlock c t a) ps = ex_positions e"
proof (cases "ex_positions e")
  case None
  then show ?thesis
    using assms that [of None] by (simp add: lock_position_def)
next
  case (Some pm)
  then show ?thesis
    using assms that [of "Some (fst (PositionManager_Lock c t a pm))"] unlock_after_lock [of c t a pm]
    by (auto simp: lock_position_def split: prod.splits)
qed

text \<open>Sending changes the cache, the nonces and two counters, and nothing else.\<close>

definition ledger where
  "ledger e = (ex_positions e, ex_detector e, ex_config e, ex_results e, ex_queue e,
     (ex_totalExecuted e, ex_totalSuccess e, ex_totalFailed e), ex_running e, ex_stopped e)"

lemma ledger_eq:
  "ledger e' = ledger e \<longleftrightarrow> ex_positions e' = ex_positions e \<and> ex_detector e' = ex_detector e \<and> ex_config e' = ex_config e \<and>
     ex_results e' = ex_results e \<and> ex_queue e' = ex_queue e \<and> ex_totalExecuted e' = ex_totalExecuted e \<and>
     ex_totalSuccess e' = ex_totalSuccess e \<and> ex_totalFailed e' = ex_totalFailed e \<and> ex_running e' = ex_running e \<and> ex_stopped e' = ex_stopped e"
  by (auto simp: ledger_def)

lemma send_presigned_ledger: "send_presigned ec clk bc step amount e = (e', h) \<Longrightarrow> ledger e' = ledger e"
  by (auto simp: send_presigned_def Let_def ledger_def split: option.splits prod.splits sum.splits)

lemma buildSwapTx_ledger: "buildSwapTx ec step amount e = Some (e', r) \<Longrightarrow> ledger e' = ledger e"
  by (auto simp: buildSwapTx_def Let_def nextNonce_def ledger_def split: option.splits prod.splits)

lemma executeStep_ledger:
  assumes "executeStep ec tt key clk bc step amount e = Some (e', r)"
  shows "ledger e' = ledger e"
proof -
  obtain e1 h where send: "send_presigned ec clk bc step amount e = (e1, h)"
    by fastforce
  have e1: "ledger e1 = ledger e"
    by (rule send_presigned_ledger [OF send])
  show ?thesis
  proof (cases h)
    case None
    then obtain e2 r2 where build: "buildSwapTx ec step amount e1 = Some (e2, r2)"
      using assms send by (auto simp: executeStep_def split: option.splits)
    have "e' = e2"
      using assms send None build by (auto simp: executeStep_def split: sum.splits)
    then show ?thesis
      using buildSwapTx_ledger [OF build] e1 by simp
  next
    case (Some x)
    then show ?thesis
      using assms send e1 by (simp add: executeStep_def)
  qed
qed

lemma run_path_ledger:
  "run_path td clk bc chainID amount i steps e result = Some (e', result', err) \<Longrightarrow> ledger e' = ledger e \<and> er_Opportunity result' = er_Opportunity result \<and> er_ActualProfit result' = er_ActualProfit result"
proof (induction steps arbitrary: i e result)
  case (Cons step steps)
  obtain e1 r where step: "executeStep (td_ec td) (td_tt td) (td_key td) (clk i) (bc i) step amount e = Some (e1, r)"
    using Cons.prems by (auto split: option.splits)
  show ?case
    using Cons.prems step executeStep_ledger [OF step] by (cases r) (auto dest!: Cons.IH)
qed simp

lemma both_steps_ledger:
  assumes "both_steps td clk bc sellFirst buy sell amount e = Some (e', rb, rs)"
  shows "ledger e' = ledger e"
proof (cases sellFirst)
  case True
  then show ?thesis
    using assms by (auto simp: both_steps_def split: option.splits dest!: executeStep_ledger)
next
  case False
  then show ?thesis
    using assms by (auto simp: both_steps_def split: option.splits dest!: executeStep_ledger)
qed

lemma unlock_ledger:
  assumes "ledger e2 = ledger (e\<lparr>ex_positions := ps\<rparr>)" and "map_option (PositionManager_Unlock c t a) ps = ex_positions e"
  shows "ledger (on_positions (PositionManager_Unlock c t a) e2) = ledger e"
  using assms by (simp add: ledger_eq on_positions_def)

lemma executeSameChain_ledger:
  assumes "executeSameChain td clk bc opp result e = Some (e', r, err)"
  shows "ledger e' = ledger e \<and> er_ActualProfit r = (if err = None then ao_ExpectedProfit opp else er_ActualProfit result)"
proof -
  let ?c = "st_ChainID (hd (ao_Path opp))" and ?t = "st_TokenIn (hd (ao_Path opp))"
  consider "e' = e" "r = result" "err \<noteq> None"
    | amount where "2 \<le> length (ao_Path opp)" "input_amount td ?c ?t opp e = Some (Some amount)"
    using assms by (fastforce simp: executeSameChain_def Let_def split: if_splits option.splits)
  then show ?thesis
  proof cases
    case (2 amount)
    obtain e1 lerr where lock: "lock_position ?c ?t amount e = (e1, lerr)"
      by fastforce
    show ?thesis
    proof (cases lerr)
      case (Some x)
      then show ?thesis
        using assms 2 lock lock_position_failed [of ?c ?t amount e e1 x] by (auto simp: executeSameChain_def Let_def)
    next
      case None
      obtain ps where ps: "e1 = e\<lparr>ex_positions := ps\<rparr>" "map_option (PositionManager_Unlock ?c ?t amount) ps = ex_positions e"
        using lock_position_ok [of ?c ?t amount e e1] lock None by blast
      obtain e2 r2 where run: "run_path td clk bc ?c amount 0 (ao_Path opp) e1 result = Some (e2, r2, err)"
        and e': "e' = on_positions (PositionManager_Unlock ?c ?t amount) e2"
        and r: "r = (if err = None then r2\<lparr>er_ActualProfit := ao_ExpectedProfit opp\<rparr> else r2)"
        using assms 2 lock None by (auto simp: executeSameChain_def Let_def split: option.splits)
      show ?thesis
        using run_path_ledger [OF run] ps e' r unlock_ledger [OF _ ps(2), of e2] by simp
    qed
  qed auto
qed

lemma executeCrossChain_ledger:
  assumes "executeCrossChain td clk bc sellFirst opp result e = Some (e', r, err)"
  shows "ledger e' = ledger e \<and> er_ActualProfit r = (if err = None then ao_ExpectedProfit opp else er_ActualProfit result)"
proof -
  let ?c = "ao_BuyChain opp" and ?t = "st_TokenIn (hd (ao_Path opp))" and ?d = "ao_SellChain opp" and ?u = "st_TokenIn (ao_Path opp ! 1)"
  consider "e' = e" "r = result" "err \<noteq> None"
    | amount where "2 \<le> length (ao_Path opp)" "input_amount td ?c ?t opp e = Some (Some amount)"
    using assms by (fastforce simp: executeCrossChain_def Let_def split: if_splits option.splits)
  then show ?thesis
  proof cases
    case (2 amount)
    obtain e1 lerr where lock: "lock_position ?c ?t amount e = (e1, lerr)"
      by fastforce
    show ?thesis
    proof (cases lerr)
      case (Some x)
      then show ?thesis
        using assms 2 lock lock_position_failed [of ?c ?t amount e e1 x] by (auto simp: executeCrossChain_def Let_def)
    next
      case None
      obtain ps where ps: "e1 = e\<lparr>ex_positions := ps\<rparr>" "map_option (PositionManager_Unlock ?c ?t amount) ps = ex_positions e"
        using lock_position_ok [of ?c ?t amount e e1] lock None by blast
      obtain e2 serr where lock2: "lock_position ?d ?u amount e1 = (e2, serr)"
        by fastforce
      show ?thesis
      proof (cases serr)
        case (Some x)
        then show ?thesis
          using assms 2 lock lock2 None lock_position_failed [of ?d ?u amount e1 e2 x] ps unlock_ledger [OF _ ps(2), of e1]
          by (auto simp: executeCrossChain_def Let_def)
      next
        case serr: None
        obtain qs where qs: "e2 = e1\<lparr>ex_positions := qs\<rparr>" "map_option (PositionManager_Unlock ?d ?u amount) qs = ex_positions e1"
          using lock_position_ok [of ?d ?u amount e1 e2] lock2 serr by blast
        obtain e3 rb rs where both: "both_steps td clk bc sellFirst (hd (ao_Path opp)) (ao_Path opp ! 1) amount e2 = Some (e3, rb, rs)"
          using assms 2 lock lock2 None serr by (auto simp: executeCrossChain_def Let_def split: option.splits)
        have "e' = on_positions (PositionManager_Unlock ?c ?t amount) (on_positions (PositionManager_Unlock ?d ?u amount) e3)"
          "er_ActualProfit r = (if err = None then ao_ExpectedProfit opp else er_ActualProfit result)"
          using assms 2 lock lock2 None serr both by (auto simp: executeCrossChain_def Let_def split: if_splits)
        then show ?thesis
          using both_steps_ledger [OF both] ps qs unlock_ledger [OF _ qs(2), of e3] unlock_ledger [OF _ ps(2)] by simp
      qed
    qed
  qed auto
qed

text \<open>
  C38: executing an opportunity leaves no lock behind, whatever the network answers: every position is
  as it was before, only the expected profit of a successful execution is booked, and the counters
  and the detector account for the opportunity exactly once.
\<close>

theorem execute_restores_positions:
  assumes "Executor_execute td now now' clk bc sellFirst opp e = Some (e', r)"
  shows "ex_positions e' = map_option (\<lambda>pm. case ao_ExpectedProfit opp of
      Some profit \<Rightarrow> if er_Success r then RecordProfit profit pm else pm | None \<Rightarrow> pm) (ex_positions e) \<and>
    (er_Success r \<longleftrightarrow> er_Error r = None) \<and> ex_totalExecuted e' = ex_totalExecuted e + 1 \<and>
    ex_totalSuccess e' = ex_totalSuccess e + (if er_Success r then 1 else 0) \<and>
    ex_totalFailed e' = ex_totalFailed e + (if er_Success r then 0 else 1) \<and>
    ex_detector e' = map_option (MarkCompleted (ao_ID opp) (er_Success r)) (ex_detector e) \<and> ex_queue e' = ex_queue e"
proof -
  define result where "result = \<lparr>er_Opportunity = opp, er_Success = False, er_TxHashes = Map.empty, er_ActualProfit = None, er_Error = None,
            er_ExecutedAt = now, er_Latency = 0\<rparr>"
  define e0 where "e0 = e\<lparr>ex_totalExecuted := ex_totalExecuted e + 1\<rparr>"
  obtain e1 r1 err where fin: "(e', r) = finish_execution now now' opp (e1, r1, err)"
    and led: "ledger e1 = ledger e0 \<and> er_ActualProfit r1 = (if err = None then ao_ExpectedProfit opp else None)"
  proof (cases "ao_IsCrossChain opp")
    case True
    then obtain x where x: "executeCrossChain td clk bc sellFirst opp result e0 = Some x" "(e', r) = finish_execution now now' opp x"
      using assms by (auto simp: Executor_execute_def Let_def result_def e0_def)
    obtain e1 r1 err where "x = (e1, r1, err)"
      by (cases x)
    then show ?thesis
      using x that [of e1 r1 err] executeCrossChain_ledger [of td clk bc sellFirst opp result e0 e1 r1 err] by (simp add: result_def)
  next
    case False
    then obtain x where x: "executeSameChain td clk bc opp result e0 = Some x" "(e', r) = finish_execution now now' opp x"
      using assms by (auto simp: Executor_execute_def Let_def result_def e0_def)
    obtain e1 r1 err where "x = (e1, r1, err)"
      by (cases x)
    then show ?thesis
      using x that [of e1 r1 err] executeSameChain_ledger [of td clk bc opp result e0 e1 r1 err] by (simp add: result_def)
  qed
  show ?thesis
    using fin led
    by (cases "err = None"; cases "ao_ExpectedProfit opp"; cases "ex_positions e") (auto simp: Let_def ledger_eq on_positions_def e0_def)
qed

definition demo_trading :: "(int, bytes, bytes) trading" where
  "demo_trading = \<lparr>td_fl = demo_float, td_big_scale = (\<lambda>x f. Some x), td_ec = demo_common, td_tt = demo_signer, td_key = []\<rparr>"

definition demo_step :: PathStep where
  "demo_step = \<lparr>st_ChainID = 1, st_DEX = ''uniswap_v2'', st_Pool = [], st_TokenIn = [7], st_TokenOut = [8]\<rparr>"

definition demo_opp :: ArbitrageOpportunity where
  "demo_opp = \<lparr>ao_ID = zero32, ao_Type = 0, ao_Path = [demo_step, demo_step], ao_BuyChain = 1, ao_SellChain = 1, ao_IsCrossChain = False,
     ao_InputAmount = Some 60, ao_ExpectedProfit = Some 5, ao_DetectedAt = 0\<rparr>"

definition demo_executor :: "int Executor" where
  "demo_executor = (NewExecutor demo_crypto (Some demo_positions) None [] None)\<lparr>ex_preSignedCache := None, ex_running := True\<rparr>"

lemma demo_executeStep:
  assumes "ex_preSignedCache e = None"
  shows "\<exists>e'. executeStep demo_common demo_signer [] clk (\<lambda>_ _ _. Inr zero32) demo_step 60 e = Some (e', Inr zero32) \<and> ex_preSignedCache e' = None"
proof -
  have "\<exists>data. swap_data 60 = Some data"
    using length_big_bytes [of 60 32] by (simp add: swap_data_def Let_def)
  then show ?thesis
    using assms by (auto simp: executeStep_def send_presigned_def demo_step_def buildSwapTx_def RouterAddresses_def ChainIDEthereum_def
      executor_dex_type_def nextNonce_def signTx_def demo_signer_def)
qed

lemma demo_execute:
  "\<exists>e' r. Executor_execute demo_trading 0 1 (\<lambda>_ _. 0) (\<lambda>_ _ _ _. Inr zero32) False demo_opp demo_executor = Some (e', r) \<and> er_Success r"
proof -
  let ?e0 = "demo_executor\<lparr>ex_totalExecuted := ex_totalExecuted demo_executor + 1\<rparr>"
  obtain pm' where lock: "PositionManager_Lock 1 [7] 60 demo_positions = (pm', None)"
    using demo_entry [of 1 "[7]"] by (auto simp: PositionManager_Lock_def getPositionUnsafe_def GetPosition_def)
  let ?e1 = "?e0\<lparr>ex_positions := Some pm'\<rparr>"
  have "ex_preSignedCache ?e1 = None"
    by (simp add: demo_executor_def)
  then obtain e2 e3 where "executeStep demo_common demo_signer [] (\<lambda>_. 0) (\<lambda>_ _ _. Inr zero32) demo_step 60 ?e1 = Some (e2, Inr zero32)"
      "executeStep demo_common demo_signer [] (\<lambda>_. 0) (\<lambda>_ _ _. Inr zero32) demo_step 60 e2 = Some (e3, Inr zero32)"
    using demo_executeStep by blast
  then show ?thesis
    using lock
    by (simp add: Executor_execute_def executeSameChain_def demo_opp_def input_amount_def demo_trading_def lock_position_def demo_executor_def
        NewExecutor_def Let_def demo_step_def)
qed

theorem execute_restores_positions_witness:
  "\<exists>e' r. Executor_execute demo_trading 0 1 (\<lambda>_ _. 0) (\<lambda>_ _ _ _. Inr zero32) False demo_opp demo_executor = Some (e', r) \<and>
    er_Success r \<and> ex_positions e' = Some (RecordProfit 5 demo_positions)"
proof -
  obtain e' r where run: "Executor_execute demo_trading 0 1 (\<lambda>_ _. 0) (\<lambda>_ _ _ _. Inr zero32) False demo_opp demo_executor = Some (e', r)" "er_Success r"
    using demo_execute by blast
  then have "ex_positions e' = Some (RecordProfit 5 demo_positions)"
    using execute_restores_positions [OF run(1)] by (simp add: demo_opp_def demo_executor_def NewExecutor_def)
  then show ?thesis
    using run by blast
qed

end
