(* ===== verification/Spec2Isabelle.thy ===== *)
theory Spec2Isabelle
  imports Rights Consent Delegation Rotation Recovery Hardware_Gate Stateless Fork_State Layers Disclosure
    Content_Protocol Revenue_Pool Storage_Challenge Website Opportunity_Queue Pool_Registry Trade_Executor
begin

text \<open>
  \<^bold>\<open>What is verified.\<close> zeam is a peer-to-peer node written in Go. Its packages and how they
  interact: \<open>identity\<close> keeps who may do what (rights, consents, delegations, keys and their
  recovery, disclosure, memory layers, hardware gates, the fork state recorded on chain);
  \<open>content\<close> stores data in blocks addressed by their hash and exchanges them between nodes;
  \<open>rewards\<close> credits nodes for what they store, challenges them, and computes what an epoch pays,
  which the contract in \<open>contracts\<close> pays out; \<open>arb\<close> watches pending transactions and new pools,
  decodes what they call, queues the opportunities it finds and executes them from the positions it
  holds. This development models the first four packages and the decoding, discovery, queueing and
  execution of \<open>arb\<close>, and proves what makes them correct.

  \<^bold>\<open>Conventions.\<close> A Go struct is a record with the source's field names behind a short prefix, a
  method a function from the receiver's state to its new state and result; a pointer receiver
  becomes an argument that is returned updated. Errors are values of \<open>go_error\<close>: \<open>Errorf\<close> and
  \<open>Wrapped\<close> for returned errors, \<open>Panic\<close> for a run-time panic. \<open>int\<close> and \<open>int64\<close> are integers
  wrapped by \<open>wrap64\<close> where they may overflow, \<open>uint64\<close> is a word of 64 bits, \<open>big.Int\<close> an
  integer, a byte slice a list of bytes, or an option of one where nil differs from empty. Where
  the code slices past the length of what it was given, a slice has its capacity and the memory
  behind it (\<open>go_slice\<close>), and an operation whose only failure is a panic returns \<open>None\<close> for it. Every
  reading of the clock is an argument. The order in which a map is ranged over is an argument
  wherever it can be observed. A method that takes the lock is one step. A recursion that the
  code does not bound is a \<open>partial_function\<close> whose value \<open>None\<close> means that it never returns;
  theorems say where it returns. There is no fuel.

  \<^bold>\<open>Parameters.\<close> \<open>crypto\<close> (Keccak-256, SHA-256 and secp256k1 of go-ethereum and the standard
  library), \<open>p256\<close>, \<open>kdf\<close>, the JSON reader \<open>codec\<close>, the archive reader, the \<open>network\<close>, the JSON-RPC client and the
  arithmetic of \<open>float64\<close> are arguments. What is assumed of them is stated where it is used:
  that signatures recover their signer and bind what they sign, that a hash has 32 bytes, that it
  does not collide on a named finite set. Each theorem with such a hypothesis is applied to a
  concrete instance.

  \<^bold>\<open>Theories.\<close>
  \<^item> \<open>Zeam_Prelude\<close>: bytes, big-endian numbers, hex, wrapping integers, Go maps of slices, and the
    locale \<open>id_index\<close> of a table of objects with an index by key; runs of steps that record what
    each step issues (\<open>issuing_run\<close>).
  \<^item> \<open>Go_Json\<close>, \<open>Signed_Document\<close>: the JSON the code signs, and the locales \<open>signed_document\<close> and
    \<open>marshalled_document\<close> that every signed type interprets.
  \<^item> \<open>Rights\<close> (\<open>identity/rights.go\<close>), \<open>Consent\<close> (\<open>consent.go\<close>), \<open>Delegation\<close>
    (\<open>delegation.go\<close>): the managers as state machines that accept every call, fresh identifiers
    or not; only authorised uses, bounded uses, revocation of whole subtrees, linked chains, rate
    limits. A run lists the identifiers it issued; what holds only while none is issued twice says so.
  \<^item> \<open>Rotation\<close> (\<open>rotation.go\<close>), \<open>Recovery\<close> (\<open>recovery.go\<close>), \<open>Fork_State\<close> (\<open>fork_state.go\<close>): the
    history of keys verifies after every run, recovery needs its quorum or its time lock, and a
    transition of the fork state its authorised sender.
  \<^item> \<open>Hardware_Gate\<close> (\<open>hardware_gate.go\<close>), \<open>Stateless\<close> (\<open>stateless.go\<close>): attestations verify,
    derived identities are reproducible, locked sessions stay locked.
  \<^item> \<open>Layers\<close> (\<open>layers.go\<close>), \<open>Disclosure\<close> (\<open>disclosure.go\<close>): inherited privacy rules; Merkle proofs
    of membership verify and bind.
  \<^item> \<open>Content_Store\<close> (\<open>content/store.go\<close>, \<open>dag.go\<close>): the locale \<open>block_store\<close> of what the DAG
    needs of a store; the block codec is a bijection, added content is read back, reading ends.
  \<^item> \<open>Providers\<close> (\<open>providers.go\<close>): the locale \<open>lease_table\<close> and the registry as its instance.
  \<^item> \<open>Content_Protocol\<close> (\<open>protocol.go\<close>): announcements and chunk transfer, fetching from honest and
    from lying providers.
  \<^item> \<open>Website\<close> (\<open>website.go\<close>): paths, content types, publishing an archive and serving its files.
  \<^item> \<open>Reward_Merkle\<close> (\<open>rewards/epoch.go\<close>, \<open>contracts/RevenuePool.sol\<close>): the proof computed in Go
    is the one the contract accepts, and it accepts no other claim.
  \<^item> \<open>Revenue_Pool\<close> (\<open>contracts/RevenuePool.sol\<close>, \<open>rewards/pool.go\<close>): the contract as a state
    machine that refines an escrow, payment by payment, for an operator who finalizes the
    computed roots; its solvency, the client's calldata.
  \<^item> \<open>Reward_Epoch\<close> (\<open>types.go\<close>, \<open>curves.go\<close>, \<open>epoch.go\<close>, \<open>tracker.go\<close>): scores, cap, epochs.
  \<^item> \<open>Storage_Challenge\<close> (\<open>challenge.go\<close>): challenges decide who holds a chunk.
  \<^item> \<open>Go_Heap\<close>: the functions of \<open>container/heap\<close> over any \<open>heap.Interface\<close>, which is the locale
    \<open>heap_interface\<close>; \<open>Opportunity_Queue\<close> (\<open>arb/opportunity_queue.go\<close>) interprets it on the heap of
    pointers that record their own position: no sequence of calls panics or exceeds the limits, and
    what is dequeued is the best of what has not expired.
  \<^item> \<open>Go_Slice\<close>, \<open>Mempool_Parser\<close> (\<open>arb/mempool_parser.go\<close>), \<open>Calldata_Parser\<close>
    (\<open>arb/discovery/calldata_parser.go\<close>): which calls of routers and factories are recognised with
    their arguments, which are misread and which make the parser panic.
  \<^item> \<open>Pool_Registry\<close> (\<open>arb/discovery/factory.go\<close>, \<open>pool_registry.go\<close>): creation events and the
    registry of pools with its indexes by token, pair and protocol.
  \<^item> \<open>Position_Manager\<close> (\<open>arb/positions.go\<close>), \<open>Presigned_Cache\<close> (\<open>arb/presigned.go\<close>), \<open>Trade_Executor\<close>
    (\<open>arb/executor.go\<close>): locked and available balances, the rebalancing plan, transactions signed ahead
    with their nonces, and the execution of an opportunity over them.
  \<^item> This theory: properties that span components.

  \<^bold>\<open>Not modelled.\<close> Goroutines, tickers, deadlines and data races (the executor's counters are
  taken as incremented by one worker at a time); printing; the panic of \<open>SetFloat64\<close> on a NaN;
  the network and disk below the interfaces named above. Key files and passkeys (\<open>identity.go\<close>, \<open>passkey.go\<close>,
  \<open>stateless_bridge.go\<close>) are file system and cipher calls. The registry contract is
  read by the updater only. The strategies, routes and flash loans of
  \<open>arb\<close> price pools over live RPC; \<open>node\<close> is peer-to-peer transports on libraries outside the
  repository; \<open>quantum\<close>, \<open>ngac\<close>, \<open>synthesis\<close>, \<open>grammar\<close>, \<open>memory\<close>, \<open>attention\<close>, \<open>embed\<close> and
  \<open>pong\<close> generate and score text in floating point; \<open>cmd\<close>, the updater and the interface compose the
  rest.
\<close>

section \<open>Publishing and fetching\<close>

text \<open>
  C6: published content is available: a node that has added contents to its store and announces one
  of them serves it to every node that receives the announcement from it. Such a node, whatever its
  registry and its store hold already, fetches exactly the data that was added before the
  announcement expires, as long as the other providers it lists at that moment and its own store
  hold no wrong block under the digests of the content, no block exceeds the wire limit of 4 MiB
  and SHA-256 does not collide on the blocks added.
\<close>

theorem published_content_fetched:
  assumes "\<And>x. length (Sha256 cr x) = 32" and "b = NewDAGBuilder chunkSize"
    and "inj_on (Sha256 cr) (\<Union>c\<in>set published. set (dag_blocks cr (db_chunkSize b) c))"
    and "data \<in> set published" and "data \<noteq> []" and "length data \<le> maxAlloc"
    and "\<forall>x\<in>set (dag_blocks cr (db_chunkSize b) data). length x \<le> maxWireChunkSize"
    and "snd (DAGBuilder_Add cr b data s0) = Inr root"
    and "Announce (Some (\<lambda>m. if m = msg then None else Some io_error)) root sz = None"
    and "publisher \<noteq> reader" and "time_sub now t < pg_ttl pr"
    and "net publisher = Inr (\<lambda>request. Inr (handleStream (add_all cr b published s1) request))"
    and "\<forall>r\<in>set (ProviderRegistry_Get now root pr). pr_PeerID r \<noteq> publisher \<longrightarrow>
      serves (Some net) (pr_PeerID r) (stores (pr_PeerID r)) \<and>
      agrees cr (set (dag_blocks cr (db_chunkSize b) data)) (stores (pr_PeerID r))"
    and "agrees cr (set (dag_blocks cr (db_chunkSize b) data)) s"
  shows "\<exists>s'. FetchContent (Some net) now root (listenAnnouncements (Some reader) t publisher msg pr) s = Some (s', Inr data)"
proof -
  let ?n = "db_chunkSize b" and ?store = "add_all cr b published s1"
  have root: "root = dag_root cr ?n data"
    using assms(5,8) by (simp add: Add_fold)
  then have "length root = 32"
    by (simp add: dag_root_def assms(1))
  moreover have "msg = ContentAnnounce_encode \<lparr>ca_Root = root, ca_Size = sz, ca_PeerID = []\<rparr>"
    using assms(9) by (simp add: Announce_def split: if_splits)
  ultimately have pr: "listenAnnouncements (Some reader) t publisher msg pr = ProviderRegistry_Add t root publisher sz pr"
    using decode_encode_announce [of "\<lparr>ca_Root = root, ca_Size = sz, ca_PeerID = []\<rparr>" "[]"] assms(10)
    by (simp add: listenAnnouncements_def)
  have held: "holds_blocks cr ?store (set (dag_blocks cr ?n data))"
    by (rule add_all_holds [OF assms(3,4)])
  then have "agrees cr (set (dag_blocks cr ?n data)) ?store"
    by (simp add: agrees_def holds_blocks_def)
  moreover have "serves (Some net) publisher ?store"
    by (simp add: serves_def assms(12))
  moreover obtain r where "r \<in> set (ProviderRegistry_Get now root (ProviderRegistry_Add t root publisher sz pr))" "pr_PeerID r = publisher"
    using Get_Add_announced [OF assms(11), of publisher root sz] by (auto simp: image_iff)
  ultimately have "offered cr (Some net) (stores(publisher := ?store)) (set (dag_blocks cr ?n data))
      (ProviderRegistry_Get now root (ProviderRegistry_Add t root publisher sz pr))"
    using assms(7,13) held Get_Add_others [of _ now root t publisher sz pr]
    by (fastforce simp: offered_def holds_blocks_def)
  then show ?thesis
    unfolding pr root using FetchContent_correct [OF assms(1) _ assms(5,6,14)] assms(2) by blast
qed

definition shared_registry :: ProviderRegistry where
  "shared_registry = ProviderRegistry_Add 3 (dag_root demo_sha 2 demo_content) ''c'' 3 (NewProviderRegistry 100)"

definition shared_net :: network where
  "shared_net p = (if p = ''c'' then Inr (\<lambda>request. Inr (handleStream (NewStore []) request)) else demo_net p)"

theorem published_content_fetched_witness:
  "\<exists>root msg s'. FetchContent (Some shared_net) 10 root (listenAnnouncements (Some ''b'') 5 ''a'' msg shared_registry) (NewStore []) =
    Some (s', Inr demo_content)"
proof -
  let ?root = "dag_root demo_sha 2 demo_content"
  let ?msg = "ContentAnnounce_encode \<lparr>ca_Root = ?root, ca_Size = 3, ca_PeerID = []\<rparr>"
  have "\<exists>s'. FetchContent (Some shared_net) 10 ?root (listenAnnouncements (Some ''b'') 5 ''a'' ?msg shared_registry) (NewStore []) =
      Some (s', Inr demo_content)"
  proof (rule published_content_fetched [where b = "NewDAGBuilder 2" and published = "[demo_content]" and chunkSize = 2 and cr = demo_sha
        and sz = 3 and data = demo_content and stores = "\<lambda>_. NewStore []" and ?s0.0 = "NewStore []" and ?s1.0 = "NewStore []"])
    show "snd (DAGBuilder_Add demo_sha (NewDAGBuilder 2) demo_content (NewStore [])) = Inr ?root"
      by (simp add: Add_fold demo_builder) (simp add: demo_content_def)
    show "shared_net ''a'' = Inr (\<lambda>request. Inr (handleStream (add_all demo_sha (NewDAGBuilder 2) [demo_content] (NewStore [])) request))"
      by (simp add: shared_net_def demo_net_def demo_peer_def)
    show "demo_content \<noteq> []" "length demo_content \<le> maxAlloc"
      by (simp_all add: demo_content_def maxAlloc_def)
    show "\<forall>r\<in>set (ProviderRegistry_Get 10 ?root shared_registry). pr_PeerID r \<noteq> ''a'' \<longrightarrow>
        serves (Some shared_net) (pr_PeerID r) (NewStore []) \<and>
        agrees demo_sha (set (dag_blocks demo_sha (db_chunkSize (NewDAGBuilder 2)) demo_content)) (NewStore [])"
      by (auto simp: shared_registry_def ProviderRegistry_Get_def slot_Add NewProviderRegistry_def serves_def shared_net_def
          agrees_def NewStore_def Store_Get_def)
  qed (use demo_blocks_inj demo_block_sizes in
      \<open>simp_all add: demo_sha_length demo_builder Announce_def time_sub_def shared_registry_def NewProviderRegistry_def agrees_def NewStore_def Store_Get_def\<close>)
  then show ?thesis
    by blast
qed

section \<open>Announcements and rewards\<close>

text \<open>
  Storage is credited as announced: when the only announcement a node has heard is one by a peer
  with a registered address, the tracker credits that peer with exactly the size the announcement
  claims, whatever the content is and whether or not the peer stores it.
\<close>

theorem announced_bytes_credited:
  assumes "length root = 32" and "peer \<noteq> self" and "0 < ttl" and "time_sub now t < ttl"
    and "addresses peer = Some address"
    and "msg = ContentAnnounce_encode \<lparr>ca_Root = root, ca_Size = sz, ca_PeerID = []\<rparr>"
    and "pr = listenAnnouncements (Some self) t peer msg (NewProviderRegistry ttl)"
  shows "\<exists>c. em_contributors (updateStats fl clock addresses (Some (ProviderRegistry_All now pr)) [root] [peer] em) peer = Some c \<and>
    sc_BytesStored c = sz \<and> sc_Address c = address"
proof -
  have pr: "pr = ProviderRegistry_Add t root peer sz (NewProviderRegistry ttl)"
    using decode_encode_announce [of "\<lparr>ca_Root = root, ca_Size = sz, ca_PeerID = []\<rparr>" "[]"] assms(1,2)
    by (simp add: assms(6,7) listenAnnouncements_def)
  have "ProviderRegistry_All now pr root = Some [\<lparr>pr_PeerID = peer, pr_Root = root, pr_Size = sz, pr_Announced = t\<rparr>]"
    using assms(4) by (simp add: pr ProviderRegistry_Add_def NewProviderRegistry_def ProviderRegistry_All_def valid_slot_def fresh_def Let_def)
  then have "collect_stats (ProviderRegistry_All now pr) [root] peer = Some (sz, 1)"
    by (simp add: collect_stats_def count_record_def wrap64_def)
  then show ?thesis
    using assms(5) by (simp add: updateStats_def UpdateContributor_def Let_def)
qed

theorem announced_bytes_credited_witness:
  "\<exists>c. em_contributors (updateStats demo_float (\<lambda>_. 0) [''a'' \<mapsto> replicate 20 7] (Some (ProviderRegistry_All 10
       (listenAnnouncements (Some ''b'') 5 ''a'' (ContentAnnounce_encode \<lparr>ca_Root = zero32, ca_Size = 1000000, ca_PeerID = []\<rparr>) (NewProviderRegistry 100))))
       [zero32] [''a''] demo_em) ''a'' = Some c \<and> sc_BytesStored c = 1000000"
  using announced_bytes_credited [of zero32 "''a''" "''b''" 100 10 5 "[''a'' \<mapsto> replicate 20 7]" "replicate 20 7" _ 1000000, OF _ _ _ _ _ refl refl]
  by (fastforce simp: time_sub_def)

text \<open>
  An epoch without a reward loses its revenue off chain: its root is empty, which the contract
  refuses, while the manager starts the next epoch with no revenue.
\<close>

theorem empty_epoch_drops_revenue:
  assumes "FinalizeEpoch cr fl cfg ap roots t1 t2 t3 order em = (em', snapshot)" and "\<forall>s\<in>set (ep_Contributors snapshot). \<not> cs_RewardWei s > 0"
  shows "em_accumulatedRevenue em' = 0 \<and> ep_TotalRevenue snapshot = em_accumulatedRevenue em \<and>
    pool_finalizeEpoch (rp_operator p) (ep_MerkleRoot snapshot) (nat (ep_TotalRevenue snapshot)) p = Inl ''empty root''"
proof -
  have "reward_leaves (ep_Contributors snapshot) = []"
    using assms(2) by (simp add: reward_leaves_def)
  then have "ep_MerkleRoot snapshot = zero32"
    using FinalizeEpoch_fields(8) [OF assms(1)] by (simp add: ComputeMerkleRoot_def)
  then show ?thesis
    using FinalizeEpoch_fields(3,4) [OF assms(1)] by (simp add: pool_finalizeEpoch_def)
qed

theorem empty_epoch_drops_revenue_witness:
  "\<exists>em' snapshot. em_accumulatedRevenue em' = 0 \<and> ep_TotalRevenue snapshot = 1000 \<and>
     FinalizeEpoch demo_hash32 demo_float demo_config None (\<lambda>_. []) 0 0 0 [] demo_em = (em', snapshot) \<and>
     pool_finalizeEpoch [9] (ep_MerkleRoot snapshot) 1000 (pool_constructor [9]) = Inl ''empty root''"
proof -
  obtain em' snapshot where f: "FinalizeEpoch demo_hash32 demo_float demo_config None (\<lambda>_. []) 0 0 0 [] demo_em = (em', snapshot)"
    by fastforce
  have "ep_Contributors snapshot = []"
    using FinalizeEpoch_fields(6) [OF f]
    by (simp add: epoch_scores_def List.map_filter_def ComputeRewards_def ApplyConcentrationCaps_def Let_def)
  moreover have "em_accumulatedRevenue demo_em = 1000" "rp_operator (pool_constructor [9]) = [9]"
    by (simp_all add: demo_em_def frame_updates AddRevenue_def NewEpochManager_def pool_constructor_def)
  ultimately show ?thesis
    using empty_epoch_drops_revenue [OF f, of "pool_constructor [9]"] f by auto
qed

end
